(* ===== verification/Prelude.thy ===== *)
theory Prelude
  imports Main "HOL-Library.Word"
begin

unbundle bit_operations_syntax

text \<open>
  Shared vocabulary of the development: the machine integer types of the C and C++ sources,
  host pointers, the collections of facts the component theories fill, and the generic lemmas on
  words, bits and integers that several components use.

  Conventions.  A C integer type of width w is \<open>w word\<close>.  A C \<open>int\<close> that holds an intermediate
  result of promoted 8- or 16-bit operands stays far inside 32 bits, so it is an \<open>int\<close>; the bitwise
  operators of HOL on negative \<open>int\<close> are those of two's complement, as in the code.
\<close>

section \<open>Machine types\<close>

type_synonym u8 = "8 word"
type_synonym u16 = "16 word"
type_synonym u32 = "32 word"
type_synonym u64 = "64 word"

text \<open>The integer conversions of the code: zero extension, truncation, and the cast through
  \<open>int8_t\<close> that reads a displacement byte.\<close>

abbreviation c_uint16 :: "u8 \<Rightarrow> u16" where "c_uint16 \<equiv> ucast"
abbreviation c_uint8 :: "u16 \<Rightarrow> u8" where "c_uint8 \<equiv> ucast"
abbreviation c_int8 :: "u8 \<Rightarrow> u16" where "c_int8 \<equiv> scast"

text \<open>
  A host pointer is an allocation and a byte offset in it, so that \<open>m_ram + 0x4000\<close> and
  \<open>m_ram\<close> are offsets of one allocation and two RAM banks are different allocations.  A null
  pointer is \<open>None\<close> of the option type.
\<close>

type_synonym ptr = "nat \<times> nat"

definition ptr_add :: "ptr \<Rightarrow> nat \<Rightarrow> ptr" where
  "ptr_add p n = (fst p, snd p + n)"

lemma ptr_add_eq_iff [simp]: "ptr_add p m = ptr_add p n \<longleftrightarrow> m = n"
  by (simp add: ptr_add_def)

section \<open>Collections\<close>

named_theorems frame \<open>fields an operation leaves alone\<close>
named_theorems flag_defs \<open>the flag masks and the flag predicates\<close>

section \<open>Small numbers\<close>

lemma less_2_cases: "n < (2::nat) \<longleftrightarrow> n = 0 \<or> n = 1"
  by arith

lemma less_3_cases: "n < (3::nat) \<longleftrightarrow> n = 0 \<or> n = 1 \<or> n = 2"
  by arith

section \<open>Bits of integers and words\<close>

lemma and_bit_ne_0_iff:
  fixes x :: int
  shows "x AND 2 ^ n \<noteq> 0 \<longleftrightarrow> odd (x div 2 ^ n)"
proof -
  have "x AND 2 ^ n = (if bit x n then 2 ^ n else 0)"
    by (rule bit_eqI) (auto simp: bit_simps)
  then show ?thesis by (simp add: bit_iff_odd)
qed

lemma and_0x100_ne_0: "(x::int) AND 0x100 \<noteq> 0 \<longleftrightarrow> odd (x div 256)"
  using and_bit_ne_0_iff [of x 8] by simp

lemma and_0x80_ne_0: "(x::int) AND 0x80 \<noteq> 0 \<longleftrightarrow> odd (x div 128)"
  using and_bit_ne_0_iff [of x 7] by simp

lemma and_0x10_ne_0: "(x::int) AND 0x10 \<noteq> 0 \<longleftrightarrow> odd (x div 16)"
  using and_bit_ne_0_iff [of x 4] by simp

lemma and_0x1000_ne_0: "(x::int) AND 0x1000 \<noteq> 0 \<longleftrightarrow> odd (x div 4096)"
  using and_bit_ne_0_iff [of x 12] by simp

lemma and_0x8000_ne_0: "(x::int) AND 0x8000 \<noteq> 0 \<longleftrightarrow> odd (x div 32768)"
  using and_bit_ne_0_iff [of x 15] by simp

lemma and_0x10000_ne_0: "(x::int) AND 0x10000 \<noteq> 0 \<longleftrightarrow> odd (x div 65536)"
  using and_bit_ne_0_iff [of x 16] by simp

lemmas int_bit_tests =
  and_0x100_ne_0 and_0x80_ne_0 and_0x10_ne_0 and_0x1000_ne_0 and_0x8000_ne_0 and_0x10000_ne_0

lemma and_0xF: "(x::int) AND 0xF = x mod 16"
  using take_bit_eq_mask [of 4 x] by (simp add: take_bit_eq_mod mask_eq_exp_minus_1)

lemma and_0xFFF: "(x::int) AND 0xFFF = x mod 4096"
  using take_bit_eq_mask [of 12 x] by (simp add: take_bit_eq_mod mask_eq_exp_minus_1)

lemma and_0xFF: "(x::int) AND 0xFF = x mod 256"
  using take_bit_eq_mask [of 8 x] by (simp add: take_bit_eq_mod mask_eq_exp_minus_1)

lemma and_0xFFFF: "(x::int) AND 0xFFFF = x mod 65536"
  using take_bit_eq_mask [of 16 x] by (simp add: take_bit_eq_mod mask_eq_exp_minus_1)

lemmas int_masks = and_0xF and_0xFFF and_0xFF and_0xFFFF

lemma bit_0xFF_iff [simp]: "bit (255 :: u16) n \<longleftrightarrow> n < 8"
proof -
  have eq: "(255 :: u16) = mask 8" by (simp add: mask_eq_exp_minus_1)
  show ?thesis unfolding eq by (simp only: bit_mask_iff possible_bit_word) auto
qed

lemma bit_0xFF8_iff [simp]: "bit (255 :: u8) n \<longleftrightarrow> n < 8"
proof -
  have eq: "(255 :: u8) = mask 8" by (simp add: mask_eq_exp_minus_1)
  show ?thesis unfolding eq by (simp only: bit_mask_iff possible_bit_word) auto
qed

lemma bit_0x3FFF_iff [simp]: "bit (0x3FFF :: u16) n \<longleftrightarrow> n < 14"
proof -
  have eq: "(0x3FFF :: u16) = mask 14" by (simp add: mask_eq_exp_minus_1)
  show ?thesis unfolding eq by (simp only: bit_mask_iff possible_bit_word) auto
qed

lemma c_uint8_and_0xFF [simp]: "c_uint8 (v AND 0xFF) = c_uint8 v"
  by (rule bit_word_eqI) (simp only: bit_ucast_iff bit_and_iff bit_0xFF_iff, auto)

lemma uint8_bounds: "0 \<le> uint (v :: u8) \<and> uint v \<le> 255"
  using uint_bounded [of v] by simp

lemma uint16_bounds: "0 \<le> uint (v :: u16) \<and> uint v \<le> 65535"
  using uint_bounded [of v] by simp

lemma uint_c_uint16 [simp]: "uint (c_uint16 v) = uint v"
  using uint8_bounds [of v] by (simp add: unsigned_ucast_eq take_bit_int_eq_self)

lemma unat8_bound: "unat (v :: u8) < 256"
  by (rule order_less_le_trans [OF unsigned_less]) simp

lemma unat16_bound: "unat (v :: u16) < 65536"
  by (rule order_less_le_trans [OF unsigned_less]) simp

lemma word8_all_nat: "(\<And>n. n < 256 \<Longrightarrow> P (of_nat n)) \<Longrightarrow> P (v :: u8)"
  using unat8_bound [of v] by (metis of_nat_unat ucast_id)

text \<open>Reading a byte as two's complement.\<close>

lemma bit7_iff: "bit (v :: u8) 7 \<longleftrightarrow> 128 \<le> uint v"
proof -
  have "bit v 7 \<longleftrightarrow> odd (uint v div 128)"
    using bit_uint_iff [of v 7] bit_iff_odd [of "uint v" 7] by simp
  moreover have "uint v div 128 = (if 128 \<le> uint v then 1 else 0)"
    using uint8_bounds [of v] by simp linarith
  ultimately show ?thesis by simp
qed

lemma bit15_iff: "bit (v :: u16) 15 \<longleftrightarrow> 32768 \<le> uint v"
proof -
  have "bit v 15 \<longleftrightarrow> odd (uint v div 32768)"
    using bit_uint_iff [of v 15] bit_iff_odd [of "uint v" 15] by simp
  moreover have "uint v div 32768 = (if 32768 \<le> uint v then 1 else 0)"
    using uint16_bounds [of v] by simp linarith
  ultimately show ?thesis by simp
qed

lemma sint8_eq: "sint (v :: u8) = (if uint v < 128 then uint v else uint v - 256)"
proof -
  have "sint v = signed_take_bit 7 (uint v)" by (simp add: sint_uint)
  also have "\<dots> = uint v - (if bit (uint v) 7 then 256 else 0)"
    using uint8_bounds [of v]
    by (simp add: signed_take_bit_eq_take_bit_minus take_bit_int_eq_self)
  finally show ?thesis using bit7_iff [of v] by (simp add: bit_uint_iff)
qed

lemma sint16_eq: "sint (v :: u16) = (if uint v < 32768 then uint v else uint v - 65536)"
proof -
  have "sint v = signed_take_bit 15 (uint v)" by (simp add: sint_uint)
  also have "\<dots> = uint v - (if bit (uint v) 15 then 65536 else 0)"
    using uint16_bounds [of v]
    by (simp add: signed_take_bit_eq_take_bit_minus take_bit_int_eq_self)
  finally show ?thesis using bit15_iff [of v] by (simp add: bit_uint_iff)
qed

text \<open>The seven counting bits of a byte whose bit 7 stays: stepping back undoes a step.\<close>

lemma and_7F: "(v :: u8) AND 0x7F = take_bit 7 v"
  by (simp add: take_bit_eq_mask mask_eq_exp_minus_1)

lemma bit_0x80_iff [simp]: "bit (0x80 :: u8) n \<longleftrightarrow> n = 7"
proof -
  have c: "(0x80 :: u8) = 2 ^ 7" by simp
  show ?thesis unfolding c by (simp only: bit_exp_iff possible_bit_word) auto
qed

lemma step_low_bits:
  fixes v w :: u8
  assumes "take_bit 7 w = take_bit 7 (v + 1)"
  shows "take_bit 7 (w - 1) = take_bit 7 v"
proof -
  have u: "uint (take_bit 7 x) = uint x mod 128" for x :: u8
    by (simp only: unsigned_take_bit_eq) (simp add: take_bit_eq_mod)
  have "uint w mod 128 = (uint v + 1) mod 128"
    using arg_cong [OF assms, of uint] unfolding u by (simp add: uint_word_ariths mod_mod_cancel)
  then have "(uint w - 1) mod 128 = uint v mod 128"
    using mod_diff_cong [of "uint w" 128 "uint v + 1" 1 1] by simp
  then have "uint (take_bit 7 (w - 1)) = uint (take_bit 7 v)"
    unfolding u by (simp add: uint_word_ariths mod_mod_cancel)
  then show ?thesis by (simp only: uint_word_of_int_eq word_uint_eq_iff)
qed

lemma dec_inc_low7:
  fixes v :: u8
  defines "w \<equiv> (v AND 0x80) OR ((v + 1) AND 0x7F)"
  shows "(w AND 0x80) OR ((w - 1) AND 0x7F) = v"
proof -
  have "take_bit 7 w = take_bit 7 (v + 1)"
    unfolding w_def and_7F by (rule bit_word_eqI) (simp only: bit_or_iff bit_and_iff bit_take_bit_iff bit_0x80_iff, auto)
  then have "(w - 1) AND 0x7F = take_bit 7 v"
    unfolding and_7F by (rule step_low_bits)
  moreover have "w AND 0x80 = v AND 0x80"
    unfolding w_def and_7F
    by (rule bit_word_eqI) (simp only: bit_or_iff bit_and_iff bit_take_bit_iff bit_0x80_iff, auto)
  moreover have "(v AND 0x80) OR take_bit 7 v = v"
    by (rule bit_word_eqI) (simp only: bit_or_iff bit_and_iff bit_take_bit_iff bit_0x80_iff, auto)
  ultimately show ?thesis by simp
qed

section \<open>Carries, borrows and signed overflow\<close>

text \<open>
  What the bit tests of the arithmetic code decide: bit k of a sum of two k-bit numbers is its carry,
  bit k of a difference its borrow, and the exclusive-or formulas detect that the exact signed result
  does not fit.
\<close>

lemma int_div_eqI: "q * m \<le> x \<Longrightarrow> x < q * m + m \<Longrightarrow> x div m = (q::int)"
  by (rule int_div_pos_eq [where r = "x - q * m"]) (auto simp: mult.commute)

lemma sub_mod_256:
  "0 \<le> x \<Longrightarrow> x \<le> 255 \<Longrightarrow> 0 \<le> y \<Longrightarrow> y \<le> 255 \<Longrightarrow> (x - y) mod 256 = (if x < y then x - y + 256 else x - (y::int))"
  using mod_add_self2 [of "x - y" 256] mod_pos_pos_trivial [of "x - y + 256" 256] by auto

text \<open>A number below \<open>2 * m\<close> read as two's complement.\<close>

definition wrap_signed :: "int \<Rightarrow> int \<Rightarrow> int" where
  "wrap_signed m x = (if x < m then x else x - 2 * m)"

lemma and_exp_bit: "(x::int) AND 2 ^ k \<noteq> 0 \<longleftrightarrow> bit x k"
  by (simp add: and_bit_ne_0_iff bit_iff_odd)

lemma add_overflow_bit:
  fixes a v c :: int and k :: nat
  defines "m \<equiv> 2 ^ k"
  assumes "0 \<le> a" "a < 2 * m" "0 \<le> v" "v < 2 * m" "0 \<le> c" "c \<le> 1"
  shows "((a XOR v) XOR 2 ^ k) AND (a XOR (a + v + c)) AND 2 ^ k \<noteq> 0 \<longleftrightarrow>
     \<not> (- m \<le> wrap_signed m a + wrap_signed m v + c \<and> wrap_signed m a + wrap_signed m v + c < m)"
proof -
  have m: "1 \<le> m" by (simp add: m_def)
  have a: "a div m = (if a < m then 0 else 1)" and v: "v div m = (if v < m then 0 else 1)"
    using assms m by (auto intro: int_div_eqI)
  have r: "(a + v + c) div m =
      (if a + v + c < m then 0 else if a + v + c < 2 * m then 1 else if a + v + c < 3 * m then 2 else 3)"
    using assms m by (auto intro!: int_div_eqI)
  have "((a XOR v) XOR 2 ^ k) AND (a XOR (a + v + c)) AND 2 ^ k \<noteq> 0 \<longleftrightarrow>
      (bit a k \<longleftrightarrow> bit v k) \<and> (bit a k \<longleftrightarrow> \<not> bit (a + v + c) k)"
    unfolding and.assoc [symmetric] and_exp_bit bit_and_iff bit_xor_iff by (auto simp: bit_exp_iff)
  then show ?thesis
    using assms m unfolding bit_iff_odd m_def [symmetric] a v r wrap_signed_def
    by (auto split: if_splits)
qed

lemma sub_overflow_bit:
  fixes a v c :: int and k :: nat
  defines "m \<equiv> 2 ^ k"
  assumes "0 \<le> a" "a < 2 * m" "0 \<le> v" "v < 2 * m" "0 \<le> c" "c \<le> 1"
  shows "(a XOR v) AND (a XOR (a - v - c)) AND 2 ^ k \<noteq> 0 \<longleftrightarrow>
     \<not> (- m \<le> wrap_signed m a - wrap_signed m v - c \<and> wrap_signed m a - wrap_signed m v - c < m)"
proof -
  have m: "1 \<le> m" by (simp add: m_def)
  have a: "a div m = (if a < m then 0 else 1)" and v: "v div m = (if v < m then 0 else 1)"
    using assms m by (auto intro: int_div_eqI)
  have r: "(a - v - c) div m =
      (if a - v - c < - m then - 2 else if a - v - c < 0 then - 1 else if a - v - c < m then 0 else 1)"
    using assms m by (auto intro!: int_div_eqI)
  have "(a XOR v) AND (a XOR (a - v - c)) AND 2 ^ k \<noteq> 0 \<longleftrightarrow>
      (bit a k \<longleftrightarrow> \<not> bit v k) \<and> (bit a k \<longleftrightarrow> \<not> bit (a - v - c) k)"
    unfolding and.assoc [symmetric] and_exp_bit bit_and_iff bit_xor_iff by (auto simp: bit_exp_iff)
  then show ?thesis
    using assms m unfolding bit_iff_odd m_def [symmetric] a v r wrap_signed_def
    by (auto split: if_splits)
qed

lemma carry_out_bit:
  fixes r :: int
  assumes "0 \<le> r" "r < 2 * 2 ^ k"
  shows "r AND 2 ^ k \<noteq> 0 \<longleftrightarrow> 2 ^ k \<le> r"
proof -
  have "r div 2 ^ k = (if 2 ^ k \<le> r then 1 else 0)"
    using assms by (auto intro!: int_div_eqI)
  then show ?thesis by (simp add: and_bit_ne_0_iff)
qed

lemma borrow_out_bit:
  fixes r :: int
  assumes "- (2 ^ k) \<le> r" "r < 2 ^ k"
  shows "r AND 2 ^ k \<noteq> 0 \<longleftrightarrow> r < 0"
proof -
  have "r div 2 ^ k = (if r < 0 then - 1 else 0)"
    using assms by (auto intro!: int_div_eqI)
  then show ?thesis by (simp add: and_bit_ne_0_iff)
qed

lemma sint8_wrap: "sint (v :: u8) = wrap_signed 128 (uint v)"
  by (simp add: sint8_eq wrap_signed_def)

lemma sint16_wrap: "sint (v :: u16) = wrap_signed 32768 (uint v)"
  by (simp add: sint16_eq wrap_signed_def)

lemmas alu8_bits =
  add_overflow_bit [where k = 7, simplified] sub_overflow_bit [where k = 7, simplified]
  carry_out_bit [where k = 8, simplified] borrow_out_bit [where k = 8, simplified]
  carry_out_bit [where k = 4, simplified] borrow_out_bit [where k = 4, simplified]

lemmas alu16_bits =
  add_overflow_bit [where k = 15, simplified] sub_overflow_bit [where k = 15, simplified]
  carry_out_bit [where k = 16, simplified] borrow_out_bit [where k = 16, simplified]
  carry_out_bit [where k = 12, simplified] borrow_out_bit [where k = 12, simplified]

end
