(* ===== verification/Z80_State.thy ===== *)
theory Z80_State
  imports Prelude
begin

text \<open>
  The CPU state of \<open>src/src/z80/z80.h\<close> and the access macros of \<open>src/src/z80/z80.c\<close>
  (lines 36 to 92).

  \<^item> \<open>z80\<close> is the struct \<open>Z80\<close>: the register file, the interrupt state, the clock, the cached page
    pointers and the opaque \<open>ctx\<close>.  The field \<open>heap\<close> is the host memory those pointers address;
    two pages that hold the same pointer alias, as in the code.
  \<^item> \<open>bus\<close> holds the four callbacks.  A callback receives \<open>ctx\<close>, from which the host reaches the CPU
    again (the Spectrum embeds it), so it is a function of the whole state.  Reading memory has no
    effect in any callback of the repository; the other three return the new state.
  \<^item> The macros are functions of the bus and the state, with C's order of evaluation.
\<close>

section \<open>State\<close>

record 'c z80 =
  reg_a :: u8
  reg_f :: u8
  reg_b :: u8
  reg_c :: u8
  reg_d :: u8
  reg_e :: u8
  reg_h :: u8
  reg_l :: u8
  alt_a :: u8
  alt_f :: u8
  alt_b :: u8
  alt_c :: u8
  alt_d :: u8
  alt_e :: u8
  alt_h :: u8
  alt_l :: u8
  reg_ix :: u16
  reg_iy :: u16
  reg_sp :: u16
  reg_pc :: u16
  reg_i :: u8
  reg_r :: u8
  iff1 :: u8
  iff2 :: u8
  imode :: u8
  ei_delay :: u8
  halted :: u8
  clocks :: u64
  page_read :: "nat \<Rightarrow> ptr option"
  page_write :: "nat \<Rightarrow> ptr option"
  heap :: "ptr \<Rightarrow> u8"
  ctx :: 'c

record 'c bus =
  mem_read :: "'c z80 \<Rightarrow> u16 \<Rightarrow> u8"
  mem_write :: "'c z80 \<Rightarrow> u16 \<Rightarrow> u8 \<Rightarrow> 'c z80"
  io_read :: "'c z80 \<Rightarrow> u16 \<Rightarrow> u8 \<times> 'c z80"
  io_write :: "'c z80 \<Rightarrow> u16 \<Rightarrow> u8 \<Rightarrow> 'c z80"

text \<open>The flag masks of \<open>z80.h\<close>.\<close>

definition Z80_CF :: u8 where [flag_defs]: "Z80_CF = 0x01"
definition Z80_NF :: u8 where [flag_defs]: "Z80_NF = 0x02"
definition Z80_PF :: u8 where [flag_defs]: "Z80_PF = 0x04"
definition Z80_XF :: u8 where [flag_defs]: "Z80_XF = 0x08"
definition Z80_HF :: u8 where [flag_defs]: "Z80_HF = 0x10"
definition Z80_YF :: u8 where [flag_defs]: "Z80_YF = 0x20"
definition Z80_ZF :: u8 where [flag_defs]: "Z80_ZF = 0x40"
definition Z80_SF :: u8 where [flag_defs]: "Z80_SF = 0x80"

section \<open>Memory access\<close>

text \<open>\<open>_a >> 14\<close> and \<open>_a & 0x3FFF\<close>.\<close>

definition page_of :: "u16 \<Rightarrow> nat" where
  "page_of a = unat (drop_bit 14 a)"

definition page_offset :: "u16 \<Rightarrow> nat" where
  "page_offset a = unat (a AND 0x3FFF)"

definition RB :: "'c bus \<Rightarrow> 'c z80 \<Rightarrow> u16 \<Rightarrow> u8" where
  "RB B s a =
     (case page_read s (page_of a) of
        Some p \<Rightarrow> heap s (ptr_add p (page_offset a))
      | None \<Rightarrow> mem_read B s a)"

definition WB :: "'c bus \<Rightarrow> 'c z80 \<Rightarrow> u16 \<Rightarrow> u8 \<Rightarrow> 'c z80" where
  "WB B s a v =
     (case page_write s (page_of a) of
        Some p \<Rightarrow> s\<lparr>heap := (heap s)(ptr_add p (page_offset a) := v)\<rparr>
      | None \<Rightarrow> mem_write B s a v)"

text \<open>Little-endian 16-bit access.\<close>

definition RW :: "'c bus \<Rightarrow> 'c z80 \<Rightarrow> u16 \<Rightarrow> u16" where
  "RW B s a = c_uint16 (RB B s a) OR push_bit 8 (c_uint16 (RB B s (a + 1)))"

definition WW :: "'c bus \<Rightarrow> 'c z80 \<Rightarrow> u16 \<Rightarrow> u16 \<Rightarrow> 'c z80" where
  "WW B s a v =
     (let s = WB B s a (c_uint8 (v AND 0xFF));
          s = WB B s (a + 1) (c_uint8 (drop_bit 8 v))
      in s)"

text \<open>Port access.\<close>

definition IN :: "'c bus \<Rightarrow> 'c z80 \<Rightarrow> u16 \<Rightarrow> u8 \<times> 'c z80" where
  "IN B s port = io_read B s port"

definition OUT :: "'c bus \<Rightarrow> 'c z80 \<Rightarrow> u16 \<Rightarrow> u8 \<Rightarrow> 'c z80" where
  "OUT B s port v = io_write B s port v"

text \<open>Instruction stream.\<close>

definition FETCH :: "'c bus \<Rightarrow> 'c z80 \<Rightarrow> u8 \<times> 'c z80" where
  "FETCH B s = (let s = s\<lparr>reg_pc := reg_pc s + 1\<rparr> in (RB B s (reg_pc s - 1), s))"

definition FETCH16 :: "'c bus \<Rightarrow> 'c z80 \<Rightarrow> u16 \<times> 'c z80" where
  "FETCH16 B s = (let s = s\<lparr>reg_pc := reg_pc s + 2\<rparr> in (RW B s (reg_pc s - 2), s))"

section \<open>Register pairs\<close>

text \<open>\<open>(uint16_t)((hi << 8) | lo)\<close> and the two halves of a 16-bit value.\<close>

definition pair16 :: "u8 \<Rightarrow> u8 \<Rightarrow> u16" where
  "pair16 hi lo = push_bit 8 (c_uint16 hi) OR c_uint16 lo"

definition hi8 :: "u16 \<Rightarrow> u8" where
  "hi8 v = c_uint8 (drop_bit 8 v)"

definition lo8 :: "u16 \<Rightarrow> u8" where
  "lo8 v = c_uint8 (v AND 0xFF)"

definition BC :: "'c z80 \<Rightarrow> u16" where "BC s = pair16 (reg_b s) (reg_c s)"
definition DE :: "'c z80 \<Rightarrow> u16" where "DE s = pair16 (reg_d s) (reg_e s)"
definition HL :: "'c z80 \<Rightarrow> u16" where "HL s = pair16 (reg_h s) (reg_l s)"
definition AF :: "'c z80 \<Rightarrow> u16" where "AF s = pair16 (reg_a s) (reg_f s)"

definition SET_BC :: "'c z80 \<Rightarrow> u16 \<Rightarrow> 'c z80" where
  "SET_BC s v = s\<lparr>reg_b := hi8 v, reg_c := lo8 v\<rparr>"
definition SET_DE :: "'c z80 \<Rightarrow> u16 \<Rightarrow> 'c z80" where
  "SET_DE s v = s\<lparr>reg_d := hi8 v, reg_e := lo8 v\<rparr>"
definition SET_HL :: "'c z80 \<Rightarrow> u16 \<Rightarrow> 'c z80" where
  "SET_HL s v = s\<lparr>reg_h := hi8 v, reg_l := lo8 v\<rparr>"
definition SET_AF :: "'c z80 \<Rightarrow> u16 \<Rightarrow> 'c z80" where
  "SET_AF s v = s\<lparr>reg_a := hi8 v, reg_f := lo8 v\<rparr>"

text \<open>The stack grows downwards; the pointer moves before the value is written.\<close>

definition PUSH :: "'c bus \<Rightarrow> 'c z80 \<Rightarrow> u16 \<Rightarrow> 'c z80" where
  "PUSH B s v = (let s = s\<lparr>reg_sp := reg_sp s - 2\<rparr> in WW B s (reg_sp s) v)"

definition POP :: "'c bus \<Rightarrow> 'c z80 \<Rightarrow> u16 \<times> 'c z80" where
  "POP B s = (let s = s\<lparr>reg_sp := reg_sp s + 2\<rparr> in (RW B s (reg_sp s - 2), s))"

text \<open>The refresh counter: the low seven bits count, bit 7 stays.\<close>

definition INC_R :: "'c z80 \<Rightarrow> 'c z80" where
  "INC_R s = s\<lparr>reg_r := (reg_r s AND 0x80) OR ((reg_r s + 1) AND 0x7F)\<rparr>"

section \<open>Facts\<close>

lemma lo8_eq: "lo8 v = c_uint8 v"
  by (simp add: lo8_def)

lemma pair16_hi8_lo8 [simp]: "pair16 (hi8 v) (lo8 v) = v"
  unfolding pair16_def hi8_def lo8_eq
  by (rule bit_word_eqI) (auto simp: bit_simps)

lemma hi8_pair16 [simp]: "hi8 (pair16 h l) = h"
  unfolding pair16_def hi8_def
  by (rule bit_word_eqI) (auto simp: bit_simps dest: bit_imp_le_length)

lemma lo8_pair16 [simp]: "lo8 (pair16 h l) = l"
  unfolding pair16_def lo8_eq
  by (rule bit_word_eqI) (auto simp: bit_simps dest: bit_imp_le_length)

lemma pair_get_set [simp]:
  "BC (SET_BC s v) = v" "DE (SET_DE s v) = v" "HL (SET_HL s v) = v" "AF (SET_AF s v) = v"
  by (simp_all add: BC_def DE_def HL_def AF_def SET_BC_def SET_DE_def SET_HL_def SET_AF_def)

lemma RW_pair16: "RW B s a = pair16 (RB B s (a + 1)) (RB B s a)"
  by (simp add: RW_def pair16_def or.commute)

lemma WW_bytes: "WW B s a v = WB B (WB B s a (lo8 v)) (a + 1) (hi8 v)"
  by (simp add: WW_def Let_def lo8_eq hi8_def)

lemma uint_pair16: "uint (pair16 h l) = 256 * uint h + uint l"
proof -
  have "push_bit 8 (c_uint16 h) OR c_uint16 l = push_bit 8 (c_uint16 h) + c_uint16 l"
    by (rule disjunctive_add [symmetric]) (auto simp: bit_simps dest: bit_imp_le_length)
  moreover have "uint (push_bit 8 (c_uint16 h)) = 256 * uint h"
    using uint8_bounds [of h] by (simp add: push_bit_eq_mult uint_word_ariths)
  ultimately show ?thesis
    using uint8_bounds [of h] uint8_bounds [of l]
    by (simp add: pair16_def uint_word_ariths)
qed

lemma INC_R_bit7 [simp]: "bit (reg_r (INC_R s)) 7 = bit (reg_r s) 7"
  by (simp add: INC_R_def bit_simps)

end
