(* ===== verification/Z80_ALU.thy ===== *)
theory Z80_ALU
  imports Z80_State
begin

text \<open>
  The flag tables, the arithmetic and logic unit, the rotates and shifts, the bit tests, the condition
  codes, the register decoding helpers and DAA of \<open>src/src/z80/z80.c\<close> (lines 102 to 508).  The
  definitions come first, in the order of the file; the second half gives their functional behaviour
  in terms of numbers: sums and differences, carries, borrows and signed overflow.
\<close>

section \<open>Flag tables\<close>

definition popcount :: "nat \<Rightarrow> nat" where
  "popcount i = length (filter (bit i) [0..<32])"

definition parity_table :: "u8 list" where
  "parity_table = map (\<lambda>i. if popcount i mod 2 = 0 then Z80_PF else 0) [0..<256]"

definition sz53p_table :: "u8 list" where
  "sz53p_table =
     map (\<lambda>i. (of_nat i AND Z80_SF)
            OR (if i = 0 then Z80_ZF else 0)
            OR (of_nat i AND Z80_YF)
            OR (of_nat i AND Z80_XF)
            OR parity_table ! i) [0..<256]"

text \<open>A lookup \<open>sz53p_table[v]\<close> after \<open>init_tables\<close>.\<close>

definition sz53p :: "u8 \<Rightarrow> u8" where
  "sz53p v = sz53p_table ! unat v"

section \<open>8-bit arithmetic and logic\<close>

text \<open>The parameter \<open>with_carry\<close> is an \<open>int\<close> used as a truth value.\<close>

definition alu_add :: "'c z80 \<Rightarrow> u8 \<Rightarrow> bool \<Rightarrow> 'c z80" where
  "alu_add s val with_carry =
     (let carry = (if with_carry then uint (reg_f s AND Z80_CF) else 0);
          result = uint (reg_a s) + uint val + carry;
          half = (uint (reg_a s) AND 0x0F) + (uint val AND 0x0F) + carry;
          overflow = ((uint (reg_a s) XOR uint val) XOR 0x80)
                       AND (uint (reg_a s) XOR result) AND 0x80;
          s = s\<lparr>reg_a := word_of_int (result AND 0xFF)\<rparr>
      in s\<lparr>reg_f := (sz53p (reg_a s) AND NOT Z80_PF)
                  OR (if overflow \<noteq> 0 then Z80_PF else 0)
                  OR (if half AND 0x10 \<noteq> 0 then Z80_HF else 0)
                  OR (if result AND 0x100 \<noteq> 0 then Z80_CF else 0)\<rparr>)"

definition alu_sub :: "'c z80 \<Rightarrow> u8 \<Rightarrow> bool \<Rightarrow> 'c z80" where
  "alu_sub s val with_carry =
     (let carry = (if with_carry then uint (reg_f s AND Z80_CF) else 0);
          result = uint (reg_a s) - uint val - carry;
          half = (uint (reg_a s) AND 0x0F) - (uint val AND 0x0F) - carry;
          overflow = (uint (reg_a s) XOR uint val) AND (uint (reg_a s) XOR result) AND 0x80;
          s = s\<lparr>reg_a := word_of_int (result AND 0xFF)\<rparr>
      in s\<lparr>reg_f := (sz53p (reg_a s) AND NOT Z80_PF)
                  OR (if overflow \<noteq> 0 then Z80_PF else 0)
                  OR (if half AND 0x10 \<noteq> 0 then Z80_HF else 0)
                  OR (if result AND 0x100 \<noteq> 0 then Z80_CF else 0)
                  OR Z80_NF\<rparr>)"

definition alu_cp :: "'c z80 \<Rightarrow> u8 \<Rightarrow> 'c z80" where
  "alu_cp s val =
     (let result = uint (reg_a s) - uint val;
          half = (uint (reg_a s) AND 0x0F) - (uint val AND 0x0F);
          overflow = (uint (reg_a s) XOR uint val) AND (uint (reg_a s) XOR result) AND 0x80
      in s\<lparr>reg_f := (sz53p (word_of_int (result AND 0xFF)) AND NOT (Z80_XF OR Z80_YF OR Z80_PF))
                  OR (val AND (Z80_XF OR Z80_YF))
                  OR (if overflow \<noteq> 0 then Z80_PF else 0)
                  OR (if half AND 0x10 \<noteq> 0 then Z80_HF else 0)
                  OR (if result AND 0x100 \<noteq> 0 then Z80_CF else 0)
                  OR Z80_NF\<rparr>)"

definition alu_and :: "'c z80 \<Rightarrow> u8 \<Rightarrow> 'c z80" where
  "alu_and s val = (let s = s\<lparr>reg_a := reg_a s AND val\<rparr> in s\<lparr>reg_f := sz53p (reg_a s) OR Z80_HF\<rparr>)"

definition alu_xor :: "'c z80 \<Rightarrow> u8 \<Rightarrow> 'c z80" where
  "alu_xor s val = (let s = s\<lparr>reg_a := reg_a s XOR val\<rparr> in s\<lparr>reg_f := sz53p (reg_a s)\<rparr>)"

definition alu_or :: "'c z80 \<Rightarrow> u8 \<Rightarrow> 'c z80" where
  "alu_or s val = (let s = s\<lparr>reg_a := reg_a s OR val\<rparr> in s\<lparr>reg_f := sz53p (reg_a s)\<rparr>)"

definition alu_inc :: "'c z80 \<Rightarrow> u8 \<Rightarrow> u8 \<times> 'c z80" where
  "alu_inc s val =
     (let result = val + 1
      in (result, s\<lparr>reg_f := (reg_f s AND Z80_CF)
                           OR (sz53p result AND NOT Z80_PF)
                           OR (if val AND 0x0F = 0x0F then Z80_HF else 0)
                           OR (if val = 0x7F then Z80_PF else 0)\<rparr>))"

definition alu_dec :: "'c z80 \<Rightarrow> u8 \<Rightarrow> u8 \<times> 'c z80" where
  "alu_dec s val =
     (let result = val - 1
      in (result, s\<lparr>reg_f := (reg_f s AND Z80_CF)
                           OR (sz53p result AND NOT Z80_PF)
                           OR (if val AND 0x0F = 0x00 then Z80_HF else 0)
                           OR (if val = 0x80 then Z80_PF else 0)
                           OR Z80_NF\<rparr>))"

section \<open>16-bit addition\<close>

definition alu_add16 :: "'c z80 \<Rightarrow> u16 \<Rightarrow> u16 \<Rightarrow> u16 \<times> 'c z80" where
  "alu_add16 s dest val =
     (let result = (word_of_int (uint dest + uint val) :: u32);
          half = (uint dest AND 0x0FFF) + (uint val AND 0x0FFF)
      in (ucast (result AND 0xFFFF),
          s\<lparr>reg_f := (reg_f s AND (Z80_SF OR Z80_ZF OR Z80_PF))
                   OR (ucast (drop_bit 8 result) AND (Z80_XF OR Z80_YF))
                   OR (if half AND 0x1000 \<noteq> 0 then Z80_HF else 0)
                   OR (if result AND 0x10000 \<noteq> 0 then Z80_CF else 0)\<rparr>))"

section \<open>Rotates and shifts\<close>

definition op_rlca :: "'c z80 \<Rightarrow> 'c z80" where
  "op_rlca s =
     (let old = reg_a s;
          s = s\<lparr>reg_a := push_bit 1 old OR drop_bit 7 old\<rparr>
      in s\<lparr>reg_f := (reg_f s AND (Z80_SF OR Z80_ZF OR Z80_PF))
                  OR (reg_a s AND (Z80_XF OR Z80_YF)) OR drop_bit 7 old\<rparr>)"

definition op_rrca :: "'c z80 \<Rightarrow> 'c z80" where
  "op_rrca s =
     (let old = reg_a s;
          s = s\<lparr>reg_a := drop_bit 1 old OR push_bit 7 old\<rparr>
      in s\<lparr>reg_f := (reg_f s AND (Z80_SF OR Z80_ZF OR Z80_PF))
                  OR (reg_a s AND (Z80_XF OR Z80_YF)) OR (old AND Z80_CF)\<rparr>)"

definition op_rla :: "'c z80 \<Rightarrow> 'c z80" where
  "op_rla s =
     (let old = reg_a s;
          s = s\<lparr>reg_a := push_bit 1 old OR (reg_f s AND Z80_CF)\<rparr>
      in s\<lparr>reg_f := (reg_f s AND (Z80_SF OR Z80_ZF OR Z80_PF))
                  OR (reg_a s AND (Z80_XF OR Z80_YF)) OR drop_bit 7 old\<rparr>)"

definition op_rra :: "'c z80 \<Rightarrow> 'c z80" where
  "op_rra s =
     (let old = reg_a s;
          s = s\<lparr>reg_a := drop_bit 1 old OR push_bit 7 (reg_f s AND Z80_CF)\<rparr>
      in s\<lparr>reg_f := (reg_f s AND (Z80_SF OR Z80_ZF OR Z80_PF))
                  OR (reg_a s AND (Z80_XF OR Z80_YF)) OR (old AND Z80_CF)\<rparr>)"

text \<open>The CB group: each returns the shifted byte and the state with its flags.\<close>

definition op_rlc :: "'c z80 \<Rightarrow> u8 \<Rightarrow> u8 \<times> 'c z80" where
  "op_rlc s val =
     (let result = push_bit 1 val OR drop_bit 7 val
      in (result, s\<lparr>reg_f := sz53p result OR drop_bit 7 val\<rparr>))"

definition op_rrc :: "'c z80 \<Rightarrow> u8 \<Rightarrow> u8 \<times> 'c z80" where
  "op_rrc s val =
     (let result = drop_bit 1 val OR push_bit 7 val
      in (result, s\<lparr>reg_f := sz53p result OR (val AND 0x01)\<rparr>))"

definition op_rl :: "'c z80 \<Rightarrow> u8 \<Rightarrow> u8 \<times> 'c z80" where
  "op_rl s val =
     (let result = push_bit 1 val OR (reg_f s AND Z80_CF)
      in (result, s\<lparr>reg_f := sz53p result OR drop_bit 7 val\<rparr>))"

definition op_rr :: "'c z80 \<Rightarrow> u8 \<Rightarrow> u8 \<times> 'c z80" where
  "op_rr s val =
     (let result = drop_bit 1 val OR push_bit 7 (reg_f s AND Z80_CF)
      in (result, s\<lparr>reg_f := sz53p result OR (val AND 0x01)\<rparr>))"

definition op_sla :: "'c z80 \<Rightarrow> u8 \<Rightarrow> u8 \<times> 'c z80" where
  "op_sla s val =
     (let result = push_bit 1 val in (result, s\<lparr>reg_f := sz53p result OR drop_bit 7 val\<rparr>))"

definition op_sra :: "'c z80 \<Rightarrow> u8 \<Rightarrow> u8 \<times> 'c z80" where
  "op_sra s val =
     (let result = drop_bit 1 val OR (val AND 0x80)
      in (result, s\<lparr>reg_f := sz53p result OR (val AND 0x01)\<rparr>))"

definition op_sll :: "'c z80 \<Rightarrow> u8 \<Rightarrow> u8 \<times> 'c z80" where
  "op_sll s val =
     (let result = push_bit 1 val OR 0x01
      in (result, s\<lparr>reg_f := sz53p result OR drop_bit 7 val\<rparr>))"

definition op_srl :: "'c z80 \<Rightarrow> u8 \<Rightarrow> u8 \<times> 'c z80" where
  "op_srl s val =
     (let result = drop_bit 1 val in (result, s\<lparr>reg_f := sz53p result OR (val AND 0x01)\<rparr>))"

section \<open>Bit tests\<close>

definition op_bit :: "'c z80 \<Rightarrow> nat \<Rightarrow> u8 \<Rightarrow> 'c z80" where
  "op_bit s n val =
     (let result = val AND push_bit n 1
      in s\<lparr>reg_f := (reg_f s AND Z80_CF) OR Z80_HF OR (result AND Z80_SF)
                  OR (if result \<noteq> 0 then 0 else Z80_ZF OR Z80_PF)
                  OR (val AND (Z80_XF OR Z80_YF))\<rparr>)"

definition op_bit_mem :: "'c z80 \<Rightarrow> nat \<Rightarrow> u8 \<Rightarrow> u16 \<Rightarrow> 'c z80" where
  "op_bit_mem s n val addr =
     (let result = val AND push_bit n 1
      in s\<lparr>reg_f := (reg_f s AND Z80_CF) OR Z80_HF OR (result AND Z80_SF)
                  OR (if result \<noteq> 0 then 0 else Z80_ZF OR Z80_PF)
                  OR (ucast (drop_bit 8 addr) AND (Z80_XF OR Z80_YF))\<rparr>)"

section \<open>Conditions and register decoding\<close>

definition check_condition :: "'c z80 \<Rightarrow> nat \<Rightarrow> bool" where
  "check_condition s cc =
     (if cc = 0 then reg_f s AND Z80_ZF = 0
      else if cc = 1 then reg_f s AND Z80_ZF \<noteq> 0
      else if cc = 2 then reg_f s AND Z80_CF = 0
      else if cc = 3 then reg_f s AND Z80_CF \<noteq> 0
      else if cc = 4 then reg_f s AND Z80_PF = 0
      else if cc = 5 then reg_f s AND Z80_PF \<noteq> 0
      else if cc = 6 then reg_f s AND Z80_SF = 0
      else if cc = 7 then reg_f s AND Z80_SF \<noteq> 0
      else False)"

definition read_reg8 :: "'c bus \<Rightarrow> 'c z80 \<Rightarrow> nat \<Rightarrow> u8" where
  "read_reg8 B s r =
     (if r = 0 then reg_b s else if r = 1 then reg_c s
      else if r = 2 then reg_d s else if r = 3 then reg_e s
      else if r = 4 then reg_h s else if r = 5 then reg_l s
      else if r = 6 then RB B s (HL s) else if r = 7 then reg_a s else 0)"

definition write_reg8 :: "'c bus \<Rightarrow> 'c z80 \<Rightarrow> nat \<Rightarrow> u8 \<Rightarrow> 'c z80" where
  "write_reg8 B s r val =
     (if r = 0 then s\<lparr>reg_b := val\<rparr> else if r = 1 then s\<lparr>reg_c := val\<rparr>
      else if r = 2 then s\<lparr>reg_d := val\<rparr> else if r = 3 then s\<lparr>reg_e := val\<rparr>
      else if r = 4 then s\<lparr>reg_h := val\<rparr> else if r = 5 then s\<lparr>reg_l := val\<rparr>
      else if r = 6 then WB B s (HL s) val else if r = 7 then s\<lparr>reg_a := val\<rparr> else s)"

definition read_rp :: "'c z80 \<Rightarrow> nat \<Rightarrow> u16" where
  "read_rp s rp =
     (if rp = 0 then BC s else if rp = 1 then DE s
      else if rp = 2 then HL s else if rp = 3 then reg_sp s else 0)"

definition write_rp :: "'c z80 \<Rightarrow> nat \<Rightarrow> u16 \<Rightarrow> 'c z80" where
  "write_rp s rp val =
     (if rp = 0 then SET_BC s val else if rp = 1 then SET_DE s val
      else if rp = 2 then SET_HL s val else if rp = 3 then s\<lparr>reg_sp := val\<rparr> else s)"

section \<open>Decimal adjust\<close>

definition op_daa :: "'c z80 \<Rightarrow> 'c z80" where
  "op_daa s =
     (let a = reg_a s;
          low = (reg_f s AND Z80_HF \<noteq> 0 \<or> a AND 0x0F > 9);
          high = (reg_f s AND Z80_CF \<noteq> 0 \<or> a > 0x99);
          correction = (if low then 0x06 else 0) OR (if high then 0x60 else 0);
          carry = high
      in if reg_f s AND Z80_NF \<noteq> 0
         then let half = (reg_f s AND Z80_HF \<noteq> 0 \<and> a AND 0x0F < 0x06);
                  s = s\<lparr>reg_a := reg_a s - correction\<rparr>
              in s\<lparr>reg_f := sz53p (reg_a s) OR (if carry then Z80_CF else 0) OR Z80_NF
                          OR (if half then Z80_HF else 0)\<rparr>
         else let half = a AND 0x0F > 9;
                  s = s\<lparr>reg_a := reg_a s + correction\<rparr>
              in s\<lparr>reg_f := sz53p (reg_a s) OR (if carry then Z80_CF else 0)
                          OR (if half then Z80_HF else 0)\<rparr>)"

section \<open>Flags of a result\<close>

abbreviation flagC :: "'c z80 \<Rightarrow> bool" where "flagC s \<equiv> bit (reg_f s) 0"
abbreviation flagN :: "'c z80 \<Rightarrow> bool" where "flagN s \<equiv> bit (reg_f s) 1"
abbreviation flagP :: "'c z80 \<Rightarrow> bool" where "flagP s \<equiv> bit (reg_f s) 2"
abbreviation flagX :: "'c z80 \<Rightarrow> bool" where "flagX s \<equiv> bit (reg_f s) 3"
abbreviation flagH :: "'c z80 \<Rightarrow> bool" where "flagH s \<equiv> bit (reg_f s) 4"
abbreviation flagY :: "'c z80 \<Rightarrow> bool" where "flagY s \<equiv> bit (reg_f s) 5"
abbreviation flagZ :: "'c z80 \<Rightarrow> bool" where "flagZ s \<equiv> bit (reg_f s) 6"
abbreviation flagS :: "'c z80 \<Rightarrow> bool" where "flagS s \<equiv> bit (reg_f s) 7"

lemma sz53p_eq:
  "sz53p v = (v AND Z80_SF) OR (if v = 0 then Z80_ZF else 0) OR (v AND Z80_YF) OR (v AND Z80_XF)
             OR (if even (popcount (unat v)) then Z80_PF else 0)"
  using unat8_bound [of v]
  by (simp add: sz53p_def sz53p_table_def parity_table_def unat_eq_0 even_iff_mod_2_eq_zero)

lemma mask_bits:
  "bit Z80_CF n \<longleftrightarrow> n = 0" "bit Z80_NF n \<longleftrightarrow> n = 1" "bit Z80_PF n \<longleftrightarrow> n = 2"
  "bit Z80_XF n \<longleftrightarrow> n = 3" "bit Z80_HF n \<longleftrightarrow> n = 4" "bit Z80_YF n \<longleftrightarrow> n = 5"
  "bit Z80_ZF n \<longleftrightarrow> n = 6" "bit Z80_SF n \<longleftrightarrow> n = 7"
proof -
  have p: "bit ((2::u8) ^ k) n \<longleftrightarrow> n = k" if "k < 8" for k
    using that by (auto simp: bit_exp_iff)
  show "bit Z80_CF n \<longleftrightarrow> n = 0" "bit Z80_NF n \<longleftrightarrow> n = 1" "bit Z80_PF n \<longleftrightarrow> n = 2"
    "bit Z80_XF n \<longleftrightarrow> n = 3" "bit Z80_HF n \<longleftrightarrow> n = 4" "bit Z80_YF n \<longleftrightarrow> n = 5"
    "bit Z80_ZF n \<longleftrightarrow> n = 6" "bit Z80_SF n \<longleftrightarrow> n = 7"
    using p [of 0] p [of 1] p [of 2] p [of 3] p [of 4] p [of 5] p [of 6] p [of 7]
    by (simp_all add: flag_defs)
qed

lemma bit_sz53p:
  "bit (sz53p v) n \<longleftrightarrow> n = 7 \<and> bit v 7 \<or> n = 6 \<and> v = 0 \<or> n = 5 \<and> bit v 5 \<or> n = 3 \<and> bit v 3
     \<or> n = 2 \<and> even (popcount (unat v))"
  by (auto simp: sz53p_eq bit_or_iff bit_and_iff mask_bits)

lemmas flag_bits = bit_or_iff bit_and_iff bit_not_iff mask_bits bit_sz53p

lemma uint_and_CF: "uint (f AND Z80_CF) = (if bit f 0 then 1 else 0)"
proof -
  have "f AND Z80_CF = (if bit f 0 then 1 else 0)"
    by (rule bit_word_eqI) (auto simp: bit_and_iff mask_bits bit_1_iff intro: gr0I)
  then show ?thesis by simp
qed

lemma and_flag_eq_0:
  "f AND Z80_CF = 0 \<longleftrightarrow> \<not> bit f 0" "f AND Z80_NF = 0 \<longleftrightarrow> \<not> bit f 1" "f AND Z80_PF = 0 \<longleftrightarrow> \<not> bit f 2"
  "f AND Z80_HF = 0 \<longleftrightarrow> \<not> bit f 4" "f AND Z80_ZF = 0 \<longleftrightarrow> \<not> bit f 6" "f AND Z80_SF = 0 \<longleftrightarrow> \<not> bit f 7"
  using and_exp_eq_0_iff_not_bit [of f 0] and_exp_eq_0_iff_not_bit [of f 1]
    and_exp_eq_0_iff_not_bit [of f 2] and_exp_eq_0_iff_not_bit [of f 4]
    and_exp_eq_0_iff_not_bit [of f 6] and_exp_eq_0_iff_not_bit [of f 7]
  by (simp_all add: flag_defs)

section \<open>8-bit sums and differences\<close>

lemma alu_add_num:
  fixes s :: "'c z80" and v :: u8 and wc :: bool
  defines "c \<equiv> (if wc \<and> flagC s then 1 else (0::int))"
  defines "s' \<equiv> alu_add s v wc"
  shows "uint (reg_a s') = (uint (reg_a s) + uint v + c) mod 256"
    and "flagC s' \<longleftrightarrow> 256 \<le> uint (reg_a s) + uint v + c"
    and "flagH s' \<longleftrightarrow> 16 \<le> uint (reg_a s) mod 16 + uint v mod 16 + c"
    and "flagP s' \<longleftrightarrow> \<not> (- 128 \<le> sint (reg_a s) + sint v + c \<and> sint (reg_a s) + sint v + c < 128)"
    and "flagZ s' \<longleftrightarrow> reg_a s' = 0" and "flagS s' \<longleftrightarrow> bit (reg_a s') 7" and "\<not> flagN s'"
    and "flagX s' \<longleftrightarrow> bit (reg_a s') 3" and "flagY s' \<longleftrightarrow> bit (reg_a s') 5"
proof -
  have c: "(if wc then uint (reg_f s AND Z80_CF) else 0) = c"
    by (simp add: c_def uint_and_CF)
  have cb: "0 \<le> c" "c \<le> 1" by (simp_all add: c_def)
  note bs = uint8_bounds [of "reg_a s"] uint8_bounds [of v]
  note def = s'_def alu_add_def c Let_def
  show "uint (reg_a s') = (uint (reg_a s) + uint v + c) mod 256"
    by (simp add: def int_masks uint_word_of_int)
  show "flagC s' \<longleftrightarrow> 256 \<le> uint (reg_a s) + uint v + c"
    using bs cb by (simp add: def flag_bits alu8_bits)
  have "0 \<le> uint (reg_a s) mod 16 + uint v mod 16 + c" "uint (reg_a s) mod 16 + uint v mod 16 + c < 32"
    using cb pos_mod_bound [of 16 "uint (reg_a s)"] pos_mod_bound [of 16 "uint v"]
      pos_mod_sign [of 16 "uint (reg_a s)"] pos_mod_sign [of 16 "uint v"] by linarith+
  then show "flagH s' \<longleftrightarrow> 16 \<le> uint (reg_a s) mod 16 + uint v mod 16 + c"
    by (simp add: def flag_bits int_masks alu8_bits)
  show "flagP s' \<longleftrightarrow> \<not> (- 128 \<le> sint (reg_a s) + sint v + c \<and> sint (reg_a s) + sint v + c < 128)"
    using bs cb by (simp add: def flag_bits alu8_bits sint8_wrap)
  show "flagZ s' \<longleftrightarrow> reg_a s' = 0" and "flagS s' \<longleftrightarrow> bit (reg_a s') 7" and "\<not> flagN s'"
    and "flagX s' \<longleftrightarrow> bit (reg_a s') 3" and "flagY s' \<longleftrightarrow> bit (reg_a s') 5"
    by (simp_all add: def flag_bits)
qed

lemma alu_sub_num:
  fixes s :: "'c z80" and v :: u8 and wc :: bool
  defines "c \<equiv> (if wc \<and> flagC s then 1 else (0::int))"
  defines "s' \<equiv> alu_sub s v wc"
  shows "uint (reg_a s') = (uint (reg_a s) - uint v - c) mod 256"
    and "flagC s' \<longleftrightarrow> uint (reg_a s) < uint v + c"
    and "flagH s' \<longleftrightarrow> uint (reg_a s) mod 16 < uint v mod 16 + c"
    and "flagP s' \<longleftrightarrow> \<not> (- 128 \<le> sint (reg_a s) - sint v - c \<and> sint (reg_a s) - sint v - c < 128)"
    and "flagZ s' \<longleftrightarrow> reg_a s' = 0" and "flagS s' \<longleftrightarrow> bit (reg_a s') 7" and "flagN s'"
    and "flagX s' \<longleftrightarrow> bit (reg_a s') 3" and "flagY s' \<longleftrightarrow> bit (reg_a s') 5"
proof -
  have c: "(if wc then uint (reg_f s AND Z80_CF) else 0) = c"
    by (simp add: c_def uint_and_CF)
  have cb: "0 \<le> c" "c \<le> 1" by (simp_all add: c_def)
  note bs = uint8_bounds [of "reg_a s"] uint8_bounds [of v]
  note def = s'_def alu_sub_def c Let_def
  show "uint (reg_a s') = (uint (reg_a s) - uint v - c) mod 256"
    by (simp add: def int_masks uint_word_of_int)
  have "- 256 \<le> uint (reg_a s) - uint v - c" "uint (reg_a s) - uint v - c < 256"
    using bs cb by linarith+
  then show "flagC s' \<longleftrightarrow> uint (reg_a s) < uint v + c"
    by (auto simp: def flag_bits alu8_bits)
  have "- 16 \<le> uint (reg_a s) mod 16 - uint v mod 16 - c" "uint (reg_a s) mod 16 - uint v mod 16 - c < 16"
    using cb pos_mod_bound [of 16 "uint (reg_a s)"] pos_mod_bound [of 16 "uint v"]
      pos_mod_sign [of 16 "uint (reg_a s)"] pos_mod_sign [of 16 "uint v"] by linarith+
  then show "flagH s' \<longleftrightarrow> uint (reg_a s) mod 16 < uint v mod 16 + c"
    by (auto simp: def flag_bits int_masks alu8_bits)
  show "flagP s' \<longleftrightarrow> \<not> (- 128 \<le> sint (reg_a s) - sint v - c \<and> sint (reg_a s) - sint v - c < 128)"
    using bs cb by (simp add: def flag_bits alu8_bits sint8_wrap)
  show "flagZ s' \<longleftrightarrow> reg_a s' = 0" and "flagS s' \<longleftrightarrow> bit (reg_a s') 7" and "flagN s'"
    and "flagX s' \<longleftrightarrow> bit (reg_a s') 3" and "flagY s' \<longleftrightarrow> bit (reg_a s') 5"
    by (simp_all add: def flag_bits)
qed

end
