(* ===== verification/Z80_CB.thy ===== *)
theory Z80_CB
  imports Z80_ALU
begin

text \<open>
  The CB group (rotates, shifts, BIT, RES, SET) on registers and \<open>(HL)\<close>, and its indexed form
  DDCB/FDCB: \<open>exec_cb\<close> and \<open>exec_ddfdcb\<close> of \<open>src/src/z80/z80.c\<close> (lines 524 to 630).
  Both return the T-states and the new state.
\<close>

text \<open>The \<open>switch (bit_or_op)\<close> of the rotate group, the same in both functions.\<close>

definition rot_op :: "'c z80 \<Rightarrow> nat \<Rightarrow> u8 \<Rightarrow> u8 \<times> 'c z80" where
  "rot_op s n val =
     (if n = 0 then op_rlc s val else if n = 1 then op_rrc s val
      else if n = 2 then op_rl s val else if n = 3 then op_rr s val
      else if n = 4 then op_sla s val else if n = 5 then op_sra s val
      else if n = 6 then op_sll s val else if n = 7 then op_srl s val
      else (val, s))"

definition exec_cb :: "'c bus \<Rightarrow> 'c z80 \<Rightarrow> int \<times> 'c z80" where
  "exec_cb B s =
     (let (op, s) = FETCH B s;
          s = INC_R s;
          group = unat (drop_bit 6 op);
          bit_or_op = unat (drop_bit 3 op AND 7);
          reg = unat (op AND 7);
          tstates = (if reg = 6 then 15 else 8);
          val = read_reg8 B s reg
      in if group = 0
         then let (result, s) = rot_op s bit_or_op val
              in (tstates, write_reg8 B s reg result)
         else if group = 1
         then (if reg = 6 then (12, op_bit_mem s bit_or_op val (HL s))
               else (tstates, op_bit s bit_or_op val))
         else if group = 2
         then (tstates, write_reg8 B s reg (val AND NOT (push_bit bit_or_op 1)))
         else (tstates, write_reg8 B s reg (val OR push_bit bit_or_op 1)))"

text \<open>
  The displacement comes before the opcode; every result is written to memory and, unless the
  register field is 6, copied into that register.
\<close>

definition exec_ddfdcb :: "'c bus \<Rightarrow> 'c z80 \<Rightarrow> u16 \<Rightarrow> int \<times> 'c z80" where
  "exec_ddfdcb B s ixiy =
     (let (d, s) = FETCH B s;
          (op, s) = FETCH B s;
          addr = ixiy + c_int8 d;
          val = RB B s addr;
          group = unat (drop_bit 6 op);
          bit_or_op = unat (drop_bit 3 op AND 7);
          reg = unat (op AND 7)
      in if group = 0
         then let (result, s) = rot_op s bit_or_op val;
                  s = WB B s addr result
              in (23, if reg \<noteq> 6 then write_reg8 B s reg result else s)
         else if group = 1
         then (20, op_bit_mem s bit_or_op val addr)
         else if group = 2
         then let result = val AND NOT (push_bit bit_or_op 1);
                  s = WB B s addr result
              in (23, if reg \<noteq> 6 then write_reg8 B s reg result else s)
         else let result = val OR push_bit bit_or_op 1;
                  s = WB B s addr result
              in (23, if reg \<noteq> 6 then write_reg8 B s reg result else s))"

end
