(* ===== verification/Z80_ED.thy ===== *)
theory Z80_ED
  imports Z80_ALU
begin

text \<open>
  The ED group: \<open>exec_ed\<close> of \<open>src/src/z80/z80.c\<close> (lines 648 to 1082), one definition per
  \<open>case\<close>, dispatched by \<open>exec_ed\<close> on the opcode byte as the \<open>switch\<close> does.  Each returns the
  T-states and the new state.
\<close>

section \<open>Ports, 16-bit arithmetic, loads\<close>

definition ed_in_r_c :: "'c bus \<Rightarrow> 'c z80 \<Rightarrow> u8 \<Rightarrow> int \<times> 'c z80" where
  "ed_in_r_c B s op =
     (let r = unat (drop_bit 3 op AND 7);
          (val, s) = IN B s (BC s);
          s = s\<lparr>reg_f := sz53p val OR (reg_f s AND Z80_CF)\<rparr>
      in (12, if r \<noteq> 6 then write_reg8 B s r val else s))"

definition ed_out_c_r :: "'c bus \<Rightarrow> 'c z80 \<Rightarrow> u8 \<Rightarrow> int \<times> 'c z80" where
  "ed_out_c_r B s op =
     (let r = unat (drop_bit 3 op AND 7);
          val = (if r = 6 then 0 else read_reg8 B s r)
      in (12, OUT B s (BC s) val))"

definition ed_sbc_hl :: "'c z80 \<Rightarrow> u8 \<Rightarrow> int \<times> 'c z80" where
  "ed_sbc_hl s op =
     (let rp = unat (drop_bit 4 op AND 3);
          val = read_rp s rp;
          carry = uint (reg_f s AND Z80_CF);
          result = (word_of_int (uint (HL s) - uint val - carry) :: u32);
          half = (uint (HL s) AND 0x0FFF) - (uint val AND 0x0FFF) - carry;
          overflow = (uint (HL s) XOR uint val) AND uint (ucast (HL s) XOR result) AND 0x8000;
          s = SET_HL s (ucast (result AND 0xFFFF))
      in (15, s\<lparr>reg_f := (ucast (drop_bit 8 result) AND (Z80_SF OR Z80_XF OR Z80_YF))
                       OR (if HL s = 0 then Z80_ZF else 0)
                       OR (if half AND 0x1000 \<noteq> 0 then Z80_HF else 0)
                       OR (if overflow \<noteq> 0 then Z80_PF else 0)
                       OR (if result AND 0x10000 \<noteq> 0 then Z80_CF else 0)
                       OR Z80_NF\<rparr>))"

definition ed_adc_hl :: "'c z80 \<Rightarrow> u8 \<Rightarrow> int \<times> 'c z80" where
  "ed_adc_hl s op =
     (let rp = unat (drop_bit 4 op AND 3);
          val = read_rp s rp;
          carry = uint (reg_f s AND Z80_CF);
          result = (word_of_int (uint (HL s) + uint val + carry) :: u32);
          half = (uint (HL s) AND 0x0FFF) + (uint val AND 0x0FFF) + carry;
          overflow = ((uint (HL s) XOR uint val) XOR 0x8000)
                       AND uint (ucast (HL s) XOR result) AND 0x8000;
          s = SET_HL s (ucast (result AND 0xFFFF))
      in (15, s\<lparr>reg_f := (ucast (drop_bit 8 result) AND (Z80_SF OR Z80_XF OR Z80_YF))
                       OR (if HL s = 0 then Z80_ZF else 0)
                       OR (if half AND 0x1000 \<noteq> 0 then Z80_HF else 0)
                       OR (if overflow \<noteq> 0 then Z80_PF else 0)
                       OR (if result AND 0x10000 \<noteq> 0 then Z80_CF else 0)\<rparr>))"

definition ed_ld_nn_rp :: "'c bus \<Rightarrow> 'c z80 \<Rightarrow> u8 \<Rightarrow> int \<times> 'c z80" where
  "ed_ld_nn_rp B s op =
     (let rp = unat (drop_bit 4 op AND 3);
          (addr, s) = FETCH16 B s
      in (20, WW B s addr (read_rp s rp)))"

definition ed_ld_rp_nn :: "'c bus \<Rightarrow> 'c z80 \<Rightarrow> u8 \<Rightarrow> int \<times> 'c z80" where
  "ed_ld_rp_nn B s op =
     (let rp = unat (drop_bit 4 op AND 3);
          (addr, s) = FETCH16 B s
      in (20, write_rp s rp (RW B s addr)))"

definition ed_neg :: "'c z80 \<Rightarrow> int \<times> 'c z80" where
  "ed_neg s = (let old = reg_a s; s = s\<lparr>reg_a := 0\<rparr> in (8, alu_sub s old False))"

text \<open>RETN and RETI have the same body.\<close>

definition ed_retn :: "'c bus \<Rightarrow> 'c z80 \<Rightarrow> int \<times> 'c z80" where
  "ed_retn B s =
     (let s = s\<lparr>iff1 := iff2 s\<rparr>;
          (v, s) = POP B s
      in (14, s\<lparr>reg_pc := v\<rparr>))"

definition ed_reti :: "'c bus \<Rightarrow> 'c z80 \<Rightarrow> int \<times> 'c z80" where
  "ed_reti B s =
     (let s = s\<lparr>iff1 := iff2 s\<rparr>;
          (v, s) = POP B s
      in (14, s\<lparr>reg_pc := v\<rparr>))"

definition ed_im :: "'c z80 \<Rightarrow> u8 \<Rightarrow> int \<times> 'c z80" where
  "ed_im s op =
     (if op = 0x46 \<or> op = 0x66 then (8, s\<lparr>imode := 0\<rparr>)
      else if op = 0x56 \<or> op = 0x76 then (8, s\<lparr>imode := 1\<rparr>)
      else if op = 0x5E \<or> op = 0x7E then (8, s\<lparr>imode := 2\<rparr>)
      else (8, s\<lparr>imode := 0\<rparr>))"

definition ed_ld_i_a :: "'c z80 \<Rightarrow> int \<times> 'c z80" where
  "ed_ld_i_a s = (9, s\<lparr>reg_i := reg_a s\<rparr>)"

definition ed_ld_r_a :: "'c z80 \<Rightarrow> int \<times> 'c z80" where
  "ed_ld_r_a s = (9, s\<lparr>reg_r := reg_a s\<rparr>)"

definition ed_ld_a_i :: "'c z80 \<Rightarrow> int \<times> 'c z80" where
  "ed_ld_a_i s =
     (let s = s\<lparr>reg_a := reg_i s\<rparr>
      in (9, s\<lparr>reg_f := (reg_f s AND Z80_CF) OR (sz53p (reg_a s) AND NOT Z80_PF)
                      OR (if iff2 s \<noteq> 0 then Z80_PF else 0)\<rparr>))"

definition ed_ld_a_r :: "'c z80 \<Rightarrow> int \<times> 'c z80" where
  "ed_ld_a_r s =
     (let s = s\<lparr>reg_a := reg_r s\<rparr>
      in (9, s\<lparr>reg_f := (reg_f s AND Z80_CF) OR (sz53p (reg_a s) AND NOT Z80_PF)
                      OR (if iff2 s \<noteq> 0 then Z80_PF else 0)\<rparr>))"

definition ed_rrd :: "'c bus \<Rightarrow> 'c z80 \<Rightarrow> int \<times> 'c z80" where
  "ed_rrd B s =
     (let val = RB B s (HL s);
          new_mem = push_bit 4 (reg_a s) OR drop_bit 4 val;
          s = s\<lparr>reg_a := (reg_a s AND 0xF0) OR (val AND 0x0F)\<rparr>;
          s = WB B s (HL s) new_mem
      in (18, s\<lparr>reg_f := sz53p (reg_a s) OR (reg_f s AND Z80_CF)\<rparr>))"

definition ed_rld :: "'c bus \<Rightarrow> 'c z80 \<Rightarrow> int \<times> 'c z80" where
  "ed_rld B s =
     (let val = RB B s (HL s);
          new_mem = push_bit 4 val OR (reg_a s AND 0x0F);
          s = s\<lparr>reg_a := (reg_a s AND 0xF0) OR drop_bit 4 val\<rparr>;
          s = WB B s (HL s) new_mem
      in (18, s\<lparr>reg_f := sz53p (reg_a s) OR (reg_f s AND Z80_CF)\<rparr>))"

section \<open>Block transfer\<close>

definition ed_ldi :: "'c bus \<Rightarrow> 'c z80 \<Rightarrow> int \<times> 'c z80" where
  "ed_ldi B s =
     (let val = RB B s (HL s);
          s = WB B s (DE s) val;
          s = SET_HL s (HL s + 1);
          s = SET_DE s (DE s + 1);
          s = SET_BC s (BC s - 1);
          n = reg_a s + val
      in (16, s\<lparr>reg_f := (reg_f s AND (Z80_SF OR Z80_ZF OR Z80_CF))
                       OR (n AND Z80_XF) OR (push_bit 4 n AND Z80_YF)
                       OR (if BC s \<noteq> 0 then Z80_PF else 0)\<rparr>))"

definition ed_ldd :: "'c bus \<Rightarrow> 'c z80 \<Rightarrow> int \<times> 'c z80" where
  "ed_ldd B s =
     (let val = RB B s (HL s);
          s = WB B s (DE s) val;
          s = SET_HL s (HL s - 1);
          s = SET_DE s (DE s - 1);
          s = SET_BC s (BC s - 1);
          n = reg_a s + val
      in (16, s\<lparr>reg_f := (reg_f s AND (Z80_SF OR Z80_ZF OR Z80_CF))
                       OR (n AND Z80_XF) OR (push_bit 4 n AND Z80_YF)
                       OR (if BC s \<noteq> 0 then Z80_PF else 0)\<rparr>))"

definition ed_ldir :: "'c bus \<Rightarrow> 'c z80 \<Rightarrow> int \<times> 'c z80" where
  "ed_ldir B s =
     (let val = RB B s (HL s);
          s = WB B s (DE s) val;
          s = SET_HL s (HL s + 1);
          s = SET_DE s (DE s + 1);
          s = SET_BC s (BC s - 1);
          n = reg_a s + val
      in if BC s \<noteq> 0
         then let s = s\<lparr>reg_f := (reg_f s AND (Z80_SF OR Z80_ZF OR Z80_CF))
                               OR (n AND Z80_XF) OR (push_bit 4 n AND Z80_YF) OR Z80_PF\<rparr>
              in (21, s\<lparr>reg_pc := reg_pc s - 2\<rparr>)
         else (16, s\<lparr>reg_f := (reg_f s AND (Z80_SF OR Z80_ZF OR Z80_CF))
                            OR (n AND Z80_XF) OR (push_bit 4 n AND Z80_YF)\<rparr>))"

definition ed_lddr :: "'c bus \<Rightarrow> 'c z80 \<Rightarrow> int \<times> 'c z80" where
  "ed_lddr B s =
     (let val = RB B s (HL s);
          s = WB B s (DE s) val;
          s = SET_HL s (HL s - 1);
          s = SET_DE s (DE s - 1);
          s = SET_BC s (BC s - 1);
          n = reg_a s + val
      in if BC s \<noteq> 0
         then let s = s\<lparr>reg_f := (reg_f s AND (Z80_SF OR Z80_ZF OR Z80_CF))
                               OR (n AND Z80_XF) OR (push_bit 4 n AND Z80_YF) OR Z80_PF\<rparr>
              in (21, s\<lparr>reg_pc := reg_pc s - 2\<rparr>)
         else (16, s\<lparr>reg_f := (reg_f s AND (Z80_SF OR Z80_ZF OR Z80_CF))
                            OR (n AND Z80_XF) OR (push_bit 4 n AND Z80_YF)\<rparr>))"

section \<open>Block search\<close>

definition ed_cpi :: "'c bus \<Rightarrow> 'c z80 \<Rightarrow> int \<times> 'c z80" where
  "ed_cpi B s =
     (let val = RB B s (HL s);
          result = uint (reg_a s) - uint val;
          half = (uint (reg_a s) AND 0x0F) - (uint val AND 0x0F);
          s = SET_HL s (HL s + 1);
          s = SET_BC s (BC s - 1);
          n = (word_of_int (result - (if half AND 0x10 \<noteq> 0 then 1 else 0)) :: u8)
      in (16, s\<lparr>reg_f := (reg_f s AND Z80_CF)
                       OR (if result AND 0x80 \<noteq> 0 then Z80_SF else 0)
                       OR (if result AND 0xFF = 0 then Z80_ZF else 0)
                       OR (if half AND 0x10 \<noteq> 0 then Z80_HF else 0)
                       OR (n AND Z80_XF) OR (push_bit 4 n AND Z80_YF)
                       OR (if BC s \<noteq> 0 then Z80_PF else 0) OR Z80_NF\<rparr>))"

definition ed_cpd :: "'c bus \<Rightarrow> 'c z80 \<Rightarrow> int \<times> 'c z80" where
  "ed_cpd B s =
     (let val = RB B s (HL s);
          result = uint (reg_a s) - uint val;
          half = (uint (reg_a s) AND 0x0F) - (uint val AND 0x0F);
          s = SET_HL s (HL s - 1);
          s = SET_BC s (BC s - 1);
          n = (word_of_int (result - (if half AND 0x10 \<noteq> 0 then 1 else 0)) :: u8)
      in (16, s\<lparr>reg_f := (reg_f s AND Z80_CF)
                       OR (if result AND 0x80 \<noteq> 0 then Z80_SF else 0)
                       OR (if result AND 0xFF = 0 then Z80_ZF else 0)
                       OR (if half AND 0x10 \<noteq> 0 then Z80_HF else 0)
                       OR (n AND Z80_XF) OR (push_bit 4 n AND Z80_YF)
                       OR (if BC s \<noteq> 0 then Z80_PF else 0) OR Z80_NF\<rparr>))"

definition ed_cpir :: "'c bus \<Rightarrow> 'c z80 \<Rightarrow> int \<times> 'c z80" where
  "ed_cpir B s =
     (let val = RB B s (HL s);
          result = uint (reg_a s) - uint val;
          half = (uint (reg_a s) AND 0x0F) - (uint val AND 0x0F);
          s = SET_HL s (HL s + 1);
          s = SET_BC s (BC s - 1);
          n = (word_of_int (result - (if half AND 0x10 \<noteq> 0 then 1 else 0)) :: u8);
          s = s\<lparr>reg_f := (reg_f s AND Z80_CF)
                       OR (if result AND 0x80 \<noteq> 0 then Z80_SF else 0)
                       OR (if result AND 0xFF = 0 then Z80_ZF else 0)
                       OR (if half AND 0x10 \<noteq> 0 then Z80_HF else 0)
                       OR (n AND Z80_XF) OR (push_bit 4 n AND Z80_YF)
                       OR (if BC s \<noteq> 0 then Z80_PF else 0) OR Z80_NF\<rparr>
      in if BC s \<noteq> 0 \<and> result AND 0xFF \<noteq> 0
         then (21, s\<lparr>reg_pc := reg_pc s - 2\<rparr>)
         else (16, s))"

definition ed_cpdr :: "'c bus \<Rightarrow> 'c z80 \<Rightarrow> int \<times> 'c z80" where
  "ed_cpdr B s =
     (let val = RB B s (HL s);
          result = uint (reg_a s) - uint val;
          half = (uint (reg_a s) AND 0x0F) - (uint val AND 0x0F);
          s = SET_HL s (HL s - 1);
          s = SET_BC s (BC s - 1);
          n = (word_of_int (result - (if half AND 0x10 \<noteq> 0 then 1 else 0)) :: u8);
          s = s\<lparr>reg_f := (reg_f s AND Z80_CF)
                       OR (if result AND 0x80 \<noteq> 0 then Z80_SF else 0)
                       OR (if result AND 0xFF = 0 then Z80_ZF else 0)
                       OR (if half AND 0x10 \<noteq> 0 then Z80_HF else 0)
                       OR (n AND Z80_XF) OR (push_bit 4 n AND Z80_YF)
                       OR (if BC s \<noteq> 0 then Z80_PF else 0) OR Z80_NF\<rparr>
      in if BC s \<noteq> 0 \<and> result AND 0xFF \<noteq> 0
         then (21, s\<lparr>reg_pc := reg_pc s - 2\<rparr>)
         else (16, s))"

section \<open>Block I/O\<close>

definition ed_ini :: "'c bus \<Rightarrow> 'c z80 \<Rightarrow> int \<times> 'c z80" where
  "ed_ini B s =
     (let (val, s) = IN B s (BC s);
          s = WB B s (HL s) val;
          s = SET_HL s (HL s + 1);
          (b, s) = alu_dec s (reg_b s)
      in (16, s\<lparr>reg_b := b\<rparr>))"

definition ed_ind :: "'c bus \<Rightarrow> 'c z80 \<Rightarrow> int \<times> 'c z80" where
  "ed_ind B s =
     (let (val, s) = IN B s (BC s);
          s = WB B s (HL s) val;
          s = SET_HL s (HL s - 1);
          (b, s) = alu_dec s (reg_b s)
      in (16, s\<lparr>reg_b := b\<rparr>))"

definition ed_inir :: "'c bus \<Rightarrow> 'c z80 \<Rightarrow> int \<times> 'c z80" where
  "ed_inir B s =
     (let (val, s) = IN B s (BC s);
          s = WB B s (HL s) val;
          s = SET_HL s (HL s + 1);
          (b, s) = alu_dec s (reg_b s);
          s = s\<lparr>reg_b := b\<rparr>
      in if reg_b s \<noteq> 0 then (21, s\<lparr>reg_pc := reg_pc s - 2\<rparr>) else (16, s))"

definition ed_indr :: "'c bus \<Rightarrow> 'c z80 \<Rightarrow> int \<times> 'c z80" where
  "ed_indr B s =
     (let (val, s) = IN B s (BC s);
          s = WB B s (HL s) val;
          s = SET_HL s (HL s - 1);
          (b, s) = alu_dec s (reg_b s);
          s = s\<lparr>reg_b := b\<rparr>
      in if reg_b s \<noteq> 0 then (21, s\<lparr>reg_pc := reg_pc s - 2\<rparr>) else (16, s))"

definition ed_outi :: "'c bus \<Rightarrow> 'c z80 \<Rightarrow> int \<times> 'c z80" where
  "ed_outi B s =
     (let val = RB B s (HL s);
          (b, s) = alu_dec s (reg_b s);
          s = s\<lparr>reg_b := b\<rparr>;
          s = OUT B s (BC s) val
      in (16, SET_HL s (HL s + 1)))"

definition ed_outd :: "'c bus \<Rightarrow> 'c z80 \<Rightarrow> int \<times> 'c z80" where
  "ed_outd B s =
     (let val = RB B s (HL s);
          (b, s) = alu_dec s (reg_b s);
          s = s\<lparr>reg_b := b\<rparr>;
          s = OUT B s (BC s) val
      in (16, SET_HL s (HL s - 1)))"

definition ed_otir :: "'c bus \<Rightarrow> 'c z80 \<Rightarrow> int \<times> 'c z80" where
  "ed_otir B s =
     (let val = RB B s (HL s);
          (b, s) = alu_dec s (reg_b s);
          s = s\<lparr>reg_b := b\<rparr>;
          s = OUT B s (BC s) val;
          s = SET_HL s (HL s + 1)
      in if reg_b s \<noteq> 0 then (21, s\<lparr>reg_pc := reg_pc s - 2\<rparr>) else (16, s))"

definition ed_otdr :: "'c bus \<Rightarrow> 'c z80 \<Rightarrow> int \<times> 'c z80" where
  "ed_otdr B s =
     (let val = RB B s (HL s);
          (b, s) = alu_dec s (reg_b s);
          s = s\<lparr>reg_b := b\<rparr>;
          s = OUT B s (BC s) val;
          s = SET_HL s (HL s - 1)
      in if reg_b s \<noteq> 0 then (21, s\<lparr>reg_pc := reg_pc s - 2\<rparr>) else (16, s))"

section \<open>Dispatch\<close>

definition ed_dispatch :: "'c bus \<Rightarrow> 'c z80 \<Rightarrow> u8 \<Rightarrow> int \<times> 'c z80" where
  "ed_dispatch B s op =
     (if op \<in> {0x40, 0x48, 0x50, 0x58, 0x60, 0x68, 0x70, 0x78} then ed_in_r_c B s op
      else if op \<in> {0x41, 0x49, 0x51, 0x59, 0x61, 0x69, 0x71, 0x79} then ed_out_c_r B s op
      else if op \<in> {0x42, 0x52, 0x62, 0x72} then ed_sbc_hl s op
      else if op \<in> {0x4A, 0x5A, 0x6A, 0x7A} then ed_adc_hl s op
      else if op \<in> {0x43, 0x53, 0x63, 0x73} then ed_ld_nn_rp B s op
      else if op \<in> {0x4B, 0x5B, 0x6B, 0x7B} then ed_ld_rp_nn B s op
      else if op \<in> {0x44, 0x4C, 0x54, 0x5C, 0x64, 0x6C, 0x74, 0x7C} then ed_neg s
      else if op \<in> {0x45, 0x55, 0x65, 0x75} then ed_retn B s
      else if op \<in> {0x4D, 0x5D, 0x6D, 0x7D} then ed_reti B s
      else if op \<in> {0x46, 0x66, 0x56, 0x76, 0x5E, 0x7E, 0x4E, 0x6E} then ed_im s op
      else if op = 0x47 then ed_ld_i_a s
      else if op = 0x4F then ed_ld_r_a s
      else if op = 0x57 then ed_ld_a_i s
      else if op = 0x5F then ed_ld_a_r s
      else if op = 0x67 then ed_rrd B s
      else if op = 0x6F then ed_rld B s
      else if op = 0xA0 then ed_ldi B s
      else if op = 0xA8 then ed_ldd B s
      else if op = 0xB0 then ed_ldir B s
      else if op = 0xB8 then ed_lddr B s
      else if op = 0xA1 then ed_cpi B s
      else if op = 0xA9 then ed_cpd B s
      else if op = 0xB1 then ed_cpir B s
      else if op = 0xB9 then ed_cpdr B s
      else if op = 0xA2 then ed_ini B s
      else if op = 0xAA then ed_ind B s
      else if op = 0xB2 then ed_inir B s
      else if op = 0xBA then ed_indr B s
      else if op = 0xA3 then ed_outi B s
      else if op = 0xAB then ed_outd B s
      else if op = 0xB3 then ed_otir B s
      else if op = 0xBB then ed_otdr B s
      else (8, s))"

definition exec_ed :: "'c bus \<Rightarrow> 'c z80 \<Rightarrow> int \<times> 'c z80" where
  "exec_ed B s =
     (let (op, s) = FETCH B s;
          s = INC_R s
      in ed_dispatch B s op)"

end
