(* ===== verification/Z80_Main.thy ===== *)
theory Z80_Main
  imports Z80_CB Z80_ED
begin

text \<open>
  The unprefixed opcodes: the decoder of \<open>exec_opcode\<close> of \<open>src/src/z80/z80.c\<close> from line 1306,
  by the octal fields x (bits 7-6), y (5-3), z (2-0), p (5-4) and q (3).  One definition per
  value of x, and for x = 3 one per value of z.  \<open>exec_main\<close> is the function after its four
  prefix tests; the prefixes are added in theory \<open>Z80_Index\<close>.
\<close>

definition op_x :: "u8 \<Rightarrow> nat" where "op_x op = unat (drop_bit 6 op AND 3)"
definition op_y :: "u8 \<Rightarrow> nat" where "op_y op = unat (drop_bit 3 op AND 7)"
definition op_z :: "u8 \<Rightarrow> nat" where "op_z op = unat (op AND 7)"
definition op_p :: "u8 \<Rightarrow> nat" where "op_p op = unat (drop_bit 4 op AND 3)"
definition op_q :: "u8 \<Rightarrow> nat" where "op_q op = unat (drop_bit 3 op AND 1)"

section \<open>x = 0\<close>

definition ex_af :: "'c z80 \<Rightarrow> 'c z80" where
  "ex_af s = s\<lparr>reg_a := alt_a s, alt_a := reg_a s, reg_f := alt_f s, alt_f := reg_f s\<rparr>"

definition op_djnz :: "'c bus \<Rightarrow> 'c z80 \<Rightarrow> int \<times> 'c z80" where
  "op_djnz B s =
     (let (d, s) = FETCH B s;
          s = s\<lparr>reg_b := reg_b s - 1\<rparr>
      in if reg_b s \<noteq> 0 then (13, s\<lparr>reg_pc := reg_pc s + c_int8 d\<rparr>) else (8, s))"

definition op_jr :: "'c bus \<Rightarrow> 'c z80 \<Rightarrow> int \<times> 'c z80" where
  "op_jr B s = (let (d, s) = FETCH B s in (12, s\<lparr>reg_pc := reg_pc s + c_int8 d\<rparr>))"

definition op_jr_cc :: "'c bus \<Rightarrow> 'c z80 \<Rightarrow> nat \<Rightarrow> int \<times> 'c z80" where
  "op_jr_cc B s y =
     (let (d, s) = FETCH B s
      in if check_condition s (y - 4)
         then (12, s\<lparr>reg_pc := reg_pc s + c_int8 d\<rparr>) else (7, s))"

definition x0_z0 :: "'c bus \<Rightarrow> 'c z80 \<Rightarrow> nat \<Rightarrow> int \<times> 'c z80" where
  "x0_z0 B s y =
     (if y = 0 then (4, s)
      else if y = 1 then (4, ex_af s)
      else if y = 2 then op_djnz B s
      else if y = 3 then op_jr B s
      else op_jr_cc B s y)"

definition x0_z1 :: "'c bus \<Rightarrow> 'c z80 \<Rightarrow> nat \<Rightarrow> nat \<Rightarrow> int \<times> 'c z80" where
  "x0_z1 B s p q =
     (if q = 0 then let (nn, s) = FETCH16 B s in (10, write_rp s p nn)
      else let (v, s) = alu_add16 s (HL s) (read_rp s p) in (11, SET_HL s v))"

definition x0_z2 :: "'c bus \<Rightarrow> 'c z80 \<Rightarrow> nat \<Rightarrow> nat \<Rightarrow> int \<times> 'c z80" where
  "x0_z2 B s p q =
     (if q = 0
      then (if p = 0 then (7, WB B s (BC s) (reg_a s))
            else if p = 1 then (7, WB B s (DE s) (reg_a s))
            else if p = 2 then let (a, s) = FETCH16 B s in (16, WW B s a (HL s))
            else let (a, s) = FETCH16 B s in (13, WB B s a (reg_a s)))
      else (if p = 0 then (7, s\<lparr>reg_a := RB B s (BC s)\<rparr>)
            else if p = 1 then (7, s\<lparr>reg_a := RB B s (DE s)\<rparr>)
            else if p = 2 then let (a, s) = FETCH16 B s in (16, SET_HL s (RW B s a))
            else let (a, s) = FETCH16 B s in (13, s\<lparr>reg_a := RB B s a\<rparr>)))"

definition x0_z3 :: "'c z80 \<Rightarrow> nat \<Rightarrow> nat \<Rightarrow> int \<times> 'c z80" where
  "x0_z3 s p q =
     (6, if q = 0 then write_rp s p (read_rp s p + 1) else write_rp s p (read_rp s p - 1))"

definition x0_z4 :: "'c bus \<Rightarrow> 'c z80 \<Rightarrow> nat \<Rightarrow> int \<times> 'c z80" where
  "x0_z4 B s y =
     (let (v, s) = alu_inc s (read_reg8 B s y)
      in (if y = 6 then 11 else 4, write_reg8 B s y v))"

definition x0_z5 :: "'c bus \<Rightarrow> 'c z80 \<Rightarrow> nat \<Rightarrow> int \<times> 'c z80" where
  "x0_z5 B s y =
     (let (v, s) = alu_dec s (read_reg8 B s y)
      in (if y = 6 then 11 else 4, write_reg8 B s y v))"

definition x0_z6 :: "'c bus \<Rightarrow> 'c z80 \<Rightarrow> nat \<Rightarrow> int \<times> 'c z80" where
  "x0_z6 B s y =
     (let (n, s) = FETCH B s in (if y = 6 then 10 else 7, write_reg8 B s y n))"

definition op_cpl :: "'c z80 \<Rightarrow> 'c z80" where
  "op_cpl s =
     (let s = s\<lparr>reg_a := NOT (reg_a s)\<rparr>
      in s\<lparr>reg_f := (reg_f s AND (Z80_SF OR Z80_ZF OR Z80_PF OR Z80_CF))
                  OR (reg_a s AND (Z80_XF OR Z80_YF)) OR Z80_HF OR Z80_NF\<rparr>)"

definition op_scf :: "'c z80 \<Rightarrow> 'c z80" where
  "op_scf s =
     s\<lparr>reg_f := (reg_f s AND (Z80_SF OR Z80_ZF OR Z80_PF))
              OR (reg_a s AND (Z80_XF OR Z80_YF)) OR Z80_CF\<rparr>"

definition op_ccf :: "'c z80 \<Rightarrow> 'c z80" where
  "op_ccf s =
     s\<lparr>reg_f := (reg_f s AND (Z80_SF OR Z80_ZF OR Z80_PF))
              OR (reg_a s AND (Z80_XF OR Z80_YF))
              OR (if reg_f s AND Z80_CF \<noteq> 0 then Z80_HF else 0)
              OR (if reg_f s AND Z80_CF \<noteq> 0 then 0 else Z80_CF)\<rparr>"

definition x0_z7 :: "'c z80 \<Rightarrow> nat \<Rightarrow> int \<times> 'c z80" where
  "x0_z7 s y =
     (4, if y = 0 then op_rlca s else if y = 1 then op_rrca s
         else if y = 2 then op_rla s else if y = 3 then op_rra s
         else if y = 4 then op_daa s else if y = 5 then op_cpl s
         else if y = 6 then op_scf s else op_ccf s)"

definition main_x0 :: "'c bus \<Rightarrow> 'c z80 \<Rightarrow> u8 \<Rightarrow> int \<times> 'c z80" where
  "main_x0 B s op =
     (let y = op_y op; z = op_z op; p = op_p op; q = op_q op
      in if z = 0 then x0_z0 B s y
         else if z = 1 then x0_z1 B s p q
         else if z = 2 then x0_z2 B s p q
         else if z = 3 then x0_z3 s p q
         else if z = 4 then x0_z4 B s y
         else if z = 5 then x0_z5 B s y
         else if z = 6 then x0_z6 B s y
         else x0_z7 s y)"

section \<open>x = 1 and x = 2\<close>

definition main_x1 :: "'c bus \<Rightarrow> 'c z80 \<Rightarrow> u8 \<Rightarrow> int \<times> 'c z80" where
  "main_x1 B s op =
     (let y = op_y op; z = op_z op
      in if y = 6 \<and> z = 6
         then (4, s\<lparr>halted := 1, reg_pc := reg_pc s - 1\<rparr>)
         else (if y = 6 \<or> z = 6 then 7 else 4, write_reg8 B s y (read_reg8 B s z)))"

text \<open>The \<open>switch (y)\<close> of the ALU group, with a register (x = 2) or an immediate (x = 3, z = 6).\<close>

definition alu_op :: "'c z80 \<Rightarrow> nat \<Rightarrow> u8 \<Rightarrow> 'c z80" where
  "alu_op s y val =
     (if y = 0 then alu_add s val False else if y = 1 then alu_add s val True
      else if y = 2 then alu_sub s val False else if y = 3 then alu_sub s val True
      else if y = 4 then alu_and s val else if y = 5 then alu_xor s val
      else if y = 6 then alu_or s val else if y = 7 then alu_cp s val else s)"

definition main_x2 :: "'c bus \<Rightarrow> 'c z80 \<Rightarrow> u8 \<Rightarrow> int \<times> 'c z80" where
  "main_x2 B s op =
     (let y = op_y op; z = op_z op
      in (if z = 6 then 7 else 4, alu_op s y (read_reg8 B s z)))"

section \<open>x = 3\<close>

definition x3_z0 :: "'c bus \<Rightarrow> 'c z80 \<Rightarrow> nat \<Rightarrow> int \<times> 'c z80" where
  "x3_z0 B s y =
     (if check_condition s y
      then let (v, s) = POP B s in (11, s\<lparr>reg_pc := v\<rparr>)
      else (5, s))"

definition exx :: "'c z80 \<Rightarrow> 'c z80" where
  "exx s =
     s\<lparr>reg_b := alt_b s, alt_b := reg_b s, reg_c := alt_c s, alt_c := reg_c s,
       reg_d := alt_d s, alt_d := reg_d s, reg_e := alt_e s, alt_e := reg_e s,
       reg_h := alt_h s, alt_h := reg_h s, reg_l := alt_l s, alt_l := reg_l s\<rparr>"

definition x3_z1 :: "'c bus \<Rightarrow> 'c z80 \<Rightarrow> nat \<Rightarrow> nat \<Rightarrow> int \<times> 'c z80" where
  "x3_z1 B s p q =
     (if q = 0
      then let (v, s) = POP B s
           in (10, if p = 0 then SET_BC s v else if p = 1 then SET_DE s v
                   else if p = 2 then SET_HL s v else SET_AF s v)
      else if p = 0 then let (v, s) = POP B s in (10, s\<lparr>reg_pc := v\<rparr>)
      else if p = 1 then (4, exx s)
      else if p = 2 then (4, s\<lparr>reg_pc := HL s\<rparr>)
      else (6, s\<lparr>reg_sp := HL s\<rparr>))"

definition x3_z2 :: "'c bus \<Rightarrow> 'c z80 \<Rightarrow> nat \<Rightarrow> int \<times> 'c z80" where
  "x3_z2 B s y =
     (let (addr, s) = FETCH16 B s
      in (10, if check_condition s y then s\<lparr>reg_pc := addr\<rparr> else s))"

definition x3_z3 :: "'c bus \<Rightarrow> 'c z80 \<Rightarrow> nat \<Rightarrow> int \<times> 'c z80" where
  "x3_z3 B s y =
     (if y = 0 then let (nn, s) = FETCH16 B s in (10, s\<lparr>reg_pc := nn\<rparr>)
      else if y = 1 then (0, s)
      else if y = 2 then let (port, s) = FETCH B s
                         in (11, OUT B s (pair16 (reg_a s) port) (reg_a s))
      else if y = 3 then let (port, s) = FETCH B s;
                             (v, s) = IN B s (pair16 (reg_a s) port)
                         in (11, s\<lparr>reg_a := v\<rparr>)
      else if y = 4 then let tmp = RW B s (reg_sp s);
                             s = WW B s (reg_sp s) (HL s)
                         in (19, SET_HL s tmp)
      else if y = 5 then (4, s\<lparr>reg_d := reg_h s, reg_h := reg_d s, reg_e := reg_l s, reg_l := reg_e s\<rparr>)
      else if y = 6 then (4, s\<lparr>iff1 := 0, iff2 := 0, ei_delay := 0\<rparr>)
      else (4, s\<lparr>iff1 := 1, iff2 := 1, ei_delay := 1\<rparr>))"

definition x3_z4 :: "'c bus \<Rightarrow> 'c z80 \<Rightarrow> nat \<Rightarrow> int \<times> 'c z80" where
  "x3_z4 B s y =
     (let (addr, s) = FETCH16 B s
      in if check_condition s y
         then let s = PUSH B s (reg_pc s) in (17, s\<lparr>reg_pc := addr\<rparr>)
         else (10, s))"

definition x3_z5 :: "'c bus \<Rightarrow> 'c z80 \<Rightarrow> nat \<Rightarrow> nat \<Rightarrow> int \<times> 'c z80" where
  "x3_z5 B s p q =
     (if q = 0
      then (11, if p = 0 then PUSH B s (BC s) else if p = 1 then PUSH B s (DE s)
                else if p = 2 then PUSH B s (HL s) else PUSH B s (AF s))
      else if p = 0
      then let (addr, s) = FETCH16 B s;
               s = PUSH B s (reg_pc s)
           in (17, s\<lparr>reg_pc := addr\<rparr>)
      else (0, s))"

definition x3_z6 :: "'c bus \<Rightarrow> 'c z80 \<Rightarrow> nat \<Rightarrow> int \<times> 'c z80" where
  "x3_z6 B s y = (let (val, s) = FETCH B s in (7, alu_op s y val))"

definition x3_z7 :: "'c bus \<Rightarrow> 'c z80 \<Rightarrow> nat \<Rightarrow> int \<times> 'c z80" where
  "x3_z7 B s y = (let s = PUSH B s (reg_pc s) in (11, s\<lparr>reg_pc := of_nat (y * 8)\<rparr>))"

definition main_x3 :: "'c bus \<Rightarrow> 'c z80 \<Rightarrow> u8 \<Rightarrow> int \<times> 'c z80" where
  "main_x3 B s op =
     (let y = op_y op; z = op_z op; p = op_p op; q = op_q op
      in if z = 0 then x3_z0 B s y
         else if z = 1 then x3_z1 B s p q
         else if z = 2 then x3_z2 B s y
         else if z = 3 then x3_z3 B s y
         else if z = 4 then x3_z4 B s y
         else if z = 5 then x3_z5 B s p q
         else if z = 6 then x3_z6 B s y
         else x3_z7 B s y)"

definition exec_main :: "'c bus \<Rightarrow> 'c z80 \<Rightarrow> u8 \<Rightarrow> int \<times> 'c z80" where
  "exec_main B s op =
     (let x = op_x op
      in if x = 0 then main_x0 B s op
         else if x = 1 then main_x1 B s op
         else if x = 2 then main_x2 B s op
         else main_x3 B s op)"

text \<open>With the two prefixes whose groups always return; \<open>DD\<close> and \<open>FD\<close> may not.\<close>

definition exec_base :: "'c bus \<Rightarrow> 'c z80 \<Rightarrow> u8 \<Rightarrow> int \<times> 'c z80" where
  "exec_base B s op =
     (if op = 0xCB then exec_cb B s
      else if op = 0xED then exec_ed B s
      else exec_main B s op)"

end
