(* ===== verification/Z80_Index.thy ===== *)
theory Z80_Index
  imports Z80_Main
begin

text \<open>
  The DD and FD prefixes: \<open>exec_ddfd\<close> of \<open>src/src/z80/z80.c\<close> (lines 1100 to 1297) and the whole
  of \<open>exec_opcode\<close>.  The pointer \<open>uint16_t *ixiy\<close> is one of two registers.

  The loop that collapses a chain of prefixes reads memory until it finds a byte that is neither DD
  nor FD.  If there is none it never ends, so \<open>prefix_chain\<close> and what calls it are partial: \<open>None\<close>
  means that the C function does not return.
\<close>

datatype ixiy = IX | IY

definition get_xy :: "'c z80 \<Rightarrow> ixiy \<Rightarrow> u16" where
  "get_xy s i = (case i of IX \<Rightarrow> reg_ix s | IY \<Rightarrow> reg_iy s)"

definition set_xy :: "'c z80 \<Rightarrow> ixiy \<Rightarrow> u16 \<Rightarrow> 'c z80" where
  "set_xy s i v = (case i of IX \<Rightarrow> s\<lparr>reg_ix := v\<rparr> | IY \<Rightarrow> s\<lparr>reg_iy := v\<rparr>)"

text \<open>\<open>(*ixiy & 0x00FF) | (v << 8)\<close> and \<open>(*ixiy & 0xFF00) | v\<close>.\<close>

definition set_xyh :: "'c z80 \<Rightarrow> ixiy \<Rightarrow> u8 \<Rightarrow> 'c z80" where
  "set_xyh s i v = set_xy s i ((get_xy s i AND 0x00FF) OR push_bit 8 (c_uint16 v))"

definition set_xyl :: "'c z80 \<Rightarrow> ixiy \<Rightarrow> u8 \<Rightarrow> 'c z80" where
  "set_xyl s i v = set_xy s i ((get_xy s i AND 0xFF00) OR c_uint16 v)"

section \<open>The cases of the switch\<close>

text \<open>Each group returns \<open>None\<close> for an opcode that is not one of its cases.\<close>

definition ddfd_ld8 :: "'c bus \<Rightarrow> 'c z80 \<Rightarrow> ixiy \<Rightarrow> u8 \<Rightarrow> (int \<times> 'c z80) option" where
  "ddfd_ld8 B s i op =
     (if op \<in> {0x46, 0x4E, 0x56, 0x5E, 0x66, 0x6E, 0x7E}
      then Some (let r = unat (drop_bit 3 op AND 7);
                     (d, s) = FETCH B s
                 in (19, write_reg8 B s r (RB B s (get_xy s i + c_int8 d))))
      else if op \<in> {0x70, 0x71, 0x72, 0x73, 0x74, 0x75, 0x77}
      then Some (let r = unat (op AND 7);
                     (d, s) = FETCH B s
                 in (19, WB B s (get_xy s i + c_int8 d) (read_reg8 B s r)))
      else if op = 0x36
      then Some (let (d, s) = FETCH B s;
                     (n, s) = FETCH B s
                 in (19, WB B s (get_xy s i + c_int8 d) n))
      else None)"

definition ddfd_ld_half :: "'c bus \<Rightarrow> 'c z80 \<Rightarrow> ixiy \<Rightarrow> u8 \<Rightarrow> (int \<times> 'c z80) option" where
  "ddfd_ld_half B s i op =
     (let h = hi8 (get_xy s i); l = lo8 (get_xy s i)
      in if op = 0x44 then Some (8, write_reg8 B s 0 h)
         else if op = 0x45 then Some (8, write_reg8 B s 0 l)
         else if op = 0x4C then Some (8, write_reg8 B s 1 h)
         else if op = 0x4D then Some (8, write_reg8 B s 1 l)
         else if op = 0x54 then Some (8, write_reg8 B s 2 h)
         else if op = 0x55 then Some (8, write_reg8 B s 2 l)
         else if op = 0x5C then Some (8, write_reg8 B s 3 h)
         else if op = 0x5D then Some (8, write_reg8 B s 3 l)
         else if op = 0x7C then Some (8, s\<lparr>reg_a := h\<rparr>)
         else if op = 0x7D then Some (8, s\<lparr>reg_a := l\<rparr>)
         else if op = 0x60 then Some (8, set_xyh s i (reg_b s))
         else if op = 0x61 then Some (8, set_xyh s i (reg_c s))
         else if op = 0x62 then Some (8, set_xyh s i (reg_d s))
         else if op = 0x63 then Some (8, set_xyh s i (reg_e s))
         else if op = 0x64 then Some (8, s)
         else if op = 0x65 then Some (8, set_xyh s i l)
         else if op = 0x67 then Some (8, set_xyh s i (reg_a s))
         else if op = 0x68 then Some (8, set_xyl s i (reg_b s))
         else if op = 0x69 then Some (8, set_xyl s i (reg_c s))
         else if op = 0x6A then Some (8, set_xyl s i (reg_d s))
         else if op = 0x6B then Some (8, set_xyl s i (reg_e s))
         else if op = 0x6C then Some (8, set_xyl s i h)
         else if op = 0x6D then Some (8, s)
         else if op = 0x6F then Some (8, set_xyl s i (reg_a s))
         else None)"

definition ddfd_16 :: "'c bus \<Rightarrow> 'c z80 \<Rightarrow> ixiy \<Rightarrow> u8 \<Rightarrow> (int \<times> 'c z80) option" where
  "ddfd_16 B s i op =
     (if op = 0x21 then Some (let (nn, s) = FETCH16 B s in (14, set_xy s i nn))
      else if op = 0x22 then Some (let (a, s) = FETCH16 B s in (20, WW B s a (get_xy s i)))
      else if op = 0x2A then Some (let (a, s) = FETCH16 B s in (20, set_xy s i (RW B s a)))
      else if op = 0xF9 then Some (10, s\<lparr>reg_sp := get_xy s i\<rparr>)
      else if op = 0x09 then Some (let (v, s) = alu_add16 s (get_xy s i) (BC s) in (15, set_xy s i v))
      else if op = 0x19 then Some (let (v, s) = alu_add16 s (get_xy s i) (DE s) in (15, set_xy s i v))
      else if op = 0x29 then Some (let (v, s) = alu_add16 s (get_xy s i) (get_xy s i) in (15, set_xy s i v))
      else if op = 0x39 then Some (let (v, s) = alu_add16 s (get_xy s i) (reg_sp s) in (15, set_xy s i v))
      else if op = 0x23 then Some (10, set_xy s i (get_xy s i + 1))
      else if op = 0x2B then Some (10, set_xy s i (get_xy s i - 1))
      else None)"

definition ddfd_incdec :: "'c bus \<Rightarrow> 'c z80 \<Rightarrow> ixiy \<Rightarrow> u8 \<Rightarrow> (int \<times> 'c z80) option" where
  "ddfd_incdec B s i op =
     (if op = 0x24 then Some (let (v, s) = alu_inc s (hi8 (get_xy s i)) in (8, set_xyh s i v))
      else if op = 0x25 then Some (let (v, s) = alu_dec s (hi8 (get_xy s i)) in (8, set_xyh s i v))
      else if op = 0x2C then Some (let (v, s) = alu_inc s (lo8 (get_xy s i)) in (8, set_xyl s i v))
      else if op = 0x2D then Some (let (v, s) = alu_dec s (lo8 (get_xy s i)) in (8, set_xyl s i v))
      else if op = 0x34
      then Some (let (d, s) = FETCH B s;
                     addr = get_xy s i + c_int8 d;
                     (v, s) = alu_inc s (RB B s addr)
                 in (23, WB B s addr v))
      else if op = 0x35
      then Some (let (d, s) = FETCH B s;
                     addr = get_xy s i + c_int8 d;
                     (v, s) = alu_dec s (RB B s addr)
                 in (23, WB B s addr v))
      else if op = 0x26 then Some (let (n, s) = FETCH B s in (11, set_xyh s i n))
      else if op = 0x2E then Some (let (n, s) = FETCH B s in (11, set_xyl s i n))
      else None)"

definition ddfd_stack :: "'c bus \<Rightarrow> 'c z80 \<Rightarrow> ixiy \<Rightarrow> u8 \<Rightarrow> (int \<times> 'c z80) option" where
  "ddfd_stack B s i op =
     (if op = 0xE5 then Some (15, PUSH B s (get_xy s i))
      else if op = 0xE1 then Some (let (v, s) = POP B s in (14, set_xy s i v))
      else if op = 0xE3
      then Some (let tmp = RW B s (reg_sp s);
                     s = WW B s (reg_sp s) (get_xy s i)
                 in (23, set_xy s i tmp))
      else if op = 0xE9 then Some (8, s\<lparr>reg_pc := get_xy s i\<rparr>)
      else None)"

text \<open>\<open>int8_t d = FETCH(); ... RB( *ixiy + d)\<close>, the operand of the indexed ALU cases.\<close>

definition fetch_indexed :: "'c bus \<Rightarrow> 'c z80 \<Rightarrow> ixiy \<Rightarrow> u8 \<times> 'c z80" where
  "fetch_indexed B s i =
     (let (d, s) = FETCH B s in (RB B s (get_xy s i + c_int8 d), s))"

definition ddfd_alu :: "'c bus \<Rightarrow> 'c z80 \<Rightarrow> ixiy \<Rightarrow> u8 \<Rightarrow> (int \<times> 'c z80) option" where
  "ddfd_alu B s i op =
     (let h = hi8 (get_xy s i); l = lo8 (get_xy s i)
      in if op = 0x86 then Some (let (v, s) = fetch_indexed B s i in (19, alu_add s v False))
         else if op = 0x8E then Some (let (v, s) = fetch_indexed B s i in (19, alu_add s v True))
         else if op = 0x96 then Some (let (v, s) = fetch_indexed B s i in (19, alu_sub s v False))
         else if op = 0x9E then Some (let (v, s) = fetch_indexed B s i in (19, alu_sub s v True))
         else if op = 0xA6 then Some (let (v, s) = fetch_indexed B s i in (19, alu_and s v))
         else if op = 0xAE then Some (let (v, s) = fetch_indexed B s i in (19, alu_xor s v))
         else if op = 0xB6 then Some (let (v, s) = fetch_indexed B s i in (19, alu_or s v))
         else if op = 0xBE then Some (let (v, s) = fetch_indexed B s i in (19, alu_cp s v))
         else if op = 0x84 then Some (8, alu_add s h False)
         else if op = 0x85 then Some (8, alu_add s l False)
         else if op = 0x8C then Some (8, alu_add s h True)
         else if op = 0x8D then Some (8, alu_add s l True)
         else if op = 0x94 then Some (8, alu_sub s h False)
         else if op = 0x95 then Some (8, alu_sub s l False)
         else if op = 0x9C then Some (8, alu_sub s h True)
         else if op = 0x9D then Some (8, alu_sub s l True)
         else if op = 0xA4 then Some (8, alu_and s h)
         else if op = 0xA5 then Some (8, alu_and s l)
         else if op = 0xAC then Some (8, alu_xor s h)
         else if op = 0xAD then Some (8, alu_xor s l)
         else if op = 0xB4 then Some (8, alu_or s h)
         else if op = 0xB5 then Some (8, alu_or s l)
         else if op = 0xBC then Some (8, alu_cp s h)
         else if op = 0xBD then Some (8, alu_cp s l)
         else None)"

text \<open>All cases but \<open>default\<close>; the case labels of the groups are disjoint.\<close>

definition or_else :: "'a option \<Rightarrow> 'a option \<Rightarrow> 'a option" where
  "or_else x y = (case x of Some v \<Rightarrow> Some v | None \<Rightarrow> y)"

definition ddfd_case :: "'c bus \<Rightarrow> 'c z80 \<Rightarrow> ixiy \<Rightarrow> u8 \<Rightarrow> (int \<times> 'c z80) option" where
  "ddfd_case B s i op =
     or_else (ddfd_ld8 B s i op)
      (or_else (ddfd_ld_half B s i op)
       (or_else (ddfd_16 B s i op)
        (or_else (ddfd_incdec B s i op)
         (or_else (ddfd_stack B s i op) (ddfd_alu B s i op)))))"

section \<open>Prefix chains\<close>

definition prefix_reg :: "u8 \<Rightarrow> ixiy" where
  "prefix_reg op = (if op = 0xDD then IX else IY)"

text \<open>
  The \<open>do ... while (op == 0xDD || op == 0xFD)\<close> loop: the bytes read so far, the last prefix, the
  state.
\<close>

partial_function (option) prefix_chain ::
  "'c bus \<Rightarrow> int \<Rightarrow> ixiy \<Rightarrow> 'c z80 \<Rightarrow> (int \<times> ixiy \<times> 'c z80) option" where
  "prefix_chain B prefixes last_prefix s =
     (let (op, s) = FETCH B s;
          s = INC_R s;
          prefixes = prefixes + 1
      in if op = 0xDD \<or> op = 0xFD
         then prefix_chain B prefixes (prefix_reg op) s
         else Some (prefixes, last_prefix, s))"

text \<open>The rewind after the loop.\<close>

definition rewind_byte :: "'c z80 \<Rightarrow> 'c z80" where
  "rewind_byte s =
     s\<lparr>reg_pc := reg_pc s - 1, reg_r := (reg_r s AND 0x80) OR ((reg_r s - 1) AND 0x7F)\<rparr>"

partial_function (option) exec_ddfd ::
  "'c bus \<Rightarrow> 'c z80 \<Rightarrow> ixiy \<Rightarrow> (int \<times> 'c z80) option" where
  "exec_ddfd B s i =
     (let (op, s) = FETCH B s;
          s = INC_R s
      in if op = 0xCB then Some (exec_ddfdcb B s (get_xy s i))
         else case ddfd_case B s i op of
                Some r \<Rightarrow> Some r
              | None \<Rightarrow>
                  if op = 0xDD \<or> op = 0xFD
                  then Option.bind (prefix_chain B 1 (prefix_reg op) s) (\<lambda>(prefixes, last_prefix, s).
                       Option.bind (exec_ddfd B (rewind_byte s) last_prefix) (\<lambda>(t, s).
                       Some ((prefixes - 1) * 4 + t, s)))
                  else (let (t, s) = exec_base B s op in Some (4 + t, s)))"

section \<open>One opcode\<close>

definition exec_opcode :: "'c bus \<Rightarrow> 'c z80 \<Rightarrow> u8 \<Rightarrow> (int \<times> 'c z80) option" where
  "exec_opcode B s op =
     (if op = 0xCB then Some (exec_cb B s)
      else if op = 0xED then Some (exec_ed B s)
      else if op = 0xDD then exec_ddfd B s IX
      else if op = 0xFD then exec_ddfd B s IY
      else Some (exec_main B s op))"

text \<open>The \<open>default\<close> case of the code calls \<open>exec_opcode\<close> itself, and so it is here.\<close>

lemma exec_base_opcode:
  assumes "op \<noteq> 0xDD" "op \<noteq> 0xFD"
  shows "exec_opcode B s op = Some (exec_base B s op)"
  using assms by (simp add: exec_opcode_def exec_base_def)

end
