(* ===== verification/Z80_Step.thy ===== *)
theory Z80_Step
  imports Z80_Index
begin

text \<open>
  The entry points of \<open>src/src/z80/z80.c\<close>: \<open>z80_step\<close>, \<open>z80_init\<close>, \<open>z80_interrupt\<close> and
  \<open>z80_nmi\<close> (lines 1706 to 1823).  \<open>z80_step\<close> and \<open>z80_interrupt\<close> return \<open>None\<close> where the C
  function does not return.
\<close>

definition z80_step :: "'c bus \<Rightarrow> 'c z80 \<Rightarrow> (int \<times> 'c z80) option" where
  "z80_step B s =
     (let s = (if ei_delay s \<noteq> 0 then s\<lparr>ei_delay := 0\<rparr> else s)
      in if halted s \<noteq> 0
         then let s = INC_R s;
                  tstates = 4
              in Some (tstates, s\<lparr>clocks := clocks s + of_int tstates\<rparr>)
         else let (op, s) = FETCH B s;
                  s = INC_R s
              in Option.bind (exec_opcode B s op) (\<lambda>(tstates, s).
                   Some (tstates, s\<lparr>clocks := clocks s + of_int tstates\<rparr>)))"

text \<open>
  \<open>memset(cpu, 0, sizeof(Z80))\<close> clears every field of the struct, the page pointers and
  \<open>ctx\<close> included; the host sets them again.  Host memory itself is not part of the struct.
\<close>

definition z80_zero :: "(ptr \<Rightarrow> u8) \<Rightarrow> 'c \<Rightarrow> 'c z80" where
  "z80_zero h c =
     \<lparr>reg_a = 0, reg_f = 0, reg_b = 0, reg_c = 0, reg_d = 0, reg_e = 0, reg_h = 0, reg_l = 0,
      alt_a = 0, alt_f = 0, alt_b = 0, alt_c = 0, alt_d = 0, alt_e = 0, alt_h = 0, alt_l = 0,
      reg_ix = 0, reg_iy = 0, reg_sp = 0, reg_pc = 0, reg_i = 0, reg_r = 0,
      iff1 = 0, iff2 = 0, imode = 0, ei_delay = 0, halted = 0, clocks = 0,
      page_read = (\<lambda>_. None), page_write = (\<lambda>_. None), heap = h, ctx = c\<rparr>"

definition z80_init :: "'c z80 \<Rightarrow> 'c z80" where
  "z80_init s = (z80_zero (heap s) (ctx s))\<lparr>reg_sp := 0xFFFF, reg_a := 0xFF, reg_f := 0xFF\<rparr>"

definition wake_up :: "'c z80 \<Rightarrow> 'c z80" where
  "wake_up s = (if halted s \<noteq> 0 then s\<lparr>halted := 0, reg_pc := reg_pc s + 1\<rparr> else s)"

definition z80_interrupt :: "'c bus \<Rightarrow> 'c z80 \<Rightarrow> u8 \<Rightarrow> (int \<times> 'c z80) option" where
  "z80_interrupt B s data =
     (if iff1 s = 0 \<or> ei_delay s \<noteq> 0 then Some (0, s)
      else let s = s\<lparr>iff1 := 0, iff2 := 0, ei_delay := 0\<rparr>;
               s = wake_up s
           in if imode s = 0
              then let s = INC_R s
                   in Option.bind (exec_opcode B s data) (\<lambda>(t, s). Some (t + 2, s))
              else if imode s = 1
              then let s = INC_R s;
                       s = PUSH B s (reg_pc s)
                   in Some (13, s\<lparr>reg_pc := 0x0038\<rparr>)
              else if imode s = 2
              then let s = INC_R s;
                       s = PUSH B s (reg_pc s);
                       vector_addr = pair16 (reg_i s) data
                   in Some (19, s\<lparr>reg_pc := RW B s vector_addr\<rparr>)
              else Some (0, s))"

definition z80_nmi :: "'c bus \<Rightarrow> 'c z80 \<Rightarrow> int \<times> 'c z80" where
  "z80_nmi B s =
     (let s = wake_up s;
          s = s\<lparr>iff2 := iff1 s, iff1 := 0, ei_delay := 0\<rparr>;
          s = PUSH B s (reg_pc s)
      in (11, s\<lparr>reg_pc := 0x0066\<rparr>))"

text \<open>Any number of instructions, and the T-states they took.\<close>

fun z80_run :: "'c bus \<Rightarrow> nat \<Rightarrow> 'c z80 \<Rightarrow> (int \<times> 'c z80) option" where
  "z80_run B 0 s = Some (0, s)"
| "z80_run B (Suc n) s =
     Option.bind (z80_step B s) (\<lambda>(t, s').
     Option.bind (z80_run B n s') (\<lambda>(t', s''). Some (t + t', s'')))"

end
