(* ===== verification/Z80_Frame.thy ===== *)
theory Z80_Frame
  imports Z80_Step
begin

text \<open>
  What an instruction can do to the host.  The CPU reaches host memory, the page tables and
  \<open>ctx\<close> only through \<open>WB\<close>, \<open>IN\<close> and \<open>OUT\<close>.  The locale \<open>exec_invariant\<close> states that as an
  interface: a predicate on the host side of the state that the three access functions keep is kept
  by every instruction.  \<open>bus_invariant\<close> extends it to \<open>z80_step\<close>, \<open>z80_interrupt\<close>, \<open>z80_nmi\<close>
  and runs.
\<close>

section \<open>Conditions on the host side\<close>

definition host_view :: "'c z80 \<Rightarrow> (nat \<Rightarrow> ptr option) \<times> (nat \<Rightarrow> ptr option) \<times> (ptr \<Rightarrow> u8) \<times> 'c \<times> u64" where
  "host_view s = (page_read s, page_write s, heap s, ctx s, clocks s)"

locale exec_invariant =
  fixes B :: "'c bus" and I :: "'c z80 \<Rightarrow> bool"
  assumes I_view: "host_view s' = host_view s \<Longrightarrow> I s' = I s"
    and I_WB: "I s \<Longrightarrow> I (WB B s a v)"
    and I_IN: "I s \<Longrightarrow> I (snd (IN B s p))"
    and I_OUT: "I s \<Longrightarrow> I (OUT B s p v)"
begin

lemma I_upd [simp]:
  "I (reg_a_update f s) = I s" "I (reg_f_update f s) = I s"
  "I (reg_b_update f s) = I s" "I (reg_c_update f s) = I s"
  "I (reg_d_update f s) = I s" "I (reg_e_update f s) = I s"
  "I (reg_h_update f s) = I s" "I (reg_l_update f s) = I s"
  "I (alt_a_update f s) = I s" "I (alt_f_update f s) = I s"
  "I (alt_b_update f s) = I s" "I (alt_c_update f s) = I s"
  "I (alt_d_update f s) = I s" "I (alt_e_update f s) = I s"
  "I (alt_h_update f s) = I s" "I (alt_l_update f s) = I s"
  "I (reg_ix_update g s) = I s" "I (reg_iy_update g s) = I s"
  "I (reg_sp_update g s) = I s" "I (reg_pc_update g s) = I s"
  "I (reg_i_update f s) = I s" "I (reg_r_update f s) = I s"
  "I (iff1_update f s) = I s" "I (iff2_update f s) = I s"
  "I (imode_update f s) = I s" "I (ei_delay_update f s) = I s" "I (halted_update f s) = I s"
  by (rule I_view, simp add: host_view_def)+

lemma I_IN': "IN B s p = (v, s') \<Longrightarrow> I s \<Longrightarrow> I s'"
  using I_IN [of s p] by simp

lemma I_WW: "I s \<Longrightarrow> I (WW B s a v)"
  by (simp add: WW_def Let_def I_WB)

lemma I_PUSH: "I s \<Longrightarrow> I (PUSH B s v)"
  by (simp add: PUSH_def Let_def I_WW)

lemma I_regs [simp]:
  "I (SET_BC s w) = I s" "I (SET_DE s w) = I s" "I (SET_HL s w) = I s" "I (SET_AF s w) = I s"
  "I (INC_R s) = I s" "I (write_rp s r w) = I s" "I (set_xy s i w) = I s"
  "I (set_xyh s i v) = I s" "I (set_xyl s i v) = I s" "I (rewind_byte s) = I s" "I (wake_up s) = I s"
  "I (ex_af s) = I s" "I (exx s) = I s"
  by (simp_all add: SET_BC_def SET_DE_def SET_HL_def SET_AF_def INC_R_def write_rp_def
      set_xyh_def set_xyl_def set_xy_def rewind_byte_def wake_up_def ex_af_def exx_def split: ixiy.split)

lemma I_alu [simp]:
  "I (alu_add s v c) = I s" "I (alu_sub s v c) = I s" "I (alu_cp s v) = I s"
  "I (alu_and s v) = I s" "I (alu_xor s v) = I s" "I (alu_or s v) = I s" "I (alu_op s y v) = I s"
  "I (op_rlca s) = I s" "I (op_rrca s) = I s" "I (op_rla s) = I s" "I (op_rra s) = I s"
  "I (op_daa s) = I s" "I (op_cpl s) = I s" "I (op_scf s) = I s" "I (op_ccf s) = I s"
  "I (op_bit s n v) = I s" "I (op_bit_mem s n v a) = I s"
  by (simp_all add: alu_op_def alu_add_def alu_sub_def alu_cp_def alu_and_def alu_xor_def alu_or_def
      op_rlca_def op_rrca_def op_rla_def op_rra_def op_daa_def op_cpl_def op_scf_def op_ccf_def
      op_bit_def op_bit_mem_def Let_def)

lemma I_snd [simp]:
  "I (snd (alu_inc s v)) = I s" "I (snd (alu_dec s v)) = I s" "I (snd (alu_add16 s d w)) = I s"
  "I (snd (FETCH B s)) = I s" "I (snd (FETCH16 B s)) = I s" "I (snd (POP B s)) = I s"
  by (simp_all add: alu_inc_def alu_dec_def alu_add16_def FETCH_def FETCH16_def POP_def Let_def)

lemma I_rot_op [simp]: "I (snd (rot_op s n v)) = I s"
  by (simp add: rot_op_def op_rlc_def op_rrc_def op_rl_def op_rr_def op_sla_def op_sra_def op_sll_def
      op_srl_def Let_def)

lemma I_write_reg8: "I s \<Longrightarrow> I (write_reg8 B s r v)"
  by (simp add: write_reg8_def I_WB)

lemmas I_intros = I_WB I_WW I_PUSH I_OUT I_write_reg8

lemma I_exec_cb: "I s \<Longrightarrow> I (snd (exec_cb B s))"
  by (simp add: exec_cb_def Let_def case_prod_beta I_intros)
lemma I_exec_ddfdcb: "I s \<Longrightarrow> I (snd (exec_ddfdcb B s w))"
  by (simp add: exec_ddfdcb_def Let_def case_prod_beta I_intros)
lemma I_main_x0: "I s \<Longrightarrow> I (snd (main_x0 B s op))"
  by (simp add: main_x0_def Let_def case_prod_beta I_intros x0_z0_def x0_z1_def x0_z2_def x0_z3_def x0_z4_def
     x0_z5_def x0_z6_def x0_z7_def op_djnz_def op_jr_def op_jr_cc_def)
lemma I_main_x1: "I s \<Longrightarrow> I (snd (main_x1 B s op))"
  by (simp add: main_x1_def Let_def case_prod_beta I_intros)
lemma I_main_x2: "I s \<Longrightarrow> I (snd (main_x2 B s op))"
  by (simp add: main_x2_def Let_def case_prod_beta I_intros)
lemma I_main_x3: "I s \<Longrightarrow> I (snd (main_x3 B s op))"
  by (simp add: main_x3_def Let_def case_prod_beta I_intros I_IN x3_z0_def x3_z1_def x3_z2_def x3_z3_def x3_z4_def
     x3_z5_def x3_z6_def x3_z7_def)
lemma I_ed_load:
  assumes "I s"
  shows "I (snd (ed_in_r_c B s op))"
    and "I (snd (ed_out_c_r B s op))"
    and "I (snd (ed_sbc_hl s op))"
    and "I (snd (ed_adc_hl s op))"
    and "I (snd (ed_ld_nn_rp B s op))"
    and "I (snd (ed_ld_rp_nn B s op))"
    and "I (snd (ed_neg s))"
    and "I (snd (ed_retn B s))"
  using assms
  by (simp_all add: ed_in_r_c_def ed_out_c_r_def ed_sbc_hl_def ed_adc_hl_def ed_ld_nn_rp_def ed_ld_rp_nn_def ed_neg_def ed_retn_def
      Let_def case_prod_beta I_intros I_IN)

lemma I_ed_misc:
  assumes "I s"
  shows "I (snd (ed_reti B s))"
    and "I (snd (ed_im s op))"
    and "I (snd (ed_ld_i_a s))"
    and "I (snd (ed_ld_r_a s))"
    and "I (snd (ed_ld_a_i s))"
    and "I (snd (ed_ld_a_r s))"
    and "I (snd (ed_rrd B s))"
    and "I (snd (ed_rld B s))"
  using assms
  by (simp_all add: ed_reti_def ed_im_def ed_ld_i_a_def ed_ld_r_a_def ed_ld_a_i_def ed_ld_a_r_def ed_rrd_def ed_rld_def
      Let_def case_prod_beta I_intros I_IN)

lemma I_ed_block:
  assumes "I s"
  shows "I (snd (ed_ldi B s))"
    and "I (snd (ed_ldd B s))"
    and "I (snd (ed_ldir B s))"
    and "I (snd (ed_lddr B s))"
    and "I (snd (ed_cpi B s))"
    and "I (snd (ed_cpd B s))"
    and "I (snd (ed_cpir B s))"
    and "I (snd (ed_cpdr B s))"
  using assms
  by (simp_all add: ed_ldi_def ed_ldd_def ed_ldir_def ed_lddr_def ed_cpi_def ed_cpd_def ed_cpir_def ed_cpdr_def
      Let_def case_prod_beta I_intros I_IN)

lemma I_ed_block_io:
  assumes "I s"
  shows "I (snd (ed_ini B s))"
    and "I (snd (ed_ind B s))"
    and "I (snd (ed_inir B s))"
    and "I (snd (ed_indr B s))"
    and "I (snd (ed_outi B s))"
    and "I (snd (ed_outd B s))"
    and "I (snd (ed_otir B s))"
    and "I (snd (ed_otdr B s))"
  using assms
  by (simp_all add: ed_ini_def ed_ind_def ed_inir_def ed_indr_def ed_outi_def ed_outd_def ed_otir_def ed_otdr_def
      Let_def case_prod_beta I_intros I_IN)

lemma I_exec_ed: "I s \<Longrightarrow> I (snd (exec_ed B s))"
  by (simp add: exec_ed_def ed_dispatch_def Let_def case_prod_beta I_ed_load I_ed_misc I_ed_block I_ed_block_io)

text \<open>The indexed groups return an option; what holds of every value they return.\<close>

lemma I_ddfd_groups:
  assumes "I s"
  shows "pred_option (\<lambda>r. I (snd r)) (ddfd_ld8 B s i op)"
    and "pred_option (\<lambda>r. I (snd r)) (ddfd_ld_half B s i op)"
    and "pred_option (\<lambda>r. I (snd r)) (ddfd_16 B s i op)"
    and "pred_option (\<lambda>r. I (snd r)) (ddfd_incdec B s i op)"
    and "pred_option (\<lambda>r. I (snd r)) (ddfd_stack B s i op)"
    and "pred_option (\<lambda>r. I (snd r)) (ddfd_alu B s i op)"
  using assms
  by (simp_all add: ddfd_ld8_def ddfd_ld_half_def ddfd_16_def ddfd_incdec_def ddfd_stack_def ddfd_alu_def
      fetch_indexed_def Let_def case_prod_beta if_distrib [of "pred_option P" for P] I_intros cong: if_cong)

lemma I_ddfd_case: "I s \<Longrightarrow> ddfd_case B s i op = Some r \<Longrightarrow> I (snd r)"
  using I_ddfd_groups [of s i op] by (auto simp: ddfd_case_def or_else_def split: option.splits)

lemma I_exec_main: "I s \<Longrightarrow> I (snd (exec_main B s op))"
  by (simp add: exec_main_def Let_def I_main_x0 I_main_x1 I_main_x2 I_main_x3)

lemma I_exec_base: "I s \<Longrightarrow> I (snd (exec_base B s op))"
  by (simp add: exec_base_def I_exec_main I_exec_cb I_exec_ed)

end

section \<open>Prefixed opcodes\<close>

lemma prefix_chain_host_view:
  assumes "prefix_chain B n r s = Some y"
  shows "host_view (snd (snd y)) = host_view s"
  using assms
proof (induction B n r s y rule: prefix_chain.raw_induct [rotated, consumes 1, case_names step])
  case (step chain B n r s y)
  have "host_view (INC_R (snd (FETCH B s))) = host_view s"
    by (simp add: FETCH_def INC_R_def host_view_def Let_def)
  then show ?case
    using step(2) by (auto simp: Let_def case_prod_beta split: if_splits dest: step(1))
qed

lemma exec_invariant_ddfd:
  assumes "exec_ddfd B s i = Some r" "exec_invariant B I" "I s"
  shows "I (snd r)"
  using assms
proof (induction B s i r rule: exec_ddfd.raw_induct [rotated, consumes 1, case_names step])
  case (step ddfd B s i r)
  note inv = step(3)
  note keeps = exec_invariant.I_regs [OF inv] exec_invariant.I_snd [OF inv]
  let ?op = "fst (FETCH B s)" and ?s = "INC_R (snd (FETCH B s))"
  have s: "I ?s" using step(4) by (simp add: keeps)
  consider "?op = 0xCB" | (c) r' where "?op \<noteq> 0xCB" "ddfd_case B ?s i ?op = Some r'"
    | (chain) "?op \<noteq> 0xCB" "ddfd_case B ?s i ?op = None" "?op = 0xDD \<or> ?op = 0xFD"
    | (default) "?op \<noteq> 0xCB" "ddfd_case B ?s i ?op = None" "\<not> (?op = 0xDD \<or> ?op = 0xFD)"
    by (cases "ddfd_case B ?s i ?op") auto
  then show ?case
  proof cases
    case 1
    then have "r = exec_ddfdcb B ?s (get_xy ?s i)"
      using step(2) by (simp add: Let_def case_prod_beta)
    then show ?thesis using exec_invariant.I_exec_ddfdcb [OF inv s] by simp
  next
    case c
    then show ?thesis
      using step(2) exec_invariant.I_ddfd_case [OF inv s] by (simp add: Let_def case_prod_beta)
  next
    case chain
    then obtain n r' s' t s'' where ch: "prefix_chain B 1 (prefix_reg ?op) ?s = Some (n, r', s')"
      and d: "ddfd B (rewind_byte s') r' = Some (t, s'')" and r: "r = ((n - 1) * 4 + t, s'')"
      using step(2) by (auto simp: Let_def case_prod_beta bind_eq_Some_conv)
    have "I s'" using exec_invariant.I_view [OF inv, of s' ?s] prefix_chain_host_view [OF ch] s by simp
    then show ?thesis using step(1) [OF d inv] r by (simp add: keeps)
  next
    case default
    then have "Some (4 + fst (exec_base B ?s ?op), snd (exec_base B ?s ?op)) = Some r"
      using step(2) by (simp add: Let_def case_prod_beta)
    then have "snd r = snd (exec_base B ?s ?op)" by (metis option.inject snd_conv)
    then show ?thesis using exec_invariant.I_exec_base [OF inv s] by simp
  qed
qed

context exec_invariant
begin

lemma I_exec_opcode: "exec_opcode B s op = Some r \<Longrightarrow> I s \<Longrightarrow> I (snd r)"
  using exec_invariant_ddfd [OF _ exec_invariant_axioms]
  by (auto simp: exec_opcode_def I_exec_cb I_exec_ed I_exec_main split: if_splits)

end

section \<open>Whole instructions, interrupts and runs\<close>

locale bus_invariant = exec_invariant +
  assumes I_clocks: "I (clocks_update f s) = I s"
begin

lemma I_step: "z80_step B s = Some (t, s') \<Longrightarrow> I s \<Longrightarrow> I s'"
  by (auto simp: z80_step_def Let_def case_prod_beta bind_eq_Some_conv I_clocks
      split: if_splits dest!: I_exec_opcode)

lemma I_interrupt: "z80_interrupt B s d = Some (t, s') \<Longrightarrow> I s \<Longrightarrow> I s'"
  by (auto simp: z80_interrupt_def Let_def case_prod_beta bind_eq_Some_conv I_PUSH
      split: if_splits dest!: I_exec_opcode)

lemma I_nmi: "I s \<Longrightarrow> I (snd (z80_nmi B s))"
  by (simp add: z80_nmi_def Let_def I_PUSH)

lemma I_run: "z80_run B n s = Some (t, s') \<Longrightarrow> I s \<Longrightarrow> I s'"
  by (induction n arbitrary: s t) (auto simp: bind_eq_Some_conv dest: I_step)

end

end
