(* ===== verification/Memory_Contract.thy ===== *)
theory Memory_Contract
  imports Prelude
begin

text \<open>
  What the CPU relies on when it reads and writes bytes, as two locales.  \<open>paged_memory\<close> allows
  several addresses to reach one location (a RAM bank paged in twice) and locations that ignore
  writes (ROM); \<open>flat_memory\<close> adds that different addresses reach different locations.  The
  contract is discharged on the CPU's own access functions in theory \<open>Z80_Memory\<close>.
\<close>

section \<open>Block operations over any byte memory\<close>

text \<open>
  The forward and the backward copy of n bytes, one byte after the other: what LDIR and LDDR are
  specified to do.
\<close>

fun copy_up :: "('s \<Rightarrow> u16 \<Rightarrow> u8) \<Rightarrow> ('s \<Rightarrow> u16 \<Rightarrow> u8 \<Rightarrow> 's) \<Rightarrow> nat \<Rightarrow> u16 \<Rightarrow> u16 \<Rightarrow> 's \<Rightarrow> 's" where
  "copy_up rd wr 0 src dst s = s"
| "copy_up rd wr (Suc n) src dst s = copy_up rd wr n (src + 1) (dst + 1) (wr s dst (rd s src))"

fun copy_down :: "('s \<Rightarrow> u16 \<Rightarrow> u8) \<Rightarrow> ('s \<Rightarrow> u16 \<Rightarrow> u8 \<Rightarrow> 's) \<Rightarrow> nat \<Rightarrow> u16 \<Rightarrow> u16 \<Rightarrow> 's \<Rightarrow> 's" where
  "copy_down rd wr 0 src dst s = s"
| "copy_down rd wr (Suc n) src dst s = copy_down rd wr n (src - 1) (dst - 1) (wr s dst (rd s src))"

section \<open>The contract\<close>

locale paged_memory =
  fixes rd :: "'s \<Rightarrow> u16 \<Rightarrow> u8"
    and wr :: "'s \<Rightarrow> u16 \<Rightarrow> u8 \<Rightarrow> 's"
    and loc :: "'s \<Rightarrow> u16 \<Rightarrow> 'l"
    and writable :: "'s \<Rightarrow> u16 \<Rightarrow> bool"
    and inv :: "'s \<Rightarrow> bool"
  assumes rd_wr: "inv s \<Longrightarrow> rd (wr s a v) x = (if writable s a \<and> loc s x = loc s a then v else rd s x)"
    and loc_wr: "inv s \<Longrightarrow> loc (wr s a v) = loc s"
    and writable_wr: "inv s \<Longrightarrow> writable (wr s a v) = writable s"
    and inv_wr: "inv s \<Longrightarrow> inv (wr s a v)"
begin

lemma rd_wr_same: "inv s \<Longrightarrow> writable s a \<Longrightarrow> rd (wr s a v) a = v"
  by (simp add: rd_wr)

lemma rd_wr_rom: "inv s \<Longrightarrow> \<not> writable s a \<Longrightarrow> rd (wr s a v) x = rd s x"
  by (simp add: rd_wr)

lemma rd_wr_alias: "inv s \<Longrightarrow> writable s a \<Longrightarrow> loc s x = loc s a \<Longrightarrow> rd (wr s a v) x = v"
  by (simp add: rd_wr)

text \<open>Two bytes written one after the other are both read back when their locations differ.\<close>

lemma rd_wr_wr:
  assumes "inv s" "writable s a" "writable s b" "loc s a \<noteq> loc s b"
  shows "rd (wr (wr s a x) b y) a = x" and "rd (wr (wr s a x) b y) b = y"
  using assms by (simp_all add: rd_wr loc_wr writable_wr inv_wr)

lemma wr_commute:
  assumes "inv s" "loc s a \<noteq> loc s b"
  shows "rd (wr (wr s a x) b y) z = rd (wr (wr s b y) a x) z"
  using assms by (simp add: rd_wr loc_wr writable_wr inv_wr)

lemma copy_up_frame:
  "inv s \<Longrightarrow> inv (copy_up rd wr n src dst s) \<and> loc (copy_up rd wr n src dst s) = loc s
     \<and> writable (copy_up rd wr n src dst s) = writable s"
  by (induction n arbitrary: src dst s) (simp_all add: inv_wr loc_wr writable_wr)

lemma copy_down_frame:
  "inv s \<Longrightarrow> inv (copy_down rd wr n src dst s) \<and> loc (copy_down rd wr n src dst s) = loc s
     \<and> writable (copy_down rd wr n src dst s) = writable s"
  by (induction n arbitrary: src dst s) (simp_all add: inv_wr loc_wr writable_wr)

end

locale flat_memory = paged_memory +
  assumes loc_inj: "inv s \<Longrightarrow> loc s a = loc s b \<longleftrightarrow> a = b"
begin

lemma rd_wr_flat: "inv s \<Longrightarrow> rd (wr s a v) x = (if writable s a \<and> x = a then v else rd s x)"
  by (simp add: rd_wr loc_inj)

text \<open>
  The forward copy is a block move when no byte is overwritten before it is read, that is when the
  destination does not start inside the source.
\<close>

lemma copy_up_move:
  assumes "inv s" "n \<le> 2 ^ 16"
    and "\<And>i. i < n \<Longrightarrow> writable s (dst + of_nat i)"
    and "\<And>i j. i < j \<Longrightarrow> j < n \<Longrightarrow> src + of_nat j \<noteq> dst + of_nat i"
  shows "rd (copy_up rd wr n src dst s) x =
           (if unat (x - dst) < n then rd s (src + (x - dst)) else rd s x)"
  using assms
proof (induction n arbitrary: src dst s)
  case 0
  then show ?case by simp
next
  case (Suc n)
  let ?s = "wr s dst (rd s src)"
  have w0: "writable s dst" using Suc.prems(3) [of 0] by simp
  have IH: "rd (copy_up rd wr n (src + 1) (dst + 1) ?s) x =
      (if unat (x - (dst + 1)) < n then rd ?s (src + 1 + (x - (dst + 1))) else rd ?s x)"
  proof (rule Suc.IH)
    show "inv ?s" using Suc.prems(1) by (rule inv_wr)
    show "n \<le> 2 ^ 16" using Suc.prems(2) by simp
    show "writable ?s (dst + 1 + of_nat i)" if "i < n" for i
      using Suc.prems(3) [of "Suc i"] that Suc.prems(1) by (simp add: writable_wr add.assoc)
    show "src + 1 + of_nat j \<noteq> dst + 1 + of_nat i" if "i < j" "j < n" for i j
      using Suc.prems(4) [of "Suc i" "Suc j"] that by (simp add: add.assoc)
  qed
  show ?case
  proof (cases "x = dst")
    case True
    have "unat (- 1 :: u16) = 2 ^ 16 - 1"
      by (simp add: unsigned_minus_1_eq_mask mask_eq_exp_minus_1)
    then have "\<not> unat (x - (dst + 1)) < n" using True Suc.prems(2) by simp
    then show ?thesis using IH True w0 Suc.prems(1) by (simp add: rd_wr_flat)
  next
    case False
    then have nz: "x - dst \<noteq> 0" by simp
    have u: "unat (x - dst) = Suc (unat (x - (dst + 1)))"
      using unat_minus_one [OF nz] unat_gt_0 [of "x - dst"] nz by (simp add: diff_diff_eq)
    have src: "src + (x - dst) \<noteq> dst" if "unat (x - dst) < Suc n"
      using Suc.prems(4) [of 0 "unat (x - dst)"] u that by simp
    have e: "src + 1 + (x - (dst + 1)) = src + (x - dst)" by simp
    show ?thesis
      using IH False src unfolding e by (auto simp: u rd_wr_flat Suc.prems(1))
  qed
qed

text \<open>The idiom that clears a block: copying onto the next byte repeats the first one.\<close>

lemma copy_up_fill:
  assumes "inv s" "n < 2 ^ 16" "\<And>i. i < n \<Longrightarrow> writable s (src + 1 + of_nat i)"
  shows "rd (copy_up rd wr n src (src + 1) s) x =
           (if 0 < unat (x - src) \<and> unat (x - src) \<le> n then rd s src else rd s x)"
  using assms
proof (induction n arbitrary: src s)
  case 0
  then show ?case by auto
next
  case (Suc n)
  let ?s = "wr s (src + 1) (rd s src)"
  have w0: "writable s (src + 1)" using Suc.prems(3) [of 0] by simp
  have IH: "rd (copy_up rd wr n (src + 1) (src + 1 + 1) ?s) x =
      (if 0 < unat (x - (src + 1)) \<and> unat (x - (src + 1)) \<le> n then rd ?s (src + 1) else rd ?s x)"
  proof (rule Suc.IH)
    show "inv ?s" using Suc.prems(1) by (rule inv_wr)
    show "n < 2 ^ 16" using Suc.prems(2) by simp
    show "writable ?s (src + 1 + 1 + of_nat i)" if "i < n" for i
      using Suc.prems(3) [of "Suc i"] that Suc.prems(1) by (simp add: writable_wr add.assoc)
  qed
  have first: "rd ?s (src + 1) = rd s src" using Suc.prems(1) w0 by (simp add: rd_wr_flat)
  show ?case
  proof (cases "x = src")
    case True
    have "unat (- 1 :: u16) = 2 ^ 16 - 1"
      by (simp add: unsigned_minus_1_eq_mask mask_eq_exp_minus_1)
    then have "\<not> unat (x - (src + 1)) \<le> n" using True Suc.prems(2) by simp
    then show ?thesis using IH True Suc.prems(1) by (simp add: rd_wr_flat)
  next
    case False
    then have nz: "x - src \<noteq> 0" by simp
    have u: "unat (x - src) = Suc (unat (x - (src + 1)))"
      using unat_minus_one [OF nz] unat_gt_0 [of "x - src"] nz by (simp add: diff_diff_eq)
    have z: "unat (x - (src + 1)) = 0 \<longleftrightarrow> x = src + 1" by (simp add: unat_eq_0)
    show ?thesis
      using IH first z by (auto simp: u rd_wr_flat Suc.prems(1))
  qed
qed

end

end
