(* ===== verification/Z80_Memory.thy ===== *)
theory Z80_Memory
  imports Z80_State Memory_Contract
begin

text \<open>
  The memory contract discharged on the CPU's access functions.  \<open>mapped\<close> is the state the Spectrum
  classes set up: all four 16K pages are readable through a pointer, a page is written through the
  same pointer or is read-only, and the callback ignores a write to a read-only page.  It depends on
  the page tables and on \<open>ctx\<close> alone, so everything the CPU does to its registers keeps it.
\<close>

definition page_loc :: "'c z80 \<Rightarrow> u16 \<Rightarrow> ptr" where
  "page_loc s a =
     (case page_read s (page_of a) of Some p \<Rightarrow> ptr_add p (page_offset a) | None \<Rightarrow> (0, 0))"

definition writable_at :: "'c z80 \<Rightarrow> u16 \<Rightarrow> bool" where
  "writable_at s a \<longleftrightarrow> page_write s (page_of a) \<noteq> None"

definition mapped :: "'c bus \<Rightarrow> 'c z80 \<Rightarrow> bool" where
  "mapped B s \<longleftrightarrow>
     (\<forall>i<4. page_read s i \<noteq> None \<and> (page_write s i = None \<or> page_write s i = page_read s i))
     \<and> (\<forall>s' a v. page_write s' = page_write s \<and> ctx s' = ctx s \<and> page_write s (page_of a) = None
          \<longrightarrow> mem_write B s' a v = s')"

text \<open>No two pages overlap.\<close>

definition pages_disjoint :: "'c z80 \<Rightarrow> bool" where
  "pages_disjoint s \<longleftrightarrow>
     (\<forall>i<4. \<forall>j<4. \<forall>p q m n. i \<noteq> j \<and> page_read s i = Some p \<and> page_read s j = Some q
        \<and> m < 0x4000 \<and> n < 0x4000 \<longrightarrow> ptr_add p m \<noteq> ptr_add q n)"

definition flat_mapped :: "'c bus \<Rightarrow> 'c z80 \<Rightarrow> bool" where
  "flat_mapped B s \<longleftrightarrow> mapped B s \<and> pages_disjoint s"

lemma page_of_div: "page_of a = unat a div 0x4000"
  unfolding page_of_def unat_drop_bit_eq by (simp add: drop_bit_eq_div)

lemma page_offset_mod: "page_offset a = unat a mod 0x4000"
proof -
  have m: "(0x3FFF :: u16) = mask 14" by (simp add: mask_eq_exp_minus_1)
  show ?thesis
    unfolding page_offset_def m take_bit_eq_mask [symmetric] unsigned_take_bit_eq
    by (simp add: take_bit_eq_mod)
qed

lemma page_of_less [simp]: "page_of a < 4"
  using unat16_bound [of a] unfolding page_of_div by (simp add: less_mult_imp_div_less)

lemma page_offset_less [simp]: "page_offset a < 0x4000"
  by (simp add: page_offset_mod)

lemma page_eqI: "page_of a = page_of b \<Longrightarrow> page_offset a = page_offset b \<Longrightarrow> a = b"
  unfolding page_of_div page_offset_mod by (metis div_mult_mod_eq word_unat_eq_iff)

lemma mapped_cong:
  assumes "page_read s' = page_read s" "page_write s' = page_write s" "ctx s' = ctx s"
  shows "mapped B s' = mapped B s"
  unfolding mapped_def assms ..

lemma pages_disjoint_cong:
  "page_read s' = page_read s \<Longrightarrow> pages_disjoint s' = pages_disjoint s"
  by (simp add: pages_disjoint_def)

lemma mapped_page:
  assumes "mapped B s"
  obtains p where "page_read s (page_of a) = Some p"
  using assms page_of_less [of a] unfolding mapped_def by blast

lemma mapped_page_write:
  "mapped B s \<Longrightarrow> page_write s (page_of a) = Some p \<Longrightarrow> page_read s (page_of a) = Some p"
  using page_of_less [of a] unfolding mapped_def by (metis option.distinct(1))

lemma mapped_rom:
  "mapped B s \<Longrightarrow> page_write s (page_of a) = None \<Longrightarrow> mem_write B s a v = s"
  unfolding mapped_def by blast

lemma RB_mapped: "mapped B s \<Longrightarrow> RB B s a = heap s (page_loc s a)"
  by (rule mapped_page [of B s a]) (simp_all add: RB_def page_loc_def)

lemma WB_mapped:
  assumes "mapped B s"
  shows "WB B s a v =
    (if writable_at s a then s\<lparr>heap := (heap s)(page_loc s a := v)\<rparr> else s)"
proof (cases "page_write s (page_of a)")
  case None
  with assms show ?thesis by (simp add: WB_def writable_at_def mapped_rom)
next
  case (Some p)
  with mapped_page_write [OF assms Some] show ?thesis
    by (simp add: WB_def writable_at_def page_loc_def)
qed

lemma mapped_WB: "mapped B s \<Longrightarrow> mapped B (WB B s a v)"
  by (subst mapped_cong [of _ s]) (simp_all add: WB_mapped)

lemma page_loc_cong: "page_read s' = page_read s \<Longrightarrow> page_loc s' = page_loc s"
  by (rule ext) (simp add: page_loc_def)

lemma writable_at_cong: "page_write s' = page_write s \<Longrightarrow> writable_at s' = writable_at s"
  by (rule ext) (simp add: writable_at_def)

interpretation cpu_mem: paged_memory "RB B" "WB B" page_loc writable_at "mapped B" for B
proof
  fix s a v x
  assume m: "mapped B s"
  then have m': "mapped B (WB B s a v)" by (rule mapped_WB)
  have l: "page_loc (WB B s a v) = page_loc s" by (rule page_loc_cong) (simp add: WB_mapped [OF m])
  show "RB B (WB B s a v) x = (if writable_at s a \<and> page_loc s x = page_loc s a then v else RB B s x)"
    unfolding RB_mapped [OF m'] RB_mapped [OF m] l unfolding WB_mapped [OF m] by simp
  show "mapped B (WB B s a v)" by (rule m')
next
  fix s a v
  assume m: "mapped B s"
  show "page_loc (WB B s a v) = page_loc s" by (rule page_loc_cong) (simp add: WB_mapped [OF m])
  show "writable_at (WB B s a v) = writable_at s"
    by (rule writable_at_cong) (simp add: WB_mapped [OF m])
qed

interpretation cpu_flat: flat_memory "RB B" "WB B" page_loc writable_at "flat_mapped B" for B
proof
  fix s a v x
  assume "flat_mapped B s"
  then have m: "mapped B s" and d: "pages_disjoint s" by (simp_all add: flat_mapped_def)
  show "RB B (WB B s a v) x = (if writable_at s a \<and> page_loc s x = page_loc s a then v else RB B s x)"
    using m by (rule cpu_mem.rd_wr)
  have "page_read (WB B s a v) = page_read s" by (simp add: WB_mapped [OF m])
  then show "flat_mapped B (WB B s a v)"
    using cpu_mem.inv_wr [OF m] d pages_disjoint_cong [of "WB B s a v" s]
    unfolding flat_mapped_def by blast
next
  fix s a v
  assume "flat_mapped B s"
  then have m: "mapped B s" by (simp add: flat_mapped_def)
  show "page_loc (WB B s a v) = page_loc s" using m by (rule cpu_mem.loc_wr)
  show "writable_at (WB B s a v) = writable_at s" using m by (rule cpu_mem.writable_wr)
next
  fix s a b
  assume "flat_mapped B s"
  then have m: "mapped B s" and d: "pages_disjoint s" by (simp_all add: flat_mapped_def)
  obtain p q where pq: "page_read s (page_of a) = Some p" "page_read s (page_of b) = Some q"
    by (meson m mapped_page)
  show "page_loc s a = page_loc s b \<longleftrightarrow> a = b"
  proof
    assume "page_loc s a = page_loc s b"
    then have eq: "ptr_add p (page_offset a) = ptr_add q (page_offset b)"
      using pq by (simp add: page_loc_def)
    have pg: "page_of a = page_of b"
      using d pq eq unfolding pages_disjoint_def by (meson page_of_less page_offset_less)
    with pq eq have "page_offset a = page_offset b" by simp
    with pg show "a = b" by (rule page_eqI)
  qed simp
qed

end
