(* ===== verification/Z80_Sample.thy ===== *)
theory Z80_Sample
  imports Z80_Memory Z80_Step
begin

text \<open>
  A CPU with 64K of plain RAM and no devices, the concrete input of the witnesses: four pages of
  one allocation, the program given as a function of the address.
\<close>

definition sample_bus :: "unit bus" where
  "sample_bus = \<lparr>mem_read = \<lambda>s a. 0xFF, mem_write = \<lambda>s a v. s,
                 io_read = \<lambda>s p. (0xFF, s), io_write = \<lambda>s p v. s\<rparr>"

definition sample_pages :: "nat \<Rightarrow> ptr option" where
  "sample_pages i = (if i < 4 then Some (0, i * 0x4000) else None)"

definition sample :: "(nat \<Rightarrow> u8) \<Rightarrow> unit z80" where
  "sample m = (z80_init (z80_zero (m \<circ> snd) ()))\<lparr>page_read := sample_pages, page_write := sample_pages\<rparr>"

text \<open>A program from address 0, the rest of memory zero.\<close>

definition program :: "u8 list \<Rightarrow> nat \<Rightarrow> u8" where
  "program bs a = (if a < length bs then bs ! a else 0)"

lemma sample_fields [simp]:
  "page_read (sample m) = sample_pages" "page_write (sample m) = sample_pages"
  "heap (sample m) = m \<circ> snd" "reg_pc (sample m) = 0" "halted (sample m) = 0" "ei_delay (sample m) = 0"
  "reg_sp (sample m) = 0xFFFF" "reg_a (sample m) = 0xFF" "reg_f (sample m) = 0xFF"
  "reg_b (sample m) = 0" "reg_c (sample m) = 0" "reg_d (sample m) = 0" "reg_e (sample m) = 0"
  "reg_h (sample m) = 0" "reg_l (sample m) = 0" "iff1 (sample m) = 0" "iff2 (sample m) = 0"
  "reg_ix (sample m) = 0" "reg_iy (sample m) = 0" "clocks (sample m) = 0" "ctx (sample m) = ()"
  "reg_r (sample m) = 0" "imode (sample m) = 0" "reg_i (sample m) = 0"
  by (simp_all add: sample_def z80_init_def z80_zero_def)

lemma sample_flat:
  assumes "page_read s = sample_pages" "page_write s = sample_pages"
  shows "flat_mapped sample_bus s"
proof -
  have "mapped sample_bus s"
    using assms by (simp add: mapped_def sample_pages_def sample_bus_def)
  moreover have "pages_disjoint s"
  proof -
    have "i * 0x4000 + m \<noteq> j * 0x4000 + n" if "i \<noteq> j" "m < 0x4000" "n < 0x4000" for i j m n :: nat
    proof
      assume "i * 0x4000 + m = j * 0x4000 + n"
      then have "(i * 0x4000 + m) div 0x4000 = (j * 0x4000 + n) div 0x4000" by simp
      with that show False by simp
    qed
    then show ?thesis
      using assms by (auto simp: pages_disjoint_def sample_pages_def ptr_add_def)
  qed
  ultimately show ?thesis by (simp add: flat_mapped_def)
qed

lemma sample_mapped:
  "page_read s = sample_pages \<Longrightarrow> page_write s = sample_pages \<Longrightarrow> mapped sample_bus s"
  using sample_flat [of s] by (simp add: flat_mapped_def)

lemma sample_RB:
  assumes "page_read s = sample_pages"
  shows "RB sample_bus s a = heap s (0, unat a)"
proof -
  have "page_of a * 0x4000 + page_offset a = unat a"
    unfolding page_of_div page_offset_mod by simp
  then show ?thesis
    using assms by (simp add: RB_def sample_pages_def ptr_add_def)
qed

lemma sample_writable: "page_write s = sample_pages \<Longrightarrow> writable_at s a"
  by (simp add: writable_at_def sample_pages_def)

end
