(* ===== verification/Z80_Prefix.thy ===== *)
theory Z80_Prefix
  imports Z80_Frame Z80_Memory Z80_Sample
begin

text \<open>
  Termination of \<open>z80_step\<close> and the meaning of a chain of DD and FD prefixes (the \<open>default\<close> case of
  \<open>exec_ddfd\<close>, \<open>src/src/z80/z80.c\<close> lines 1265 to 1294).  Every path but the chain is a finite case
  analysis; the chain ends exactly when memory holds a byte that is no prefix, and then all its
  prefixes but the last are worth a NOP each.
\<close>

definition is_prefix :: "u8 \<Rightarrow> bool" where
  "is_prefix op \<longleftrightarrow> op = 0xDD \<or> op = 0xFD"

lemma RB_cong:
  "mapped B s \<Longrightarrow> page_read s' = page_read s \<Longrightarrow> heap s' = heap s \<Longrightarrow> RB B s' a = RB B s a"
  by (rule mapped_page [of B s a]) (simp_all add: RB_def)

lemma mapped_view: "host_view s' = host_view s \<Longrightarrow> mapped B s' = mapped B s"
  by (rule mapped_cong) (simp_all add: host_view_def)

lemma RB_view: "mapped B s \<Longrightarrow> host_view s' = host_view s \<Longrightarrow> RB B s' a = RB B s a"
  by (rule RB_cong) (simp_all add: host_view_def)

text \<open>Fetching k bytes of the stream as opcodes: PC and R advance.\<close>

definition skip :: "nat \<Rightarrow> 'c z80 \<Rightarrow> 'c z80" where
  "skip k s = (INC_R ^^ k) (s\<lparr>reg_pc := reg_pc s + of_nat k\<rparr>)"

lemma INC_R_fields [simp]:
  "reg_pc (INC_R s) = reg_pc s" "page_read (INC_R s) = page_read s" "heap (INC_R s) = heap s"
  "host_view (INC_R s) = host_view s" "reg_a (INC_R s) = reg_a s" "halted (INC_R s) = halted s"
  "ei_delay (INC_R s) = ei_delay s" "clocks (INC_R s) = clocks s"
  by (simp_all add: INC_R_def host_view_def)

lemma INC_R_pow_fields [simp]:
  "reg_pc ((INC_R ^^ k) s) = reg_pc s" "host_view ((INC_R ^^ k) s) = host_view s"
  "halted ((INC_R ^^ k) s) = halted s" "ei_delay ((INC_R ^^ k) s) = ei_delay s"
  by (induction k) simp_all

lemma INC_R_commute:
  "INC_R (s\<lparr>reg_pc := p\<rparr>) = (INC_R s)\<lparr>reg_pc := p\<rparr>" "INC_R (s\<lparr>ei_delay := e\<rparr>) = (INC_R s)\<lparr>ei_delay := e\<rparr>"
  by (simp_all add: INC_R_def)

lemma INC_R_pow_commute:
  "(INC_R ^^ k) (s\<lparr>reg_pc := p\<rparr>) = ((INC_R ^^ k) s)\<lparr>reg_pc := p\<rparr>"
  "(INC_R ^^ k) (s\<lparr>ei_delay := e\<rparr>) = ((INC_R ^^ k) s)\<lparr>ei_delay := e\<rparr>"
  by (induction k) (simp_all add: INC_R_commute)

lemma skip_fields [simp]:
  "reg_pc (skip k s) = reg_pc s + of_nat k" "host_view (skip k s) = host_view s"
  "halted (skip k s) = halted s" "ei_delay (skip k s) = ei_delay s"
  by (simp_all add: skip_def) (simp add: host_view_def)

lemma skip_0 [simp]: "skip 0 s = s"
  by (simp add: skip_def)

lemma skip_Suc: "skip (Suc k) s = skip k (INC_R (s\<lparr>reg_pc := reg_pc s + 1\<rparr>))"
  by (simp add: skip_def INC_R_commute INC_R_pow_commute funpow_swap1 add.assoc)

lemma skip_ei_delay: "skip k (s\<lparr>ei_delay := e\<rparr>) = (skip k s)\<lparr>ei_delay := e\<rparr>"
  by (simp add: skip_def INC_R_pow_commute INC_R_commute)

lemma FETCH_mapped:
  assumes "mapped B s"
  shows "FETCH B s = (RB B s (reg_pc s), s\<lparr>reg_pc := reg_pc s + 1\<rparr>)"
  using RB_cong [OF assms, of "s\<lparr>reg_pc := reg_pc s + 1\<rparr>"] by (simp add: FETCH_def Let_def)

lemma FETCH_skip1:
  assumes "mapped B s"
  shows "fst (FETCH B s) = RB B s (reg_pc s)" and "INC_R (snd (FETCH B s)) = skip (Suc 0) s"
  using FETCH_mapped [OF assms] by (simp_all add: skip_def)

text \<open>The rewind undoes the last fetch, R included.\<close>

lemma rewind_skip1: "rewind_byte (skip (Suc 0) s) = s"
  by (simp add: rewind_byte_def skip_def INC_R_def dec_inc_low7)

lemma skip_skip: "skip j (skip k s) = skip (j + k) s"
  by (simp add: skip_def INC_R_commute INC_R_pow_commute funpow_add ac_simps)

text \<open>The loop, run to its end.\<close>

lemma prefix_chain_Some:
  assumes "mapped B s"
    and "\<forall>j<n. is_prefix (RB B s (reg_pc s + of_nat j))"
    and "\<not> is_prefix (RB B s (reg_pc s + of_nat n))"
  shows "prefix_chain B m r s =
    Some (m + 1 + int n, if n = 0 then r else prefix_reg (RB B s (reg_pc s + of_nat n - 1)), skip (Suc n) s)"
  using assms
proof (induction n arbitrary: m r s)
  case 0
  then show ?case
    using FETCH_skip1 [OF 0(1)] by (simp add: prefix_chain.simps is_prefix_def Let_def case_prod_beta)
next
  case (Suc n)
  have m': "mapped B (skip (Suc 0) s)" using Suc.prems(1) by (subst mapped_view [of _ s]) simp_all
  have RB': "RB B (skip (Suc 0) s) a = RB B s a" for a using Suc.prems(1) by (rule RB_view) simp
  have first: "is_prefix (RB B s (reg_pc s))" using spec [OF Suc.prems(2), of 0] by simp
  have all: "\<forall>j<n. is_prefix (RB B (skip (Suc 0) s) (reg_pc (skip (Suc 0) s) + of_nat j))"
  proof (intro allI impI)
    fix j assume "j < n"
    then have "is_prefix (RB B s (reg_pc s + of_nat (Suc j)))" using Suc.prems(2) by blast
    then show "is_prefix (RB B (skip (Suc 0) s) (reg_pc (skip (Suc 0) s) + of_nat j))"
      by (simp add: RB' add.assoc)
  qed
  have last: "\<not> is_prefix (RB B (skip (Suc 0) s) (reg_pc (skip (Suc 0) s) + of_nat n))"
    using Suc.prems(3) by (simp add: RB' add.assoc)
  note IH = Suc.IH [OF m' all last]
  have "prefix_chain B m r s = prefix_chain B (m + 1) (prefix_reg (RB B s (reg_pc s))) (skip (Suc 0) s)"
    using first FETCH_skip1 [OF Suc.prems(1)]
    by (subst prefix_chain.simps) (simp add: is_prefix_def Let_def case_prod_beta)
  then show ?case using IH by (auto simp: RB' skip_skip ac_simps)
qed

text \<open>Where it ends, it has met such a byte.\<close>

lemma prefix_chain_ends:
  assumes "prefix_chain B m r s = Some y" "mapped B s"
  shows "\<exists>a. \<not> is_prefix (RB B s a)"
  using assms
proof (induction B m r s y rule: prefix_chain.raw_induct [rotated, consumes 1, case_names step])
  case (step chain B m r s y)
  note f = FETCH_skip1 [OF step(3)]
  show ?case
  proof (cases "is_prefix (RB B s (reg_pc s))")
    case True
    then have "chain B (m + 1) (prefix_reg (RB B s (reg_pc s))) (skip (Suc 0) s) = Some y"
      using step(2) by (simp add: Let_def case_prod_beta f is_prefix_def split: if_splits)
    moreover have "mapped B (skip (Suc 0) s)" using step(3) by (subst mapped_view [of _ s]) simp_all
    ultimately obtain a where "\<not> is_prefix (RB B (skip (Suc 0) s) a)" using step(1) by blast
    moreover have "RB B (skip (Suc 0) s) a = RB B s a" using step(3) by (rule RB_view) simp
    ultimately show ?thesis by auto
  qed blast
qed

section \<open>When an instruction returns\<close>

lemma ddfd_case_prefix: "is_prefix op \<Longrightarrow> ddfd_case B s i op = None"
  unfolding is_prefix_def
  by (elim disjE) (simp_all add: ddfd_case_def or_else_def ddfd_ld8_def ddfd_ld_half_def ddfd_16_def
      ddfd_incdec_def ddfd_stack_def ddfd_alu_def Let_def)

lemma exec_ddfd_single:
  assumes "mapped B s" "\<not> is_prefix (RB B s (reg_pc s))"
  shows "exec_ddfd B s i \<noteq> None"
  using assms FETCH_skip1 [OF assms(1)]
  by (subst exec_ddfd.simps) (auto simp: is_prefix_def Let_def case_prod_beta split: option.splits)

lemma exec_ddfd_chain:
  assumes "mapped B s"
    and "\<forall>j<Suc n. is_prefix (RB B s (reg_pc s + of_nat j))"
    and "\<not> is_prefix (RB B s (reg_pc s + of_nat (Suc n)))"
  shows "exec_ddfd B s i =
    map_option (\<lambda>(t, s'). (4 * int (Suc n) + t, s'))
      (exec_ddfd B (skip (Suc n) s) (prefix_reg (RB B s (reg_pc s + of_nat n))))"
proof -
  let ?op = "RB B s (reg_pc s)" and ?s = "skip (Suc 0) s"
  have op: "is_prefix ?op" using spec [OF assms(2), of 0] by simp
  then have nCB: "?op \<noteq> 0xCB" by (auto simp: is_prefix_def)
  have m': "mapped B ?s" using assms(1) by (subst mapped_view [of _ s]) simp_all
  have RB': "RB B ?s a = RB B s a" for a using assms(1) by (rule RB_view) simp
  have all: "\<forall>j<n. is_prefix (RB B ?s (reg_pc ?s + of_nat j))"
  proof (intro allI impI)
    fix j assume "j < n"
    then have "is_prefix (RB B s (reg_pc s + of_nat (Suc j)))" using assms(2) by blast
    then show "is_prefix (RB B ?s (reg_pc ?s + of_nat j))" by (simp add: RB' add.assoc)
  qed
  have chain: "prefix_chain B 1 (prefix_reg ?op) ?s =
      Some (2 + int n, prefix_reg (RB B s (reg_pc s + of_nat n)), skip (Suc (Suc n)) s)"
    using prefix_chain_Some [OF m' all, of 1 "prefix_reg ?op"] assms(3)
    by (auto simp: RB' skip_skip ac_simps)
  have re: "rewind_byte (skip (Suc (Suc n)) s) = skip (Suc n) s"
    using rewind_skip1 [of "skip (Suc n) s"] by (simp add: skip_skip)
  have "exec_ddfd B s i = Option.bind (prefix_chain B 1 (prefix_reg ?op) ?s) (\<lambda>(prefixes, last_prefix, s).
      Option.bind (exec_ddfd B (rewind_byte s) last_prefix) (\<lambda>(t, s). Some ((prefixes - 1) * 4 + t, s)))"
    using op nCB ddfd_case_prefix [OF op, of B ?s i] FETCH_skip1 [OF assms(1)]
    by (subst exec_ddfd.simps) (simp add: Let_def case_prod_beta is_prefix_def)
  then show ?thesis
    unfolding chain by (auto simp: re map_option_case split: option.splits)
qed

lemma z80_step_unfold:
  assumes "mapped B s" "halted s = 0"
  shows "z80_step B s =
    map_option (\<lambda>(t, s'). (t, s'\<lparr>clocks := clocks s' + of_int t\<rparr>))
      (exec_opcode B (skip (Suc 0) (s\<lparr>ei_delay := 0\<rparr>)) (RB B s (reg_pc s)))"
proof -
  have e: "(if ei_delay s \<noteq> 0 then s\<lparr>ei_delay := 0\<rparr> else s) = s\<lparr>ei_delay := 0\<rparr>" by simp
  have m: "mapped B (s\<lparr>ei_delay := 0\<rparr>)" using assms(1) by (subst mapped_cong [of _ s]) simp_all
  have r: "RB B (s\<lparr>ei_delay := 0\<rparr>) (reg_pc s) = RB B s (reg_pc s)" using assms(1) by (rule RB_cong) simp_all
  show ?thesis
    using assms(2) FETCH_skip1 [OF m]
    unfolding z80_step_def e Let_def
    by (auto simp: case_prod_beta r map_option_case split: option.splits)
qed

lemma exec_opcode_prefix:
  "is_prefix op \<Longrightarrow> exec_opcode B s op = exec_ddfd B s (prefix_reg op)"
  by (auto simp: is_prefix_def exec_opcode_def prefix_reg_def)

lemma exec_opcode_base: "\<not> is_prefix op \<Longrightarrow> exec_opcode B s op \<noteq> None"
  by (simp add: is_prefix_def exec_base_opcode)

lemma z80_step_chain:
  assumes "mapped B s" "halted s = 0"
    and "\<forall>j<Suc k. is_prefix (RB B s (reg_pc s + of_nat j))"
    and "\<not> is_prefix (RB B s (reg_pc s + of_nat (Suc k)))"
  shows "z80_step B s =
    map_option (\<lambda>(t, s'). (4 * int k + t, s'\<lparr>clocks := clocks s' + of_nat (4 * k)\<rparr>))
      (z80_step B (skip k s))"
proof (cases k)
  case 0
  then show ?thesis by (cases "z80_step B s") auto
next
  case (Suc n)
  let ?e = "s\<lparr>ei_delay := 0\<rparr>"
  let ?s = "skip (Suc 0) ?e"
  have mk: "mapped B (skip k s)" using assms(1) by (subst mapped_view [of _ s]) simp_all
  have m1: "mapped B ?s" using assms(1) by (subst mapped_cong [of _ s]) (simp_all add: skip_def INC_R_def)
  have RB1: "RB B ?s a = RB B s a" for a
    using assms(1) by (rule RB_cong) (simp_all add: skip_def INC_R_def)
  have RBk: "RB B (skip k s) a = RB B s a" for a using assms(1) by (rule RB_view) simp
  have p0: "is_prefix (RB B s (reg_pc s))" using spec [OF assms(3), of 0] by simp
  have pk: "is_prefix (RB B s (reg_pc s + of_nat k))" using spec [OF assms(3), of k] by simp
  have all: "\<forall>j<Suc n. is_prefix (RB B ?s (reg_pc ?s + of_nat j))"
  proof (intro allI impI)
    fix j assume "j < Suc n"
    then have "is_prefix (RB B s (reg_pc s + of_nat (Suc j)))" using assms(3) Suc by (meson Suc_mono)
    then show "is_prefix (RB B ?s (reg_pc ?s + of_nat j))" by (simp add: RB1 add.assoc)
  qed
  have last: "\<not> is_prefix (RB B ?s (reg_pc ?s + of_nat (Suc n)))"
    using assms(4) Suc by (simp add: RB1 add.assoc)
  have pc: "reg_pc ?s + of_nat n = reg_pc s + of_nat k" using Suc by (simp add: ac_simps)
  have sk: "skip (Suc n) ?s = skip (Suc 0) ((skip k s)\<lparr>ei_delay := 0\<rparr>)"
    using Suc by (simp add: skip_skip skip_ei_delay [symmetric])
  have l: "exec_opcode B ?s (RB B s (reg_pc s)) =
      map_option (\<lambda>(t, s'). (4 * int k + t, s'))
        (exec_opcode B (skip (Suc 0) ((skip k s)\<lparr>ei_delay := 0\<rparr>)) (RB B s (reg_pc s + of_nat k)))"
    using exec_ddfd_chain [OF m1 all last, of "prefix_reg (RB B s (reg_pc s))"] Suc
    unfolding exec_opcode_prefix [OF p0] exec_opcode_prefix [OF pk] pc sk RB1 by simp
  have k: "halted (skip k s) = 0" using assms(2) by simp
  have pck: "RB B (skip k s) (reg_pc (skip k s)) = RB B s (reg_pc s + of_nat k)" by (simp add: RBk)
  show ?thesis
    unfolding z80_step_unfold [OF assms(1,2)] z80_step_unfold [OF mk k] l pck
    by (cases "exec_opcode B (skip (Suc 0) ((skip k s)\<lparr>ei_delay := 0\<rparr>)) (RB B s (reg_pc s + of_nat k))")
       (auto simp: ac_simps)
qed

lemma fetched_op:
  assumes "mapped B s"
  defines "s' \<equiv> skip (Suc 0) (s\<lparr>ei_delay := 0\<rparr>)"
  shows "mapped B s'" and "RB B s' = RB B s" and "reg_pc s' = reg_pc s + 1"
proof -
  show "mapped B s'"
    using assms(1) unfolding s'_def by (subst mapped_cong [of _ s]) (simp_all add: skip_def INC_R_def)
  show "RB B s' = RB B s"
    by (rule ext, rule RB_cong [OF assms(1)]) (simp_all add: s'_def skip_def INC_R_def)
qed (simp add: s'_def)

lemma all_prefix_none:
  assumes "mapped B s" "halted s = 0" "\<forall>a. is_prefix (RB B s a)"
  shows "z80_step B s = None"
proof -
  let ?s = "skip (Suc 0) (s\<lparr>ei_delay := 0\<rparr>)"
  note f = fetched_op [OF assms(1)]
  have chain: "prefix_chain B m r s' = None" if "mapped B s'" "RB B s' = RB B s" for m r s'
    using prefix_chain_ends [of B m r s'] that assms(3) by (cases "prefix_chain B m r s'") auto
  have "mapped B (skip (Suc 0) ?s)" using f(1) by (subst mapped_view [of _ ?s]) simp_all
  moreover have "RB B (skip (Suc 0) ?s) a = RB B s a" for a
    using RB_view [OF f(1), of "skip (Suc 0) ?s" a] f(2) by simp
  ultimately have c: "prefix_chain B m r (skip (Suc 0) ?s) = None" for m r
    by (intro chain) auto
  have p: "is_prefix (RB B ?s (reg_pc ?s))" using assms(3) by (simp add: f(2))
  have "exec_ddfd B ?s i = None" for i
    using p c ddfd_case_prefix [OF p, of B "skip (Suc 0) ?s" i] FETCH_skip1 [OF f(1)]
    by (subst exec_ddfd.simps) (auto simp: Let_def case_prod_beta is_prefix_def)
  then show ?thesis
    using assms(3) by (simp add: z80_step_unfold [OF assms(1,2)] exec_opcode_prefix)
qed

text \<open>An instruction whose second byte is no prefix returns.\<close>

lemma short_chain_returns:
  assumes "mapped B s" "halted s = 0" "\<not> is_prefix (RB B s (reg_pc s + 1))"
  shows "z80_step B s \<noteq> None"
proof -
  note f = fetched_op [OF assms(1)]
  have "exec_ddfd B (skip (Suc 0) (s\<lparr>ei_delay := 0\<rparr>)) i \<noteq> None" for i
    using assms(3) by (intro exec_ddfd_single [OF f(1)]) (simp only: f(2,3), simp)
  then show ?thesis
    by (cases "is_prefix (RB B s (reg_pc s))")
       (simp_all add: z80_step_unfold [OF assms(1,2)] exec_opcode_prefix exec_opcode_base)
qed

lemma non_prefix_returns:
  assumes "mapped B s" "halted s = 0" "\<not> is_prefix (RB B s a)"
  shows "z80_step B s \<noteq> None"
proof -
  let ?P = "\<lambda>n. \<not> is_prefix (RB B s (reg_pc s + of_nat n))"
  have "?P (unat (a - reg_pc s))" using assms(3) by simp
  then obtain n where n: "?P n" "\<forall>j<n. \<not> ?P j" using exists_least_iff [of ?P] by blast
  show ?thesis
  proof (cases n)
    case 0
    then show ?thesis using n(1) by (simp add: z80_step_unfold [OF assms(1,2)] exec_opcode_base)
  next
    case (Suc k)
    let ?t = "skip k s"
    have mt: "mapped B ?t" using assms(1) by (subst mapped_view [of _ s]) simp_all
    have RBt: "RB B ?t x = RB B s x" for x using assms(1) by (rule RB_view) simp
    have "z80_step B ?t \<noteq> None"
      using n(1) Suc assms(2) by (intro short_chain_returns [OF mt]) (simp_all add: RBt ac_simps)
    moreover have "\<forall>j<Suc k. is_prefix (RB B s (reg_pc s + of_nat j))" using n(2) Suc by blast
    ultimately show ?thesis using z80_step_chain [OF assms(1,2)] n(1) Suc by simp
  qed
qed

section \<open>Properties\<close>

text \<open>C5 (z80_step_returns_iff): With all four pages mapped, z80_step fails to return exactly when the
CPU is not halted and every byte of the 64K address space is a DD or FD prefix; otherwise the
prefix loop ends.\<close>

theorem z80_step_returns_iff:
  assumes "mapped B s"
  shows "z80_step B s = None \<longleftrightarrow> halted s = 0 \<and> (\<forall>a. is_prefix (RB B s a))"
proof (cases "halted s = 0")
  case False
  then show ?thesis by (simp add: z80_step_def Let_def)
next
  case True
  then show ?thesis
    using all_prefix_none [OF assms] non_prefix_returns [OF assms] by blast
qed

lemma z80_step_returns_iff_witness:
  "z80_step sample_bus (sample (\<lambda>a. 0xDD)) = None \<and> z80_step sample_bus (sample (program [0xDD, 0xFD])) \<noteq> None"
proof -
  have RB: "RB sample_bus (sample m) a = m (unat a)" for m a by (simp add: sample_RB)
  have "z80_step sample_bus (sample (\<lambda>a. 0xDD)) = None"
    by (subst z80_step_returns_iff) (simp_all add: sample_mapped RB is_prefix_def)
  moreover have "\<not> is_prefix (RB sample_bus (sample (program [0xDD, 0xFD])) 5)"
    by (simp add: RB program_def is_prefix_def)
  then have "z80_step sample_bus (sample (program [0xDD, 0xFD])) \<noteq> None"
    by (subst z80_step_returns_iff) (auto simp: sample_mapped)
  ultimately show ?thesis by blast
qed

text \<open>C27 (prefix_chain_nops): A chain of k + 1 DD/FD prefixes behaves as k NOPs of 4 T-states followed
by the instruction with the last prefix alone: same state, PC and R included, and 4k more
T-states; and it returns.\<close>

theorem prefix_chain_nops:
  assumes "mapped B s" "halted s = 0"
    and "\<forall>j<Suc k. is_prefix (RB B s (reg_pc s + of_nat j))"
    and "\<not> is_prefix (RB B s (reg_pc s + of_nat (Suc k)))"
  shows "z80_step B s =
      map_option (\<lambda>(t, s'). (4 * int k + t, s'\<lparr>clocks := clocks s' + of_nat (4 * k)\<rparr>))
        (z80_step B (skip k s))
    \<and> z80_step B s \<noteq> None"
  using z80_step_chain [OF assms] non_prefix_returns [OF assms(1,2,4)] by blast

lemma prefix_chain_nops_witness:
  "\<exists>t s'. z80_step sample_bus (skip 2 (sample (program [0xDD, 0xFD, 0xDD, 0x23]))) = Some (t, s')
     \<and> map_option fst (z80_step sample_bus (sample (program [0xDD, 0xFD, 0xDD, 0x23]))) = Some (8 + t)"
proof -
  let ?s = "sample (program [0xDD, 0xFD, 0xDD, 0x23])"
  have RB: "RB sample_bus ?s a = program [0xDD, 0xFD, 0xDD, 0x23] (unat a)" for a by (simp add: sample_RB)
  have "z80_step sample_bus ?s =
      map_option (\<lambda>(t, s'). (4 * int 2 + t, s'\<lparr>clocks := clocks s' + of_nat (4 * 2)\<rparr>))
        (z80_step sample_bus (skip 2 ?s)) \<and> z80_step sample_bus ?s \<noteq> None"
    by (rule prefix_chain_nops)
       (auto simp: sample_mapped RB program_def is_prefix_def less_3_cases)
  then show ?thesis by (cases "z80_step sample_bus (skip 2 ?s)") auto
qed

end
