(* ===== verification/Z80_Block.thy ===== *)
theory Z80_Block
  imports Z80_Prefix Z80_Sample
begin

text \<open>
  The repeating block instructions as whole runs.  LDIR re-executes itself through \<open>pc -= 2\<close> until
  BC is zero; the theorems say what a run of it leaves in memory and in the registers and how many
  T-states it takes.
\<close>

section \<open>Stepping an ED instruction\<close>

lemma INC_R_pow_upd: "\<exists>r. (INC_R ^^ k) s = s\<lparr>reg_r := r\<rparr>"
proof (induction k)
  case 0
  have "(INC_R ^^ 0) s = s\<lparr>reg_r := reg_r s\<rparr>" by simp
  then show ?case ..
next
  case (Suc k)
  then obtain r where "(INC_R ^^ k) s = s\<lparr>reg_r := r\<rparr>" by blast
  then have "(INC_R ^^ Suc k) s = s\<lparr>reg_r := (r AND 0x80) OR ((r + 1) AND 0x7F)\<rparr>"
    by (simp add: INC_R_def)
  then show ?case by blast
qed

lemma skip_upd: obtains r where "skip k s = s\<lparr>reg_pc := reg_pc s + of_nat k, reg_r := r\<rparr>"
  using INC_R_pow_upd [of k "s\<lparr>reg_pc := reg_pc s + of_nat k\<rparr>"] unfolding skip_def by auto

lemma ed_step:
  assumes "mapped B s" "halted s = 0" "RB B s (reg_pc s) = 0xED"
  defines "s' \<equiv> skip 2 (s\<lparr>ei_delay := 0\<rparr>)"
  shows "z80_step B s =
    (let (t, u) = ed_dispatch B s' (RB B s (reg_pc s + 1)) in Some (t, u\<lparr>clocks := clocks u + of_int t\<rparr>))"
proof -
  let ?s = "skip (Suc 0) (s\<lparr>ei_delay := 0\<rparr>)"
  note f = fetched_op [OF assms(1)]
  have "INC_R (snd (FETCH B ?s)) = s'" and "fst (FETCH B ?s) = RB B s (reg_pc s + 1)"
    using FETCH_skip1 [OF f(1)] f(2,3) by (simp_all add: s'_def skip_skip numeral_2_eq_2)
  then have "exec_ed B ?s = ed_dispatch B s' (RB B s (reg_pc s + 1))"
    by (simp add: exec_ed_def Let_def case_prod_beta)
  then show ?thesis
    by (simp add: z80_step_unfold [OF assms(1,2)] assms(3) exec_opcode_def case_prod_beta Let_def)
qed

section \<open>LDIR\<close>

lemma pair_upd [simp]:
  "BC (SET_DE s v) = BC s" "BC (SET_HL s v) = BC s" "DE (SET_BC s v) = DE s" "DE (SET_HL s v) = DE s"
  "HL (SET_BC s v) = HL s" "HL (SET_DE s v) = HL s"
  "BC (heap_update h s) = BC s" "DE (heap_update h s) = DE s" "HL (heap_update h s) = HL s"
  "BC (reg_f_update f s) = BC s" "DE (reg_f_update f s) = DE s" "HL (reg_f_update f s) = HL s"
  "BC (reg_r_update f s) = BC s" "DE (reg_r_update f s) = DE s" "HL (reg_r_update f s) = HL s"
  "BC (reg_pc_update g s) = BC s" "DE (reg_pc_update g s) = DE s" "HL (reg_pc_update g s) = HL s"
  "BC (ei_delay_update f s) = BC s" "DE (ei_delay_update f s) = DE s" "HL (ei_delay_update f s) = HL s"
  "BC (clocks_update k s) = BC s" "DE (clocks_update k s) = DE s" "HL (clocks_update k s) = HL s"
  by (simp_all add: BC_def DE_def HL_def SET_BC_def SET_DE_def SET_HL_def)

lemma set_pair_fields [simp]:
  "heap (SET_BC s v) = heap s" "heap (SET_DE s v) = heap s" "heap (SET_HL s v) = heap s"
  "page_read (SET_BC s v) = page_read s" "page_read (SET_DE s v) = page_read s" "page_read (SET_HL s v) = page_read s"
  "page_write (SET_BC s v) = page_write s" "page_write (SET_DE s v) = page_write s" "page_write (SET_HL s v) = page_write s"
  "ctx (SET_BC s v) = ctx s" "ctx (SET_DE s v) = ctx s" "ctx (SET_HL s v) = ctx s"
  "reg_pc (SET_BC s v) = reg_pc s" "reg_pc (SET_DE s v) = reg_pc s" "reg_pc (SET_HL s v) = reg_pc s"
  "reg_a (SET_BC s v) = reg_a s" "reg_a (SET_DE s v) = reg_a s" "reg_a (SET_HL s v) = reg_a s"
  "reg_f (SET_BC s v) = reg_f s" "reg_f (SET_DE s v) = reg_f s" "reg_f (SET_HL s v) = reg_f s"
  "halted (SET_BC s v) = halted s" "halted (SET_DE s v) = halted s" "halted (SET_HL s v) = halted s"
  "clocks (SET_BC s v) = clocks s" "clocks (SET_DE s v) = clocks s" "clocks (SET_HL s v) = clocks s"
  by (simp_all add: SET_BC_def SET_DE_def SET_HL_def)

lemma WB_mapped_fields:
  assumes "mapped B s"
  shows "BC (WB B s a v) = BC s" "DE (WB B s a v) = DE s" "HL (WB B s a v) = HL s"
    "page_read (WB B s a v) = page_read s" "page_write (WB B s a v) = page_write s"
    "ctx (WB B s a v) = ctx s" "reg_pc (WB B s a v) = reg_pc s" "reg_a (WB B s a v) = reg_a s"
    "reg_f (WB B s a v) = reg_f s" "halted (WB B s a v) = halted s" "clocks (WB B s a v) = clocks s"
  by (simp_all add: WB_mapped [OF assms])

text \<open>One LDIR: a byte moved, the pointers advanced, PC held back until BC is zero.\<close>

lemma ldir_step:
  assumes "mapped B s" "halted s = 0" "RB B s (reg_pc s) = 0xED" "RB B s (reg_pc s + 1) = 0xB0"
  shows "\<exists>s'. z80_step B s = Some (if BC s = 1 then 16 else 21, s')
    \<and> heap s' = heap (WB B s (DE s) (RB B s (HL s)))
    \<and> page_read s' = page_read s \<and> page_write s' = page_write s \<and> ctx s' = ctx s
    \<and> HL s' = HL s + 1 \<and> DE s' = DE s + 1 \<and> BC s' = BC s - 1
    \<and> reg_pc s' = (if BC s = 1 then reg_pc s + 2 else reg_pc s)
    \<and> halted s' = 0 \<and> reg_a s' = reg_a s \<and> flagP s' = (BC s \<noteq> 1)
    \<and> flagC s' = flagC s \<and> flagZ s' = flagZ s \<and> flagS s' = flagS s"
proof -
  obtain r where r: "skip 2 (s\<lparr>ei_delay := 0\<rparr>) = s\<lparr>ei_delay := 0, reg_pc := reg_pc s + 2, reg_r := r\<rparr>"
    by (rule skip_upd [of 2 "s\<lparr>ei_delay := 0\<rparr>"]) auto
  let ?s = "s\<lparr>ei_delay := 0, reg_pc := reg_pc s + 2, reg_r := r\<rparr>"
  have m: "mapped B ?s" using assms(1) by (subst mapped_cong [of _ s]) simp_all
  have rb: "RB B ?s a = RB B s a" for a by (rule RB_cong [OF assms(1)]) simp_all
  have wb: "heap (WB B ?s a v) = heap (WB B s a v)" for a v
    by (simp add: WB_mapped [OF m] WB_mapped [OF assms(1)] page_loc_def writable_at_def)
  show ?thesis
    unfolding ed_step [OF assms(1-3)] assms(4) r
    by (simp add: ed_dispatch_def ed_ldir_def Let_def rb wb WB_mapped_fields [OF m] flag_bits assms(2))
qed

lemma heap_WB_cong:
  assumes "mapped B s" "mapped B t" "page_read t = page_read s" "page_write t = page_write s" "heap t = heap s"
  shows "heap (WB B t a v) = heap (WB B s a v)"
  using assms by (simp add: WB_mapped page_loc_def writable_at_def)

lemma copy_up_heap_cong:
  assumes "mapped B s" "mapped B t" "page_read t = page_read s" "page_write t = page_write s" "heap t = heap s"
  shows "heap (copy_up (RB B) (WB B) n a b t) = heap (copy_up (RB B) (WB B) n a b s)"
  using assms
proof (induction n arbitrary: a b s t)
  case (Suc n)
  have rd: "RB B t a = RB B s a" using Suc.prems by (intro RB_cong)
  have "heap (copy_up (RB B) (WB B) n (a + 1) (b + 1) (WB B t b (RB B s a)))
      = heap (copy_up (RB B) (WB B) n (a + 1) (b + 1) (WB B s b (RB B s a)))"
    using Suc.prems heap_WB_cong [OF Suc.prems]
    by (intro Suc.IH) (simp_all add: mapped_WB WB_mapped_fields)
  then show ?case by (simp add: rd)
qed simp

lemma unat_pred: "unat (w - 1 :: u16) = Suc n \<Longrightarrow> unat (w - 1 - 1) = n"
  using unat_minus_one [of "w - 1"] by (metis One_nat_def diff_Suc_1 nat.distinct(1) unat_0)

lemma z80_run_step:
  "z80_step B s = Some (t, s1) \<Longrightarrow> z80_run B n s1 = Some (u, s2) \<Longrightarrow> z80_run B (Suc n) s = Some (t + u, s2)"
  by simp

lemma copy_up_pages:
  "mapped B s \<Longrightarrow> page_read (copy_up (RB B) (WB B) n a b s) = page_read s
     \<and> mapped B (copy_up (RB B) (WB B) n a b s)"
  by (induction n arbitrary: a b s) (simp_all add: mapped_WB WB_mapped_fields)

text \<open>A run of LDIR is the forward copy, at 21 T-states for each byte but the last.\<close>

lemma ldir_run:
  assumes "flat_mapped B s" "halted s = 0" "RB B s (reg_pc s) = 0xED" "RB B s (reg_pc s + 1) = 0xB0"
    and "unat (BC s - 1) = n"
    and "\<forall>i\<le>n. writable_at s (DE s + of_nat i) \<longrightarrow>
           DE s + of_nat i \<noteq> reg_pc s \<and> DE s + of_nat i \<noteq> reg_pc s + 1"
  shows "\<exists>s'. z80_run B (Suc n) s = Some (21 * int n + 16, s')
    \<and> heap s' = heap (copy_up (RB B) (WB B) (Suc n) (HL s) (DE s) s)
    \<and> page_read s' = page_read s \<and> page_write s' = page_write s \<and> ctx s' = ctx s
    \<and> HL s' = HL s + of_nat (Suc n) \<and> DE s' = DE s + of_nat (Suc n) \<and> BC s' = 0
    \<and> reg_pc s' = reg_pc s + 2 \<and> halted s' = 0 \<and> reg_a s' = reg_a s \<and> \<not> flagP s'
    \<and> flagC s' = flagC s \<and> flagZ s' = flagZ s \<and> flagS s' = flagS s"
  using assms
proof (induction n arbitrary: s)
  case 0
  then have "BC s = 1" by (simp add: unat_eq_0)
  moreover have m: "mapped B s" using "0.prems"(1) by (simp add: flat_mapped_def)
  ultimately show ?case
    using ldir_step [OF m "0.prems"(2-4)] by (auto simp: bind_eq_Some_conv)
next
  case (Suc n)
  have m: "mapped B s" using Suc.prems(1) by (simp add: flat_mapped_def)
  have ne: "BC s \<noteq> 1" using Suc.prems(5) by auto
  let ?w = "WB B s (DE s) (RB B s (HL s))"
  obtain s1 where st: "z80_step B s = Some (21, s1)" and h: "heap s1 = heap ?w"
    and p: "page_read s1 = page_read s" "page_write s1 = page_write s" "ctx s1 = ctx s"
    and r: "HL s1 = HL s + 1" "DE s1 = DE s + 1" "BC s1 = BC s - 1" "reg_pc s1 = reg_pc s"
      "halted s1 = 0" "reg_a s1 = reg_a s" "flagC s1 = flagC s" "flagZ s1 = flagZ s" "flagS s1 = flagS s"
    using ldir_step [OF m Suc.prems(2-4)] unfolding if_not_P [OF ne] by (elim exE conjE) (rule that)
  have f1: "flat_mapped B s1"
    using Suc.prems(1) p mapped_cong [of s1 s B] pages_disjoint_cong [of s1 s] by (simp add: flat_mapped_def)
  then have m1: "mapped B s1" by (simp add: flat_mapped_def)
  have rd: "RB B s1 x = RB B ?w x" for x
    using m1 mapped_WB [OF m] by (intro RB_cong) (simp_all add: h p WB_mapped_fields [OF m])
  have code: "RB B s1 x = RB B s x" if "x = reg_pc s \<or> x = reg_pc s + 1" for x
    using spec [OF Suc.prems(6), of 0] that by (auto simp: rd cpu_flat.rd_wr_flat [OF Suc.prems(1)])
  have c1: "RB B s1 (reg_pc s1) = 0xED" and c2: "RB B s1 (reg_pc s1 + 1) = 0xB0"
    using code Suc.prems(3,4) by (simp_all add: r)
  have guard: "\<forall>i\<le>n. writable_at s1 (DE s1 + of_nat i) \<longrightarrow>
      DE s1 + of_nat i \<noteq> reg_pc s1 \<and> DE s1 + of_nat i \<noteq> reg_pc s1 + 1"
  proof (intro allI impI)
    fix i assume "i \<le> n" "writable_at s1 (DE s1 + of_nat i)"
    then show "DE s1 + of_nat i \<noteq> reg_pc s1 \<and> DE s1 + of_nat i \<noteq> reg_pc s1 + 1"
      using spec [OF Suc.prems(6), of "Suc i"] by (simp add: r writable_at_def p ac_simps)
  qed
  have bc: "unat (BC s1 - 1) = n" unfolding r using Suc.prems(5) by (rule unat_pred)
  obtain s2 where IH: "z80_run B (Suc n) s1 = Some (21 * int n + 16, s2)"
    "heap s2 = heap (copy_up (RB B) (WB B) (Suc n) (HL s1) (DE s1) s1)"
    "page_read s2 = page_read s1" "page_write s2 = page_write s1" "ctx s2 = ctx s1"
    "HL s2 = HL s1 + of_nat (Suc n)" "DE s2 = DE s1 + of_nat (Suc n)" "BC s2 = 0"
    "reg_pc s2 = reg_pc s1 + 2" "halted s2 = 0" "reg_a s2 = reg_a s1" "\<not> flagP s2"
    "flagC s2 = flagC s1" "flagZ s2 = flagZ s1" "flagS s2 = flagS s1"
    using Suc.IH [OF f1 r(5) c1 c2 bc guard] by (elim exE conjE) (rule that)
  have "heap s2 = heap (copy_up (RB B) (WB B) (Suc n) (HL s + 1) (DE s + 1) ?w)"
    unfolding IH(2) r
    by (rule copy_up_heap_cong [OF mapped_WB [OF m] m1]) (simp_all add: p h WB_mapped_fields [OF m])
  then have "heap s2 = heap (copy_up (RB B) (WB B) (Suc (Suc n)) (HL s) (DE s) s)" by simp
  moreover have "z80_run B (Suc (Suc n)) s = Some (21 * int (Suc n) + 16, s2)"
    using z80_run_step [OF st IH(1)] by simp
  ultimately show ?case using IH(3-) p r by (auto simp: ac_simps)
qed


text \<open>C9 (ldir_moves_block): Run to its end, LDIR moves BC bytes: every byte of memory holds what the
block move prescribes, HL and DE are past the blocks, BC is 0, P/V is clear, C, Z, S and A are
kept, and the run takes 21 T-states a byte less 5. The conditions: four mapped pages that do not
overlap, a destination that is writable throughout, a move that does not overwrite the two bytes
of the instruction, and no byte overwritten before it is read.\<close>

theorem ldir_moves_block:
  assumes "flat_mapped B s" "halted s = 0" "RB B s (reg_pc s) = 0xED" "RB B s (reg_pc s + 1) = 0xB0"
    and "n = Suc (unat (BC s - 1))"
    and "\<And>i. i < n \<Longrightarrow> writable_at s (DE s + of_nat i)"
    and "\<And>i. i < n \<Longrightarrow> DE s + of_nat i \<noteq> reg_pc s \<and> DE s + of_nat i \<noteq> reg_pc s + 1"
    and "\<And>i j. i < j \<Longrightarrow> j < n \<Longrightarrow> HL s + of_nat j \<noteq> DE s + of_nat i"
  shows "\<exists>s'. z80_run B n s = Some (21 * int n - 5, s')
    \<and> (\<forall>x. RB B s' x = (if unat (x - DE s) < n then RB B s (HL s + (x - DE s)) else RB B s x))
    \<and> HL s' = HL s + of_nat n \<and> DE s' = DE s + of_nat n \<and> BC s' = 0
    \<and> reg_pc s' = reg_pc s + 2 \<and> reg_a s' = reg_a s \<and> \<not> flagP s'
    \<and> flagC s' = flagC s \<and> flagZ s' = flagZ s \<and> flagS s' = flagS s"
proof -
  let ?c = "copy_up (RB B) (WB B) n (HL s) (DE s) s"
  obtain s' where run: "z80_run B n s = Some (21 * int n - 5, s')" "heap s' = heap ?c"
    "page_read s' = page_read s" "page_write s' = page_write s" "ctx s' = ctx s"
    and rest: "HL s' = HL s + of_nat n \<and> DE s' = DE s + of_nat n \<and> BC s' = 0
    \<and> reg_pc s' = reg_pc s + 2 \<and> reg_a s' = reg_a s \<and> \<not> flagP s'
    \<and> flagC s' = flagC s \<and> flagZ s' = flagZ s \<and> flagS s' = flagS s"
    using ldir_run [OF assms(1-4) refl] assms(5,7) by (auto simp: less_Suc_eq_le)
  have m: "mapped B s" using assms(1) by (simp add: flat_mapped_def)
  have rd: "RB B s' x = RB B ?c x" for x
    using copy_up_pages [OF m] run(2,3) by (intro RB_cong) simp_all
  have "n \<le> 2 ^ 16" using unat16_bound [of "BC s - 1"] assms(5) by simp
  then have "RB B ?c x = (if unat (x - DE s) < n then RB B s (HL s + (x - DE s)) else RB B s x)" for x
    using cpu_flat.copy_up_move [OF assms(1) _ assms(6,8)] by blast
  then show ?thesis using run(1) rest rd by auto
qed

section \<open>CPIR\<close>

lemma result_zero_iff: "(uint (a :: u8) - uint v) AND 0xFF = 0 \<longleftrightarrow> a = v"
proof -
  have "(uint a - uint v) mod 256 = 0 \<longleftrightarrow> uint a = uint v"
    using uint8_bounds [of a] uint8_bounds [of v]
    by (simp add: sub_mod_256, use uint8_bounds [of a] uint8_bounds [of v] in linarith)
  then show ?thesis by (simp add: int_masks word_uint_eq_iff)
qed

lemma cpir_step:
  assumes "mapped B s" "halted s = 0" "RB B s (reg_pc s) = 0xED" "RB B s (reg_pc s + 1) = 0xB1"
  defines "go_on \<equiv> BC s \<noteq> 1 \<and> reg_a s \<noteq> RB B s (HL s)"
  shows "\<exists>s'. z80_step B s = Some (if go_on then 21 else 16, s')
    \<and> host_view (s'\<lparr>clocks := clocks s\<rparr>) = host_view s
    \<and> HL s' = HL s + 1 \<and> DE s' = DE s \<and> BC s' = BC s - 1
    \<and> reg_pc s' = (if go_on then reg_pc s else reg_pc s + 2)
    \<and> halted s' = 0 \<and> reg_a s' = reg_a s
    \<and> flagZ s' = (reg_a s = RB B s (HL s)) \<and> flagP s' = (BC s \<noteq> 1) \<and> flagC s' = flagC s \<and> flagN s'"
proof -
  obtain r where r: "skip 2 (s\<lparr>ei_delay := 0\<rparr>) = s\<lparr>ei_delay := 0, reg_pc := reg_pc s + 2, reg_r := r\<rparr>"
    by (rule skip_upd [of 2 "s\<lparr>ei_delay := 0\<rparr>"]) auto
  let ?s = "s\<lparr>ei_delay := 0, reg_pc := reg_pc s + 2, reg_r := r\<rparr>"
  have rb: "RB B ?s a = RB B s a" for a by (rule RB_cong [OF assms(1)]) simp_all
  have bc: "BC s - 1 = 0 \<longleftrightarrow> BC s = 1" by simp
  show ?thesis
    unfolding ed_step [OF assms(1-3)] assms(4) r go_on_def
    by (simp add: ed_dispatch_def ed_cpir_def Let_def rb flag_bits assms(2) result_zero_iff bc host_view_def)
qed

text \<open>The last repetition, and one that goes on.\<close>

lemma cpir_stop:
  assumes "mapped B s" "halted s = 0" "RB B s (reg_pc s) = 0xED" "RB B s (reg_pc s + 1) = 0xB1"
    and stop: "\<not> (BC s \<noteq> 1 \<and> reg_a s \<noteq> RB B s (HL s))"
  obtains s' where "z80_step B s = Some (16, s')" "RB B s' = RB B s" "HL s' = HL s + 1" "DE s' = DE s" "BC s' = BC s - 1"
    "reg_pc s' = reg_pc s + 2" "reg_a s' = reg_a s" "flagZ s' = (reg_a s = RB B s (HL s))" "flagP s' = (BC s \<noteq> 1)"
    "flagC s' = flagC s"
proof -
  obtain s' where st: "z80_step B s = Some (16, s')"
    and v: "host_view (s'\<lparr>clocks := clocks s\<rparr>) = host_view s"
    and r: "HL s' = HL s + 1" "DE s' = DE s" "BC s' = BC s - 1" "reg_pc s' = reg_pc s + 2" "reg_a s' = reg_a s"
      "flagZ s' = (reg_a s = RB B s (HL s))" "flagP s' = (BC s \<noteq> 1)" "flagC s' = flagC s"
    using cpir_step [OF assms(1-4)] unfolding if_not_P [OF stop] by (elim exE conjE) (rule that)
  have "RB B s' = RB B s" using v by (intro ext RB_cong [OF assms(1)]) (simp_all add: host_view_def)
  then show thesis using st r by (intro that)
qed

lemma cpir_go:
  assumes "mapped B s" "halted s = 0" "RB B s (reg_pc s) = 0xED" "RB B s (reg_pc s + 1) = 0xB1"
    and go: "BC s \<noteq> 1 \<and> reg_a s \<noteq> RB B s (HL s)"
  obtains s' where "z80_step B s = Some (21, s')" "mapped B s'" "RB B s' = RB B s" "HL s' = HL s + 1" "DE s' = DE s"
    "BC s' = BC s - 1" "reg_pc s' = reg_pc s" "halted s' = 0" "reg_a s' = reg_a s" "flagC s' = flagC s"
    "unat (BC s' - 1) = unat (BC s - 1) - 1"
proof -
  obtain s' where st: "z80_step B s = Some (21, s')"
    and v: "host_view (s'\<lparr>clocks := clocks s\<rparr>) = host_view s"
    and r: "HL s' = HL s + 1" "DE s' = DE s" "BC s' = BC s - 1" "reg_pc s' = reg_pc s" "halted s' = 0"
      "reg_a s' = reg_a s" "flagC s' = flagC s"
    using cpir_step [OF assms(1-4)] unfolding if_P [OF go] by (elim exE conjE) (rule that)
  have rb: "RB B s' = RB B s" using v by (intro ext RB_cong [OF assms(1)]) (simp_all add: host_view_def)
  have m: "mapped B s'" using assms(1) v by (subst mapped_cong [of _ s]) (simp_all add: host_view_def)
  have "BC s - 1 \<noteq> 0" using go by simp
  then have bc: "unat (BC s' - 1) = unat (BC s - 1) - 1" unfolding r by (rule unat_minus_one)
  show thesis by (rule that [OF st m rb r bc])
qed

text \<open>C34 (cpir_finds_first): Run to its end, CPIR stops just past the first byte equal to A, or when BC
bytes were searched: HL and BC count the bytes inspected, Z tells whether the last matched, P/V
whether BC is left, memory and C are unchanged, 21 T-states a byte less 5.\<close>

theorem cpir_finds_first:
  assumes "mapped B s" "halted s = 0" "RB B s (reg_pc s) = 0xED" "RB B s (reg_pc s + 1) = 0xB1"
    and "k \<le> unat (BC s - 1)" "\<forall>i<k. RB B s (HL s + of_nat i) \<noteq> reg_a s"
    and "RB B s (HL s + of_nat k) = reg_a s \<or> k = unat (BC s - 1)"
  shows "\<exists>s'. z80_run B (Suc k) s = Some (21 * int k + 16, s')
    \<and> RB B s' = RB B s \<and> HL s' = HL s + of_nat (Suc k) \<and> DE s' = DE s \<and> BC s' = BC s - of_nat (Suc k)
    \<and> reg_pc s' = reg_pc s + 2 \<and> reg_a s' = reg_a s
    \<and> flagZ s' = (RB B s (HL s + of_nat k) = reg_a s)
    \<and> flagP s' = (BC s' \<noteq> 0) \<and> flagC s' = flagC s"
  using assms
proof (induction k arbitrary: s)
  case 0
  then have stop: "\<not> (BC s \<noteq> 1 \<and> reg_a s \<noteq> RB B s (HL s))" by (auto simp: unat_eq_0)
  obtain s' where "z80_step B s = Some (16, s')" "RB B s' = RB B s" "HL s' = HL s + 1" "DE s' = DE s" "BC s' = BC s - 1"
    "reg_pc s' = reg_pc s + 2" "reg_a s' = reg_a s" "flagZ s' = (reg_a s = RB B s (HL s))" "flagP s' = (BC s \<noteq> 1)"
    "flagC s' = flagC s"
    by (rule cpir_stop [OF "0.prems"(1-4) stop])
  then show ?case by auto
next
  case (Suc k)
  have nz: "BC s \<noteq> 1" using Suc.prems(5) by auto
  have "RB B s (HL s) \<noteq> reg_a s" using spec [OF Suc.prems(6), of 0] by simp
  with nz have go: "BC s \<noteq> 1 \<and> reg_a s \<noteq> RB B s (HL s)" by auto
  obtain s1 where st: "z80_step B s = Some (21, s1)" and m1: "mapped B s1" and rb: "RB B s1 = RB B s"
    and r: "HL s1 = HL s + 1" "DE s1 = DE s" "BC s1 = BC s - 1" "reg_pc s1 = reg_pc s" "halted s1 = 0"
      "reg_a s1 = reg_a s" "flagC s1 = flagC s"
    and bc: "unat (BC s1 - 1) = unat (BC s - 1) - 1"
    by (rule cpir_go [OF Suc.prems(1-4) go])
  have k: "k \<le> unat (BC s1 - 1)" using Suc.prems(5) bc by simp
  have e: "RB B s1 (HL s1 + of_nat k) = reg_a s1 \<or> k = unat (BC s1 - 1)"
    using Suc.prems(5,7) bc by (auto simp: rb r add.assoc)
  have c1: "RB B s1 (reg_pc s1) = 0xED" and c2: "RB B s1 (reg_pc s1 + 1) = 0xB1"
    using Suc.prems(3,4) by (simp_all add: rb r)
  have n: "\<forall>i<k. RB B s1 (HL s1 + of_nat i) \<noteq> reg_a s1"
  proof (intro allI impI)
    fix i assume "i < k"
    then show "RB B s1 (HL s1 + of_nat i) \<noteq> reg_a s1"
      using spec [OF Suc.prems(6), of "Suc i"] by (simp add: rb r add.assoc)
  qed
  obtain s2 where IH: "z80_run B (Suc k) s1 = Some (21 * int k + 16, s2)"
    "RB B s2 = RB B s1" "HL s2 = HL s1 + of_nat (Suc k)" "DE s2 = DE s1" "BC s2 = BC s1 - of_nat (Suc k)"
    "reg_pc s2 = reg_pc s1 + 2" "reg_a s2 = reg_a s1"
    "flagZ s2 = (RB B s1 (HL s1 + of_nat k) = reg_a s1)"
    "flagP s2 = (BC s2 \<noteq> 0)" "flagC s2 = flagC s1"
    using Suc.IH [OF m1 r(5) c1 c2 k n e] by (elim exE conjE) (rule that)
  have "z80_run B (Suc (Suc k)) s = Some (21 * int (Suc k) + 16, s2)"
    using z80_run_step [OF st IH(1)] by simp
  then show ?case using IH(2-) r rb by (auto simp: ac_simps diff_diff_eq)
qed

section \<open>Concrete runs\<close>

definition block_sample :: "u8 \<Rightarrow> unit z80" where
  "block_sample op = (sample (\<lambda>a. if a = 0 then 0xED else if a = 1 then op else of_nat a))
     \<lparr>reg_a := 2, reg_h := 0x80, reg_d := 0x90, reg_c := 3\<rparr>"

lemma unat_1_iff: "unat (a :: u16) = Suc 0 \<longleftrightarrow> a = 1"
  by (simp add: word_unat_eq_iff)

lemma block_sample_fields:
  "HL (block_sample op) = 0x8000" "DE (block_sample op) = 0x9000" "BC (block_sample op) = 3"
  "RB sample_bus (block_sample op) a = (if a = 0 then 0xED else if a = 1 then op else of_nat (unat a))"
  "reg_pc (block_sample op) = 0" "halted (block_sample op) = 0" "reg_a (block_sample op) = 2"
  by (simp_all add: block_sample_def HL_def DE_def BC_def pair16_def sample_RB unat_eq_0 unat_1_iff)

lemma ldir_moves_block_witness:
  "\<exists>s'. z80_run sample_bus 3 (block_sample 0xB0) = Some (58, s') \<and> RB sample_bus s' 0x9002 = 2 \<and> BC s' = 0"
proof -
  let ?s = "block_sample 0xB0"
  have f: "flat_mapped sample_bus ?s" by (rule sample_flat) (simp_all add: block_sample_def)
  have w: "writable_at ?s a" for a by (rule sample_writable) (simp add: block_sample_def)
  have "\<exists>s'. z80_run sample_bus 3 ?s = Some (21 * int 3 - 5, s')
    \<and> (\<forall>x. RB sample_bus s' x = (if unat (x - DE ?s) < 3 then RB sample_bus ?s (HL ?s + (x - DE ?s)) else RB sample_bus ?s x))
    \<and> HL s' = HL ?s + of_nat 3 \<and> DE s' = DE ?s + of_nat 3 \<and> BC s' = 0
    \<and> reg_pc s' = reg_pc ?s + 2 \<and> reg_a s' = reg_a ?s \<and> \<not> flagP s'
    \<and> flagC s' = flagC ?s \<and> flagZ s' = flagZ ?s \<and> flagS s' = flagS ?s"
    by (rule ldir_moves_block [OF f _ _ _ _ w])
       (auto simp: block_sample_fields numeral_3_eq_3 less_Suc_eq)
  then show ?thesis by (auto simp: block_sample_fields)
qed

lemma cpir_finds_first_witness:
  "\<exists>s'. z80_run sample_bus 3 (block_sample 0xB1) = Some (58, s') \<and> HL s' = 0x8003 \<and> flagZ s'"
proof -
  let ?s = "block_sample 0xB1"
  have m: "mapped sample_bus ?s" by (rule sample_mapped) (simp_all add: block_sample_def)
  have "\<exists>s'. z80_run sample_bus (Suc 2) ?s = Some (21 * int 2 + 16, s')
    \<and> RB sample_bus s' = RB sample_bus ?s \<and> HL s' = HL ?s + of_nat (Suc 2) \<and> DE s' = DE ?s
    \<and> BC s' = BC ?s - of_nat (Suc 2) \<and> reg_pc s' = reg_pc ?s + 2 \<and> reg_a s' = reg_a ?s
    \<and> flagZ s' = (RB sample_bus ?s (HL ?s + of_nat 2) = reg_a ?s)
    \<and> flagP s' = (BC s' \<noteq> 0) \<and> flagC s' = flagC ?s"
    by (rule cpir_finds_first [OF m]) (auto simp: block_sample_fields less_2_cases)
  then show ?thesis by (auto simp: block_sample_fields numeral_3_eq_3)
qed

end
