(* ===== verification/Z80_Timing.thy ===== *)
theory Z80_Timing
  imports Z80_Block
begin

text \<open>
  T-states: every instruction takes between 4 and 25 of them, not counting a chain of prefixes, and
  \<open>z80_step\<close> adds what it returns to \<open>clocks\<close>.
\<close>

lemma decode_num:
  "op_x op = unat op div 64" "op_y op = unat op div 8 mod 8" "op_z op = unat op mod 8"
  "op_p op = unat op div 16 mod 4" "op_q op = unat op div 8 mod 2"
proof -
  have m: "x AND 7 = take_bit 3 x" "x AND 3 = take_bit 2 x" "x AND 1 = take_bit 1 x" for x :: u8
    by (simp_all add: take_bit_eq_mask mask_eq_exp_minus_1)
  have u: "unat (take_bit n x) = unat x mod 2 ^ n" for n and x :: u8
    by (simp only: unsigned_take_bit_eq) (simp add: take_bit_eq_mod)
  have d: "unat (drop_bit n x) = unat x div 2 ^ n" for n and x :: u8
    by (simp only: unat_drop_bit_eq) (simp add: drop_bit_eq_div)
  have "unat op div 64 < 4" using unat8_bound [of op] by simp
  then show "op_x op = unat op div 64" by (simp add: op_x_def m u d)
  show "op_y op = unat op div 8 mod 8" "op_z op = unat op mod 8"
    "op_p op = unat op div 16 mod 4" "op_q op = unat op div 8 mod 2"
    by (simp_all only: op_y_def op_z_def op_p_def op_q_def m u d) simp_all
qed

lemma decode_sum:
  "unat op = 64 * op_x op + 8 * op_y op + op_z op" "op_y op = 2 * op_p op + op_q op"
  "op_x op < 4" "op_y op < 8" "op_z op < 8" "op_p op < 4" "op_q op < 2"
proof -
  have "unat op div 8 = 8 * (unat op div 64) + unat op div 8 mod 8"
    using div_mult_mod_eq [of "unat op div 8" 8] by (simp add: div_mult2_eq [symmetric])
  moreover have "unat op = 8 * (unat op div 8) + unat op mod 8" by simp
  ultimately have "unat op = 64 * (unat op div 64) + 8 * (unat op div 8 mod 8) + unat op mod 8" by linarith
  then show "unat op = 64 * op_x op + 8 * op_y op + op_z op" by (simp add: decode_num)
  show "op_y op = 2 * op_p op + op_q op"
    using mod_mult2_eq [of "unat op div 8" 2 4] by (simp add: decode_num div_mult2_eq [symmetric])
  show "op_x op < 4" "op_y op < 8" "op_z op < 8" "op_p op < 4" "op_q op < 2"
    using unat8_bound [of op] by (simp_all add: decode_num less_mult_imp_div_less)
qed

section \<open>Bounds per group\<close>

lemma cb_time: "fst (exec_cb B s) \<in> {8, 12, 15}"
  by (simp add: exec_cb_def Let_def case_prod_beta)

lemma ddfdcb_time: "fst (exec_ddfdcb B s w) \<in> {20, 23}"
  by (simp add: exec_ddfdcb_def Let_def case_prod_beta)

lemma main_x0_time: "fst (main_x0 B s op) \<in> {4..16}"
  by (simp add: main_x0_def Let_def case_prod_beta x0_z0_def x0_z1_def x0_z2_def x0_z3_def x0_z4_def
     x0_z5_def x0_z6_def x0_z7_def op_djnz_def op_jr_def op_jr_cc_def)

lemma main_x12_time: "fst (main_x1 B s op) \<in> {4..7}" "fst (main_x2 B s op) \<in> {4..7}"
  by (simp_all add: main_x1_def main_x2_def Let_def)

lemma prefix_codes:
  assumes "op_x op = 3"
  shows "op_z op = 3 \<Longrightarrow> op_y op = 1 \<Longrightarrow> op = 0xCB"
    and "op_z op = 5 \<Longrightarrow> op_q op = 1 \<Longrightarrow> op_p op \<noteq> 0 \<Longrightarrow> op = 0xDD \<or> op = 0xED \<or> op = 0xFD"
proof -
  have eq: "op = 0xCB \<longleftrightarrow> unat op = 203" "op = 0xDD \<longleftrightarrow> unat op = 221" "op = 0xED \<longleftrightarrow> unat op = 237"
    "op = 0xFD \<longleftrightarrow> unat op = 253" by (simp_all add: word_unat_eq_iff)
  show "op_z op = 3 \<Longrightarrow> op_y op = 1 \<Longrightarrow> op = 0xCB"
    using assms decode_sum(1) [of op] unfolding eq by simp
  assume z: "op_z op = 5" and q: "op_q op = 1" and p: "op_p op \<noteq> 0"
  from p decode_sum(6) [of op] have "op_p op = 1 \<or> op_p op = 2 \<or> op_p op = 3" by arith
  then show "op = 0xDD \<or> op = 0xED \<or> op = 0xFD"
    using assms z q decode_sum(1,2) [of op] unfolding eq by auto
qed

lemma main_x3_time:
  assumes "op_x op = 3" "op \<notin> {0xCB, 0xDD, 0xED, 0xFD}"
  shows "fst (main_x3 B s op) \<in> {4..19}"
  using assms(2) prefix_codes [OF assms(1)] decode_sum(7) [of op] less_2_cases [of "op_q op"]
  by (auto simp: main_x3_def Let_def case_prod_beta x3_z0_def x3_z1_def x3_z2_def x3_z3_def x3_z4_def
     x3_z5_def x3_z6_def x3_z7_def)

lemma exec_main_time:
  assumes "op \<notin> {0xCB, 0xDD, 0xED, 0xFD}"
  shows "fst (exec_main B s op) \<in> {4..19}"
proof -
  have "op_x op < 4" by (rule decode_sum)
  then have "op_x op = 0 \<or> op_x op = 1 \<or> op_x op = 2 \<or> op_x op = 3" by arith
  then show ?thesis
    using main_x0_time [of B s op] main_x12_time [of B s op] main_x3_time [OF _ assms, of B s]
    by (auto simp: exec_main_def)
qed

lemma ed_time_cases:
  shows "fst (ed_in_r_c B s op) \<in> {8..21}"
    and "fst (ed_out_c_r B s op) \<in> {8..21}"
    and "fst (ed_sbc_hl s op) \<in> {8..21}"
    and "fst (ed_adc_hl s op) \<in> {8..21}"
    and "fst (ed_ld_nn_rp B s op) \<in> {8..21}"
    and "fst (ed_ld_rp_nn B s op) \<in> {8..21}"
    and "fst (ed_neg s) \<in> {8..21}"
    and "fst (ed_retn B s) \<in> {8..21}"
    and "fst (ed_reti B s) \<in> {8..21}"
    and "fst (ed_im s op) \<in> {8..21}"
    and "fst (ed_ld_i_a s) \<in> {8..21}"
    and "fst (ed_ld_r_a s) \<in> {8..21}"
    and "fst (ed_ld_a_i s) \<in> {8..21}"
    and "fst (ed_ld_a_r s) \<in> {8..21}"
    and "fst (ed_rrd B s) \<in> {8..21}"
    and "fst (ed_rld B s) \<in> {8..21}"
    and "fst (ed_ldi B s) \<in> {8..21}"
    and "fst (ed_ldd B s) \<in> {8..21}"
    and "fst (ed_ldir B s) \<in> {8..21}"
    and "fst (ed_lddr B s) \<in> {8..21}"
    and "fst (ed_cpi B s) \<in> {8..21}"
    and "fst (ed_cpd B s) \<in> {8..21}"
    and "fst (ed_cpir B s) \<in> {8..21}"
    and "fst (ed_cpdr B s) \<in> {8..21}"
    and "fst (ed_ini B s) \<in> {8..21}"
    and "fst (ed_ind B s) \<in> {8..21}"
    and "fst (ed_inir B s) \<in> {8..21}"
    and "fst (ed_indr B s) \<in> {8..21}"
    and "fst (ed_outi B s) \<in> {8..21}"
    and "fst (ed_outd B s) \<in> {8..21}"
    and "fst (ed_otir B s) \<in> {8..21}"
    and "fst (ed_otdr B s) \<in> {8..21}"
  by (simp_all add: ed_in_r_c_def ed_out_c_r_def ed_sbc_hl_def ed_adc_hl_def ed_ld_nn_rp_def ed_ld_rp_nn_def ed_neg_def ed_retn_def ed_reti_def ed_im_def ed_ld_i_a_def ed_ld_r_a_def ed_ld_a_i_def ed_ld_a_r_def ed_rrd_def ed_rld_def ed_ldi_def ed_ldd_def ed_ldir_def ed_lddr_def ed_cpi_def ed_cpd_def ed_cpir_def ed_cpdr_def ed_ini_def ed_ind_def ed_inir_def ed_indr_def ed_outi_def ed_outd_def ed_otir_def ed_otdr_def
      Let_def case_prod_beta)

lemma fst_if_in: "fst (if c then a else b) \<in> S \<longleftrightarrow> (if c then fst a \<in> S else fst b \<in> S)"
  by simp

lemma ed_time: "fst (exec_ed B s) \<in> {8..21}"
  unfolding exec_ed_def ed_dispatch_def Let_def case_prod_beta
  by (simp only: fst_if_in ed_time_cases if_cancel if_True) simp

lemma ddfd_groups_time:
  "pred_option (\<lambda>r. fst r \<in> {8..23}) (ddfd_ld8 B s i op)"
  "pred_option (\<lambda>r. fst r \<in> {8..23}) (ddfd_ld_half B s i op)"
  "pred_option (\<lambda>r. fst r \<in> {8..23}) (ddfd_16 B s i op)"
  "pred_option (\<lambda>r. fst r \<in> {8..23}) (ddfd_incdec B s i op)"
  "pred_option (\<lambda>r. fst r \<in> {8..23}) (ddfd_stack B s i op)"
  "pred_option (\<lambda>r. fst r \<in> {8..23}) (ddfd_alu B s i op)"
  by (simp_all add: ddfd_ld8_def ddfd_ld_half_def ddfd_16_def ddfd_incdec_def ddfd_stack_def ddfd_alu_def
      fetch_indexed_def Let_def case_prod_beta if_distrib [of "pred_option P" for P] cong: if_cong)

lemma ddfd_case_time: "ddfd_case B s i op = Some r \<Longrightarrow> fst r \<in> {8..23}"
  using ddfd_groups_time [of B s i op] by (auto simp: ddfd_case_def or_else_def split: option.splits)

lemma exec_base_time: "\<not> is_prefix op \<Longrightarrow> fst (exec_base B s op) \<in> {4..21}"
  using exec_main_time [of op B s] ed_time [of B s] cb_time [of B s]
  by (auto simp: exec_base_def is_prefix_def)

section \<open>Prefixed instructions\<close>

lemma exec_ddfd_time:
  assumes "mapped B s" "\<not> is_prefix (RB B s (reg_pc s))" "exec_ddfd B s i = Some r"
  shows "fst r \<in> {8..25}"
proof -
  let ?op = "RB B s (reg_pc s)" and ?s = "skip (Suc 0) s"
  note f = FETCH_skip1 [OF assms(1)]
  consider "?op = 0xCB" | (c) r' where "?op \<noteq> 0xCB" "ddfd_case B ?s i ?op = Some r'"
    | (default) "?op \<noteq> 0xCB" "ddfd_case B ?s i ?op = None"
    by (cases "ddfd_case B ?s i ?op") auto
  then show ?thesis
  proof cases
    case 1
    then have "exec_ddfdcb B ?s (get_xy ?s i) = r"
      using assms(3) by (subst (asm) exec_ddfd.simps) (simp add: Let_def case_prod_beta f)
    then show ?thesis using ddfdcb_time [of B ?s "get_xy ?s i"] by auto
  next
    case c
    then have "r = r'"
      using assms(3) by (subst (asm) exec_ddfd.simps) (simp add: Let_def case_prod_beta f)
    then show ?thesis using ddfd_case_time [OF c(2)] by auto
  next
    case default
    then have "Some (4 + fst (exec_base B ?s ?op), snd (exec_base B ?s ?op)) = Some r"
      using assms(2,3) by (subst (asm) exec_ddfd.simps) (simp add: Let_def case_prod_beta f is_prefix_def)
    then have "fst r = 4 + fst (exec_base B ?s ?op)" by (metis option.inject fst_conv)
    then show ?thesis using exec_base_time [OF assms(2), of B ?s] by simp
  qed
qed

lemma z80_step_halted:
  assumes "halted s \<noteq> 0"
  shows "z80_step B s = Some (4, (INC_R (s\<lparr>ei_delay := 0\<rparr>))\<lparr>clocks := clocks s + 4\<rparr>)"
proof -
  have e: "(if ei_delay s \<noteq> 0 then s\<lparr>ei_delay := 0\<rparr> else s) = s\<lparr>ei_delay := 0\<rparr>" by simp
  show ?thesis using assms unfolding z80_step_def e Let_def by simp
qed

lemma step_time_short:
  assumes "mapped B s" "z80_step B s = Some (t, s')"
    and "\<not> (is_prefix (RB B s (reg_pc s)) \<and> is_prefix (RB B s (reg_pc s + 1)))"
  shows "t \<in> {4..25}"
proof (cases "halted s = 0")
  case False
  then show ?thesis using assms(2) by (simp add: z80_step_halted)
next
  case True
  let ?s = "skip (Suc 0) (s\<lparr>ei_delay := 0\<rparr>)" and ?op = "RB B s (reg_pc s)"
  note f = fetched_op [OF assms(1)]
  obtain u where u: "exec_opcode B ?s ?op = Some (t, u)"
    using assms(2) unfolding z80_step_unfold [OF assms(1) True] by auto
  show ?thesis
  proof (cases "is_prefix ?op")
    case True
    then have "\<not> is_prefix (RB B ?s (reg_pc ?s))" using assms(3) by (simp only: f(2,3)) simp
    from exec_ddfd_time [OF f(1) this] u True show ?thesis by (force simp: exec_opcode_prefix)
  next
    case False
    then have "t = fst (exec_base B ?s ?op)"
      using u by (simp add: exec_base_opcode is_prefix_def)
    then show ?thesis using exec_base_time [OF False, of B ?s] by simp
  qed
qed

lemma first_non_prefix:
  assumes "mapped B s" "halted s = 0" "z80_step B s \<noteq> None" "is_prefix (RB B s (reg_pc s))"
  obtains k where "\<forall>j<Suc k. is_prefix (RB B s (reg_pc s + of_nat j))"
    "\<not> is_prefix (RB B s (reg_pc s + of_nat (Suc k)))"
proof -
  let ?P = "\<lambda>n. \<not> is_prefix (RB B s (reg_pc s + of_nat n))"
  obtain a where "\<not> is_prefix (RB B s a)" using all_prefix_none [OF assms(1,2)] assms(3) by blast
  then have "?P (unat (a - reg_pc s))" by simp
  then obtain n where n: "?P n" "\<forall>j<n. \<not> ?P j" using exists_least_iff [of ?P] by blast
  then obtain k where "n = Suc k" using assms(4) by (cases n) auto
  then show ?thesis using n that by blast
qed

lemma step_time_lower:
  assumes "mapped B s" "z80_step B s = Some (t, s')"
  shows "4 \<le> t"
proof (cases "halted s \<noteq> 0 \<or> \<not> is_prefix (RB B s (reg_pc s))")
  case True
  then show ?thesis
    using step_time_short [OF assms] assms(2) z80_step_halted [of s B] by auto
next
  case False
  then obtain k where k: "\<forall>j<Suc k. is_prefix (RB B s (reg_pc s + of_nat j))"
    "\<not> is_prefix (RB B s (reg_pc s + of_nat (Suc k)))"
    using first_non_prefix [OF assms(1), of thesis] assms(2) by auto
  have m: "mapped B (skip k s)" using assms(1) by (subst mapped_view [of _ s]) simp_all
  have rb: "RB B (skip k s) a = RB B s a" for a using assms(1) by (rule RB_view) simp
  obtain t' u where u: "z80_step B (skip k s) = Some (t', u)" "t = 4 * int k + t'"
    using z80_step_chain [OF assms(1) _ k] False assms(2) by (cases "z80_step B (skip k s)") auto
  have "\<not> (is_prefix (RB B (skip k s) (reg_pc (skip k s))) \<and> is_prefix (RB B (skip k s) (reg_pc (skip k s) + 1)))"
    using k(2) by (simp add: rb ac_simps)
  from step_time_short [OF m u(1) this] u(2) show ?thesis by simp
qed

section \<open>The clock\<close>

definition keeps_clocks :: "'c bus \<Rightarrow> bool" where
  "keeps_clocks B \<longleftrightarrow>
     (\<forall>s a v. clocks (mem_write B s a v) = clocks s)
     \<and> (\<forall>s p. clocks (snd (io_read B s p)) = clocks s)
     \<and> (\<forall>s p v. clocks (io_write B s p v) = clocks s)"

lemma keeps_clocks_invariant:
  assumes "keeps_clocks B"
  shows "exec_invariant B (\<lambda>s. clocks s = c)"
  using assms
  by unfold_locales (auto simp: keeps_clocks_def host_view_def WB_def IN_def OUT_def split: option.split)

lemma step_clocks:
  assumes "keeps_clocks B" "z80_step B s = Some (t, s')"
  shows "clocks s' = clocks s + of_int t"
proof -
  note inv = keeps_clocks_invariant [OF assms(1), of "clocks s"]
  have e: "(if ei_delay s \<noteq> 0 then s\<lparr>ei_delay := 0\<rparr> else s) = s\<lparr>ei_delay := 0\<rparr>" by simp
  show ?thesis
    using assms(2) exec_invariant.I_snd(4) [OF inv] exec_invariant.I_exec_opcode [OF inv]
    unfolding z80_step_def e Let_def
    by (force simp: case_prod_beta bind_eq_Some_conv FETCH_def Let_def split: if_splits)
qed

text \<open>C35 (step_time): Every instruction takes at least 4 T-states, at most 25 unless it starts with two
prefixes, and z80_step adds exactly what it returns to clocks.\<close>

theorem step_time:
  assumes "mapped B s" "keeps_clocks B" "z80_step B s = Some (t, s')"
  shows "4 \<le> t
    \<and> (\<not> (is_prefix (RB B s (reg_pc s)) \<and> is_prefix (RB B s (reg_pc s + 1))) \<longrightarrow> t \<le> 25)
    \<and> clocks s' = clocks s + of_int t"
  using step_time_lower [OF assms(1,3)] step_time_short [OF assms(1,3)] step_clocks [OF assms(2,3)]
  by auto

lemma step_time_witness:
  "\<exists>t s'. z80_step sample_bus (sample (program [0xDD, 0x23])) = Some (t, s') \<and> 4 \<le> t \<and> t \<le> 25
     \<and> clocks s' = of_int t"
proof -
  let ?s = "sample (program [0xDD, 0x23])"
  have m: "mapped sample_bus ?s" by (simp add: sample_mapped)
  have k: "keeps_clocks sample_bus" by (simp add: keeps_clocks_def sample_bus_def)
  have np: "\<not> is_prefix (RB sample_bus ?s 1)" by (simp add: sample_RB program_def is_prefix_def)
  obtain t s' where "z80_step sample_bus ?s = Some (t, s')"
    using non_prefix_returns [OF m _ np] by auto
  with step_time [OF m k this] np show ?thesis by auto
qed

end
