(* ===== verification/Z80_Control.thy ===== *)
theory Z80_Control
  imports Z80_Timing
begin

text \<open>
  The stack, calls and returns, and the interrupt machinery of \<open>src/src/z80/z80.c\<close>: what
  \<open>z80_interrupt\<close>, \<open>z80_nmi\<close>, EI, HALT, RETN and RETI do together.
\<close>

section \<open>The stack\<close>

lemma add_1_neq [simp]: "(a :: u16) + 1 \<noteq> a" "a \<noteq> a + 1"
  by simp_all

lemma WW_mapped:
  assumes "flat_mapped B s" "writable_at s a" "writable_at s (a + 1)"
  shows "RW B (WW B s a v) a = v"
    and "x \<noteq> a \<Longrightarrow> x \<noteq> a + 1 \<Longrightarrow> RB B (WW B s a v) x = RB B s x"
    and "\<exists>h. WW B s a v = s\<lparr>heap := h\<rparr>"
proof -
  have m: "mapped B s" using assms(1) by (simp add: flat_mapped_def)
  have i: "flat_mapped B (WB B s a (lo8 v))" using assms(1) by (rule cpu_flat.inv_wr)
  have w: "writable_at (WB B s a (lo8 v)) = writable_at s" using assms(1) by (rule cpu_flat.writable_wr)
  show "RW B (WW B s a v) a = v"
    using assms(2,3) by (simp add: RW_pair16 WW_bytes cpu_flat.rd_wr_flat [OF i] cpu_flat.rd_wr_flat [OF assms(1)] w)
  show "x \<noteq> a \<Longrightarrow> x \<noteq> a + 1 \<Longrightarrow> RB B (WW B s a v) x = RB B s x"
    by (simp add: WW_bytes cpu_flat.rd_wr_flat [OF i] cpu_flat.rd_wr_flat [OF assms(1)])
  show "\<exists>h. WW B s a v = s\<lparr>heap := h\<rparr>"
    using assms(2,3) w by (simp add: WW_bytes WB_mapped [OF mapped_WB [OF m]]) (simp add: WB_mapped [OF m], blast)
qed

lemma flat_cong:
  assumes "flat_mapped B s" "page_read s' = page_read s" "page_write s' = page_write s" "ctx s' = ctx s"
  shows "flat_mapped B s'"
  using assms mapped_cong [of s' s B] pages_disjoint_cong [of s' s] by (simp add: flat_mapped_def)

lemma RW_cong:
  "mapped B s \<Longrightarrow> page_read s' = page_read s \<Longrightarrow> heap s' = heap s \<Longrightarrow> RW B s' a = RW B s a"
  using RB_cong [of B s s'] by (simp add: RW_pair16)

text \<open>The state after a push: the stack pointer and two bytes of memory changed.\<close>

lemma PUSH_flat:
  assumes "flat_mapped B s" "writable_at s (reg_sp s - 2)" "writable_at s (reg_sp s - 1)"
  obtains h where "PUSH B s v = s\<lparr>reg_sp := reg_sp s - 2, heap := h\<rparr>"
    and "RW B (PUSH B s v) (reg_sp s - 2) = v"
    and "\<forall>x. x \<noteq> reg_sp s - 2 \<longrightarrow> x \<noteq> reg_sp s - 1 \<longrightarrow> RB B (PUSH B s v) x = RB B s x"
proof -
  let ?s = "s\<lparr>reg_sp := reg_sp s - 2\<rparr>" and ?a = "reg_sp s - 2"
  have f: "flat_mapped B ?s" by (rule flat_cong [OF assms(1)]) simp_all
  have m: "mapped B s" using assms(1) by (simp add: flat_mapped_def)
  have a: "?a + 1 = reg_sp s - 1" by simp
  have w: "writable_at ?s ?a" "writable_at ?s (?a + 1)" using assms(2,3) unfolding a by (simp_all add: writable_at_def)
  have p: "PUSH B s v = WW B ?s ?a v" by (simp add: PUSH_def Let_def)
  note ww = WW_mapped [OF f w, where v = v]
  obtain h where "WW B ?s ?a v = ?s\<lparr>heap := h\<rparr>" using ww(3) by blast
  moreover have "RB B (PUSH B s v) x = RB B s x" if "x \<noteq> ?a" "x \<noteq> reg_sp s - 1" for x
    using ww(2) [OF that(1)] that(2) a RB_cong [OF m, of ?s x] unfolding p by simp
  ultimately show ?thesis using that [of h] ww(1) p by simp
qed

theorem push_pop:
  assumes "flat_mapped B s" "writable_at s (reg_sp s - 2)" "writable_at s (reg_sp s - 1)"
  shows "POP B (PUSH B s v) = (v, (PUSH B s v)\<lparr>reg_sp := reg_sp s\<rparr>)
    \<and> (\<forall>x. x \<noteq> reg_sp s - 2 \<and> x \<noteq> reg_sp s - 1 \<longrightarrow> RB B (PUSH B s v) x = RB B s x)
    \<and> (PUSH B s v)\<lparr>reg_sp := reg_sp s, heap := heap s\<rparr> = s"
proof -
  obtain h where p: "PUSH B s v = s\<lparr>reg_sp := reg_sp s - 2, heap := h\<rparr>"
    and v: "RW B (PUSH B s v) (reg_sp s - 2) = v"
    and rest: "\<forall>x. x \<noteq> reg_sp s - 2 \<longrightarrow> x \<noteq> reg_sp s - 1 \<longrightarrow> RB B (PUSH B s v) x = RB B s x"
    by (rule PUSH_flat [OF assms])
  have m: "mapped B (PUSH B s v)"
    using assms(1) unfolding p by (subst mapped_cong [of _ s]) (simp_all add: flat_mapped_def)
  have "POP B (PUSH B s v) = (RW B ((PUSH B s v)\<lparr>reg_sp := reg_sp s\<rparr>) (reg_sp s - 2), (PUSH B s v)\<lparr>reg_sp := reg_sp s\<rparr>)"
    by (simp add: POP_def Let_def p)
  moreover have "RW B ((PUSH B s v)\<lparr>reg_sp := reg_sp s\<rparr>) (reg_sp s - 2) = v"
    using RW_cong [OF m, of "(PUSH B s v)\<lparr>reg_sp := reg_sp s\<rparr>"] v by simp
  ultimately show ?thesis using rest p by simp
qed

lemma push_pop_witness:
  "fst (POP sample_bus (PUSH sample_bus (sample (program [])) 0x1234)) = 0x1234"
  using push_pop [of sample_bus "sample (program [])"]
  by (simp add: sample_flat sample_writable)

section \<open>Stepping an unprefixed opcode\<close>

lemma main_step:
  assumes "mapped B s" "halted s = 0" "RB B s (reg_pc s) = op" "op \<notin> {0xCB, 0xDD, 0xED, 0xFD}"
  obtains r where "z80_step B s =
    (let (t, u) = exec_main B (s\<lparr>ei_delay := 0, reg_pc := reg_pc s + 1, reg_r := r\<rparr>) op
     in Some (t, u\<lparr>clocks := clocks u + of_int t\<rparr>))"
proof -
  obtain r where "skip (Suc 0) (s\<lparr>ei_delay := 0\<rparr>) = s\<lparr>ei_delay := 0, reg_pc := reg_pc s + 1, reg_r := r\<rparr>"
    by (rule skip_upd [of "Suc 0" "s\<lparr>ei_delay := 0\<rparr>"]) auto
  then have "z80_step B s =
    (let (t, u) = exec_main B (s\<lparr>ei_delay := 0, reg_pc := reg_pc s + 1, reg_r := r\<rparr>) op
     in Some (t, u\<lparr>clocks := clocks u + of_int t\<rparr>))"
    using assms(3,4)
    by (simp add: z80_step_unfold [OF assms(1,2)] exec_opcode_def case_prod_beta Let_def)
  then show ?thesis by (rule that)
qed

section \<open>Interrupts\<close>

text \<open>The address an interrupt returns to: HALT holds PC on itself.\<close>

definition return_pc :: "'c z80 \<Rightarrow> u16" where
  "return_pc s = (if halted s \<noteq> 0 then reg_pc s + 1 else reg_pc s)"

lemma wake_up_eq: "wake_up s = s\<lparr>halted := 0, reg_pc := return_pc s\<rparr>"
  by (simp add: wake_up_def return_pc_def)

lemma wake_up_fields [simp]:
  "imode (wake_up s) = imode s" "iff1 (wake_up s) = iff1 s" "reg_i (wake_up s) = reg_i s"
  by (simp_all add: wake_up_def)

text \<open>C32 (interrupt_accepted): An accepted IM 1 or IM 2 interrupt pushes the return address (past the
HALT when halted), disables both flip-flops, wakes the CPU and jumps to 0038h in 13 T-states or
through the vector table in 19. R counts one more in its low seven bits; every other register and
memory off the stack slot are unchanged. The pages are mapped and do not overlap, and the two
bytes of the stack slot are writable.\<close>

theorem interrupt_accepted:
  assumes "flat_mapped B s" "writable_at s (reg_sp s - 2)" "writable_at s (reg_sp s - 1)"
    and "iff1 s \<noteq> 0" "ei_delay s = 0" "imode s = 1 \<or> imode s = 2"
  shows "\<exists>s' h. z80_interrupt B s d = Some (if imode s = 1 then 13 else 19, s')
    \<and> s' = s\<lparr>iff1 := 0, iff2 := 0, halted := 0, reg_r := (reg_r s AND 0x80) OR ((reg_r s + 1) AND 0x7F), reg_sp := reg_sp s - 2, heap := h,
             reg_pc := (if imode s = 1 then 0x38 else RW B s' (pair16 (reg_i s) d))\<rparr>
    \<and> RW B s' (reg_sp s') = return_pc s
    \<and> (\<forall>x. x \<noteq> reg_sp s - 2 \<longrightarrow> x \<noteq> reg_sp s - 1 \<longrightarrow> RB B s' x = RB B s x)"
proof -
  define u where "u = INC_R (wake_up (s\<lparr>iff1 := 0, iff2 := 0, ei_delay := 0\<rparr>))"
  define r where "r = (reg_r s AND 0x80) OR ((reg_r s + 1) AND 0x7F)"
  have u: "u = s\<lparr>iff1 := 0, iff2 := 0, halted := 0, reg_pc := return_pc s, reg_r := r\<rparr>"
    using assms(5) by (simp add: r_def u_def wake_up_eq INC_R_def return_pc_def)
  have e: "INC_R (wake_up (s\<lparr>iff1 := 0, iff2 := 0, ei_delay := 0\<rparr>)) = u" by (simp add: u_def)
  have upc: "reg_pc u = return_pc s" "reg_i u = reg_i s" "imode u = imode s" by (simp_all add: u)
  have fu: "flat_mapped B u" by (rule flat_cong [OF assms(1)]) (simp_all add: u)
  have wu: "writable_at u (reg_sp u - 2)" "writable_at u (reg_sp u - 1)"
    using assms(2,3) by (simp_all add: u writable_at_def)
  obtain h where p: "PUSH B u (return_pc s) = u\<lparr>reg_sp := reg_sp u - 2, heap := h\<rparr>"
    and v: "RW B (PUSH B u (return_pc s)) (reg_sp u - 2) = return_pc s"
    and rest: "\<forall>x. x \<noteq> reg_sp u - 2 \<longrightarrow> x \<noteq> reg_sp u - 1 \<longrightarrow> RB B (PUSH B u (return_pc s)) x = RB B u x"
    by (rule PUSH_flat [OF fu wu])
  let ?q = "PUSH B u (return_pc s)"
  have mq: "mapped B ?q"
    using fu unfolding p by (subst mapped_cong [of _ u]) (simp_all add: flat_mapped_def)
  let ?pc = "if imode s = 1 then 0x38 else RW B ?q (pair16 (reg_i s) d)"
  let ?s' = "?q\<lparr>reg_pc := ?pc\<rparr>"
  have rb: "RB B ?s' x = RB B ?q x" for x by (rule RB_cong [OF mq]) simp_all
  then have rw: "RW B ?s' x = RW B ?q x" for x by (simp add: RW_pair16)
  have ru: "RB B u x = RB B s x" for x
    using assms(1) by (intro RB_cong) (simp_all add: u flat_mapped_def)
  have "z80_interrupt B s d = Some (if imode s = 1 then 13 else 19, ?s')"
    using assms(4-6) upc p unfolding z80_interrupt_def Let_def e by auto
  moreover have "?s' = s\<lparr>iff1 := 0, iff2 := 0, halted := 0, reg_r := r, reg_sp := reg_sp s - 2, heap := h,
             reg_pc := (if imode s = 1 then 0x38 else RW B ?s' (pair16 (reg_i s) d))\<rparr>"
    unfolding rw unfolding p by (simp add: u)
  moreover have "reg_sp ?s' = reg_sp u - 2" by (simp add: p)
  then have "RW B ?s' (reg_sp ?s') = return_pc s" using v unfolding rw by simp
  moreover have "\<forall>x. x \<noteq> reg_sp s - 2 \<longrightarrow> x \<noteq> reg_sp s - 1 \<longrightarrow> RB B ?s' x = RB B s x"
    unfolding rb using rest ru by (simp add: u)
  ultimately show ?thesis unfolding r_def by blast
qed

theorem nmi_retn:
  assumes "flat_mapped B s" "writable_at s (reg_sp s - 2)" "writable_at s (reg_sp s - 1)"
    and "RB B s 0x66 = 0xED" "RB B s 0x67 = 0x45"
    and "reg_sp s - 2 \<notin> {0x66, 0x67}" "reg_sp s - 1 \<notin> {0x66, 0x67}"
  shows "\<exists>s1 s2. z80_nmi B s = (11, s1) \<and> reg_pc s1 = 0x66 \<and> iff1 s1 = 0
    \<and> z80_step B s1 = Some (14, s2) \<and> reg_pc s2 = return_pc s \<and> reg_sp s2 = reg_sp s
    \<and> iff1 s2 = iff1 s \<and> iff2 s2 = iff1 s \<and> halted s2 = 0 \<and> AF s2 = AF s \<and> HL s2 = HL s
    \<and> (\<forall>x. x \<noteq> reg_sp s - 2 \<longrightarrow> x \<noteq> reg_sp s - 1 \<longrightarrow> RB B s2 x = RB B s x)"
proof -
  define u where "u = s\<lparr>halted := 0, reg_pc := return_pc s, iff2 := iff1 s, iff1 := 0, ei_delay := 0\<rparr>"
  have uf: "reg_pc u = return_pc s" "reg_sp u = reg_sp s" "halted u = 0" "iff1 u = 0" "iff2 u = iff1 s"
    "ei_delay u = 0" "clocks u = clocks s" "AF u = AF s" "HL u = HL s"
    by (simp_all add: u_def AF_def HL_def)
  have fu: "flat_mapped B u" by (rule flat_cong [OF assms(1)]) (simp_all add: u_def)
  have wu: "writable_at u (reg_sp u - 2)" "writable_at u (reg_sp u - 1)"
    using assms(2,3) by (simp_all add: u_def writable_at_def)
  obtain h where p: "PUSH B u (return_pc s) = u\<lparr>reg_sp := reg_sp u - 2, heap := h\<rparr>"
    and v: "RW B (PUSH B u (return_pc s)) (reg_sp u - 2) = return_pc s"
    and rest: "\<forall>x. x \<noteq> reg_sp u - 2 \<longrightarrow> x \<noteq> reg_sp u - 1 \<longrightarrow> RB B (PUSH B u (return_pc s)) x = RB B u x"
    by (rule PUSH_flat [OF fu wu])
  let ?q = "PUSH B u (return_pc s)"
  let ?s1 = "?q\<lparr>reg_pc := 0x66\<rparr>"
  have mq: "mapped B ?q"
    using fu unfolding p by (subst mapped_cong [of _ u]) (simp_all add: flat_mapped_def)
  have ru: "RB B u x = RB B s x" for x
    using assms(1) by (intro RB_cong) (simp_all add: u_def flat_mapped_def)
  have rq: "RB B ?q x = RB B s x" if "x \<noteq> reg_sp s - 2" "x \<noteq> reg_sp s - 1" for x
    using rest that ru by (simp add: uf)
  have r1: "RB B ?s1 x = RB B ?q x" for x by (rule RB_cong [OF mq]) simp_all
  have m1: "mapped B ?s1" using mq by (subst mapped_cong [of _ ?q]) simp_all
  have nmi: "z80_nmi B s = (11, ?s1)"
    unfolding z80_nmi_def Let_def wake_up_eq by (simp add: u_def return_pc_def)
  have code: "RB B ?s1 0x66 = 0xED" "RB B ?s1 0x67 = 0x45"
    unfolding r1 using assms(4-7) rq by auto
  obtain r where sk: "skip 2 (?s1\<lparr>ei_delay := 0\<rparr>) = ?s1\<lparr>ei_delay := 0, reg_pc := reg_pc ?s1 + 2, reg_r := r\<rparr>"
    by (rule skip_upd [of 2 "?s1\<lparr>ei_delay := 0\<rparr>"]) auto
  define w where "w = ?s1\<lparr>ei_delay := 0, reg_pc := 0x68, reg_r := r, iff1 := iff1 s, reg_sp := reg_sp s\<rparr>"
  have rw: "RB B w x = RB B ?q x" for x by (rule RB_cong [OF mq]) (simp_all add: w_def)
  define s2 where "s2 = w\<lparr>reg_pc := return_pc s, clocks := clocks s + 14\<rparr>"
  have r2: "RB B s2 x = RB B ?q x" for x by (rule RB_cong [OF mq]) (simp_all add: s2_def w_def)
  have pop: "RW B w (reg_sp s - 2) = return_pc s"
    using v by (simp add: RW_pair16 rw uf)
  have h1: "halted ?s1 = 0" by (simp add: p uf)
  have "z80_step B ?s1 = Some (14, s2)"
    using ed_step [OF m1 h1] code pop unfolding sk
    by (simp add: ed_dispatch_def ed_retn_def POP_def Let_def s2_def w_def p uf)
  moreover have "iff1 s2 = iff1 s \<and> iff2 s2 = iff1 s \<and> halted s2 = 0 \<and> AF s2 = AF s \<and> HL s2 = HL s"
    using uf by (simp add: s2_def w_def p) (simp add: AF_def HL_def)
  ultimately show ?thesis
    using nmi rq unfolding r2 [symmetric] by (auto simp: p uf s2_def w_def)
qed

section \<open>HALT and EI\<close>

lemma halted_run:
  assumes "halted s \<noteq> 0"
  shows "\<exists>r e. z80_run B n s = Some (4 * int n,
    s\<lparr>reg_r := r, ei_delay := e, clocks := clocks s + of_nat (4 * n)\<rparr>)"
  using assms
proof (induction n arbitrary: s)
  case 0
  have "z80_run B 0 s = Some (4 * int 0,
      s\<lparr>reg_r := reg_r s, ei_delay := ei_delay s, clocks := clocks s + of_nat (4 * 0)\<rparr>)" by simp
  then show ?case by blast
next
  case (Suc n)
  let ?s = "(INC_R (s\<lparr>ei_delay := 0\<rparr>))\<lparr>clocks := clocks s + 4\<rparr>"
  obtain r e where "z80_run B n ?s = Some (4 * int n,
      ?s\<lparr>reg_r := r, ei_delay := e, clocks := clocks ?s + of_nat (4 * n)\<rparr>)"
    using Suc.IH [of ?s] Suc.prems by (auto simp: INC_R_def)
  from z80_run_step [OF z80_step_halted [OF Suc.prems] this]
  have "z80_run B (Suc n) s = Some (4 * int (Suc n),
      s\<lparr>reg_r := r, ei_delay := e, clocks := clocks s + of_nat (4 * Suc n)\<rparr>)"
    by (simp add: INC_R_def algebra_simps)
  then show ?case by blast
qed

lemma op_fields:
  "op_x 0x76 = 1" "op_y 0x76 = 6" "op_z 0x76 = 6" "op_x 0xFB = 3" "op_y 0xFB = 7" "op_z 0xFB = 3"
  "op_x 0xCD = 3" "op_z 0xCD = 5" "op_p 0xCD = 0" "op_q 0xCD = 1"
  "op_x 0xC9 = 3" "op_z 0xC9 = 1" "op_p 0xC9 = 0" "op_q 0xC9 = 1"
  "op_x 0 = 0" "op_y 0 = 0" "op_z 0 = 0"
  by (simp_all add: decode_num)

text \<open>From HALT on the CPU idles at 4 T-states a step, PC on the HALT, until an interrupt.\<close>

theorem halt_waits:
  assumes "mapped B s" "halted s = 0" "RB B s (reg_pc s) = 0x76"
  shows "\<exists>r e. let s' = s\<lparr>halted := 1, ei_delay := e, reg_r := r, clocks := clocks s + of_nat (4 * Suc n)\<rparr>
    in z80_run B (Suc n) s = Some (4 * int (Suc n), s') \<and> return_pc s' = reg_pc s + 1"
proof -
  obtain r where st: "z80_step B s =
    (let (t, u) = exec_main B (s\<lparr>ei_delay := 0, reg_pc := reg_pc s + 1, reg_r := r\<rparr>) (RB B s (reg_pc s))
     in Some (t, u\<lparr>clocks := clocks u + of_int t\<rparr>))"
    by (rule main_step [OF assms(1,2) refl]) (simp_all add: assms(3))
  let ?u = "s\<lparr>halted := 1, ei_delay := 0, reg_r := r, clocks := clocks s + 4\<rparr>"
  have 1: "z80_step B s = Some (4, ?u)"
    unfolding st assms(3) by (simp add: exec_main_def main_x1_def op_fields Let_def)
  obtain r' e where 2: "z80_run B n ?u = Some (4 * int n,
      ?u\<lparr>reg_r := r', ei_delay := e, clocks := clocks ?u + of_nat (4 * n)\<rparr>)"
    using halted_run [of ?u B n] by auto
  have "z80_run B (Suc n) s = Some (4 * int (Suc n),
      s\<lparr>halted := 1, ei_delay := e, reg_r := r', clocks := clocks s + of_nat (4 * Suc n)\<rparr>)"
    using z80_run_step [OF 1 2] by (simp add: algebra_simps)
  then show ?thesis
    unfolding Let_def by (intro exI conjI, assumption) (simp add: return_pc_def)
qed

text \<open>EI takes effect after the instruction that follows it.\<close>

text \<open>C33 (ei_defers_interrupts): After EI no maskable interrupt is accepted until one more instruction
has run; after a NOP the interrupt is accepted.\<close>

theorem ei_defers_interrupts:
  assumes "mapped B s" "halted s = 0" "RB B s (reg_pc s) = 0xFB" "RB B s (reg_pc s + 1) = 0"
  shows "\<exists>s1 s2. z80_step B s = Some (4, s1) \<and> iff1 s1 = 1 \<and> iff2 s1 = 1
    \<and> (\<forall>d. z80_interrupt B s1 d = Some (0, s1))
    \<and> z80_step B s1 = Some (4, s2) \<and> iff1 s2 = 1 \<and> ei_delay s2 = 0 \<and> reg_pc s2 = reg_pc s + 2
    \<and> (\<forall>d t s3. imode s2 = 1 \<or> imode s2 = 2 \<longrightarrow> z80_interrupt B s2 d = Some (t, s3) \<longrightarrow> 13 \<le> t)"
proof -
  obtain r where st: "z80_step B s =
    (let (t, u) = exec_main B (s\<lparr>ei_delay := 0, reg_pc := reg_pc s + 1, reg_r := r\<rparr>) (RB B s (reg_pc s))
     in Some (t, u\<lparr>clocks := clocks u + of_int t\<rparr>))"
    by (rule main_step [OF assms(1,2) refl]) (simp_all add: assms(3))
  let ?u = "s\<lparr>iff1 := 1, iff2 := 1, ei_delay := 1, reg_pc := reg_pc s + 1, reg_r := r, clocks := clocks s + 4\<rparr>"
  have 1: "z80_step B s = Some (4, ?u)"
    unfolding st assms(3) by (simp add: exec_main_def main_x3_def x3_z3_def op_fields Let_def)
  have mu: "mapped B ?u" using assms(1) by (subst mapped_cong [of _ s]) simp_all
  have nop: "RB B ?u (reg_pc ?u) = 0" using RB_cong [OF assms(1), of ?u] assms(4) by simp
  obtain r' where st': "z80_step B ?u =
    (let (t, u) = exec_main B (?u\<lparr>ei_delay := 0, reg_pc := reg_pc ?u + 1, reg_r := r'\<rparr>) 0
     in Some (t, u\<lparr>clocks := clocks u + of_int t\<rparr>))"
    by (rule main_step [OF mu _ nop]) (simp_all add: assms(2))
  let ?w = "?u\<lparr>ei_delay := 0, reg_pc := reg_pc s + 2, reg_r := r', clocks := clocks s + 8\<rparr>"
  have 2: "z80_step B ?u = Some (4, ?w)"
    unfolding st' by (simp add: exec_main_def main_x0_def x0_z0_def op_fields Let_def)
  have 3: "\<forall>d. z80_interrupt B ?u d = Some (0, ?u)" by (simp add: z80_interrupt_def)
  have 4: "13 \<le> t"
    if "imode ?w = 1 \<or> imode ?w = 2" "z80_interrupt B ?w d = Some (t, s3)" for d t s3
    using that by (auto simp: z80_interrupt_def Let_def)
  show ?thesis using 1 2 3 4 by (intro exI [of _ ?u] exI [of _ ?w]) auto
qed

text \<open>A mode of 3, which the instruction set cannot set but a snapshot can, loses the interrupt
  and all that follow.\<close>

theorem interrupt_im3_lost:
  assumes "iff1 s \<noteq> 0" "ei_delay s = 0" "imode s \<notin> {0, 1, 2}"
  shows "\<exists>s'. z80_interrupt B s d = Some (0, s') \<and> reg_pc s' = return_pc s \<and> reg_sp s' = reg_sp s
    \<and> (\<forall>d'. z80_interrupt B s' d' = Some (0, s'))"
  using assms by (simp add: z80_interrupt_def Let_def wake_up_eq return_pc_def)

section \<open>CALL and RET\<close>

theorem call_ret:
  assumes "flat_mapped B s" "halted s = 0"
    and "writable_at s (reg_sp s - 2)" "writable_at s (reg_sp s - 1)"
    and "RB B s (reg_pc s) = 0xCD" "RW B s (reg_pc s + 1) = a"
    and "RB B s a = 0xC9" "a \<noteq> reg_sp s - 2" "a \<noteq> reg_sp s - 1"
  shows "\<exists>s' h r. z80_run B 2 s = Some (27, s')
    \<and> s' = s\<lparr>reg_pc := reg_pc s + 3, reg_r := r, ei_delay := 0, clocks := clocks s + 27, heap := h\<rparr>
    \<and> (\<forall>x. x \<noteq> reg_sp s - 2 \<longrightarrow> x \<noteq> reg_sp s - 1 \<longrightarrow> RB B s' x = RB B s x)"
proof -
  have m: "mapped B s" using assms(1) by (simp add: flat_mapped_def)
  obtain r where st: "z80_step B s =
    (let (t, u) = exec_main B (s\<lparr>ei_delay := 0, reg_pc := reg_pc s + 1, reg_r := r\<rparr>) 0xCD
     in Some (t, u\<lparr>clocks := clocks u + of_int t\<rparr>))"
    by (rule main_step [OF m assms(2,5)]) simp_all
  define u where "u = s\<lparr>ei_delay := 0, reg_r := r, reg_pc := reg_pc s + 3\<rparr>"
  have uf: "reg_pc u = reg_pc s + 3" "reg_sp u = reg_sp s" "halted u = 0" "clocks u = clocks s" "ei_delay u = 0"
    using assms(2) by (simp_all add: u_def)
  have fu: "flat_mapped B u" by (rule flat_cong [OF assms(1)]) (simp_all add: u_def)
  have wu: "writable_at u (reg_sp u - 2)" "writable_at u (reg_sp u - 1)"
    using assms(3,4) by (simp_all add: u_def writable_at_def)
  obtain h where p: "PUSH B u (reg_pc s + 3) = u\<lparr>reg_sp := reg_sp u - 2, heap := h\<rparr>"
    and v: "RW B (PUSH B u (reg_pc s + 3)) (reg_sp u - 2) = reg_pc s + 3"
    and rest: "\<forall>x. x \<noteq> reg_sp u - 2 \<longrightarrow> x \<noteq> reg_sp u - 1 \<longrightarrow> RB B (PUSH B u (reg_pc s + 3)) x = RB B u x"
    by (rule PUSH_flat [OF fu wu])
  let ?q = "PUSH B u (reg_pc s + 3)"
  let ?s1 = "?q\<lparr>reg_pc := a, clocks := clocks s + 17\<rparr>"
  have mq: "mapped B ?q"
    using fu unfolding p by (subst mapped_cong [of _ u]) (simp_all add: flat_mapped_def)
  have m1: "mapped B ?s1" using mq by (subst mapped_cong [of _ ?q]) simp_all
  have ru: "RB B u x = RB B s x" for x by (rule RB_cong [OF m]) (simp_all add: u_def)
  have rq: "RB B ?q x = RB B s x" if "x \<noteq> reg_sp s - 2" "x \<noteq> reg_sp s - 1" for x
    using rest that ru by (simp add: uf)
  have r1: "RB B ?s1 x = RB B ?q x" for x by (rule RB_cong [OF mq]) simp_all
  have "RW B u (reg_pc s + 1) = a" using RW_cong [OF m, of u] assms(6) by (simp add: u_def)
  then have fetch: "FETCH16 B (s\<lparr>ei_delay := 0, reg_pc := reg_pc s + 1, reg_r := r\<rparr>) = (a, u)"
    by (simp add: FETCH16_def Let_def u_def add.commute)
  have 1: "z80_step B s = Some (17, ?s1)"
    using p unfolding st
    by (simp add: exec_main_def main_x3_def x3_z5_def op_fields Let_def fetch uf)
  have ret: "RB B ?s1 (reg_pc ?s1) = 0xC9" unfolding r1 using rq [OF assms(8,9)] assms(7) by simp
  have h1: "halted ?s1 = 0" by (simp add: p uf)
  obtain r' where st1: "z80_step B ?s1 =
    (let (t, u) = exec_main B (?s1\<lparr>ei_delay := 0, reg_pc := reg_pc ?s1 + 1, reg_r := r'\<rparr>) 0xC9
     in Some (t, u\<lparr>clocks := clocks u + of_int t\<rparr>))"
    by (rule main_step [OF m1 h1 ret]) simp_all
  define w where "w = ?s1\<lparr>ei_delay := 0, reg_pc := a + 1, reg_r := r', reg_sp := reg_sp s\<rparr>"
  have rw: "RB B w x = RB B ?q x" for x by (rule RB_cong [OF mq]) (simp_all add: w_def)
  have pop: "RW B w (reg_sp s - 2) = reg_pc s + 3" using v by (simp add: RW_pair16 rw uf)
  let ?s2 = "w\<lparr>reg_pc := reg_pc s + 3, clocks := clocks s + 27\<rparr>"
  have "w = ?s1\<lparr>ei_delay := 0, reg_pc := reg_pc ?s1 + 1, reg_r := r', reg_sp := reg_sp ?q - 2 + 4\<rparr>"
    by (simp add: w_def p uf)
  then have 2: "z80_step B ?s1 = Some (10, ?s2)"
    using pop unfolding st1
    by (simp add: exec_main_def main_x3_def x3_z1_def op_fields Let_def POP_def w_def p uf)
  have r2: "RB B ?s2 x = RB B ?q x" for x by (rule RB_cong [OF mq]) (simp_all add: w_def)
  have "z80_run B (Suc (Suc 0)) s = Some (27, ?s2)"
    using z80_run_step [OF 1 z80_run_step [OF 2 z80_run.simps(1)]] by simp
  moreover have "?s2 = s\<lparr>reg_pc := reg_pc s + 3, reg_r := r', ei_delay := 0, clocks := clocks s + 27, heap := h\<rparr>"
    unfolding w_def p by (simp add: u_def)
  moreover have "\<forall>x. x \<noteq> reg_sp s - 2 \<longrightarrow> x \<noteq> reg_sp s - 1 \<longrightarrow> RB B ?s2 x = RB B s x"
    unfolding r2 using rq by blast
  ultimately show ?thesis unfolding numeral_2_eq_2 by blast
qed

section \<open>Concrete runs\<close>

lemma sample_RB_code:
  "page_read s = sample_pages \<Longrightarrow> heap s = program bs \<circ> snd \<Longrightarrow> RB sample_bus s a = program bs (unat a)"
  by (simp add: sample_RB)

lemma interrupt_accepted_witness:
  "\<exists>s'. z80_interrupt sample_bus ((sample (program []))\<lparr>iff1 := 1, imode := 1, halted := 1, reg_pc := 0x8000\<rparr>) 0xFF
     = Some (13, s') \<and> reg_pc s' = 0x38 \<and> RW sample_bus s' (reg_sp s') = 0x8001"
proof -
  let ?s = "(sample (program []))\<lparr>iff1 := 1, imode := 1, halted := 1, reg_pc := 0x8000\<rparr>"
  have f: "flat_mapped sample_bus ?s" by (rule sample_flat) simp_all
  have w: "writable_at ?s a" for a by (rule sample_writable) simp
  obtain s' h r where "z80_interrupt sample_bus ?s 0xFF = Some (13, s')"
    and s': "s' = ?s\<lparr>iff1 := 0, iff2 := 0, halted := 0, reg_r := r, reg_sp := reg_sp ?s - 2, heap := h, reg_pc := 0x38\<rparr>"
    and "RW sample_bus s' (reg_sp s') = return_pc ?s"
    using interrupt_accepted [OF f w w, where d = "0xFF"] by auto
  moreover have "reg_pc s' = 0x38" by (subst s') simp
  ultimately show ?thesis by (auto simp: return_pc_def)
qed

lemma nmi_retn_witness:
  "\<exists>s1 s2. z80_nmi sample_bus ((sample (\<lambda>a. if a = 0x66 then 0xED else if a = 0x67 then 0x45 else 0))\<lparr>iff1 := 1, reg_pc := 0x8000\<rparr>)
     = (11, s1) \<and> z80_step sample_bus s1 = Some (14, s2) \<and> reg_pc s2 = 0x8000 \<and> iff1 s2 = 1"
proof -
  let ?s = "(sample (\<lambda>a. if a = 0x66 then 0xED else if a = 0x67 then 0x45 else 0))\<lparr>iff1 := 1, reg_pc := 0x8000\<rparr>"
  have f: "flat_mapped sample_bus ?s" by (rule sample_flat) simp_all
  have w: "writable_at ?s a" for a by (rule sample_writable) simp
  show ?thesis
    using nmi_retn [OF f w w] by (auto simp: sample_RB return_pc_def)
qed

lemma halt_waits_witness:
  "\<exists>s'. z80_run sample_bus 5 (sample (program [0x76])) = Some (20, s') \<and> reg_pc s' = 0 \<and> return_pc s' = 1"
  using halt_waits [of sample_bus "sample (program [0x76])" 4]
  by (auto simp: sample_mapped sample_RB program_def Let_def)

lemma ei_defers_interrupts_witness:
  "\<exists>s1 s2. z80_step sample_bus (sample (program [0xFB])) = Some (4, s1)
     \<and> z80_interrupt sample_bus s1 0xFF = Some (0, s1)
     \<and> z80_step sample_bus s1 = Some (4, s2) \<and> iff1 s2 = 1 \<and> ei_delay s2 = 0"
  using ei_defers_interrupts [of sample_bus "sample (program [0xFB])"]
  by (auto simp: sample_mapped sample_RB program_def)

lemma interrupt_im3_lost_witness:
  "\<exists>s'. z80_interrupt sample_bus ((sample (program []))\<lparr>iff1 := 1, imode := 3\<rparr>) 0xFF = Some (0, s')
     \<and> reg_pc s' = 0 \<and> z80_interrupt sample_bus s' 0xFF = Some (0, s')"
  using interrupt_im3_lost
    [where s = "(sample (program []))\<lparr>iff1 := 1, imode := 3\<rparr>" and B = sample_bus and d = "0xFF"]
  by (auto simp: return_pc_def)

lemma call_ret_witness:
  "\<exists>s'. z80_run sample_bus 2 (sample (program [0xCD, 5, 0, 0, 0, 0xC9])) = Some (27, s')
     \<and> reg_pc s' = 3 \<and> reg_sp s' = 0xFFFF"
proof -
  let ?s = "sample (program [0xCD, 5, 0, 0, 0, 0xC9])"
  have f: "flat_mapped sample_bus ?s" by (rule sample_flat) simp_all
  have w: "writable_at ?s a" for a by (rule sample_writable) simp
  show ?thesis
    using call_ret [OF f _ w w, of 5] by (auto simp: sample_RB RW_pair16 program_def pair16_def)
qed

end
