(* ===== verification/Z80_DAA.thy ===== *)
theory Z80_DAA
  imports Z80_ALU
begin

text \<open>
  Decimal arithmetic: after an addition or a subtraction of two bytes that hold two decimal digits
  each, \<open>op_daa\<close> leaves the decimal result in A and the decimal carry or borrow in the carry flag.
  The case analysis over the digit sums (19 by 20 cases) is evaluated by \<open>code_simp\<close>.
\<close>

text \<open>A byte as two decimal digits.\<close>

definition bcd :: "u8 \<Rightarrow> int" where
  "bcd v = 10 * (uint v div 16) + uint v mod 16"

definition is_bcd :: "u8 \<Rightarrow> bool" where
  "is_bcd v \<longleftrightarrow> uint v div 16 \<le> 9 \<and> uint v mod 16 \<le> 9"

definition daa_add_ok :: "int \<Rightarrow> int \<Rightarrow> bool" where
  "daa_add_ok h l =
     (let t = 16 * h + l; u = t mod 256; low = (16 \<le> l \<or> u mod 16 > 9);
          high = (256 \<le> t \<or> u > 153);
          r = (u + (if low then 6 else 0) + (if high then 96 else 0)) mod 256
      in r div 16 \<le> 9 \<and> r mod 16 \<le> 9
         \<and> 10 * (r div 16) + r mod 16 + (if high then 100 else 0) = 10 * h + l)"

lemma daa_add_table: "list_all (\<lambda>h. list_all (daa_add_ok h) [0..19]) [0..18]"
  by code_simp

lemma daa_add_ok: "0 \<le> h \<Longrightarrow> h \<le> 18 \<Longrightarrow> 0 \<le> l \<Longrightarrow> l \<le> 19 \<Longrightarrow> daa_add_ok h l"
  using daa_add_table by (simp add: list_all_iff del: upto_rec_numeral)

definition daa_sub_ok :: "int \<Rightarrow> int \<Rightarrow> bool" where
  "daa_sub_ok h l =
     (let t = 16 * h + l; u = t mod 256; low = (l < 0 \<or> u mod 16 > 9);
          high = (t < 0 \<or> u > 153);
          r = (u - (if low then 6 else 0) - (if high then 96 else 0)) mod 256
      in r div 16 \<le> 9 \<and> r mod 16 \<le> 9
         \<and> 10 * (r div 16) + r mod 16 - (if high then 100 else 0) = 10 * h + l)"

lemma daa_sub_table: "list_all (\<lambda>h. list_all (daa_sub_ok h) [-10..9]) [-9..9]"
  by code_simp

lemma daa_sub_ok: "-9 \<le> h \<Longrightarrow> h \<le> 9 \<Longrightarrow> -10 \<le> l \<Longrightarrow> l \<le> 9 \<Longrightarrow> daa_sub_ok h l"
  using daa_sub_table by (simp add: list_all_iff del: upto_rec_numeral)

lemma uint_low_nibble: "uint (a AND 0x0F :: u8) = uint a mod 16"
  by (simp add: uint_and int_masks)

lemma daa_num:
  fixes s :: "'c z80"
  defines "low \<equiv> flagH s \<or> uint (reg_a s) mod 16 > 9"
  defines "high \<equiv> flagC s \<or> uint (reg_a s) > 153"
  defines "k \<equiv> (if low then 6 else 0) + (if high then 96 else (0::int))"
  shows "uint (reg_a (op_daa s)) = (if flagN s then uint (reg_a s) - k else uint (reg_a s) + k) mod 256"
    and "flagC (op_daa s) \<longleftrightarrow> high" and "flagN (op_daa s) \<longleftrightarrow> flagN s"
    and "flagZ (op_daa s) \<longleftrightarrow> reg_a (op_daa s) = 0"
    and "flagP (op_daa s) \<longleftrightarrow> even (popcount (unat (reg_a (op_daa s))))"
  unfolding op_daa_def low_def high_def k_def
  by (simp_all add: Let_def and_flag_eq_0 uint_low_nibble flag_bits word_less_def uint_word_ariths)

lemma uint_digits: "uint a = 16 * (uint a div 16) + uint a mod (16::int)"
  by simp

lemma sum_digits: "x = 16 * x1 + x0 \<Longrightarrow> y = 16 * y1 + y0 \<Longrightarrow> x + y + c = 16 * (x1 + y1) + (x0 + y0 + (c::int))"
  by simp

lemma diff_digits: "x = 16 * x1 + x0 \<Longrightarrow> y = 16 * y1 + y0 \<Longrightarrow> x - y - c = 16 * (x1 - y1) + (x0 - y0 - (c::int))"
  by simp

lemma sum_bcd: "10 * (x1 + y1) + (x0 + y0 + c) = (10 * x1 + x0) + (10 * y1 + y0) + (c::int)"
  by simp

lemma diff_bcd: "10 * (x1 - y1) + (x0 - y0 - c) = (10 * x1 + x0) - (10 * y1 + y0) - (c::int)"
  by simp

lemma diff_neg: "x - y - c < 0 \<longleftrightarrow> x < y + (c::int)"
  by linarith

lemma digit_nonneg: "0 \<le> uint (a::u8) div 16"
  using uint8_bounds [of a] by (simp add: pos_imp_zdiv_nonneg_iff)


lemma daa_after_add:
  fixes s :: "'c z80" and v :: u8 and wc :: bool
  defines "c \<equiv> (if wc \<and> flagC s then 1 else (0::int))"
  defines "s' \<equiv> op_daa (alu_add s v wc)"
  assumes "is_bcd (reg_a s)" "is_bcd v"
  shows "is_bcd (reg_a s')
    \<and> bcd (reg_a s') + (if flagC s' then 100 else 0) = bcd (reg_a s) + bcd v + c"
proof -
  let ?s = "alu_add s v wc"
  let ?h = "uint (reg_a s) div 16 + uint v div 16" and ?l = "uint (reg_a s) mod 16 + uint v mod 16 + c"
  have ok: "daa_add_ok ?h ?l"
    using assms(3,4) pos_mod_sign [of 16 "uint (reg_a s)"] pos_mod_sign [of 16 "uint v"]
      digit_nonneg [of "reg_a s"] digit_nonneg [of v]
    unfolding is_bcd_def c_def by (intro daa_add_ok) (simp_all, linarith?)
  have t: "uint (reg_a s) + uint v + c = 16 * ?h + ?l"
    by (rule sum_digits [OF uint_digits uint_digits])
  have N: "\<not> flagN ?s" by (rule alu_add_num)
  have a: "uint (reg_a ?s) = (16 * ?h + ?l) mod 256"
    and C: "flagC ?s \<longleftrightarrow> 256 \<le> 16 * ?h + ?l" and H: "flagH ?s \<longleftrightarrow> 16 \<le> ?l"
    using alu_add_num [of s v wc, folded c_def] t by simp_all
  have a': "uint (reg_a s') =
      (uint (reg_a ?s) + (if flagH ?s \<or> uint (reg_a ?s) mod 16 > 9 then 6 else 0)
         + (if flagC ?s \<or> uint (reg_a ?s) > 153 then 96 else 0)) mod 256"
    and C': "flagC s' \<longleftrightarrow> flagC ?s \<or> uint (reg_a ?s) > 153"
    unfolding s'_def using N by (simp_all add: daa_num add.assoc diff_diff_eq)
  have "is_bcd (reg_a s') \<and> bcd (reg_a s') + (if flagC s' then 100 else 0) = 10 * ?h + ?l"
    using ok
    unfolding daa_add_ok_def Let_def a [symmetric] C [symmetric] H [symmetric]
    unfolding a' [symmetric] unfolding C' [symmetric] is_bcd_def bcd_def by (simp only: conj_assoc)
  then show ?thesis by (simp only: sum_bcd bcd_def)
qed

lemma daa_after_sub:
  fixes s :: "'c z80" and v :: u8 and wc :: bool
  defines "c \<equiv> (if wc \<and> flagC s then 1 else (0::int))"
  defines "s' \<equiv> op_daa (alu_sub s v wc)"
  assumes "is_bcd (reg_a s)" "is_bcd v"
  shows "is_bcd (reg_a s')
    \<and> bcd (reg_a s') - (if flagC s' then 100 else 0) = bcd (reg_a s) - bcd v - c"
proof -
  let ?s = "alu_sub s v wc"
  let ?h = "uint (reg_a s) div 16 - uint v div 16" and ?l = "uint (reg_a s) mod 16 - uint v mod 16 - c"
  have ok: "daa_sub_ok ?h ?l"
    using assms(3,4) pos_mod_sign [of 16 "uint (reg_a s)"] pos_mod_sign [of 16 "uint v"]
      digit_nonneg [of "reg_a s"] digit_nonneg [of v]
    unfolding is_bcd_def c_def by (intro daa_sub_ok) (simp_all del: pos_mod_sign pos_mod_bound, linarith?)
  have t: "uint (reg_a s) - uint v - c = 16 * ?h + ?l"
    by (rule diff_digits [OF uint_digits uint_digits])
  have N: "flagN ?s" by (rule alu_sub_num)
  have a: "uint (reg_a ?s) = (16 * ?h + ?l) mod 256"
    and C: "flagC ?s \<longleftrightarrow> 16 * ?h + ?l < 0" and H: "flagH ?s \<longleftrightarrow> ?l < 0"
    using alu_sub_num (1-3) [of s v wc, folded c_def] unfolding t [symmetric] diff_neg by blast+
  have a': "uint (reg_a s') =
      (uint (reg_a ?s) - (if flagH ?s \<or> uint (reg_a ?s) mod 16 > 9 then 6 else 0)
         - (if flagC ?s \<or> uint (reg_a ?s) > 153 then 96 else 0)) mod 256"
    and C': "flagC s' \<longleftrightarrow> flagC ?s \<or> uint (reg_a ?s) > 153"
    unfolding s'_def using N by (simp_all add: daa_num add.assoc diff_diff_eq)
  have "is_bcd (reg_a s') \<and> bcd (reg_a s') - (if flagC s' then 100 else 0) = 10 * ?h + ?l"
    using ok
    unfolding daa_sub_ok_def Let_def a [symmetric] C [symmetric] H [symmetric]
    unfolding a' [symmetric] unfolding C' [symmetric] is_bcd_def bcd_def by (simp only: conj_assoc)
  then show ?thesis by (simp only: diff_bcd bcd_def)
qed

end
