(* ===== verification/Z80_Arith.thy ===== *)
theory Z80_Arith
  imports Z80_ED Z80_Main Z80_DAA Z80_Sample
begin

text \<open>
  Functional correctness of the arithmetic instructions of \<open>src/src/z80/z80.c\<close>: sums, differences,
  comparisons, decimal adjustment and rotates, against the numbers they compute with.
\<close>

section \<open>8-bit arithmetic\<close>

text \<open>C28 (alu_add_correct): ADD and ADC compute the sum modulo 256 and set every flag as the numbers
dictate: C is the carry out, H the carry out of bit 3, P/V signed overflow, Z and S of the result,
N reset, X and Y copies of the result; no other field changes.\<close>

theorem alu_add_correct:
  "let c = (if wc \<and> flagC s then 1 else 0); n = uint (reg_a s) + uint v + c; s' = alu_add s v wc
   in uint (reg_a s') = n mod 256
      \<and> flagC s' = (256 \<le> n)
      \<and> flagH s' = (16 \<le> uint (reg_a s) mod 16 + uint v mod 16 + c)
      \<and> flagP s' = (\<not> (- 128 \<le> sint (reg_a s) + sint v + c \<and> sint (reg_a s) + sint v + c < 128))
      \<and> flagZ s' = (n mod 256 = 0) \<and> flagS s' = (128 \<le> n mod 256) \<and> \<not> flagN s'
      \<and> flagX s' = bit (reg_a s') 3 \<and> flagY s' = bit (reg_a s') 5
      \<and> s' = s\<lparr>reg_a := reg_a s', reg_f := reg_f s'\<rparr>"
proof -
  note n = alu_add_num [of s v wc]
  have z: "reg_a (alu_add s v wc) = 0 \<longleftrightarrow> uint (reg_a (alu_add s v wc)) = 0"
    by (simp only: word_uint_eq_iff unsigned_0)
  have "alu_add s v wc = s\<lparr>reg_a := reg_a (alu_add s v wc), reg_f := reg_f (alu_add s v wc)\<rparr>"
    by (simp add: alu_add_def Let_def)
  with n show ?thesis unfolding Let_def by (simp only: bit7_iff z) simp
qed

lemma alu_cp_sub:
  "reg_f (alu_cp s v) AND NOT (Z80_XF OR Z80_YF) = reg_f (alu_sub s v False) AND NOT (Z80_XF OR Z80_YF)"
  by (rule bit_word_eqI) (auto simp: alu_cp_def alu_sub_def Let_def flag_bits)

lemma alu_cp_bits:
  "k \<noteq> 3 \<Longrightarrow> k \<noteq> 5 \<Longrightarrow> bit (reg_f (alu_cp s v)) k = bit (reg_f (alu_sub s v False)) k"
  "bit (reg_f (alu_cp s v)) 3 = bit v 3" "bit (reg_f (alu_cp s v)) 5 = bit v 5"
  by (auto simp: alu_cp_def alu_sub_def Let_def flag_bits)

text \<open>C29 (alu_sub_correct): SUB and SBC compute the difference modulo 256 with C the borrow, H the
borrow of the low digit, P/V signed overflow, Z, S, X, Y of the result and N set; no other field
changes.\<close>

theorem alu_sub_correct:
  "let c = (if wc \<and> flagC s then 1 else 0); n = uint (reg_a s) - uint v - c; s' = alu_sub s v wc
   in uint (reg_a s') = n mod 256
      \<and> flagC s' = (n < 0)
      \<and> flagH s' = (uint (reg_a s) mod 16 < uint v mod 16 + c)
      \<and> flagP s' = (\<not> (- 128 \<le> sint (reg_a s) - sint v - c \<and> sint (reg_a s) - sint v - c < 128))
      \<and> flagZ s' = (n mod 256 = 0) \<and> flagS s' = (128 \<le> n mod 256) \<and> flagN s'
      \<and> flagX s' = bit (reg_a s') 3 \<and> flagY s' = bit (reg_a s') 5
      \<and> s' = s\<lparr>reg_a := reg_a s', reg_f := reg_f s'\<rparr>"
proof -
  note n = alu_sub_num [of s v wc]
  have z: "reg_a (alu_sub s v wc) = 0 \<longleftrightarrow> uint (reg_a (alu_sub s v wc)) = 0"
    by (simp only: word_uint_eq_iff unsigned_0)
  have l: "uint (reg_a s) - uint v - c < 0 \<longleftrightarrow> uint (reg_a s) < uint v + c" for c by linarith
  have "alu_sub s v wc = s\<lparr>reg_a := reg_a (alu_sub s v wc), reg_f := reg_f (alu_sub s v wc)\<rparr>"
    by (simp add: alu_sub_def Let_def)
  with n show ?thesis unfolding Let_def l by (simp only: bit7_iff z)
qed

lemma signed_less_iff:
  fixes x y :: int
  assumes "0 \<le> x" "x \<le> 255" "0 \<le> y" "y \<le> 255"
  defines "sx \<equiv> (if x < 128 then x else x - 256)" and "sy \<equiv> (if y < 128 then y else y - 256)"
  shows "((128 \<le> (if x < y then x - y + 256 else x - y)) \<noteq> (\<not> (- 128 \<le> sx - sy \<and> sx - sy < 128))) = (sx < sy)"
  using assms(1-4) unfolding sx_def sy_def
  by (cases "x < y"; cases "x < 128"; cases "y < 128") auto

theorem alu_cp_correct:
  "let s' = alu_cp s v
   in s' = s\<lparr>reg_f := reg_f s'\<rparr>
      \<and> flagC s' = (uint (reg_a s) < uint v) \<and> flagZ s' = (reg_a s = v)
      \<and> (flagS s' \<noteq> flagP s') = (sint (reg_a s) < sint v)
      \<and> flagH s' = (uint (reg_a s) mod 16 < uint v mod 16) \<and> flagN s'
      \<and> flagX s' = bit v 3 \<and> flagY s' = bit v 5"
proof -
  let ?d = "alu_sub s v False"
  note n = alu_sub_num [of s v False, simplified if_False simp_thms add_0_right diff_0_right]
  have b: "bit (reg_f (alu_cp s v)) k = bit (reg_f ?d) k" if "k \<in> {0,1,2,4,6,7}" for k
    using that by (intro alu_cp_bits) auto
  have m: "uint (reg_a ?d) =
      (if uint (reg_a s) < uint v then uint (reg_a s) - uint v + 256 else uint (reg_a s) - uint v)"
    using n(1) uint8_bounds [of "reg_a s"] uint8_bounds [of v] by (simp add: sub_mod_256)
  have z: "reg_a ?d = 0 \<longleftrightarrow> reg_a s = v"
    unfolding word_uint_eq_iff [of "reg_a ?d"] word_uint_eq_iff [of "reg_a s"] m unsigned_0
    by (cases "uint (reg_a s) < uint v")
      (use uint8_bounds [of "reg_a s"] uint8_bounds [of v] in \<open>simp only: if_True if_False, linarith\<close>)+
  have "(bit (reg_a ?d) 7 \<noteq> (\<not> (- 128 \<le> sint (reg_a s) - sint v \<and> sint (reg_a s) - sint v < 128)))
      = (sint (reg_a s) < sint v)"
    unfolding bit7_iff m sint8_eq
    using uint8_bounds [of "reg_a s"] uint8_bounds [of v] by (intro signed_less_iff) auto
  then have o: "(flagS ?d \<noteq> flagP ?d) = (sint (reg_a s) < sint v)" using n by simp
  have e: "alu_cp s v = s\<lparr>reg_f := reg_f (alu_cp s v)\<rparr>" by (simp add: alu_cp_def Let_def)
  have f: "flagC (alu_cp s v) = flagC ?d" "flagZ (alu_cp s v) = flagZ ?d" "flagS (alu_cp s v) = flagS ?d"
    "flagP (alu_cp s v) = flagP ?d" "flagH (alu_cp s v) = flagH ?d" "flagN (alu_cp s v) = flagN ?d"
    by (rule b, simp)+
  show ?thesis
    unfolding Let_def f o n(5) z alu_cp_bits using e n(2,3,7) by simp
qed

lemma nibble_word_eq:
  "(v :: u8) AND 0x0F = 0x0F \<longleftrightarrow> uint v mod 16 = 15" "(v :: u8) AND 0x0F = 0 \<longleftrightarrow> uint v mod 16 = 0"
  unfolding word_uint_eq_iff [of "v AND 0x0F"] uint_low_nibble by simp_all

lemma sint_extremes: "sint (v :: u8) = 127 \<longleftrightarrow> v = 0x7F" "sint (v :: u8) = - 128 \<longleftrightarrow> v = 0x80"
  unfolding word_uint_eq_iff sint8_eq
  using uint8_bounds [of v] by (auto, use uint8_bounds [of v] in linarith)

theorem inc_dec_correct:
  "(let (r, s') = alu_inc s v
    in uint r = (uint v + 1) mod 256 \<and> s' = s\<lparr>reg_f := reg_f s'\<rparr> \<and> flagC s' = flagC s
       \<and> flagP s' = (sint v = 127) \<and> flagH s' = (uint v mod 16 = 15) \<and> flagZ s' = (r = 0)
       \<and> flagS s' = bit r 7 \<and> \<not> flagN s' \<and> fst (alu_dec s' r) = v)
   \<and> (let (r, s') = alu_dec s v
    in uint r = (uint v - 1) mod 256 \<and> s' = s\<lparr>reg_f := reg_f s'\<rparr> \<and> flagC s' = flagC s
       \<and> flagP s' = (sint v = - 128) \<and> flagH s' = (uint v mod 16 = 0) \<and> flagZ s' = (r = 0)
       \<and> flagS s' = bit r 7 \<and> flagN s' \<and> fst (alu_inc s' r) = v)"
  by (simp add: alu_inc_def alu_dec_def Let_def flag_bits uint_word_ariths nibble_word_eq sint_extremes)

section \<open>Decimal adjustment\<close>

text \<open>C30 (daa_decimal): For packed decimal operands, ADD/ADC followed by DAA leaves a packed decimal
byte which together with 100 for the carry is the decimal sum, and SUB/SBC followed by DAA gives
the decimal difference with the borrow in C.\<close>

theorem daa_decimal:
  fixes s :: "'c z80" and v :: u8 and wc :: bool
  defines "c \<equiv> (if wc \<and> flagC s then 1 else (0::int))"
  assumes "is_bcd (reg_a s)" "is_bcd v"
  shows "(let s' = op_daa (alu_add s v wc)
     in is_bcd (reg_a s') \<and> bcd (reg_a s') + (if flagC s' then 100 else 0) = bcd (reg_a s) + bcd v + c)
    \<and> (let s' = op_daa (alu_sub s v wc)
     in is_bcd (reg_a s') \<and> bcd (reg_a s') - (if flagC s' then 100 else 0) = bcd (reg_a s) - bcd v - c)"
  using daa_after_add [OF assms(2,3), of wc] daa_after_sub [OF assms(2,3), of wc]
  unfolding c_def Let_def by blast

lemma daa_decimal_witness:
  "is_bcd (reg_a (op_daa (alu_add ((sample (program []))\<lparr>reg_a := 0x28\<rparr>) 0x19 False)))
   \<and> is_bcd (0x28 :: u8)"
  using daa_decimal [of "(sample (program []))\<lparr>reg_a := 0x28\<rparr>" "0x19" False]
  by (simp add: is_bcd_def Let_def)

section \<open>16-bit arithmetic\<close>

text \<open>A 17-bit result held in a \<open>uint32_t\<close>.\<close>

lemma u32_result_bits:
  fixes n :: int
  defines "r \<equiv> (word_of_int n :: u32)"
  shows "uint (ucast (r AND 0xFFFF) :: u16) = n mod 65536"
    and "r AND 0x10000 \<noteq> 0 \<longleftrightarrow> n AND 0x10000 \<noteq> 0"
    and "x AND uint (ucast (h :: u16) XOR r) AND 0x8000 \<noteq> 0 \<longleftrightarrow> x AND (uint h XOR n) AND 0x8000 \<noteq> 0"
    and "k < 8 \<Longrightarrow> bit (ucast (drop_bit 8 r) :: u8) k \<longleftrightarrow> bit (ucast (r AND 0xFFFF) :: u16) (8 + k)"
proof -
  have b: "bit r k \<longleftrightarrow> bit n k" if "k < 32" for k using that by (simp add: r_def bit_word_of_int_iff)
  have m: "(0xFFFF :: u32) = mask 16" by (simp add: mask_eq_exp_minus_1)
  show "uint (ucast (r AND 0xFFFF) :: u16) = n mod 65536"
  proof -
    have "uint (ucast (r AND 0xFFFF) :: u16) = take_bit 16 n"
      by (rule bit_eqI) (auto simp: bit_uint_iff bit_ucast_iff bit_and_iff bit_take_bit_iff b m bit_mask_iff)
    then show ?thesis by (simp add: take_bit_eq_mod)
  qed
  show "r AND 0x10000 \<noteq> 0 \<longleftrightarrow> n AND 0x10000 \<noteq> 0"
    using and_exp_eq_0_iff_not_bit [of r 16] and_exp_bit [of n 16] b [of 16] by simp
  show "x AND uint (ucast (h :: u16) XOR r) AND 0x8000 \<noteq> 0 \<longleftrightarrow> x AND (uint h XOR n) AND 0x8000 \<noteq> 0"
  proof -
    have "bit (uint (ucast h XOR r)) 15 \<longleftrightarrow> bit (uint h XOR n) 15"
      by (simp add: bit_uint_iff bit_xor_iff bit_ucast_iff b)
    then show ?thesis
      using and_exp_bit [of "x AND uint (ucast h XOR r)" 15] and_exp_bit [of "x AND (uint h XOR n)" 15]
      by (simp add: bit_and_iff and.assoc)
  qed
  show "k < 8 \<Longrightarrow> bit (ucast (drop_bit 8 r) :: u8) k \<longleftrightarrow> bit (ucast (r AND 0xFFFF) :: u16) (8 + k)"
    by (auto simp: bit_ucast_iff bit_drop_bit_eq bit_and_iff m bit_mask_iff)
qed

lemma HL_SET_HL_f [simp]: "HL (SET_HL s v\<lparr>reg_f := x\<rparr>) = v" "HL (s\<lparr>reg_f := x\<rparr>) = HL s"
  by (simp_all add: HL_def SET_HL_def)

lemma SET_HL_flags [simp]: "reg_f (SET_HL s v) = reg_f s"
  by (simp add: SET_HL_def)

text \<open>C31 (adc_hl_correct): ADC HL,rp computes the 16-bit sum with carry and sets C, H (carry out of bit
11), P/V (signed overflow), Z, S, X, Y and N from it, in 15 T-states, changing HL and F only.\<close>

theorem adc_hl_correct:
  "let v = read_rp s (unat (drop_bit 4 op AND 3)); c = (if flagC s then 1 else 0);
       n = uint (HL s) + uint v + c; (t, s') = ed_adc_hl s op
   in t = 15 \<and> uint (HL s') = n mod 65536
      \<and> flagC s' = (65536 \<le> n)
      \<and> flagH s' = (4096 \<le> uint (HL s) mod 4096 + uint v mod 4096 + c)
      \<and> flagP s' = (\<not> (- 32768 \<le> sint (HL s) + sint v + c \<and> sint (HL s) + sint v + c < 32768))
      \<and> flagZ s' = (HL s' = 0) \<and> flagS s' = bit (HL s') 15 \<and> \<not> flagN s'
      \<and> flagX s' = bit (HL s') 11 \<and> flagY s' = bit (HL s') 13
      \<and> s' = (SET_HL s (HL s'))\<lparr>reg_f := reg_f s'\<rparr>"
proof -
  define v where "v = read_rp s (unat (drop_bit 4 op AND 3))"
  define c where "c = (if flagC s then 1 else (0::int))"
  define h where "h = HL s"
  define n where "n = uint h + uint v + c"
  have cb: "0 \<le> c" "c \<le> 1" by (simp_all add: c_def)
  note bs = uint16_bounds [of h] uint16_bounds [of v]
  have hs: "0 \<le> uint h mod 4096 + uint v mod 4096 + c" "uint h mod 4096 + uint v mod 4096 + c < 8192"
    using cb pos_mod_bound [of 4096 "uint h"] pos_mod_bound [of 4096 "uint v"]
      pos_mod_sign [of 4096 "uint h"] pos_mod_sign [of 4096 "uint v"] by linarith+
  obtain t s' where e: "ed_adc_hl s op = (t, s')" by fastforce
  note eqs = e [unfolded ed_adc_hl_def Let_def uint_and_CF v_def [symmetric] c_def [symmetric] h_def [symmetric]
      n_def [symmetric] prod.inject]
  note def = conjunct1 [OF eqs, symmetric] conjunct2 [OF eqs, symmetric]
  have nb: "0 \<le> n" "n < 131072" using bs cb unfolding n_def by linarith+
  have H: "uint (HL s') = n mod 65536" using def by (auto simp: u32_result_bits)
  have C: "flagC s' = (65536 \<le> n)"
    using bs cb def nb by (auto simp add: flag_bits u32_result_bits alu16_bits)
  have Hf: "flagH s' = (4096 \<le> uint h mod 4096 + uint v mod 4096 + c)"
    using hs def by (auto simp: flag_bits int_masks alu16_bits)
  have P: "flagP s' = (\<not> (- 32768 \<le> sint h + sint v + c \<and> sint h + sint v + c < 32768))"
  proof -
    have "((uint h XOR uint v) XOR 0x8000) AND (uint h XOR n) AND 0x8000 \<noteq> 0 \<longleftrightarrow>
        \<not> (- 32768 \<le> sint h + sint v + c \<and> sint h + sint v + c < 32768)"
      using bs cb by (simp add: n_def alu16_bits sint16_wrap)
    then show ?thesis using def by (auto simp: flag_bits u32_result_bits)
  qed
  have rest: "t = 15 \<and> flagZ s' = (HL s' = 0) \<and> flagS s' = bit (HL s') 15 \<and> \<not> flagN s'
      \<and> flagX s' = bit (HL s') 11 \<and> flagY s' = bit (HL s') 13
      \<and> s' = (SET_HL s (HL s'))\<lparr>reg_f := reg_f s'\<rparr>"
    using def by (auto simp: flag_bits u32_result_bits)
  show ?thesis
    unfolding Let_def e v_def [symmetric] c_def [symmetric] h_def [symmetric] n_def [symmetric] prod.case
    using H C Hf P rest by blast
qed
theorem sbc_hl_correct:
  "let v = read_rp s (unat (drop_bit 4 op AND 3)); c = (if flagC s then 1 else 0);
       n = uint (HL s) - uint v - c; (t, s') = ed_sbc_hl s op
   in t = 15 \<and> uint (HL s') = n mod 65536
      \<and> flagC s' = (n < 0)
      \<and> flagH s' = (uint (HL s) mod 4096 < uint v mod 4096 + c)
      \<and> flagP s' = (\<not> (- 32768 \<le> sint (HL s) - sint v - c \<and> sint (HL s) - sint v - c < 32768))
      \<and> flagZ s' = (HL s' = 0) \<and> flagS s' = bit (HL s') 15 \<and> flagN s'
      \<and> flagX s' = bit (HL s') 11 \<and> flagY s' = bit (HL s') 13
      \<and> s' = (SET_HL s (HL s'))\<lparr>reg_f := reg_f s'\<rparr>"
proof -
  define v where "v = read_rp s (unat (drop_bit 4 op AND 3))"
  define c where "c = (if flagC s then 1 else (0::int))"
  define h where "h = HL s"
  define n where "n = uint h - uint v - c"
  have cb: "0 \<le> c" "c \<le> 1" by (simp_all add: c_def)
  note bs = uint16_bounds [of h] uint16_bounds [of v]
  have hs: "- 4096 \<le> uint h mod 4096 - uint v mod 4096 - c" "uint h mod 4096 - uint v mod 4096 - c < 4096"
    using cb pos_mod_bound [of 4096 "uint h"] pos_mod_bound [of 4096 "uint v"]
      pos_mod_sign [of 4096 "uint h"] pos_mod_sign [of 4096 "uint v"] by linarith+
  obtain t s' where e: "ed_sbc_hl s op = (t, s')" by fastforce
  note eqs = e [unfolded ed_sbc_hl_def Let_def uint_and_CF v_def [symmetric] c_def [symmetric] h_def [symmetric]
      n_def [symmetric] prod.inject]
  note def = conjunct1 [OF eqs, symmetric] conjunct2 [OF eqs, symmetric]
  have nb: "- 65536 \<le> n" "n < 65536" using bs cb unfolding n_def by linarith+
  have H: "uint (HL s') = n mod 65536" using def by (auto simp: u32_result_bits)
  have C: "flagC s' = (n < 0)"
    using bs cb def nb by (auto simp add: flag_bits u32_result_bits alu16_bits)
  have Hf: "flagH s' = (uint h mod 4096 < uint v mod 4096 + c)"
    using hs def by (auto simp: flag_bits int_masks alu16_bits)
  have P: "flagP s' = (\<not> (- 32768 \<le> sint h - sint v - c \<and> sint h - sint v - c < 32768))"
  proof -
    have "(uint h XOR uint v) AND (uint h XOR n) AND 0x8000 \<noteq> 0 \<longleftrightarrow>
        \<not> (- 32768 \<le> sint h - sint v - c \<and> sint h - sint v - c < 32768)"
      using bs cb by (simp add: n_def alu16_bits sint16_wrap)
    then show ?thesis using def by (auto simp: flag_bits u32_result_bits)
  qed
  have rest: "t = 15 \<and> flagZ s' = (HL s' = 0) \<and> flagS s' = bit (HL s') 15 \<and> flagN s'
      \<and> flagX s' = bit (HL s') 11 \<and> flagY s' = bit (HL s') 13
      \<and> s' = (SET_HL s (HL s'))\<lparr>reg_f := reg_f s'\<rparr>"
    using def by (auto simp: flag_bits u32_result_bits)
  show ?thesis
    unfolding Let_def e v_def [symmetric] c_def [symmetric] h_def [symmetric] n_def [symmetric] prod.case
    using H C Hf P rest by blast
qed

section \<open>Rotates\<close>

lemma bit_u8_ge [simp]: "8 \<le> n \<Longrightarrow> \<not> bit (v :: u8) n"
  using bit_imp_le_length [of v n] by auto

lemma bit_CF_word: "bit (f AND Z80_CF) n \<longleftrightarrow> n = 0 \<and> bit f 0"
  by (auto simp: bit_and_iff mask_bits)

lemma rot_bits:
  fixes v :: u8
  shows "bit (push_bit 1 v) n \<longleftrightarrow> 0 < n \<and> n < 8 \<and> bit v (n - 1)"
    and "bit (push_bit 7 v) n \<longleftrightarrow> n = 7 \<and> bit v 0"
    and "bit (drop_bit 1 v) n \<longleftrightarrow> bit v (n + 1)"
    and "bit (drop_bit 7 v) n \<longleftrightarrow> n = 0 \<and> bit v 7"
    and "bit (v AND 1) n \<longleftrightarrow> n = 0 \<and> bit v 0"
proof -
  have "7 + n \<le> 7 \<longleftrightarrow> n = 0" by simp
  then have "bit v (7 + n) \<longleftrightarrow> n = 0 \<and> bit v 7" by (cases "n = 0") simp_all
  then show "bit (drop_bit 7 v) n \<longleftrightarrow> n = 0 \<and> bit v 7"
    by (simp only: bit_drop_bit_eq o_def)
qed (simp_all only: bit_push_bit_iff bit_drop_bit_eq possible_bit_word o_def bit_and_iff bit_1_iff,
     auto simp: le_Suc_eq add.commute)

lemmas rot_simps = bit_or_iff rot_bits bit_CF_word

lemma rot_words:
  fixes v c :: u8
  shows "drop_bit 1 (push_bit 1 v OR drop_bit 7 v) OR push_bit 7 (push_bit 1 v OR drop_bit 7 v) = v" (is ?t1)
    and "drop_bit 1 (push_bit 1 v OR c AND Z80_CF) OR push_bit 7 (drop_bit 7 v) = v" (is ?t2)
    and "push_bit 1 (drop_bit 1 v OR push_bit 7 (c AND Z80_CF)) OR (v AND 1) = v" (is ?t3)
proof -
  have lt: "n < 8 \<Longrightarrow> n \<noteq> 7 \<Longrightarrow> n < 7" for n :: nat by simp
  show ?t1 by (rule bit_word_eqI, simp only: rot_simps) (auto dest: lt)
  show ?t2 by (rule bit_word_eqI, simp only: rot_simps) (auto dest: lt)
  show ?t3
  proof (rule bit_word_eqI)
    fix n assume "n < LENGTH(8)"
    then show "bit (push_bit 1 (drop_bit 1 v OR push_bit 7 (c AND Z80_CF)) OR (v AND 1)) n = bit v n"
      by (cases n) (simp_all only: rot_simps, auto)
  qed
qed

lemma and_CF_eq: "bit f 0 = bit g 0 \<Longrightarrow> f AND Z80_CF = g AND Z80_CF"
  by (rule bit_word_eqI) (simp only: bit_CF_word)

lemma af_upd:
  "reg_f (s\<lparr>reg_f := f\<rparr>) = f" "reg_f (s\<lparr>reg_a := a\<rparr>) = reg_f s"
  "reg_a (s\<lparr>reg_f := f\<rparr>) = reg_a s" "reg_a (s\<lparr>reg_a := a\<rparr>) = a"
  by simp_all

lemmas rot_defs = op_rlc_def op_rrc_def op_rl_def op_rr_def op_rlca_def op_rrca_def op_rla_def op_rra_def

lemma rot_carries:
  "flagC (snd (op_rlc s v)) = bit v 7" "flagC (snd (op_rrc s v)) = bit v 0"
  "flagC (snd (op_rl s v)) = bit v 7" "flagC (snd (op_rr s v)) = bit v 0"
  "flagC (op_rlca s) = bit (reg_a s) 7" "flagC (op_rrca s) = bit (reg_a s) 0"
  "flagC (op_rla s) = bit (reg_a s) 7" "flagC (op_rra s) = bit (reg_a s) 0"
  by (simp_all only: rot_defs Let_def snd_conv af_upd bit_or_iff bit_sz53p rot_bits bit_and_iff mask_bits)
     simp_all

lemma rot_values:
  "fst (op_rlc s v) = push_bit 1 v OR drop_bit 7 v" "fst (op_rrc s v) = drop_bit 1 v OR push_bit 7 v"
  "fst (op_rl s v) = push_bit 1 v OR (reg_f s AND Z80_CF)"
  "fst (op_rr s v) = drop_bit 1 v OR push_bit 7 (reg_f s AND Z80_CF)"
  "reg_a (op_rlca s) = push_bit 1 (reg_a s) OR drop_bit 7 (reg_a s)"
  "reg_a (op_rrca s) = drop_bit 1 (reg_a s) OR push_bit 7 (reg_a s)"
  "reg_a (op_rla s) = push_bit 1 (reg_a s) OR (reg_f s AND Z80_CF)"
  "reg_a (op_rra s) = drop_bit 1 (reg_a s) OR push_bit 7 (reg_f s AND Z80_CF)"
  by (simp_all only: rot_defs Let_def fst_conv af_upd)

lemma carry_word:
  "reg_f (snd (op_rl s v)) AND Z80_CF = drop_bit 7 v" "reg_f (snd (op_rr s v)) AND Z80_CF = v AND 1"
  "reg_f (op_rla s) AND Z80_CF = drop_bit 7 (reg_a s)"
  by (rule bit_word_eqI, simp only: bit_CF_word rot_carries rot_bits)+

theorem rotate_round_trip:
  "(let (r, s1) = op_rlc s v; (w, s2) = op_rrc s1 r in w = v \<and> flagC s2 = flagC s1)
   \<and> (let (r, s1) = op_rl s v; (w, s2) = op_rr s1 r in w = v \<and> flagC s2 = flagC s)
   \<and> (let (r, s1) = op_rr s v; (w, s2) = op_rl s1 r in w = v \<and> flagC s2 = flagC s)
   \<and> reg_a (op_rrca (op_rlca s)) = reg_a s
   \<and> reg_a (op_rra (op_rla s)) = reg_a s \<and> flagC (op_rra (op_rla s)) = flagC s"
  unfolding Let_def case_prod_beta
  by (simp only: rot_values rot_carries carry_word rot_words)
     (simp only: rot_simps, simp)

end
