(* ===== verification/Tape_State.thy ===== *)
theory Tape_State
  imports Prelude
begin

text \<open>
  The tape player's data and transport controls, from \<open>src/src/spectrum/Tape.h\<close> and
  \<open>Tape.cpp\<close>.

  \<^item> \<open>tape\<close> is the class \<open>Tape\<close>.  The image \<open>m_data\<close> is a byte list, \<open>None\<close> for a null pointer; a
    block's data pointer is the offset of its first byte in the image.  The array of blocks with its
    count \<open>m_num_blocks\<close> is the list of the blocks added so far.  The diagnostic text is left out.
  \<^item> The unsigned fields of 16 and 32 bits and \<open>size_t\<close> (32 bits on this target) are \<open>nat\<close>; where
    the code's arithmetic can wrap the \<open>mod\<close> is written out.
\<close>

section \<open>Modes\<close>

datatype tape_mode = INSTANT | AUTO | MANUAL

record tape_profile =
  prof_name :: string
  loadsInstantly :: bool
  autoStartsPlayback :: bool
  audibleTransport :: bool
  exclusiveMonitorDuringRomLoad :: bool

definition TAPE_MODE_PROFILES :: "tape_profile list" where
  "TAPE_MODE_PROFILES =
     [\<lparr>prof_name = ''instant'', loadsInstantly = True, autoStartsPlayback = False,
       audibleTransport = False, exclusiveMonitorDuringRomLoad = False\<rparr>,
      \<lparr>prof_name = ''auto'', loadsInstantly = False, autoStartsPlayback = True,
       audibleTransport = True, exclusiveMonitorDuringRomLoad = True\<rparr>,
      \<lparr>prof_name = ''manual'', loadsInstantly = False, autoStartsPlayback = False,
       audibleTransport = True, exclusiveMonitorDuringRomLoad = False\<rparr>]"

definition tapeModeProfile :: "tape_mode \<Rightarrow> tape_profile" where
  "tapeModeProfile mode =
     (case mode of
        INSTANT \<Rightarrow> TAPE_MODE_PROFILES ! 0
      | AUTO \<Rightarrow> TAPE_MODE_PROFILES ! 1
      | MANUAL \<Rightarrow> TAPE_MODE_PROFILES ! 2)"

definition tapeModeFromName :: "string option \<Rightarrow> tape_mode option" where
  "tapeModeFromName name =
     (case name of
        None \<Rightarrow> None
      | Some n \<Rightarrow>
          if n = ''instant'' \<or> n = ''instaload'' then Some INSTANT
          else if n = ''auto'' \<or> n = ''normal'' then Some AUTO
          else if n = ''manual'' \<or> n = ''player'' then Some MANUAL
          else None)"

section \<open>Blocks and the player\<close>

record tape_block =
  blk_data :: "nat option"
  blk_length :: nat
  pause_tstates :: nat
  pilot_len :: nat
  pilot_count :: nat
  sync1_len :: nat
  sync2_len :: nat
  zero_len :: nat
  one_len :: nat
  blk_type :: u8
  used_bits :: nat

datatype play_state = IDLE | PILOT | SYNC1 | SYNC2 | DATA | PAUSE

record tape =
  tp_data :: "u8 list option"
  tp_size :: nat
  tp_enabled :: bool
  tp_mode :: tape_mode
  playing :: bool
  paused :: bool
  ear :: bool
  tstate_counter :: nat
  blocks :: "tape_block list"
  block_idx :: nat
  pstate :: play_state
  pulses_left :: nat
  pulse_len :: nat
  data_byte_idx :: nat
  data_bit_idx :: nat
  is_tzx :: bool

text \<open>The constructor.\<close>

definition tape_new :: tape where
  "tape_new =
     \<lparr>tp_data = None, tp_size = 0, tp_enabled = False, tp_mode = INSTANT, playing = False, paused = False,
      ear = False, tstate_counter = 0, blocks = [], block_idx = 0, pstate = IDLE, pulses_left = 0,
      pulse_len = 1, data_byte_idx = 0, data_bit_idx = 0, is_tzx = False\<rparr>"

definition num_blocks :: "tape \<Rightarrow> nat" where
  "num_blocks t = length (blocks t)"

definition cur_block :: "tape \<Rightarrow> tape_block" where
  "cur_block t = blocks t ! block_idx t"

definition isLoaded :: "tape \<Rightarrow> bool" where
  "isLoaded t \<longleftrightarrow> tp_data t \<noteq> None"

definition isPlaying :: "tape \<Rightarrow> bool" where
  "isPlaying t \<longleftrightarrow> playing t \<and> \<not> paused t"

text \<open>\<open>b.data[i]\<close>.  A block without data has length 0 and is never read.\<close>

definition block_byte :: "tape \<Rightarrow> tape_block \<Rightarrow> nat \<Rightarrow> u8" where
  "block_byte t b i =
     (case tp_data t of None \<Rightarrow> 0
      | Some d \<Rightarrow> (case blk_data b of None \<Rightarrow> 0 | Some off \<Rightarrow> d ! (off + i)))"

definition resetPlaybackState :: "tape \<Rightarrow> tape" where
  "resetPlaybackState t =
     t\<lparr>block_idx := 0, pstate := IDLE, pulses_left := 0, tstate_counter := 0, pulse_len := 1,
       data_byte_idx := 0, data_bit_idx := 0, ear := False\<rparr>"

definition tape_stop :: "tape \<Rightarrow> tape" where
  "tape_stop t = resetPlaybackState (t\<lparr>playing := False, paused := False\<rparr>)"

definition tape_rewind :: "tape \<Rightarrow> tape" where
  "tape_rewind t = resetPlaybackState t"

definition tape_pause :: "tape \<Rightarrow> tape" where
  "tape_pause t = t\<lparr>paused := \<not> paused t\<rparr>"

definition tape_unload :: "tape \<Rightarrow> tape" where
  "tape_unload t =
     (let t = tape_stop t
      in t\<lparr>tp_data := None, tp_size := 0, tp_enabled := False, blocks := []\<rparr>)"

definition tape_eject :: "tape \<Rightarrow> tape" where
  "tape_eject t = tape_unload t"

definition tape_fastForward :: "tape \<Rightarrow> tape" where
  "tape_fastForward t =
     (if int (block_idx t) < int (num_blocks t) - 1
      then t\<lparr>block_idx := block_idx t + 1, pstate := IDLE, pulses_left := 0, tstate_counter := 0\<rparr>
      else t)"

definition tape_setMode :: "tape \<Rightarrow> tape_mode \<Rightarrow> tape" where
  "tape_setMode t mode = (if mode = tp_mode t then t else t\<lparr>tp_mode := mode\<rparr>)"

section \<open>Reading the image\<close>

text \<open>Little-endian fields: \<open>data[p] | (data[p + 1] << 8)\<close> and its longer forms.\<close>

definition le16 :: "u8 list \<Rightarrow> nat \<Rightarrow> nat" where
  "le16 d p = unat (d ! p) + 2 ^ 8 * unat (d ! (p + 1))"

definition le24 :: "u8 list \<Rightarrow> nat \<Rightarrow> nat" where
  "le24 d p = le16 d p + 2 ^ 16 * unat (d ! (p + 2))"

definition le32 :: "u8 list \<Rightarrow> nat \<Rightarrow> nat" where
  "le32 d p = le24 d p + 2 ^ 24 * unat (d ! (p + 3))"

text \<open>Addition of \<open>size_t\<close>.\<close>

definition szadd :: "nat \<Rightarrow> nat \<Rightarrow> nat" where
  "szadd a b = (a + b) mod 2 ^ 32"

lemma le16_less: "le16 d p < 2 ^ 16"
  using unat8_bound [of "d ! p"] unat8_bound [of "d ! (p + 1)"] by (simp add: le16_def)

lemma le24_less: "le24 d p < 2 ^ 24"
  using le16_less [of d p] unat8_bound [of "d ! (p + 2)"] by (simp add: le24_def)

lemma le32_less: "le32 d p < 2 ^ 32"
  using le24_less [of d p] unat8_bound [of "d ! (p + 3)"] by (simp add: le32_def)

lemma szadd_small: "a + b < 2 ^ 32 \<Longrightarrow> szadd a b = a + b"
  by (simp add: szadd_def)

lemma szadd_le:
  "a \<le> 2 ^ 30 \<Longrightarrow> szadd a (le16 d p) = a + le16 d p"
  "a \<le> 2 ^ 30 \<Longrightarrow> szadd a (le24 d p) = a + le24 d p"
  "a + n \<le> 2 ^ 30 \<Longrightarrow> szadd a (n + le16 d p) = a + n + le16 d p"
  "a + n \<le> 2 ^ 30 \<Longrightarrow> szadd a (n + le24 d p) = a + n + le24 d p"
  using le16_less [of d p] le24_less [of d p] by (simp_all add: szadd_small)

lemma le_bounds [simp]: "le16 d p \<le> 65535" "le24 d p \<le> 16777215"
  "le16 d p < 65536" "le24 d p < 16777216"
  using le16_less [of d p] le24_less [of d p] by simp_all

section \<open>Properties of the modes\<close>

text \<open>A profile is found again under its own name.\<close>

theorem mode_name_round_trip:
  "tapeModeFromName (Some (prof_name (tapeModeProfile m))) = Some m"
  by (cases m) (simp_all add: tapeModeFromName_def tapeModeProfile_def TAPE_MODE_PROFILES_def)

end
