(* ===== verification/Tape_Player.thy ===== *)
theory Tape_Player
  imports Tape_State
begin

text \<open>
  The pulse generator of \<open>src/src/spectrum/Tape.cpp\<close>: \<open>startDataState\<close>, \<open>advanceBit\<close>,
  \<open>nextState\<close>, \<open>play\<close> and \<open>advance\<close>.  \<open>advance\<close> calls its callback once per toggle of the
  EAR bit; the calls touch nothing the generator reads, so the model returns them as a list of
  (offset, level), in the order they are made.

  The specification is the waveform: \<open>block_pulses\<close> is the list of pulse lengths a block stands
  for, and \<open>adv\<close> lets an amount of time pass without the code's batch counters.
\<close>

section \<open>The state machine\<close>

text \<open>Conversion to \<open>uint32_t\<close>.\<close>

definition u32_of :: "nat \<Rightarrow> nat" where
  "u32_of n = n mod 2 ^ 32"

definition advanceBit :: "tape \<Rightarrow> bool \<times> tape" where
  "advanceBit t =
     (let b = cur_block t
      in if data_byte_idx t \<ge> blk_length b then (False, t)
         else let bits = (if data_byte_idx t = blk_length b - 1 then used_bits b else 8);
                  (more, t) =
                    (if data_bit_idx t \<ge> bits
                     then let t = t\<lparr>data_byte_idx := u32_of (data_byte_idx t + 1), data_bit_idx := 0\<rparr>
                          in (data_byte_idx t < blk_length b, t)
                     else (True, t))
              in if \<not> more then (False, t)
                 else let one = (block_byte t b (data_byte_idx t) AND drop_bit (data_bit_idx t) 0x80 \<noteq> 0)
                      in (True, t\<lparr>pulses_left := 2, pulse_len := u32_of (if one then one_len b else zero_len b)\<rparr>))"

definition enter_pause :: "tape \<Rightarrow> tape" where
  "enter_pause t =
     t\<lparr>pstate := PAUSE, pulses_left := 1, pulse_len := u32_of (pause_tstates (cur_block t))\<rparr>"

definition startDataState :: "tape \<Rightarrow> tape" where
  "startDataState t =
     (let t = t\<lparr>pstate := DATA, data_byte_idx := 0, data_bit_idx := 0\<rparr>;
          (more, t) = advanceBit t
      in if more then t else enter_pause t)"

text \<open>The case \<open>IDLE\<close>, which the case \<open>PAUSE\<close> enters again for the next block.\<close>

definition start_block :: "tape \<Rightarrow> tape" where
  "start_block t =
     (let b = cur_block t
      in if 0 < pilot_count b
         then t\<lparr>pstate := PILOT, pulses_left := u32_of (pilot_count b), pulse_len := u32_of (pilot_len b)\<rparr>
         else startDataState t)"

definition nextState :: "tape \<Rightarrow> tape" where
  "nextState t =
     (if num_blocks t \<le> block_idx t then tape_stop t
      else let b = cur_block t
           in case pstate t of
                IDLE \<Rightarrow> start_block t
              | PILOT \<Rightarrow> t\<lparr>pstate := SYNC1, pulses_left := 1, pulse_len := u32_of (sync1_len b)\<rparr>
              | SYNC1 \<Rightarrow> t\<lparr>pstate := SYNC2, pulses_left := 1, pulse_len := u32_of (sync2_len b)\<rparr>
              | SYNC2 \<Rightarrow> startDataState t
              | DATA \<Rightarrow>
                  (let t = t\<lparr>data_bit_idx := (data_bit_idx t + 1) mod 256\<rparr>;
                       (more, t) = advanceBit t
                   in if more then t else enter_pause t)
              | PAUSE \<Rightarrow>
                  (let t = t\<lparr>block_idx := block_idx t + 1, pstate := IDLE, pulses_left := 0, pulse_len := 1\<rparr>
                   in if block_idx t < num_blocks t then start_block t else tape_stop t))"

definition tape_play :: "tape \<Rightarrow> tape" where
  "tape_play t =
     (if tp_enabled t \<and> 0 < num_blocks t
      then let t = t\<lparr>playing := True, paused := False\<rparr>
           in if pstate t = IDLE then nextState t else t
      else t)"

text \<open>The end of a pulse, after the toggle.  The flag is the \<open>return\<close> inside the loop.\<close>

definition pulse_end :: "tape \<Rightarrow> bool \<times> tape" where
  "pulse_end t =
     (let t = (if 0 < pulses_left t then t\<lparr>pulses_left := pulses_left t - 1\<rparr> else t)
      in if pulses_left t = 0
         then let t = nextState t
              in if pulse_len t < 1 then (True, if playing t then tape_stop t else t)
                 else (False, t)
         else (False, t))"

definition toggle :: "tape \<Rightarrow> tape" where
  "toggle t = t\<lparr>ear := \<not> ear t, tstate_counter := 0\<rparr>"

definition remaining :: "tape \<Rightarrow> nat" where
  "remaining t = (pulse_len t + 2 ^ 32 - tstate_counter t) mod 2 ^ 32"

subsection \<open>Facts for the loop\<close>

lemma tape_stop_fields [simp]:
  "tstate_counter (tape_stop t) = 0" "pulse_len (tape_stop t) = 1" "playing (tape_stop t) = False"
  "pulses_left (tape_stop t) = 0" "paused (tape_stop t) = False" "block_idx (tape_stop t) = 0"
  "pstate (tape_stop t) = IDLE" "tp_data (tape_stop t) = tp_data t" "blocks (tape_stop t) = blocks t"
  "ear (tape_stop t) = False" "tp_mode (tape_stop t) = tp_mode t" "tp_enabled (tape_stop t) = tp_enabled t"
  "tp_size (tape_stop t) = tp_size t"
  by (simp_all add: tape_stop_def resetPlaybackState_def)

lemma u32_of_less [simp]: "u32_of n < 2 ^ 32" "u32_of n < 4294967296"
  by (simp_all add: u32_of_def)

lemma u32_of_small: "n < 2 ^ 32 \<Longrightarrow> u32_of n = n"
  by (simp add: u32_of_def)

text \<open>What the generator leaves alone: the image, the blocks, the mode and the position in a pulse.\<close>

definition fixed_part :: "tape \<Rightarrow> u8 list option \<times> nat \<times> bool \<times> tape_mode \<times> tape_block list \<times> bool" where
  "fixed_part t = (tp_data t, tp_size t, tp_enabled t, tp_mode t, blocks t, is_tzx t)"

definition moving_part :: "tape \<Rightarrow> bool \<times> bool \<times> bool \<times> nat" where
  "moving_part t = (playing t, paused t, ear t, tstate_counter t)"

lemmas parts = fixed_part_def moving_part_def

lemma advanceBit_frame [frame]:
  "fixed_part (snd (advanceBit t)) = fixed_part t" "moving_part (snd (advanceBit t)) = moving_part t"
  by (simp_all add: advanceBit_def Let_def case_prod_beta parts)

lemma enter_pause_frame [frame]:
  "fixed_part (enter_pause t) = fixed_part t" "moving_part (enter_pause t) = moving_part t"
  by (simp_all add: enter_pause_def parts)

lemma upd_frame [frame]:
  "fixed_part (pstate_update f t) = fixed_part t" "moving_part (pstate_update f t) = moving_part t"
  "fixed_part (pulses_left_update g t) = fixed_part t" "moving_part (pulses_left_update g t) = moving_part t"
  "fixed_part (pulse_len_update g t) = fixed_part t" "moving_part (pulse_len_update g t) = moving_part t"
  "fixed_part (data_byte_idx_update g t) = fixed_part t" "moving_part (data_byte_idx_update g t) = moving_part t"
  "fixed_part (block_idx_update g t) = fixed_part t" "moving_part (block_idx_update g t) = moving_part t"
  "fixed_part (data_bit_idx_update g t) = fixed_part t" "moving_part (data_bit_idx_update g t) = moving_part t"
  by (simp_all add: parts)

lemma startDataState_frame [frame]:
  "fixed_part (startDataState t) = fixed_part t" "moving_part (startDataState t) = moving_part t"
  by (simp_all add: startDataState_def Let_def case_prod_beta frame)

lemma start_block_frame [frame]:
  "fixed_part (start_block t) = fixed_part t" "moving_part (start_block t) = moving_part t"
  by (simp_all add: start_block_def Let_def frame)

lemma tape_stop_fixed [frame]: "fixed_part (tape_stop t) = fixed_part t"
  by (simp add: tape_stop_def resetPlaybackState_def parts)

lemma nextState_fixed [frame]: "fixed_part (nextState t) = fixed_part t"
  by (simp add: nextState_def Let_def case_prod_beta frame split: play_state.split)

lemma nextState_moves: "moving_part (nextState t) = moving_part t \<or> (\<exists>u. nextState t = tape_stop u)"
  by (auto simp: nextState_def Let_def case_prod_beta frame split: play_state.split)

lemma nextState_moving:
  "tstate_counter t = 0 \<Longrightarrow> tstate_counter (nextState t) = 0"
  "playing (nextState t) \<Longrightarrow> playing t"
  "playing (nextState t) \<Longrightarrow> ear (nextState t) = ear t \<and> paused (nextState t) = paused t"
  using nextState_moves [of t] by (auto simp: moving_part_def)

lemma nextState_len: "pulse_len (nextState t) < 2 ^ 32"
proof -
  have a: "pulse_len (snd (advanceBit u)) < 2 ^ 32" if "fst (advanceBit u)" for u
    using that by (auto simp: advanceBit_def Let_def case_prod_beta split: if_splits)
  have p: "pulse_len (enter_pause u) < 2 ^ 32" for u by (simp add: enter_pause_def)
  have s: "pulse_len (start_block u) < 2 ^ 32" "pulse_len (startDataState u) < 2 ^ 32" for u
    using a p by (simp_all add: start_block_def startDataState_def Let_def case_prod_beta)
  show ?thesis
    using a p s by (simp add: nextState_def Let_def case_prod_beta split: play_state.split)
qed

lemma pulse_end_fixed [frame]: "fixed_part (snd (pulse_end t)) = fixed_part t"
  by (simp add: pulse_end_def Let_def frame)

text \<open>
  After a pulse that does not end the loop the position in the pulse is still 0, and either the same
  pulse length counts once more or a new one of at least one T-state.
\<close>

lemma pulse_end_cases:
  assumes "tstate_counter t = 0" "\<not> fst (pulse_end t)"
  shows "tstate_counter (snd (pulse_end t)) = 0"
    and "1 \<le> pulse_len (snd (pulse_end t)) \<and> pulse_len (snd (pulse_end t)) < 2 ^ 32
      \<or> pulse_len (snd (pulse_end t)) = pulse_len t \<and> pulses_left (snd (pulse_end t)) < pulses_left t"
  using assms nextState_len nextState_moving(1) by (auto simp: pulse_end_def Let_def split: if_splits)

lemma pulse_end_return:
  assumes "fst (pulse_end t)"
  shows "\<not> playing (snd (pulse_end t))"
  using assms by (auto simp: pulse_end_def Let_def split: if_splits)

section \<open>The loop\<close>

text \<open>
  Why the loop ends: time passes, or an empty pulse of a state with several pulses is used up, or an empty pulse is
  followed by one that is not empty.
\<close>

definition empty_phase :: "tape \<Rightarrow> nat" where
  "empty_phase t =
     (if remaining t \<noteq> 0 then 0 else if pulse_len t mod 2 ^ 32 = 0 then 1 else 2)"

lemma empty_phase_pulse_end:
  assumes "remaining t = 0" "\<not> fst (pulse_end (toggle t))"
  shows "empty_phase (snd (pulse_end (toggle t))) < empty_phase t
    \<or> empty_phase (snd (pulse_end (toggle t))) = empty_phase t
      \<and> pulses_left (snd (pulse_end (toggle t))) < pulses_left t"
proof -
  let ?u = "snd (pulse_end (toggle t))"
  have c: "tstate_counter ?u = 0" using assms(2) by (intro pulse_end_cases) (simp_all add: toggle_def)
  have "1 \<le> pulse_len ?u \<and> pulse_len ?u < 2 ^ 32 \<or> pulse_len ?u = pulse_len t \<and> pulses_left ?u < pulses_left t"
    using pulse_end_cases(2) [of "toggle t"] assms(2) by (simp add: toggle_def)
  then show ?thesis
    using assms(1) c by (auto simp: empty_phase_def remaining_def)
qed

function advance_loop :: "tape \<Rightarrow> nat \<Rightarrow> nat \<Rightarrow> (nat \<times> bool) list \<Rightarrow> tape \<times> (nat \<times> bool) list" where
  "advance_loop t tstates consumed evs =
     (if playing t \<and> 0 < tstates
      then if remaining t \<le> tstates
           then let consumed = u32_of (consumed + remaining t);
                    tstates = tstates - remaining t;
                    t = toggle t;
                    evs = evs @ [(consumed, ear t)];
                    (ret, t) = pulse_end t
                in if ret then (t, evs) else advance_loop t tstates consumed evs
           else (t\<lparr>tstate_counter := u32_of (tstate_counter t + tstates)\<rparr>, evs)
      else (t, evs))"
  by pat_completeness auto

termination
proof (relation "measures [\<lambda>(t, n, _, _). n, \<lambda>(t, _, _, _). empty_phase t, \<lambda>(t, _, _, _). pulses_left t]",
    goal_cases)
  case 1
  show ?case by simp
next
  case (2 t n c evs x xa xb xc xd xe xf)
  then show ?case
    using empty_phase_pulse_end [of t] by (cases "remaining t = 0") (auto simp: prod_eq_iff)
qed

declare advance_loop.simps [simp del]

definition tape_advance :: "tape \<Rightarrow> nat \<Rightarrow> tape \<times> (nat \<times> bool) list" where
  "tape_advance t tstates =
     (if \<not> playing t \<or> paused t \<or> tp_data t = None then (t, [])
      else let t = (if pulse_len t < 1 then t\<lparr>pulse_len := 1\<rparr> else t)
           in advance_loop t tstates 0 [])"

section \<open>Time without batches\<close>

text \<open>
  The same loop with offsets relative to the current position.  A player in good order never has
  more time behind it in a pulse than the pulse is long.
\<close>

definition shift_events :: "nat \<Rightarrow> (nat \<times> bool) list \<Rightarrow> (nat \<times> bool) list" where
  "shift_events c = map (\<lambda>(x, e). (c + x, e))"

lemma shift_events_simps [simp]:
  "shift_events c [] = []" "shift_events c ((x, e) # es) = (c + x, e) # shift_events c es"
  "shift_events c (es @ fs) = shift_events c es @ shift_events c fs"
  "shift_events a (shift_events b es) = shift_events (a + b) es" "shift_events 0 es = es"
  by (simp_all add: shift_events_def case_prod_beta add.assoc)

function adv :: "tape \<Rightarrow> nat \<Rightarrow> tape \<times> (nat \<times> bool) list" where
  "adv t n =
     (if playing t \<and> 0 < n
      then if remaining t \<le> n
           then let (ret, u) = pulse_end (toggle t)
                in if ret then (u, [(remaining t, \<not> ear t)])
                   else let (v, es) = adv u (n - remaining t)
                        in (v, (remaining t, \<not> ear t) # shift_events (remaining t) es)
           else (t\<lparr>tstate_counter := tstate_counter t + n\<rparr>, [])
      else (t, []))"
  by pat_completeness auto
termination
proof (relation "measures [\<lambda>(t, n). n, \<lambda>(t, _). empty_phase t, \<lambda>(t, _). pulses_left t]", goal_cases)
  case 1
  show ?case by simp
next
  case (2 t n x ret u)
  then show ?case
    using empty_phase_pulse_end [of t] by (cases "remaining t = 0") (auto simp: prod_eq_iff)
qed

declare adv.simps [simp del]

lemma adv_idle: "\<not> playing t \<or> n = 0 \<Longrightarrow> adv t n = (t, [])"
  by (subst adv.simps) auto

lemma adv_short:
  "playing t \<Longrightarrow> 0 < n \<Longrightarrow> n < remaining t \<Longrightarrow> adv t n = (t\<lparr>tstate_counter := tstate_counter t + n\<rparr>, [])"
  by (subst adv.simps) simp

lemma adv_return:
  "playing t \<Longrightarrow> 0 < n \<Longrightarrow> remaining t \<le> n \<Longrightarrow> fst (pulse_end (toggle t)) \<Longrightarrow>
   adv t n = (snd (pulse_end (toggle t)), [(remaining t, \<not> ear t)])"
  by (subst adv.simps) (simp add: case_prod_beta)

lemma adv_pulse:
  "playing t \<Longrightarrow> 0 < n \<Longrightarrow> remaining t \<le> n \<Longrightarrow> \<not> fst (pulse_end (toggle t)) \<Longrightarrow>
   adv t n = (fst (adv (snd (pulse_end (toggle t))) (n - remaining t)),
     (remaining t, \<not> ear t) # shift_events (remaining t) (snd (adv (snd (pulse_end (toggle t))) (n - remaining t))))"
  by (subst adv.simps) (simp add: case_prod_beta Let_def)

definition in_order :: "tape \<Rightarrow> bool" where
  "in_order t \<longleftrightarrow> tstate_counter t < pulse_len t \<and> pulse_len t < 2 ^ 32"

lemma remaining_in_order: "in_order t \<Longrightarrow> remaining t = pulse_len t - tstate_counter t"
  by (simp add: in_order_def remaining_def) (metis Nat.add_diff_assoc2 less_imp_diff_less less_imp_le mod_add_self2 mod_less)

lemma remaining_pos: "in_order t \<Longrightarrow> 0 < remaining t"
  by (simp add: remaining_in_order) (simp add: in_order_def)

lemma toggle_fields [simp]:
  "tstate_counter (toggle t) = 0" "pulse_len (toggle t) = pulse_len t" "playing (toggle t) = playing t"
  "ear (toggle t) = (\<not> ear t)" "fixed_part (toggle t) = fixed_part t" "paused (toggle t) = paused t"
  "pulses_left (toggle t) = pulses_left t" "pstate (toggle t) = pstate t" "block_idx (toggle t) = block_idx t"
  "blocks (toggle t) = blocks t" "tp_data (toggle t) = tp_data t" "data_byte_idx (toggle t) = data_byte_idx t"
  "data_bit_idx (toggle t) = data_bit_idx t"
  by (simp_all add: toggle_def fixed_part_def)

lemma in_order_stop [simp]: "in_order (tape_stop t)"
  by (simp add: in_order_def)

lemma in_order_pulse_end:
  assumes "in_order t" "playing t"
  shows "in_order (snd (pulse_end (toggle t)))"
proof (cases "fst (pulse_end (toggle t))")
  case True
  have p: "playing (nextState u) \<or> pulse_len (nextState u) = 1" if "playing u" for u
    using that nextState_moves [of u] by (auto simp: moving_part_def)
  have "playing (toggle t\<lparr>pulses_left := 0\<rparr>)" using assms(2) by simp
  from p [OF this] show ?thesis
    using True assms(2) p [of "toggle t"] by (auto simp: pulse_end_def Let_def split: if_splits)
next
  case False
  then show ?thesis
    using assms(1) pulse_end_cases [of "toggle t"] by (auto simp: in_order_def)
qed

lemma advance_loop_adv:
  "in_order t \<Longrightarrow> consumed + tstates < 2 ^ 32 \<Longrightarrow>
   advance_loop t tstates consumed evs =
     (fst (adv t tstates), evs @ shift_events consumed (snd (adv t tstates)))"
proof (induction t tstates consumed evs rule: advance_loop.induct)
  case (1 t n c evs)
  show ?case
  proof (cases "playing t \<and> 0 < n \<and> remaining t \<le> n")
    case True
    let ?r = "remaining t" and ?u = "snd (pulse_end (toggle t))"
    have c: "u32_of (c + ?r) = c + ?r" using True 1(3) by (simp add: u32_of_small)
    show ?thesis
    proof (cases "fst (pulse_end (toggle t))")
      case ret: True
      then show ?thesis
        using True c by (subst advance_loop.simps) (simp add: Let_def case_prod_beta adv_return)
    next
      case ret: False
      have "advance_loop ?u (n - ?r) (c + ?r) (evs @ [(c + ?r, \<not> ear t)]) =
          (fst (adv ?u (n - ?r)), (evs @ [(c + ?r, \<not> ear t)]) @ shift_events (c + ?r) (snd (adv ?u (n - ?r))))"
        using True ret 1(2,3) in_order_pulse_end [of t] "1.IH" [OF _ _ refl refl refl refl refl prod.collapse]
        by (simp add: c)
      then show ?thesis
        using True ret c
        by (subst advance_loop.simps) (simp add: Let_def case_prod_beta adv_pulse)
    qed
  next
    case False
    have "u32_of (tstate_counter t + n) = tstate_counter t + n" if "n < remaining t"
      using that 1(2) u32_of_small [of "tstate_counter t + n"]
      by (simp add: remaining_in_order in_order_def) arith
    then show ?thesis
      using False by (subst advance_loop.simps) (auto simp: adv_idle adv_short)
  qed
qed

lemma adv_in_order: "in_order t \<Longrightarrow> in_order (fst (adv t n))"
proof (induction t n rule: adv.induct)
  case (1 t n)
  let ?r = "remaining t"
  have s: "in_order (t\<lparr>tstate_counter := tstate_counter t + n\<rparr>)" if "n < ?r"
    using that unfolding remaining_in_order [OF 1(2)] using 1(2) by (simp add: in_order_def)
  consider "\<not> playing t \<or> n = 0" | (pulse) "playing t" "0 < n" "?r \<le> n" | (short) "playing t" "0 < n" "n < ?r"
    by linarith
  then show ?case
  proof cases
    case pulse
    then show ?thesis
      using in_order_pulse_end [OF 1(2)] "1.IH" [OF _ _ refl prod.collapse]
      by (cases "fst (pulse_end (toggle t))") (simp_all add: adv_return adv_pulse)
  qed (simp_all add: adv_idle adv_short s 1(2))
qed

text \<open>Letting a and then b T-states pass is letting a + b pass.\<close>

lemma adv_add:
  "in_order t \<Longrightarrow> adv t (a + b) =
     (fst (adv (fst (adv t a)) b), snd (adv t a) @ shift_events a (snd (adv (fst (adv t a)) b)))"
proof (induction t a rule: adv.induct)
  case (1 t a)
  let ?r = "remaining t" and ?u = "snd (pulse_end (toggle t))"
  consider "\<not> playing t \<or> a = 0" | (pulse) "playing t" "0 < a" "?r \<le> a"
    | (short) "playing t" "0 < a" "a < ?r"
    by linarith
  then show ?case
  proof cases
    case pulse
    show ?thesis
    proof (cases "fst (pulse_end (toggle t))")
      case True
      then show ?thesis
        using pulse pulse_end_return [OF True] by (simp add: adv_return adv_idle)
    next
      case False
      have IH: "adv ?u (a - ?r + b) = (fst (adv (fst (adv ?u (a - ?r))) b),
          snd (adv ?u (a - ?r)) @ shift_events (a - ?r) (snd (adv (fst (adv ?u (a - ?r))) b)))"
        using pulse False in_order_pulse_end [OF 1(2)] "1.IH" [OF _ _ refl prod.collapse] by simp
      show ?thesis
        using pulse False IH by (simp add: adv_pulse)
    qed
  next
    case short
    let ?v = "t\<lparr>tstate_counter := tstate_counter t + a\<rparr>"
    have r: "remaining ?v = ?r - a"
      using short 1(2) by (subst remaining_in_order) (auto simp: remaining_in_order in_order_def)
    have v: "toggle ?v = toggle t" by (simp add: toggle_def)
    consider "b = 0" | (within) "0 < b" "a + b < ?r" | (past) "0 < b" "?r \<le> a + b" by linarith
    then show ?thesis
    proof cases
      case within
      then show ?thesis using short r by (simp add: adv_short add.assoc)
    next
      case past
      moreover have "a + b - ?r = b - (?r - a)" using short by arith
      ultimately show ?thesis
        using short r v by (cases "fst (pulse_end (toggle t))") (simp_all add: adv_short adv_return adv_pulse)
    qed (use short in \<open>simp add: adv_idle\<close>)
  qed (auto simp: adv_idle)
qed

text \<open>The same for \<open>advance\<close>, which first replaces a pulse length of zero by one.\<close>

definition ready :: "tape \<Rightarrow> bool" where
  "ready t \<longleftrightarrow> tstate_counter t < max 1 (pulse_len t) \<and> pulse_len t < 2 ^ 32"

definition normal :: "tape \<Rightarrow> tape" where
  "normal t = (if pulse_len t < 1 then t\<lparr>pulse_len := 1\<rparr> else t)"

lemma ready_normal: "ready t \<Longrightarrow> in_order (normal t)"
  by (auto simp: ready_def normal_def in_order_def)

lemma normal_in_order: "in_order t \<Longrightarrow> normal t = t"
  by (simp add: in_order_def normal_def)

lemma normal_fields [simp]:
  "playing (normal t) = playing t" "paused (normal t) = paused t" "tp_data (normal t) = tp_data t"
  by (simp_all add: normal_def)

lemma tape_advance_adv:
  assumes "ready t" "n < 2 ^ 32"
  shows "tape_advance t n =
    (if \<not> playing t \<or> paused t \<or> tp_data t = None then (t, []) else adv (normal t) n)"
  using assms advance_loop_adv [OF ready_normal [OF assms(1)], of 0 n "[]"]
  unfolding tape_advance_def Let_def normal_def [symmetric] by simp

lemma adv_frame [frame]: "fixed_part (fst (adv t n)) = fixed_part t"
proof (induction t n rule: adv.induct)
  case (1 t n)
  consider "\<not> playing t \<or> n = 0" | (pulse) "playing t" "0 < n" "remaining t \<le> n"
    | (short) "playing t" "0 < n" "n < remaining t"
    by linarith
  then show ?case
  proof cases
    case pulse
    then show ?thesis
      using "1.IH" [OF _ _ refl prod.collapse]
      by (cases "fst (pulse_end (toggle t))") (simp_all add: adv_return adv_pulse frame)
  qed (simp_all add: adv_idle adv_short fixed_part_def)
qed

lemma pulse_end_playing:
  "playing (snd (pulse_end t)) \<Longrightarrow> playing t \<and> paused (snd (pulse_end t)) = paused t"
  by (auto simp: pulse_end_def Let_def dest: nextState_moving(2,3) split: if_splits)

lemma adv_playing: "playing (fst (adv t n)) \<Longrightarrow> paused (fst (adv t n)) = paused t"
proof (induction t n rule: adv.induct)
  case (1 t n)
  consider "\<not> playing t \<or> n = 0" | (pulse) "playing t" "0 < n" "remaining t \<le> n"
    | (short) "playing t" "0 < n" "n < remaining t"
    by linarith
  then show ?case
  proof cases
    case pulse
    show ?thesis
    proof (cases "fst (pulse_end (toggle t))")
      case True
      then show ?thesis using pulse 1(2) pulse_end_return [OF True] by (simp add: adv_return)
    next
      case False
      let ?u = "snd (pulse_end (toggle t))"
      have "playing ?u \<or> adv ?u (n - remaining t) = (?u, [])" using adv_idle [of ?u] by blast
      then have "playing ?u" using pulse False 1(2) by (auto simp: adv_pulse)
      then show ?thesis
        using pulse False 1(2) "1.IH" [OF _ _ refl prod.collapse] pulse_end_playing [of "toggle t"]
        by (simp add: adv_pulse)
    qed
  qed (use 1(2) in \<open>simp_all add: adv_idle adv_short\<close>)
qed

text \<open>C22 (advance_split): Advancing the tape by a + b T-states is the same as advancing by a and then
by b: same player state and same EAR edges at the same times, so batching the tape time does not
change the signal. The position of the player has to be inside its current pulse, as every
operation but a fast-forward in a pause followed by play leaves it, and a + b below 2^32.\<close>

theorem advance_split:
  assumes "ready t" "a + b < 2 ^ 32"
  shows "tape_advance t (a + b) =
    (fst (tape_advance (fst (tape_advance t a)) b),
     snd (tape_advance t a) @ shift_events a (snd (tape_advance (fst (tape_advance t a)) b)))"
proof (cases "\<not> playing t \<or> paused t \<or> tp_data t = None")
  case True
  then show ?thesis using assms by (auto simp: tape_advance_def)
next
  case False
  let ?m = "normal t"
  let ?u = "fst (adv ?m a)"
  have o: "in_order ?m" "in_order ?u"
    using assms(1) by (simp_all add: ready_normal adv_in_order)
  have r: "ready ?u" using o(2) by (simp add: in_order_def ready_def)
  have d: "tp_data ?u \<noteq> None" using False adv_frame [of ?m a] by (simp add: fixed_part_def)
  have b: "tape_advance ?u b = adv ?u b"
    using assms(2) r False d normal_in_order [OF o(2)] adv_playing [of ?m a]
    by (auto simp: tape_advance_adv adv_idle)
  have "tape_advance t n = adv ?m n" if "n < 2 ^ 32" for n
    using assms(1) False that by (auto simp: tape_advance_adv)
  then have "tape_advance t a = adv ?m a" "tape_advance t (a + b) = adv ?m (a + b)" using assms(2) by simp_all
  then show ?thesis using adv_add [OF o(1), of a b] b by simp
qed

lemma ready_advance: "ready t \<Longrightarrow> n < 2 ^ 32 \<Longrightarrow> ready (fst (tape_advance t n))"
  using adv_in_order [OF ready_normal, of t n]
  by (auto simp: tape_advance_adv) (simp add: in_order_def ready_def)

lemma ready_controls:
  "ready tape_new" "ready (tape_stop t)" "ready (tape_rewind t)" "ready (tape_unload t)"
  "ready t \<Longrightarrow> ready (tape_pause t)" "ready t \<Longrightarrow> ready (tape_fastForward t)" "ready t \<Longrightarrow> ready (tape_setMode t m)"
  by (simp_all add: ready_def tape_new_def tape_stop_def tape_rewind_def tape_unload_def resetPlaybackState_def
      tape_pause_def tape_fastForward_def tape_setMode_def Let_def)

end
