(* ===== verification/Tape_Parse.thy ===== *)
theory Tape_Parse
  imports Tape_State
begin

text \<open>
  Reading a tape image: \<open>skip_tzx_block\<close>, \<open>addBlock\<close>, \<open>buildBlockList\<close> and \<open>load\<close> of
  \<open>src/src/spectrum/Tape.cpp\<close>.  The block loop of a TZX file need not end, because the two
  additions of a block's 32-bit length wrap; it is a partial function and \<open>None\<close> is not returning.
\<close>

section \<open>Skipping control blocks\<close>

text \<open>The lambda \<open>need\<close>, and \<open>if (!need(n)) return false; p += n\<close>.\<close>

definition need :: "nat \<Rightarrow> nat \<Rightarrow> nat \<Rightarrow> bool" where
  "need sz p n \<longleftrightarrow> szadd p n \<le> sz"

definition skip_bytes :: "nat \<Rightarrow> nat \<Rightarrow> nat \<Rightarrow> nat option" where
  "skip_bytes sz p n = (if need sz p n then Some (szadd p n) else None)"

definition skip_tzx_block :: "u8 \<Rightarrow> u8 list \<Rightarrow> nat \<Rightarrow> nat \<Rightarrow> nat option" where
  "skip_tzx_block type d sz p =
     (if type = 0x12 then skip_bytes sz p 4
      else if type = 0x13 then
        (if need sz p 1 then skip_bytes sz (szadd p 1) (unat (d ! p) * 2) else None)
      else if type = 0x15 then
        (if need sz p 8 then skip_bytes sz p (szadd 8 (le24 d (p + 5))) else None)
      else if type = 0x18 \<or> type = 0x19 \<or> type = 0x2B then
        (if need sz p 4 then skip_bytes sz p (szadd 4 (le32 d p)) else None)
      else if type = 0x21 then
        (if need sz p 1 then skip_bytes sz (szadd p 1) (unat (d ! p)) else None)
      else if type = 0x22 \<or> type = 0x25 \<or> type = 0x27 then Some p
      else if type = 0x23 \<or> type = 0x24 then skip_bytes sz p 2
      else if type = 0x26 then
        (if need sz p 2 then skip_bytes sz p (2 + le16 d p * 2) else None)
      else if type = 0x28 then
        (if need sz p 2 then skip_bytes sz p (2 + le16 d p) else None)
      else if type = 0x2A then skip_bytes sz p 4
      else if type = 0x30 then
        (if need sz p 1 then skip_bytes sz (szadd p 1) (unat (d ! p)) else None)
      else if type = 0x31 then
        (if need sz p 2 then skip_bytes sz p (2 + unat (d ! (p + 1))) else None)
      else if type = 0x32 then
        (if need sz p 2 then skip_bytes sz p (2 + le16 d p) else None)
      else if type = 0x33 then
        (if need sz p 1 then skip_bytes sz (szadd p 1) (unat (d ! p) * 3) else None)
      else if type = 0x35 then
        (if need sz p 20 then skip_bytes sz p (szadd 20 (le32 d (p + 16))) else None)
      else if type = 0x5A then skip_bytes sz p 9
      else None)"

section \<open>The block list\<close>

definition MAX_TAPE_BLOCKS :: nat where "MAX_TAPE_BLOCKS = 1024"
definition T_PILOT :: nat where "T_PILOT = 2168"
definition T_SYNC1 :: nat where "T_SYNC1 = 667"
definition T_SYNC2 :: nat where "T_SYNC2 = 735"
definition T_ZERO :: nat where "T_ZERO = 855"
definition T_ONE :: nat where "T_ONE = 1710"
definition C_PILOT_HDR :: nat where "C_PILOT_HDR = 8063"
definition C_PILOT_DAT :: nat where "C_PILOT_DAT = 3223"

text \<open>\<open>pause_ms\<close> is multiplied in 32 bits.\<close>

definition addBlock :: "tape_block list \<Rightarrow> u8 \<Rightarrow> nat option \<Rightarrow> nat \<Rightarrow> nat \<Rightarrow> nat \<Rightarrow> nat \<Rightarrow> nat \<Rightarrow> nat
    \<Rightarrow> nat \<Rightarrow> nat \<Rightarrow> nat \<Rightarrow> tape_block list" where
  "addBlock bs type data len pause_ms plen pcount s1 s2 zero one bits =
     (if MAX_TAPE_BLOCKS \<le> length bs then bs
      else bs @ [\<lparr>blk_data = data, blk_length = len, pause_tstates = pause_ms * 3500 mod 2 ^ 32,
                  pilot_len = plen, pilot_count = pcount, sync1_len = s1, sync2_len = s2,
                  zero_len = zero, one_len = one, blk_type = type, used_bits = bits\<rparr>])"

text \<open>A block with the ROM's own timing; the flag byte selects the length of the pilot.\<close>

definition add_rom_block :: "tape_block list \<Rightarrow> u8 list \<Rightarrow> nat \<Rightarrow> nat \<Rightarrow> nat \<Rightarrow> tape_block list" where
  "add_rom_block bs d off len pause =
     addBlock bs 0x10 (Some off) len pause T_PILOT
       (if unat (d ! off) < 128 then C_PILOT_HDR else C_PILOT_DAT) T_SYNC1 T_SYNC2 T_ZERO T_ONE 8"

text \<open>
  The four kinds of block that carry sound.  \<open>None\<close> is the \<open>return\<close> of a truncated block, the
  result otherwise is the position after the block and the list.
\<close>

definition tzx_standard :: "u8 list \<Rightarrow> nat \<Rightarrow> nat \<Rightarrow> tape_block list \<Rightarrow> (nat \<times> tape_block list) option" where
  "tzx_standard d sz p bs =
     (if szadd p 4 > sz then None
      else let pause = le16 d p;
               len = le16 d (p + 2)
           in if szadd (szadd p 4) len > sz then None
              else if len = 0 then Some (szadd p 4, bs)
              else if len < 2 then Some (szadd p (4 + len), bs)
              else Some (szadd p (4 + len), add_rom_block bs d (p + 4) len pause))"

definition tzx_turbo :: "u8 list \<Rightarrow> nat \<Rightarrow> nat \<Rightarrow> tape_block list \<Rightarrow> (nat \<times> tape_block list) option" where
  "tzx_turbo d sz p bs =
     (if szadd p 18 > sz then None
      else let pilot = le16 d p;
               s1 = le16 d (p + 2);
               s2 = le16 d (p + 4);
               zero = le16 d (p + 6);
               one = le16 d (p + 8);
               pcount = le16 d (p + 10);
               bits = unat (d ! (p + 12));
               pause = le16 d (p + 13);
               len = le24 d (p + 15)
           in if szadd (szadd p 18) len > sz then None
              else if bits = 0 \<or> bits > 8 then Some (szadd p (18 + len), bs)
              else if zero = 0 \<or> one = 0 then Some (szadd p (18 + len), bs)
              else Some (szadd p (18 + len),
                     addBlock bs 0x11 (Some (p + 18)) len pause pilot pcount s1 s2 zero one bits))"

definition tzx_pure :: "u8 list \<Rightarrow> nat \<Rightarrow> nat \<Rightarrow> tape_block list \<Rightarrow> (nat \<times> tape_block list) option" where
  "tzx_pure d sz p bs =
     (if szadd p 10 > sz then None
      else let zero = le16 d p;
               one = le16 d (p + 2);
               bits = unat (d ! (p + 4));
               pause = le16 d (p + 5);
               len = le24 d (p + 7)
           in if szadd (szadd p 10) len > sz then None
              else if bits = 0 \<or> bits > 8 then Some (szadd p (10 + len), bs)
              else if zero = 0 \<or> one = 0 then Some (szadd p (10 + len), bs)
              else Some (szadd p (10 + len),
                     addBlock bs 0x14 (Some (p + 10)) len pause 0 0 0 0 zero one bits))"

definition tzx_pause :: "u8 list \<Rightarrow> nat \<Rightarrow> nat \<Rightarrow> tape_block list \<Rightarrow> (nat \<times> tape_block list) option" where
  "tzx_pause d sz p bs =
     (if szadd p 2 > sz then None
      else Some (szadd p 2, addBlock bs 0x20 None 0 (le16 d p) 0 0 0 0 0 0 8))"

definition tzx_block :: "u8 list \<Rightarrow> nat \<Rightarrow> u8 \<Rightarrow> nat \<Rightarrow> tape_block list \<Rightarrow> (nat \<times> tape_block list) option" where
  "tzx_block d sz type p bs =
     (if type = 0x10 then tzx_standard d sz p bs
      else if type = 0x11 then tzx_turbo d sz p bs
      else if type = 0x14 then tzx_pure d sz p bs
      else if type = 0x20 then tzx_pause d sz p bs
      else map_option (\<lambda>p. (p, bs)) (skip_tzx_block type d sz p))"

partial_function (option) tzx_loop ::
    "u8 list \<Rightarrow> nat \<Rightarrow> nat \<Rightarrow> tape_block list \<Rightarrow> tape_block list option" where
  "tzx_loop d sz p bs =
     (if p < sz \<and> length bs < MAX_TAPE_BLOCKS
      then if szadd p 1 > sz then Some bs
           else let type = d ! p;
                    p = szadd p 1
                in case tzx_block d sz type p bs of
                     None \<Rightarrow> Some bs
                   | Some r \<Rightarrow> tzx_loop d sz (fst r) (snd r)
      else Some bs)"

text \<open>The loop over a TAP file always advances.\<close>

function tap_loop :: "u8 list \<Rightarrow> nat \<Rightarrow> nat \<Rightarrow> tape_block list \<Rightarrow> tape_block list" where
  "tap_loop d sz p bs =
     (if p + 2 \<le> sz \<and> length bs < MAX_TAPE_BLOCKS
      then let len = le16 d p
           in if len = 0 then bs
              else if p + 2 + len > sz then bs
              else if len < 2 then tap_loop d sz (p + (2 + len)) bs
              else tap_loop d sz (p + (2 + len)) (add_rom_block bs d (p + 2) len 1000)
      else bs)"
  by pat_completeness auto
termination
  by (relation "measure (\<lambda>(d, sz, p, bs). sz - p)") auto

declare tap_loop.simps [simp del]

definition buildBlockList :: "tape \<Rightarrow> tape option" where
  "buildBlockList t =
     (let t = t\<lparr>blocks := []\<rparr>
      in case tp_data t of
           None \<Rightarrow> Some t
         | Some d \<Rightarrow>
             if is_tzx t
             then if tp_size t < 10 then Some t
                  else map_option (\<lambda>bs. t\<lparr>blocks := bs\<rparr>) (tzx_loop d (tp_size t) 10 [])
             else Some (t\<lparr>blocks := tap_loop d (tp_size t) 0 []\<rparr>))"

section \<open>Loading a file\<close>

definition TAPE_MAX_BYTES :: nat where "TAPE_MAX_BYTES = 1024 * 1024"

text \<open>
  \<open>content\<close> is the content of the file, \<open>None\<close> when it cannot be opened; \<open>alloc\<close> says whether one of
  the two allocations succeeds; \<open>rd\<close> is what \<open>fread\<close> returns.
\<close>

definition tape_load :: "tape \<Rightarrow> u8 list option \<Rightarrow> bool \<Rightarrow> nat \<Rightarrow> (bool \<times> tape) option" where
  "tape_load t content alloc rd =
     (let t = tape_unload t
      in case content of
           None \<Rightarrow> Some (False, t)
         | Some bytes \<Rightarrow>
             let sz = length bytes
             in if sz \<le> 0 \<or> sz > TAPE_MAX_BYTES then Some (False, t)
                else if \<not> alloc then Some (False, t)
                else if rd \<noteq> sz then Some (False, t)
                else let t = t\<lparr>tp_data := Some bytes, tp_size := sz, tp_enabled := True,
                               is_tzx := (sz > 7 \<and> take 7 bytes = map (of_nat \<circ> of_char) ''ZXTape!'')\<rparr>
                     in map_option (\<lambda>t. (True, resetPlaybackState t)) (buildBlockList t))"

section \<open>Well-formed blocks\<close>

text \<open>
  What the player and the loaders rely on: the data of a block lies inside the image, bits have a
  length, the last byte has between one and eight bits, and the fields fit their types.
\<close>

definition block_wf :: "nat \<Rightarrow> tape_block \<Rightarrow> bool" where
  "block_wf sz b \<longleftrightarrow>
     (case blk_data b of
        None \<Rightarrow> blk_length b = 0
      | Some off \<Rightarrow> off + blk_length b \<le> sz \<and> 0 < zero_len b \<and> 0 < one_len b)
     \<and> 1 \<le> used_bits b \<and> used_bits b \<le> 8
     \<and> (blk_type b = 0x10 \<longrightarrow> 2 \<le> blk_length b)
     \<and> pause_tstates b \<le> 65535 * 3500
     \<and> pilot_len b < 2 ^ 16 \<and> pilot_count b < 2 ^ 16 \<and> sync1_len b < 2 ^ 16 \<and> sync2_len b < 2 ^ 16
     \<and> zero_len b < 2 ^ 16 \<and> one_len b < 2 ^ 16"

definition blocks_wf :: "nat \<Rightarrow> tape_block list \<Rightarrow> bool" where
  "blocks_wf sz bs \<longleftrightarrow> length bs \<le> MAX_TAPE_BLOCKS \<and> (\<forall>b\<in>set bs. block_wf sz b)"

lemma blocks_wf_Nil [simp]: "blocks_wf sz []"
  by (simp add: blocks_wf_def)

lemmas rom_timing =
  T_PILOT_def T_SYNC1_def T_SYNC2_def T_ZERO_def T_ONE_def C_PILOT_HDR_def C_PILOT_DAT_def

lemma addBlock_wf:
  assumes "blocks_wf sz bs" "pause < 2 ^ 16"
    and "block_wf sz \<lparr>blk_data = data, blk_length = len, pause_tstates = pause * 3500, pilot_len = plen,
           pilot_count = pcount, sync1_len = s1, sync2_len = s2, zero_len = zero, one_len = one,
           blk_type = type, used_bits = bits\<rparr>"
  shows "blocks_wf sz (addBlock bs type data len pause plen pcount s1 s2 zero one bits)"
proof -
  have "pause * 3500 mod 2 ^ 32 = pause * 3500" using assms(2) by simp
  then show ?thesis using assms by (auto simp: addBlock_def blocks_wf_def)
qed

lemma rom_block_wf:
  assumes "blocks_wf sz bs" "off + len \<le> sz" "2 \<le> len" "pause < 2 ^ 16"
  shows "blocks_wf sz (add_rom_block bs d off len pause)"
  unfolding add_rom_block_def using assms
  by (intro addBlock_wf) (auto simp: block_wf_def rom_timing)

section \<open>The loops stay inside the image\<close>

lemma tap_loop_wf: "blocks_wf sz bs \<Longrightarrow> blocks_wf sz (tap_loop d sz p bs)"
proof (induction d sz p bs rule: tap_loop.induct)
  case (1 d sz p bs)
  then show ?case
    by (subst tap_loop.simps) (simp add: Let_def rom_block_wf)
qed

lemma tzx_block_wf:
  assumes "tzx_block d sz type p bs = Some (p', bs')" "blocks_wf sz bs" "p \<le> sz" "sz \<le> 2 ^ 20"
  shows "blocks_wf sz bs'"
proof -
  have l24: "szadd (szadd p n) (le24 d q) = p + n + le24 d q" if "n \<le> 18" for n q
    using that assms(3,4) by (simp add: szadd_le szadd_small)
  have l16: "szadd (szadd p n) (le16 d q) = p + n + le16 d q" if "n \<le> 18" for n q
    using that assms(3,4) by (simp add: szadd_le szadd_small)
  show ?thesis
    using assms(1,2) l16 l24
    by (auto simp: tzx_block_def tzx_standard_def tzx_turbo_def tzx_pure_def tzx_pause_def Let_def
        block_wf_def less_Suc_eq_le
        split: if_splits intro!: rom_block_wf addBlock_wf)
qed

lemma tzx_loop_wf:
  assumes "tzx_loop d sz p bs = Some bs'" "blocks_wf sz bs" "sz \<le> 2 ^ 20"
  shows "blocks_wf sz bs'"
  using assms
proof (induction d sz p bs bs' rule: tzx_loop.raw_induct [rotated, consumes 1, case_names step])
  case (step loop d sz p bs bs')
  show ?case
  proof (cases "p < sz \<and> length bs < MAX_TAPE_BLOCKS \<and> tzx_block d sz (d ! p) (szadd p 1) bs \<noteq> None")
    case True
    then obtain p1 bs1 where b: "tzx_block d sz (d ! p) (szadd p 1) bs = Some (p1, bs1)" by auto
    have p: "szadd p 1 = p + 1" using True step(4) by (simp add: szadd_small)
    then have "loop d sz p1 bs1 = Some bs'"
      using True step(2) b by (simp add: Let_def)
    moreover have "blocks_wf sz bs1"
      using tzx_block_wf [OF b step(3)] True p step(4) by simp
    ultimately show ?thesis using step(1,4) by blast
  next
    case False
    then show ?thesis using step(2,3) by (auto simp: Let_def split: if_splits option.splits)
  qed
qed

lemma buildBlockList_fields:
  assumes "buildBlockList t = Some t'"
  shows "tp_data t' = tp_data t" "tp_size t' = tp_size t" "playing t' = playing t"
  using assms by (auto simp: buildBlockList_def Let_def split: option.splits if_splits)

lemma buildBlockList_wf:
  assumes "buildBlockList t = Some t'" "tp_size t \<le> 2 ^ 20"
  shows "blocks_wf (tp_size t) (blocks t')"
  using assms
  by (auto simp: buildBlockList_def Let_def tap_loop_wf tzx_loop_wf [OF _ blocks_wf_Nil]
      split: option.splits if_splits)

section \<open>The TZX loop ends when no block length wraps\<close>

text \<open>
  The positions at which the loop finds the type byte of a block, and a block there whose 32-bit length
  field takes the position past \<open>2 ^ 32\<close>: only four kinds of block have such a field.  When no block
  of the image does that, every block is passed and the position grows.
\<close>

inductive tzx_at :: "u8 list \<Rightarrow> nat \<Rightarrow> bool" for d where
  first_block: "tzx_at d 10"
| next_block: "tzx_at d p \<Longrightarrow> p < length d \<Longrightarrow> tzx_block d (length d) (d ! p) (szadd p 1) bs = Some (p', bs') \<Longrightarrow> tzx_at d p'"

definition length_wraps :: "u8 list \<Rightarrow> nat \<Rightarrow> bool" where
  "length_wraps d p \<longleftrightarrow>
     (d ! p = 0x18 \<or> d ! p = 0x19 \<or> d ! p = 0x2B) \<and> p + 1 + 4 \<le> length d \<and> 2 ^ 32 \<le> p + 1 + 4 + le32 d (p + 1)
     \<or> d ! p = 0x35 \<and> p + 1 + 20 \<le> length d \<and> 2 ^ 32 \<le> p + 1 + 20 + le32 d (p + 1 + 16)"

lemma skip_bytes_mono:
  assumes "skip_bytes sz p n = Some p'" "p \<le> sz" "p + n < 2 ^ 32"
  shows "p \<le> p' \<and> p' \<le> sz"
  using assms by (auto simp: skip_bytes_def need_def szadd_small split: if_splits)

lemma skip_tzx_block_progress:
  assumes s: "skip_tzx_block type d sz p = Some p'" "p \<le> sz" "sz \<le> 2 ^ 20" "sz = length d"
    and h: "type = 0x18 \<or> type = 0x19 \<or> type = 0x2B \<Longrightarrow> p + 4 \<le> sz \<Longrightarrow> p + 4 + le32 d p < 2 ^ 32"
      "type = 0x35 \<Longrightarrow> p + 20 \<le> sz \<Longrightarrow> p + 20 + le32 d (p + 16) < 2 ^ 32"
  shows "p \<le> p' \<and> p' \<le> sz"
proof -
  let ?ok = "pred_option (\<lambda>p'. p \<le> p' \<and> p' \<le> sz)"
  have need: "need sz p n \<longleftrightarrow> p + n \<le> sz" if "n \<le> 20" for n
    using that assms by (simp add: need_def szadd_small)
  have p1: "szadd p 1 = p + 1" using assms by (simp add: szadd_small)
  have ok: "?ok (skip_bytes sz q n)" if "p \<le> q" "q \<le> sz" "n \<le> 33554432" for q n
    using that skip_bytes_mono [of sz q n] assms(3) by (cases "skip_bytes sz q n") auto
  have ok32: "?ok (skip_bytes sz p (szadd n (le32 d q)))" if "p + n + le32 d q < 2 ^ 32" for n q
    using that s(2) skip_bytes_mono [of sz p "n + le32 d q"]
    by (cases "skip_bytes sz p (n + le32 d q)") (auto simp: szadd_small)
  have long: "p + 4 \<le> sz \<Longrightarrow> type = 0x18 \<Longrightarrow> ?ok (skip_bytes sz p (szadd 4 (le32 d p)))"
    "p + 4 \<le> sz \<Longrightarrow> type = 0x19 \<Longrightarrow> ?ok (skip_bytes sz p (szadd 4 (le32 d p)))"
    "p + 4 \<le> sz \<Longrightarrow> type = 0x2B \<Longrightarrow> ?ok (skip_bytes sz p (szadd 4 (le32 d p)))"
    "p + 20 \<le> sz \<Longrightarrow> type = 0x35 \<Longrightarrow> ?ok (skip_bytes sz p (szadd 20 (le32 d (p + 16))))"
    using h by (simp_all add: ok32)
  have bound: "unat (d ! q) * 2 \<le> 33554432" "unat (d ! q) \<le> 33554432" "2 + unat (d ! q) \<le> 33554432"
    "unat (d ! q) * 3 \<le> 33554432" "2 + le16 d q * 2 \<le> 33554432" "2 + le16 d q \<le> 33554432"
    "szadd 8 (le24 d q) \<le> 33554432" for q
  proof -
    have "unat (d ! q) < 256" "le16 d q \<le> 65535" "le24 d q \<le> 16777215" "szadd 8 (le24 d q) = 8 + le24 d q"
      using unat8_bound by (simp_all add: szadd_le)
    then show "unat (d ! q) * 2 \<le> 33554432" "unat (d ! q) \<le> 33554432" "2 + unat (d ! q) \<le> 33554432"
      "unat (d ! q) * 3 \<le> 33554432" "2 + le16 d q * 2 \<le> 33554432" "2 + le16 d q \<le> 33554432"
      "szadd 8 (le24 d q) \<le> 33554432" by linarith+
  qed
  have "?ok (skip_tzx_block type d sz p)"
    unfolding skip_tzx_block_def p1 using s(2)
    by (simp add: ok long need bound del: One_nat_def add_2_eq_Suc)
  then show ?thesis using s(1) by simp
qed

lemma tzx_block_progress:
  assumes "tzx_block d sz (d ! q) (q + 1) bs = Some (p', bs')" "p = q + 1" "p \<le> sz" "sz \<le> 2 ^ 20" "sz = length d"
    and "\<not> length_wraps d q"
  shows "p \<le> p' \<and> p' \<le> sz"
proof -
  have e: "szadd (szadd p n) (le24 d q) = p + n + le24 d q" "szadd (szadd p n) (le16 d q) = p + n + le16 d q"
    "szadd p (n + le24 d q) = p + n + le24 d q" "szadd p (n + le16 d q) = p + n + le16 d q"
    "szadd p n = p + n"
    "szadd (p + n) (le24 d q) = p + n + le24 d q" "szadd (p + n) (le16 d q) = p + n + le16 d q"
    if "n \<le> 18" for n q
    using that assms(3,4) by (simp_all add: szadd_small [of p n] szadd_le)
  show ?thesis
  proof (cases "d ! q = 0x10 \<or> d ! q = 0x11 \<or> d ! q = 0x14 \<or> d ! q = 0x20")
    case True
    then show ?thesis
      using assms(1,3) unfolding assms(2) [symmetric] by (auto simp: tzx_block_def tzx_standard_def tzx_turbo_def tzx_pure_def
          tzx_pause_def Let_def e split: if_splits)
  next
    case False
    then show ?thesis
      using assms skip_tzx_block_progress [of "d ! q" d sz p p'] by (auto simp: tzx_block_def length_wraps_def)
  qed
qed

lemma tzx_loop_returns:
  assumes "sz = length d" "sz \<le> 2 ^ 20" "\<And>q. tzx_at d q \<Longrightarrow> q < length d \<Longrightarrow> \<not> length_wraps d q" "tzx_at d p"
  shows "tzx_loop d sz p bs \<noteq> None"
  using assms(4)
proof (induction "sz - p" arbitrary: p bs rule: less_induct)
  case less
  show ?case
  proof (cases "p < sz \<and> length bs < MAX_TAPE_BLOCKS")
    case True
    then have p: "szadd p 1 = p + 1" using assms(2) by (simp add: szadd_small)
    show ?thesis
    proof (cases "tzx_block d sz (d ! p) (p + 1) bs")
      case None
      then show ?thesis using True p by (subst tzx_loop.simps) (simp add: Let_def)
    next
      case (Some r)
      have "p + 1 \<le> fst r \<and> fst r \<le> sz"
        using tzx_block_progress [of d sz p bs "fst r" "snd r" "p + 1"] Some True assms(1-3) less.prems by simp
      moreover have "tzx_at d (fst r)"
        by (rule tzx_at.next_block [OF less.prems, of bs "fst r" "snd r"]) (use Some True p assms(1) in simp_all)
      ultimately have "tzx_loop d sz (fst r) (snd r) \<noteq> None" using True by (intro less.hyps) arith+
      then show ?thesis using True p Some by (subst tzx_loop.simps) (simp add: Let_def)
    qed
  next
    case False
    then show ?thesis by (subst tzx_loop.simps) auto
  qed
qed

section \<open>Properties\<close>

definition tzx_magic :: "u8 list" where
  "tzx_magic = map (of_nat \<circ> of_char) ''ZXTape!''"

text \<open>A TZX image none of whose blocks moves the position past \<open>2 ^ 32\<close>; a TAP image has no such blocks.\<close>

definition tape_safe :: "u8 list \<Rightarrow> bool" where
  "tape_safe d \<longleftrightarrow> (take 7 d = tzx_magic \<longrightarrow> (\<forall>p. tzx_at d p \<longrightarrow> p < length d \<longrightarrow> \<not> length_wraps d p))"

lemma tape_load_returns:
  fixes content :: "u8 list option"
  assumes "\<And>d. content = Some d \<Longrightarrow> tape_safe d"
  shows "\<exists>ok t'. tape_load t content alloc rd = Some (ok, t')"
proof (cases content)
  case None
  then show ?thesis by (auto simp: tape_load_def Let_def)
next
  case (Some d)
  have tzx: "tzx_loop d (length d) 10 [] \<noteq> None" if "length d \<le> TAPE_MAX_BYTES" "take 7 d = tzx_magic"
    using that assms [OF Some, unfolded tape_safe_def] tzx_loop_returns [of "length d" d 10 "[]"]
    by (simp add: TAPE_MAX_BYTES_def tzx_at.first_block)
  show ?thesis
    unfolding tape_load_def Some
    using tzx by (auto simp: Let_def buildBlockList_def tzx_magic_def not_less map_option_case split: option.splits)
qed

text \<open>C21 (load_returns): Loading a tape image returns for every TAP file, and for every TZX file in
which no block that the parser reaches has a 32-bit length field that takes the position past
2^32.\<close>

theorem load_returns:
  fixes content :: "u8 list option"
  assumes "\<And>d. content = Some d \<Longrightarrow> tape_safe d"
  shows "\<exists>ok t'. tape_load t content alloc rd = Some (ok, t')"
  using assms by (rule tape_load_returns)

text \<open>C20 (load_blocks_inside): A load that succeeds leaves blocks whose data lie inside the image, at
most 1024 of them, and a rewound, stopped player; a load that fails leaves an unloaded tape.\<close>

theorem load_blocks_inside:
  assumes "tape_load t content alloc rd = Some (ok, t')"
  shows "if ok then \<exists>bytes. content = Some bytes \<and> tp_data t' = Some bytes \<and> tp_size t' = length bytes
                \<and> 0 < length bytes \<and> length bytes \<le> TAPE_MAX_BYTES
                \<and> blocks_wf (length bytes) (blocks t') \<and> pstate t' = IDLE \<and> block_idx t' = 0 \<and> \<not> playing t'
         else \<not> isLoaded t' \<and> blocks t' = [] \<and> \<not> playing t'"
proof -
  define t0 where "t0 d = (tape_unload t)\<lparr>tp_data := Some d, tp_size := length d, tp_enabled := True,
    is_tzx := (length d > 7 \<and> take 7 d = tzx_magic)\<rparr>" for d
  have load: "tape_load t content alloc rd =
     (case content of None \<Rightarrow> Some (False, tape_unload t)
      | Some d \<Rightarrow> if length d \<le> 0 \<or> length d > TAPE_MAX_BYTES \<or> \<not> alloc \<or> rd \<noteq> length d then Some (False, tape_unload t)
                  else map_option (\<lambda>t. (True, resetPlaybackState t)) (buildBlockList (t0 d)))"
    by (simp add: tape_load_def Let_def t0_def tzx_magic_def split: option.split)
  have "\<not> isLoaded (tape_unload t) \<and> blocks (tape_unload t) = [] \<and> \<not> playing (tape_unload t)"
    by (simp add: tape_unload_def isLoaded_def tape_stop_def resetPlaybackState_def Let_def)
  moreover have "tp_data u = Some d \<and> tp_size u = length d \<and> blocks_wf (length d) (blocks u) \<and> \<not> playing u"
    if "buildBlockList (t0 d) = Some u" "length d \<le> TAPE_MAX_BYTES" for d u
  proof -
    have "blocks_wf (tp_size (t0 d)) (blocks u)"
      using that by (intro buildBlockList_wf) (simp_all add: t0_def TAPE_MAX_BYTES_def)
    then show ?thesis
      using buildBlockList_fields [OF that(1)]
      by (simp add: t0_def tape_unload_def tape_stop_def resetPlaybackState_def Let_def)
  qed
  ultimately show ?thesis
    using assms unfolding load
    by (auto simp: resetPlaybackState_def not_less split: option.splits if_splits)
qed

text \<open>A file of 15 bytes whose set-signal-level block claims a length of \<open>2 ^ 32 - 5\<close> bytes.\<close>

definition looping_file :: "u8 list" where
  "looping_file = tzx_magic @ [0x1A, 0x01, 0x14, 0x2B, 0xFB, 0xFF, 0xFF, 0xFF]"

lemma looping_file_eq:
  "looping_file = [0x5A, 0x58, 0x54, 0x61, 0x70, 0x65, 0x21, 0x1A, 0x01, 0x14, 0x2B, 0xFB, 0xFF, 0xFF, 0xFF]"
  by (simp add: looping_file_def tzx_magic_def)

lemma looping_block: "tzx_block looping_file 15 (looping_file ! 10) (szadd 10 1) bs = Some (10, bs)"
  by (simp add: looping_file_eq tzx_block_def skip_tzx_block_def skip_bytes_def need_def szadd_def
      le32_def le24_def le16_def)

lemma looping_loop: "length bs < MAX_TAPE_BLOCKS \<Longrightarrow> tzx_loop looping_file 15 10 bs = None"
proof (rule ccontr)
  assume "length bs < MAX_TAPE_BLOCKS" "tzx_loop looping_file 15 10 bs \<noteq> None"
  then obtain r where "tzx_loop looping_file 15 10 bs = Some r" by auto
  moreover have "tzx_loop d sz p bs = Some r \<Longrightarrow> d = looping_file \<Longrightarrow> sz = 15 \<Longrightarrow> p = 10
      \<Longrightarrow> length bs < MAX_TAPE_BLOCKS \<Longrightarrow> False" for d sz p bs r
  proof (induction d sz p bs r rule: tzx_loop.raw_induct [rotated, consumes 1, case_names step])
    case (step loop d sz p bs r)
    have "loop looping_file 15 10 bs = Some r"
      using step(2-6) looping_block [of bs] by (simp add: Let_def szadd_def)
    then show ?case using step(1,6) by blast
  qed
  ultimately show False using \<open>length bs < MAX_TAPE_BLOCKS\<close> by blast
qed

text \<open>C38 (load_can_hang): A 15-byte TZX file whose length field wraps the 32-bit position makes the
block loop run for ever, so load does not return.\<close>

theorem load_can_hang:
  "tape_load t (Some looping_file) True (length looping_file) = None"
proof -
  have "length looping_file = 15" "take 7 looping_file = map (of_nat \<circ> of_char) ''ZXTape!''"
    by (simp_all add: looping_file_eq)
  moreover from this have "tzx_loop looping_file (length looping_file) 10 [] = None"
    using looping_loop [of "[]"] by (simp add: MAX_TAPE_BLOCKS_def)
  ultimately show ?thesis
    by (simp add: tape_load_def Let_def buildBlockList_def TAPE_MAX_BYTES_def del: list.map)
qed

section \<open>The TAP format\<close>

text \<open>A block of a TAP file is its length and its bytes.  Loading finds every block of the file.\<close>

definition tap_entry :: "u8 list \<Rightarrow> u8 list" where
  "tap_entry xs = of_nat (length xs mod 256) # of_nat (length xs div 256) # xs"

definition block_content :: "u8 list \<Rightarrow> tape_block \<Rightarrow> u8 list" where
  "block_content d b =
     (case blk_data b of None \<Rightarrow> [] | Some off \<Rightarrow> take (blk_length b) (drop off d))"

lemma le16_entry:
  assumes "length xs < 2 ^ 16"
  shows "le16 (pre @ tap_entry xs @ rest) (length pre) = length xs"
proof -
  have "length xs div 256 < 256" using assms by simp
  then have "unat (of_nat (length xs mod 256) :: u8) = length xs mod 256"
    "unat (of_nat (length xs div 256) :: u8) = length xs div 256"
    by (simp_all add: unsigned_of_nat take_bit_nat_eq_self)
  then show ?thesis by (simp add: le16_def tap_entry_def nth_append)
qed

lemma tap_loop_entries:
  assumes "\<forall>xs\<in>set xss. 2 \<le> length xs \<and> length xs < 2 ^ 16"
    and "length bs + length xss \<le> MAX_TAPE_BLOCKS"
    and "d = pre @ concat (map tap_entry xss)"
  shows "map (block_content d) (tap_loop d (length d) (length pre) bs) = map (block_content d) bs @ xss"
  using assms
proof (induction xss arbitrary: pre bs)
  case Nil
  then show ?case by (subst tap_loop.simps) simp
next
  case (Cons xs xss)
  let ?rest = "concat (map tap_entry xss)"
  let ?bs = "add_rom_block bs d (length pre + 2) (length xs) 1000"
  have d: "d = pre @ tap_entry xs @ ?rest" using Cons.prems(3) by simp
  have l: "le16 d (length pre) = length xs" using Cons.prems(1) unfolding d by (intro le16_entry) simp
  have len: "length (tap_entry xs) = 2 + length xs" by (simp add: tap_entry_def)
  have fits: "length pre + 2 + length xs \<le> length d" by (simp add: d len)
  have add: "?bs = bs @ [last ?bs]" "length ?bs = length bs + 1" "block_content d (last ?bs) = xs"
    using Cons.prems(2)
    by (simp_all add: add_rom_block_def addBlock_def block_content_def d tap_entry_def)
  have "tap_loop d (length d) (length pre) bs = tap_loop d (length d) (length (pre @ tap_entry xs)) ?bs"
    using Cons.prems(1,2) l fits len by (subst tap_loop.simps) (auto simp: Let_def)
  also have "map (block_content d) \<dots> = map (block_content d) ?bs @ xss"
    using Cons.prems d add(2) by (intro Cons.IH) auto
  also have "map (block_content d) ?bs = map (block_content d) bs @ [xs]"
    by (subst add(1)) (simp only: map_append list.map add(3))
  finally show ?case by simp
qed

text \<open>C19 (tap_round_trip): Writing blocks as a TAP image and parsing it gives the same blocks back, up
to 1024 blocks of 2 to 65535 bytes.\<close>

theorem tap_round_trip:
  assumes "\<forall>xs\<in>set xss. 2 \<le> length xs \<and> length xs < 2 ^ 16" "length xss \<le> MAX_TAPE_BLOCKS"
  shows "map (block_content (concat (map tap_entry xss)))
    (tap_loop (concat (map tap_entry xss)) (length (concat (map tap_entry xss))) 0 []) = xss"
  using tap_loop_entries [OF assms(1), of "[]" "concat (map tap_entry xss)" "[]"] assms(2) by simp

theorem tap_round_trip_witness:
  "map (block_content (concat (map tap_entry [[0, 1, 1], [0xFF, 7, 0xF8]])))
    (tap_loop (concat (map tap_entry [[0, 1, 1], [0xFF, 7, 0xF8]]))
      (length (concat (map tap_entry [[0, 1, 1], [0xFF, 7, 0xF8]]))) 0 [])
   = [[0, 1, 1], [0xFF, 7, 0xF8]]"
  by (rule tap_round_trip) (simp_all add: MAX_TAPE_BLOCKS_def)

text \<open>A two-block TAP image, the concrete tape of the witnesses.\<close>

definition sample_tap :: "u8 list" where
  "sample_tap = concat (map tap_entry [[0, 1, 1], [0xFF, 7, 0xF8]])"

text \<open>
  A TZX image with a 32-bit length field, in the set-signal-level block at 10, and a run of FF bytes, in
  the data of the standard block at 16.
\<close>

definition sample_tzx :: "u8 list" where
  "sample_tzx = tzx_magic @ [0x1A, 0x01, 0x14, 0x2B, 0x01, 0x00, 0x00, 0x00, 0x01,
     0x10, 0xE8, 0x03, 0x06, 0x00, 0xFF, 0xFF, 0xFF, 0xFF, 0xFF, 0xFF]"

lemma sample_tzx_eq:
  "sample_tzx = [0x5A, 0x58, 0x54, 0x61, 0x70, 0x65, 0x21, 0x1A, 0x01, 0x14, 0x2B, 0x01, 0x00, 0x00, 0x00, 0x01,
     0x10, 0xE8, 0x03, 0x06, 0x00, 0xFF, 0xFF, 0xFF, 0xFF, 0xFF, 0xFF]"
  by (simp add: sample_tzx_def tzx_magic_def)

lemma sample_tzx_at: "tzx_at sample_tzx p \<Longrightarrow> p = 10 \<or> p = 16 \<or> p = 27"
proof (induction rule: tzx_at.induct)
  case first_block
  show ?case by simp
next
  case (next_block p bs p' bs')
  then show ?case
    by (auto simp: sample_tzx_eq szadd_def tzx_block_def tzx_standard_def skip_tzx_block_def skip_bytes_def need_def
        le32_def le24_def le16_def Let_def)
qed

theorem load_returns_witness:
  "(\<exists>ok t'. tape_load tape_new (Some sample_tzx) True 27 = Some (ok, t')) \<and> tzx_at sample_tzx 16"
proof
  show "tzx_at sample_tzx 16"
    by (rule tzx_at.next_block [OF tzx_at.first_block, of _ "[]" 16 "[]"])
      (simp_all add: sample_tzx_eq szadd_def tzx_block_def skip_tzx_block_def skip_bytes_def need_def
        le32_def le24_def le16_def)
  have "\<not> length_wraps sample_tzx p" if "tzx_at sample_tzx p" for p
    using sample_tzx_at [OF that]
    by (elim disjE) (simp_all add: length_wraps_def sample_tzx_eq le32_def le24_def le16_def)
  then show "\<exists>ok t'. tape_load tape_new (Some sample_tzx) True 27 = Some (ok, t')"
    by (intro load_returns) (simp add: tape_safe_def)
qed

lemma sample_load:
  "\<exists>t'. tape_load tape_new (Some sample_tap) True 10 = Some (True, t')"
  by (simp add: tape_load_def sample_tap_def tap_entry_def TAPE_MAX_BYTES_def buildBlockList_def Let_def)

theorem load_blocks_inside_witness:
  "\<exists>t'. tape_load tape_new (Some sample_tap) True 10 = Some (True, t')
     \<and> blocks_wf (length sample_tap) (blocks t')"
proof -
  obtain t' where t': "tape_load tape_new (Some sample_tap) True 10 = Some (True, t')"
    using sample_load by blast
  then show ?thesis using load_blocks_inside [OF t'] by auto
qed

end
