(* ===== verification/Tape_Wave.thy ===== *)
theory Tape_Wave
  imports Tape_Player Tape_Parse
begin

text \<open>
  What the pulse generator plays: the sequence of pulse lengths of a block, compared with the list
  that the block's fields and data stand for.
\<close>

section \<open>The pulses of a block\<close>

definition bits_in_byte :: "tape_block \<Rightarrow> nat \<Rightarrow> nat" where
  "bits_in_byte b i = (if i = blk_length b - 1 then used_bits b else 8)"

text \<open>Bit k of byte i, the most significant first, and its pulse, which is played twice.\<close>

definition bit_pulse :: "tape \<Rightarrow> tape_block \<Rightarrow> nat \<Rightarrow> nat \<Rightarrow> nat" where
  "bit_pulse t b i k = (if bit (block_byte t b i) (7 - k) then one_len b else zero_len b)"

definition byte_pulses :: "tape \<Rightarrow> tape_block \<Rightarrow> nat \<Rightarrow> nat list" where
  "byte_pulses t b i = concat (map (\<lambda>k. [bit_pulse t b i k, bit_pulse t b i k]) [0..<bits_in_byte b i])"

definition data_pulses :: "tape \<Rightarrow> tape_block \<Rightarrow> nat list" where
  "data_pulses t b = concat (map (byte_pulses t b) [0..<blk_length b])"

definition lead_pulses :: "tape_block \<Rightarrow> nat list" where
  "lead_pulses b =
     (if 0 < pilot_count b then replicate (pilot_count b) (pilot_len b) @ [sync1_len b, sync2_len b] else [])"

definition block_pulses :: "tape \<Rightarrow> tape_block \<Rightarrow> nat list" where
  "block_pulses t b = lead_pulses b @ data_pulses t b @ [pause_tstates b]"

text \<open>One whole pulse, and the lengths of the first n.\<close>

definition next_pulse :: "tape \<Rightarrow> tape" where
  "next_pulse t = snd (pulse_end (toggle t))"

fun wave :: "nat \<Rightarrow> tape \<Rightarrow> nat list" where
  "wave 0 t = []"
| "wave (Suc n) t = pulse_len t # wave n (next_pulse t)"

fun pulses :: "nat \<Rightarrow> tape \<Rightarrow> tape" where
  "pulses 0 t = t"
| "pulses (Suc n) t = pulses n (next_pulse t)"

lemma wave_append: "wave (m + n) t = wave m t @ wave n (pulses m t)"
  by (induction m arbitrary: t) auto

lemma pulses_add: "pulses (m + n) t = pulses n (pulses m t)"
  by (induction m arbitrary: t) auto

text \<open>
  \<open>plays t ps t'\<close>: from t the generator plays the pulses ps, without stopping before their end, and
  then is in t'.
\<close>

fun plays :: "tape \<Rightarrow> nat list \<Rightarrow> tape \<Rightarrow> bool" where
  "plays t [] t' \<longleftrightarrow> t = t'"
| "plays t (p # ps) t' \<longleftrightarrow> playing t \<and> pulse_len t = p \<and> plays (next_pulse t) ps t'"

lemma plays_trans: "plays t ps u \<Longrightarrow> plays u qs v \<Longrightarrow> plays t (ps @ qs) v"
  by (induction t ps u rule: plays.induct) auto

lemma plays_wave: "plays t ps t' \<Longrightarrow> wave (length ps) t = ps \<and> pulses (length ps) t = t'"
  by (induction t ps t' rule: plays.induct) auto

section \<open>Single steps\<close>

lemma next_pulse_again:
  "2 \<le> pulses_left t \<Longrightarrow> next_pulse t = (toggle t)\<lparr>pulses_left := pulses_left t - 1\<rparr>"
  by (simp add: next_pulse_def pulse_end_def)

lemma next_pulse_state:
  assumes "pulses_left t \<le> 1" "0 < pulse_len (nextState ((toggle t)\<lparr>pulses_left := 0\<rparr>))"
  shows "next_pulse t = nextState ((toggle t)\<lparr>pulses_left := 0\<rparr>)"
proof -
  have "(if 0 < pulses_left (toggle t) then (toggle t)\<lparr>pulses_left := pulses_left (toggle t) - 1\<rparr> else toggle t)
      = (toggle t)\<lparr>pulses_left := 0\<rparr>"
    using assms(1) by (cases t) (auto simp: toggle_def)
  then show ?thesis
    using assms(2) by (simp add: next_pulse_def pulse_end_def Let_def)
qed

lemma bit_test:
  fixes v :: u8
  assumes "k < 8"
  shows "v AND drop_bit k 0x80 \<noteq> 0 \<longleftrightarrow> bit v (7 - k)"
proof -
  have "drop_bit k (0x80 :: u8) = 2 ^ (7 - k)"
    using assms
    by (intro bit_word_eqI) (simp only: bit_drop_bit_eq o_apply bit_0x80_iff bit_exp_iff possible_bit_word, auto)
  then show ?thesis by (simp add: and_exp_eq_0_iff_not_bit)
qed

section \<open>States along a block\<close>

text \<open>What stays the same while a block plays, and the position in it.\<close>

definition core :: "tape \<Rightarrow> (u8 list option \<times> nat \<times> bool \<times> tape_mode \<times> tape_block list \<times> bool) \<times> nat \<times> bool" where
  "core t = (fixed_part t, block_idx t, playing t)"

definition at :: "play_state \<Rightarrow> nat \<Rightarrow> nat \<Rightarrow> tape \<Rightarrow> bool" where
  "at q l p t \<longleftrightarrow> pstate t = q \<and> pulses_left t = l \<and> pulse_len t = p"

definition at_bit :: "nat \<Rightarrow> nat \<Rightarrow> tape \<Rightarrow> bool" where
  "at_bit i k t \<longleftrightarrow> at DATA 2 (bit_pulse t (cur_block t) i k) t \<and> data_byte_idx t = i \<and> data_bit_idx t = k"

definition at_pause :: "tape \<Rightarrow> bool" where
  "at_pause t \<longleftrightarrow> at PAUSE 1 (pause_tstates (cur_block t)) t"

text \<open>The generator plays \<open>ps\<close> and arrives in a state of the same block with the property P.\<close>

definition leads :: "tape \<Rightarrow> nat list \<Rightarrow> (tape \<Rightarrow> bool) \<Rightarrow> bool" where
  "leads t ps P \<longleftrightarrow> (\<exists>t'. plays t ps t' \<and> core t' = core t \<and> P t')"

lemma leads_Nil: "P t \<Longrightarrow> leads t [] P"
  by (auto simp: leads_def)

lemma leads_trans:
  assumes "leads t ps P" "\<And>u. core u = core t \<Longrightarrow> P u \<Longrightarrow> leads u qs Q"
  shows "leads t (ps @ qs) Q"
proof -
  obtain u where u: "plays t ps u" "core u = core t" "P u" using assms(1) by (auto simp: leads_def)
  then obtain v where "plays u qs v" "core v = core u" "Q v" using assms(2) by (auto simp: leads_def)
  then show ?thesis using u by (auto simp: leads_def intro: plays_trans)
qed

lemma leads_one:
  "playing t \<Longrightarrow> pulse_len t = p \<Longrightarrow> core (next_pulse t) = core t \<Longrightarrow> P (next_pulse t) \<Longrightarrow> leads t [p] P"
  unfolding leads_def by (intro exI [of _ "next_pulse t"]) simp

lemma leads_cons:
  assumes "playing t" "pulse_len t = p" "core (next_pulse t) = core t" "leads (next_pulse t) ps P"
  shows "leads t (p # ps) P"
proof -
  obtain u where "plays (next_pulse t) ps u" "core u = core (next_pulse t)" "P u"
    using assms(4) by (auto simp: leads_def)
  then show ?thesis using assms(1-3) unfolding leads_def by (intro exI [of _ u]) simp
qed

lemma core_fields:
  assumes "core t' = core t"
  shows "cur_block t' = cur_block t" "block_idx t' = block_idx t" "num_blocks t' = num_blocks t"
    "block_byte t' = block_byte t" "bit_pulse t' = bit_pulse t" "byte_pulses t' = byte_pulses t"
    "playing t' = playing t" "tp_data t' = tp_data t" "blocks t' = blocks t"
proof -
  have f: "tp_data t' = tp_data t" "blocks t' = blocks t" "block_idx t' = block_idx t" "playing t' = playing t"
    using assms by (simp_all add: core_def fixed_part_def)
  show "cur_block t' = cur_block t" "block_idx t' = block_idx t" "num_blocks t' = num_blocks t"
    "playing t' = playing t" "tp_data t' = tp_data t" "blocks t' = blocks t"
    using f by (simp_all add: cur_block_def num_blocks_def)
  show b: "block_byte t' = block_byte t" using f by (intro ext) (simp add: block_byte_def)
  then show p: "bit_pulse t' = bit_pulse t" by (intro ext) (simp add: bit_pulse_def)
  then show "byte_pulses t' = byte_pulses t" by (intro ext) (simp add: byte_pulses_def)
qed

text \<open>
  The block being played: well formed, every pulse at least one T-state long, and read from an image
  of the size a tape can have.
\<close>

definition playable :: "nat \<Rightarrow> tape_block \<Rightarrow> bool" where
  "playable sz b \<longleftrightarrow> block_wf sz b \<and> sz \<le> 2 ^ 20 \<and> 0 < pause_tstates b
     \<and> (0 < pilot_count b \<longrightarrow> 0 < pilot_len b \<and> 0 < sync1_len b \<and> 0 < sync2_len b)"

definition in_block :: "nat \<Rightarrow> tape \<Rightarrow> bool" where
  "in_block sz t \<longleftrightarrow> playing t \<and> block_idx t < num_blocks t \<and> playable sz (cur_block t)"

lemma in_block_core:
  assumes "core t' = core t"
  shows "in_block sz t' = in_block sz t"
  using core_fields [OF assms] by (simp add: in_block_def)

lemma playable_bounds:
  assumes "playable sz b"
  shows "u32_of (pilot_len b) = pilot_len b" "u32_of (pilot_count b) = pilot_count b"
    "u32_of (sync1_len b) = sync1_len b" "u32_of (sync2_len b) = sync2_len b"
    "u32_of (zero_len b) = zero_len b" "u32_of (one_len b) = one_len b"
    "u32_of (pause_tstates b) = pause_tstates b" "1 \<le> used_bits b" "used_bits b \<le> 8"
    "blk_length b \<le> 2 ^ 20" "0 < pause_tstates b"
    "0 < blk_length b \<Longrightarrow> 0 < bit_pulse t b i k \<and> u32_of (bit_pulse t b i k) = bit_pulse t b i k"
  using assms
  by (auto simp: playable_def block_wf_def u32_of_small bit_pulse_def split: option.splits)

text \<open>The state after the last toggle of a pulse that is not repeated.\<close>

definition ended :: "tape \<Rightarrow> tape" where
  "ended t = (toggle t)\<lparr>pulses_left := 0\<rparr>"

lemma ended_fields [simp]:
  "pstate (ended t) = pstate t" "block_idx (ended t) = block_idx t" "data_byte_idx (ended t) = data_byte_idx t"
  "data_bit_idx (ended t) = data_bit_idx t" "core (ended t) = core t" "blocks (ended t) = blocks t"
  "tp_data (ended t) = tp_data t" "cur_block (ended t) = cur_block t" "num_blocks (ended t) = num_blocks t"
  by (simp_all add: ended_def core_def cur_block_def num_blocks_def frame)

lemma next_pulse_ended:
  "pulses_left t = 1 \<Longrightarrow> 0 < pulse_len (nextState (ended t)) \<Longrightarrow> next_pulse t = nextState (ended t)"
  unfolding ended_def by (rule next_pulse_state) simp_all

lemma core_upd [simp]:
  "core (pstate_update f t) = core t" "core (pulses_left_update g t) = core t" "core (pulse_len_update g t) = core t"
  "core (data_byte_idx_update g t) = core t" "core (data_bit_idx_update g t) = core t"
  by (simp_all add: core_def frame)

lemma block_upd [simp]:
  "cur_block (pstate_update f t) = cur_block t" "cur_block (pulses_left_update g t) = cur_block t"
  "cur_block (pulse_len_update g t) = cur_block t" "cur_block (data_byte_idx_update g t) = cur_block t"
  "cur_block (data_bit_idx_update g t) = cur_block t" "cur_block (toggle t) = cur_block t"
  "num_blocks (pstate_update f t) = num_blocks t" "num_blocks (pulses_left_update g t) = num_blocks t"
  "num_blocks (pulse_len_update g t) = num_blocks t" "num_blocks (block_idx_update g t) = num_blocks t"
  by (simp_all add: cur_block_def num_blocks_def)

lemma core_toggle [simp]: "core (toggle t) = core t"
  by (simp add: core_def)

lemma leads_next:
  assumes "playing t" "pulses_left t = 1" "pulse_len t = p"
    and "0 < pulse_len (nextState (ended t))" "core (nextState (ended t)) = core t" "P (nextState (ended t))"
  shows "leads t [p] P"
  using assms next_pulse_ended [OF assms(2,4)] by (intro leads_one) simp_all

lemma nextState_in_block:
  "in_block sz t \<Longrightarrow> nextState (ended t) =
     (case pstate t of
        IDLE \<Rightarrow> start_block (ended t)
      | PILOT \<Rightarrow> (ended t)\<lparr>pstate := SYNC1, pulses_left := 1, pulse_len := sync1_len (cur_block t)\<rparr>
      | SYNC1 \<Rightarrow> (ended t)\<lparr>pstate := SYNC2, pulses_left := 1, pulse_len := sync2_len (cur_block t)\<rparr>
      | SYNC2 \<Rightarrow> startDataState (ended t)
      | DATA \<Rightarrow> (let u = (ended t)\<lparr>data_bit_idx := (data_bit_idx t + 1) mod 256\<rparr>
                 in if fst (advanceBit u) then snd (advanceBit u) else enter_pause (snd (advanceBit u)))
      | PAUSE \<Rightarrow> (let u = (ended t)\<lparr>block_idx := block_idx t + 1, pstate := IDLE, pulses_left := 0, pulse_len := 1\<rparr>
                  in if block_idx t + 1 < num_blocks t then start_block u else tape_stop u))"
  using playable_bounds [of sz "cur_block t"]
  by (simp add: nextState_def in_block_def Let_def case_prod_beta num_blocks_def split: play_state.split)

text \<open>The lead-in: the pilot tone and the two sync pulses.\<close>

lemma sync_steps:
  assumes "in_block sz t" "0 < pilot_count (cur_block t)" "at SYNC1 1 (sync1_len (cur_block t)) t"
  shows "leads t [sync1_len (cur_block t)] (\<lambda>u. at SYNC2 1 (sync2_len (cur_block u)) u)"
  using assms
  by (intro leads_next) (simp_all add: nextState_in_block at_def, auto simp: in_block_def playable_def cur_block_def)

lemma pilot_steps:
  assumes "in_block sz t" "0 < pilot_count (cur_block t)" "at PILOT (Suc n) (pilot_len (cur_block t)) t"
  shows "leads t (replicate (Suc n) (pilot_len (cur_block t))) (\<lambda>u. at SYNC1 1 (sync1_len (cur_block u)) u)"
  using assms
proof (induction n arbitrary: t)
  case 0
  then have "leads t [pilot_len (cur_block t)] (\<lambda>u. at SYNC1 1 (sync1_len (cur_block u)) u)"
    by (intro leads_next) (simp_all add: nextState_in_block at_def, auto simp: in_block_def playable_def cur_block_def)
  then show ?case by simp
next
  case (Suc n)
  let ?u = "next_pulse t"
  have u: "?u = (toggle t)\<lparr>pulses_left := Suc n\<rparr>"
    using Suc.prems(3) by (subst next_pulse_again) (simp_all add: at_def)
  then have c: "core ?u = core t" by simp
  note cf = core_fields [OF c]
  have "leads ?u (replicate (Suc n) (pilot_len (cur_block ?u))) (\<lambda>u. at SYNC1 1 (sync1_len (cur_block u)) u)"
    using Suc.prems u in_block_core [OF c, of sz] by (intro Suc.IH) (simp_all add: cf at_def)
  then show ?case
    using Suc.prems(1,3) c unfolding replicate_Suc [of "Suc n"] in_block_def
    by (intro leads_cons) (simp_all add: cf at_def del: replicate.simps)
qed

section \<open>The data\<close>

text \<open>\<open>advanceBit\<close> at bit k of byte i: the bit itself, the first bit of the next byte, or the end.\<close>

lemma advanceBit_bit:
  assumes "data_byte_idx t < blk_length (cur_block t)" "playable sz (cur_block t)"
    and "data_bit_idx t < bits_in_byte (cur_block t) (data_byte_idx t)"
  shows "advanceBit t = (True, t\<lparr>pulses_left := 2,
    pulse_len := bit_pulse t (cur_block t) (data_byte_idx t) (data_bit_idx t)\<rparr>)"
proof -
  note b = playable_bounds [OF assms(2)]
  have "data_bit_idx t < 8" using assms(3) b(8,9) by (auto simp: bits_in_byte_def split: if_splits)
  note test = bit_test [OF this]
  show ?thesis
    using assms(1,3) unfolding advanceBit_def Let_def bits_in_byte_def bit_pulse_def
    by (simp add: test b not_le [symmetric])
qed

lemma advanceBit_next:
  assumes "data_byte_idx t < blk_length (cur_block t)" "playable sz (cur_block t)"
    and "bits_in_byte (cur_block t) (data_byte_idx t) \<le> data_bit_idx t"
  shows "advanceBit t =
    (if data_byte_idx t + 1 < blk_length (cur_block t)
     then (True, t\<lparr>data_byte_idx := data_byte_idx t + 1, data_bit_idx := 0, pulses_left := 2,
            pulse_len := bit_pulse t (cur_block t) (data_byte_idx t + 1) 0\<rparr>)
     else (False, t\<lparr>data_byte_idx := data_byte_idx t + 1, data_bit_idx := 0\<rparr>))"
proof -
  note b = playable_bounds [OF assms(2)]
  have i: "u32_of (data_byte_idx t + 1) = data_byte_idx t + 1"
    using assms(1) b(10) by (intro u32_of_small) simp
  have byte: "block_byte (t\<lparr>data_byte_idx := x, data_bit_idx := y\<rparr>) = block_byte t" for x y
    by (intro ext) (simp add: block_byte_def)
  show ?thesis
    using assms(1,3) i bit_test [of 0] unfolding advanceBit_def Let_def bits_in_byte_def bit_pulse_def
    by (simp add: byte b not_le [symmetric] del: One_nat_def)
qed

lemma at_bit_ended:
  assumes "in_block sz t" "at_bit i k t" "i < blk_length (cur_block t)" "k < bits_in_byte (cur_block t) i"
  defines "u \<equiv> (ended (next_pulse t))\<lparr>data_bit_idx := k + 1\<rparr>"
  shows "core u = core t" "data_byte_idx u = i" "data_bit_idx u = k + 1" "pulse_len (next_pulse t) = pulse_len t"
    "pulses_left (next_pulse t) = 1" "core (next_pulse t) = core t" "cur_block u = cur_block t"
    "nextState (ended (next_pulse t)) =
      (if fst (advanceBit u) then snd (advanceBit u) else enter_pause (snd (advanceBit u)))"
proof -
  let ?n = "next_pulse t"
  have b: "playable sz (cur_block t)" using assms(1) by (simp add: in_block_def)
  have k: "k < 8" using assms(4) playable_bounds(8,9) [OF b] by (auto simp: bits_in_byte_def split: if_splits)
  have n: "?n = (toggle t)\<lparr>pulses_left := 1\<rparr>"
    using assms(2) by (subst next_pulse_again) (simp_all add: at_bit_def at_def)
  show c: "core ?n = core t" by (simp add: n)
  show "core u = core t" "data_byte_idx u = i" "data_bit_idx u = k + 1" "pulse_len ?n = pulse_len t" "pulses_left ?n = 1"
    "cur_block u = cur_block t"
    using assms(2) by (simp_all add: u_def n at_bit_def at_def)
  have "data_bit_idx ?n = k" "pstate ?n = DATA" using assms(2) by (simp_all add: n at_bit_def at_def)
  then show "nextState (ended ?n) = (if fst (advanceBit u) then snd (advanceBit u) else enter_pause (snd (advanceBit u)))"
    using assms(1) in_block_core [OF c, of sz] k by (simp add: nextState_in_block u_def Let_def)
qed

lemma enter_pause_simps:
  "playable sz (cur_block t) \<Longrightarrow> at_pause (enter_pause t)" "core (enter_pause t) = core t"
  "playable sz (cur_block t) \<Longrightarrow> 0 < pulse_len (enter_pause t)"
  by (simp_all add: at_pause_def at_def enter_pause_def playable_bounds)

lemma bit_pulse_core: "core t' = core t \<Longrightarrow> bit_pulse t' = bit_pulse t"
  by (rule core_fields)

text \<open>Both pulses of a bit, then the next bit of the byte, the next byte or the pause.\<close>

lemma bit_steps:
  assumes "in_block sz t" "at_bit i k t" "i < blk_length (cur_block t)" "k < bits_in_byte (cur_block t) i"
  shows "leads t [bit_pulse t (cur_block t) i k, bit_pulse t (cur_block t) i k]
    (\<lambda>u. if k + 1 < bits_in_byte (cur_block t) i then at_bit i (k + 1) u
         else if i + 1 < blk_length (cur_block t) then at_bit (i + 1) 0 u else at_pause u)"
proof -
  let ?n = "next_pulse t" and ?b = "cur_block t"
  define u where "u = (ended ?n)\<lparr>data_bit_idx := k + 1\<rparr>"
  note e = at_bit_ended [OF assms, folded u_def]
  have b: "playable sz ?b" using assms(1) by (simp add: in_block_def)
  have pl: "playing ?n" using assms(1) core_fields(7) [OF e(6)] by (simp add: in_block_def)
  have pos: "0 < bit_pulse t ?b i' k'" for i' k' using playable_bounds(12) [OF b] assms(3) by auto
  have p: "pulse_len t = bit_pulse t ?b i k" using assms(2) by (simp add: at_bit_def at_def)
  have bp: "bit_pulse u = bit_pulse t" using e(1) by (rule bit_pulse_core)
  have u: "data_byte_idx u < blk_length (cur_block u)" "playable sz (cur_block u)" "pstate u = DATA"
    using assms(2,3) b e by (simp_all add: u_def next_pulse_again at_bit_def at_def)
  have cp: "bit_pulse x = bit_pulse t \<and> cur_block x = ?b" if "core x = core t" for x
    using core_fields [OF that] by simp
  have "leads ?n [bit_pulse t ?b i k]
    (\<lambda>u. if k + 1 < bits_in_byte ?b i then at_bit i (k + 1) u
         else if i + 1 < blk_length ?b then at_bit (i + 1) 0 u else at_pause u)"
  proof (cases "k + 1 < bits_in_byte ?b i")
    case True
    let ?v = "u\<lparr>pulses_left := 2, pulse_len := bit_pulse t ?b i (k + 1)\<rparr>"
    have "nextState (ended ?n) = ?v"
      using advanceBit_bit [OF u(1,2)] True e bp by simp
    moreover have "at_bit i (k + 1) ?v" using u(3) e cp [of ?v] by (simp add: at_bit_def at_def)
    ultimately show ?thesis
      using True e p pos pl by (intro leads_next) simp_all
  next
    case last: False
    note adv = advanceBit_next [OF u(1,2), unfolded e bp]
    show ?thesis
    proof (cases "i + 1 < blk_length ?b")
      case True
      let ?v = "u\<lparr>data_byte_idx := i + 1, data_bit_idx := 0, pulses_left := 2, pulse_len := bit_pulse t ?b (i + 1) 0\<rparr>"
      have "nextState (ended ?n) = ?v" using adv last True e by simp
      moreover have "at_bit (i + 1) 0 ?v" using u(3) e cp [of ?v] by (simp add: at_bit_def at_def)
      ultimately show ?thesis
        using last True e p pos pl by (intro leads_next) simp_all
    next
      case False
      let ?v = "enter_pause (u\<lparr>data_byte_idx := i + 1, data_bit_idx := 0\<rparr>)"
      have "nextState (ended ?n) = ?v" using adv last False e by simp
      moreover have "at_pause ?v" "0 < pulse_len ?v" "core ?v = core t" 
        using u e enter_pause_simps(1,3) [of sz "u\<lparr>data_byte_idx := i + 1, data_bit_idx := 0\<rparr>"]
        by (simp_all add: enter_pause_simps(2))
      ultimately show ?thesis
        using last False e p pl by (intro leads_next) simp_all
    qed
  qed
  then show ?thesis using assms(1) by (intro leads_cons [OF _ p e(6)]) (simp_all add: in_block_def)
qed

lemma byte_steps:
  assumes "in_block sz t" "at_bit i k t" "i < blk_length (cur_block t)" "k < bits_in_byte (cur_block t) i"
  shows "leads t (concat (map (\<lambda>k. [bit_pulse t (cur_block t) i k, bit_pulse t (cur_block t) i k])
      [k..<bits_in_byte (cur_block t) i]))
    (\<lambda>u. if i + 1 < blk_length (cur_block t) then at_bit (i + 1) 0 u else at_pause u)"
  using assms
proof (induction "bits_in_byte (cur_block t) i - k" arbitrary: t k rule: less_induct)
  case less
  let ?b = "cur_block t"
  let ?pp = "\<lambda>k. [bit_pulse t ?b i k, bit_pulse t ?b i k]"
  note step = bit_steps [OF less.prems]
  have split: "[k..<bits_in_byte ?b i] = k # [k + 1..<bits_in_byte ?b i]"
    using less.prems(4) by (simp add: upt_conv_Cons)
  show ?case
  proof (cases "k + 1 < bits_in_byte ?b i")
    case False
    then show ?thesis using step split by simp
  next
    case True
    have "leads t (?pp k @ concat (map ?pp [k + 1..<bits_in_byte ?b i]))
      (\<lambda>u. if i + 1 < blk_length ?b then at_bit (i + 1) 0 u else at_pause u)"
    proof (rule leads_trans)
      show "leads t (?pp k) (at_bit i (k + 1))" using step True by simp
    next
      fix u
      assume u: "core u = core t" "at_bit i (k + 1) u"
      note cf = core_fields [OF u(1)]
      show "leads u (concat (map ?pp [k + 1..<bits_in_byte ?b i]))
        (\<lambda>u. if i + 1 < blk_length ?b then at_bit (i + 1) 0 u else at_pause u)"
        using less.hyps [of u "k + 1"] less.prems True u in_block_core [OF u(1), of sz] by (simp add: cf)
    qed
    then show ?thesis using split by simp
  qed
qed

lemma data_steps:
  assumes "in_block sz t" "at_bit i 0 t" "i < blk_length (cur_block t)"
  shows "leads t (concat (map (byte_pulses t (cur_block t)) [i..<blk_length (cur_block t)])) at_pause"
  using assms
proof (induction "blk_length (cur_block t) - i" arbitrary: t i rule: less_induct)
  case less
  let ?b = "cur_block t"
  have "0 < bits_in_byte ?b i"
    using less.prems(1) playable_bounds(8) [of sz ?b] by (auto simp: bits_in_byte_def in_block_def)
  then have step: "leads t (byte_pulses t ?b i) (\<lambda>u. if i + 1 < blk_length ?b then at_bit (i + 1) 0 u else at_pause u)"
    using byte_steps [OF less.prems(1,2,3)] by (simp add: byte_pulses_def)
  have split: "[i..<blk_length ?b] = i # [i + 1..<blk_length ?b]"
    using less.prems(3) by (simp add: upt_conv_Cons)
  show ?case
  proof (cases "i + 1 < blk_length ?b")
    case False
    then show ?thesis using step split by simp
  next
    case True
    have "leads t (byte_pulses t ?b i @ concat (map (byte_pulses t ?b) [i + 1..<blk_length ?b])) at_pause"
    proof (rule leads_trans)
      show "leads t (byte_pulses t ?b i) (at_bit (i + 1) 0)" using step True by simp
    next
      fix u
      assume u: "core u = core t" "at_bit (i + 1) 0 u"
      note cf = core_fields [OF u(1)]
      show "leads u (concat (map (byte_pulses t ?b) [i + 1..<blk_length ?b])) at_pause"
        using less.hyps [of u "i + 1"] less.prems True u in_block_core [OF u(1), of sz] by (simp add: cf)
    qed
    then show ?thesis using split by simp
  qed
qed

text \<open>Entering the data of a block, which may be empty.\<close>

lemma startDataState_at:
  assumes "playable sz (cur_block t)"
  shows "core (startDataState t) = core t" "0 < pulse_len (startDataState t)"
    "if 0 < blk_length (cur_block t) then at_bit 0 0 (startDataState t) else at_pause (startDataState t)"
proof -
  let ?b = "cur_block t" and ?u = "t\<lparr>pstate := DATA, data_byte_idx := 0, data_bit_idx := 0\<rparr>"
  have cu: "cur_block ?u = ?b" "core ?u = core t" by simp_all
  have ok: "core (startDataState t) = core t \<and> 0 < pulse_len (startDataState t)
    \<and> (if 0 < blk_length ?b then at_bit 0 0 (startDataState t) else at_pause (startDataState t))"
  proof (cases "0 < blk_length ?b")
    case True
    let ?v = "?u\<lparr>pulses_left := 2, pulse_len := bit_pulse ?u ?b 0 0\<rparr>"
    have "0 < bits_in_byte ?b 0" using playable_bounds(8) [OF assms] by (simp add: bits_in_byte_def)
    then have s: "startDataState t = ?v"
      using True advanceBit_bit [of ?u sz] assms by (simp add: startDataState_def Let_def)
    have "bit_pulse ?v = bit_pulse ?u" by (rule bit_pulse_core) simp
    then show ?thesis
      unfolding s using True playable_bounds(12) [OF assms True, of ?u] by (simp add: at_bit_def at_def)
  next
    case False
    then have s: "startDataState t = enter_pause ?u"
      by (simp add: startDataState_def advanceBit_def Let_def)
    show ?thesis
      unfolding s using False assms enter_pause_simps(1,3) [of sz ?u] by (simp add: enter_pause_simps(2))
  qed
  then show "core (startDataState t) = core t" "0 < pulse_len (startDataState t)"
    "if 0 < blk_length ?b then at_bit 0 0 (startDataState t) else at_pause (startDataState t)" by blast+
qed

lemma data_start_steps:
  assumes "in_block sz t" "if 0 < blk_length (cur_block t) then at_bit 0 0 t else at_pause t"
  shows "leads t (data_pulses t (cur_block t)) at_pause"
proof (cases "0 < blk_length (cur_block t)")
  case True
  then show ?thesis using data_steps [OF assms(1), of 0] assms(2) by (simp add: data_pulses_def)
next
  case False
  then show ?thesis using assms(2) by (simp add: data_pulses_def leads_Nil)
qed

section \<open>Blocks and tapes\<close>

lemma start_block_pos:
  assumes "playable sz (cur_block t)"
  shows "0 < pulse_len (start_block t)" "core (start_block t) = core t"
  using startDataState_at [OF assms] playable_bounds(1) [OF assms] assms
  by (simp_all add: start_block_def Let_def playable_def)

lemma lead_data_steps:
  assumes "in_block sz t"
  shows "leads (start_block t) (lead_pulses (cur_block t) @ data_pulses t (cur_block t)) at_pause"
proof -
  let ?b = "cur_block t" and ?u = "start_block t"
  have b: "playable sz ?b" using assms by (simp add: in_block_def)
  have c: "core ?u = core t" by (rule start_block_pos) (rule b)
  have in_b: "in_block sz x" and cf: "cur_block x = ?b" "data_pulses x = data_pulses t" if "core x = core t" for x
    using in_block_core [OF that, of sz] core_fields [OF that] assms by (auto simp: data_pulses_def)
  show ?thesis
  proof (cases "0 < pilot_count ?b")
    case False
    then have "?u = startDataState t" by (simp add: start_block_def Let_def)
    then show ?thesis
      using data_start_steps [OF in_b [OF c]] startDataState_at [OF b] False cf [OF c]
      by (simp add: lead_pulses_def)
  next
    case True
    then obtain n where n: "pilot_count ?b = Suc n" by (cases "pilot_count ?b") auto
    have "at PILOT (Suc n) (pilot_len (cur_block ?u)) ?u"
      using True n b cf [OF c] playable_bounds(2) [OF b]
      by (simp add: start_block_def Let_def at_def playable_bounds(1))
    then have pilot: "leads ?u (replicate (pilot_count ?b) (pilot_len ?b)) (\<lambda>u. at SYNC1 1 (sync1_len (cur_block u)) u)"
      using pilot_steps [OF in_b [OF c], of n] True n cf [OF c] by simp
    have sync: "leads x [sync1_len ?b] (\<lambda>u. at SYNC2 1 (sync2_len (cur_block u)) u)"
      if "core x = core t" "at SYNC1 1 (sync1_len (cur_block x)) x" for x
      using sync_steps [OF in_b [OF that(1)]] that True cf [OF that(1)] by simp
    have data: "leads x ([sync2_len ?b] @ data_pulses t ?b) at_pause"
      if x: "core x = core t" "at SYNC2 1 (sync2_len (cur_block x)) x" for x
    proof (rule leads_trans)
      let ?s = "startDataState (ended x)"
      have e: "core (ended x) = core t" using x by simp
      have "playable sz (cur_block (ended x))" using b cf(1) [OF e] by simp
      note s = startDataState_at [OF this]
      have "nextState (ended x) = ?s"
        using nextState_in_block [OF in_b [OF x(1)]] x(2) by (simp add: at_def)
      then show "leads x [sync2_len ?b]
          (\<lambda>y. if 0 < blk_length (cur_block y) then at_bit 0 0 y else at_pause y)"
        using x s cf(1) [OF x(1)] core_fields(1) [OF s(1)] in_b [OF x(1)]
        by (intro leads_next) (simp_all add: at_def in_block_def)
    next
      fix y
      assume y: "core y = core x" "if 0 < blk_length (cur_block y) then at_bit 0 0 y else at_pause y"
      then have c: "core y = core t" using x by simp
      show "leads y (data_pulses t ?b) at_pause"
        using data_start_steps [OF in_b [OF c] y(2)] unfolding cf [OF c] .
    qed
    have rest: "leads x ([sync1_len ?b] @ [sync2_len ?b] @ data_pulses t ?b) at_pause"
      if x: "core x = core t" "at SYNC1 1 (sync1_len (cur_block x)) x" for x
      by (rule leads_trans [OF sync [OF x]], rule data) (simp_all only: x(1))
    have "leads ?u (replicate (pilot_count ?b) (pilot_len ?b) @ [sync1_len ?b] @ [sync2_len ?b] @ data_pulses t ?b) at_pause"
      by (rule leads_trans [OF pilot], rule rest) (simp_all only: c)
    then show ?thesis using True by (simp add: lead_pulses_def)
  qed
qed

text \<open>The pause pulse of a block ends in the start of the next one, or the player stops.\<close>

lemma pause_step:
  assumes "in_block sz t" "at_pause t"
    and "block_idx t + 1 < num_blocks t \<Longrightarrow> playable sz (blocks t ! (block_idx t + 1))"
  shows "\<exists>u. next_pulse t = (if block_idx t + 1 < num_blocks t then start_block u else tape_stop u)
    \<and> fixed_part u = fixed_part t \<and> block_idx u = block_idx t + 1 \<and> playing u"
proof -
  let ?u = "(ended t)\<lparr>block_idx := block_idx t + 1, pstate := IDLE, pulses_left := 0, pulse_len := 1\<rparr>"
  have core: "core (ended t) = core t" by simp
  then have f: "fixed_part ?u = fixed_part t" "playing ?u = playing t" unfolding core_def by (simp_all add: frame)
  have n: "nextState (ended t) = (if block_idx t + 1 < num_blocks t then start_block ?u else tape_stop ?u)"
    using nextState_in_block [OF assms(1)] assms(2) by (simp add: at_pause_def at_def Let_def)
  have "cur_block ?u = blocks t ! (block_idx t + 1)" by (simp add: cur_block_def)
  then have "0 < pulse_len (nextState (ended t))"
    unfolding n using assms(3) start_block_pos(1) [of sz ?u] by simp
  then have "next_pulse t = nextState (ended t)"
    using assms(2) by (intro next_pulse_ended) (simp_all add: at_pause_def at_def)
  with n f assms(1) show ?thesis by (intro exI [of _ ?u]) (simp add: in_block_def)
qed

lemma block_pulses_fixed: "fixed_part t' = fixed_part t \<Longrightarrow> block_pulses t' = block_pulses t"
proof -
  assume "fixed_part t' = fixed_part t"
  then have "block_byte t' = block_byte t" by (intro ext) (simp add: block_byte_def fixed_part_def)
  then have "bit_pulse t' = bit_pulse t" by (intro ext) (simp add: bit_pulse_def)
  then have "byte_pulses t' = byte_pulses t" by (intro ext) (simp add: byte_pulses_def)
  then show ?thesis by (intro ext) (simp add: block_pulses_def data_pulses_def)
qed

lemma tape_steps:
  assumes "playing t" "block_idx t < num_blocks t" "\<forall>b\<in>set (blocks t). playable sz b"
  shows "\<exists>v. plays (start_block t) (concat (map (block_pulses t) (drop (block_idx t) (blocks t)))) (tape_stop v)"
  using assms
proof (induction "num_blocks t - block_idx t" arbitrary: t rule: less_induct)
  case less
  have b: "in_block sz t" using less.prems by (simp add: in_block_def cur_block_def num_blocks_def)
  obtain u where u: "plays (start_block t) (lead_pulses (cur_block t) @ data_pulses t (cur_block t)) u"
    "core u = core (start_block t)" "at_pause u"
    using lead_data_steps [OF b] by (auto simp: leads_def)
  have "core u = core t" using u(2) start_block_pos(2) [of sz t] b by (simp add: in_block_def)
  note cf = core_fields [OF this] and in_b = in_block_core [OF this, of sz]
  have fp: "fixed_part u = fixed_part t" using \<open>core u = core t\<close> by (simp add: core_def)
  have "in_block sz u" using in_b b by simp
  moreover have "playable sz (blocks u ! (block_idx u + 1))" if "block_idx u + 1 < num_blocks u"
    using that less.prems(3) by (simp add: cf num_blocks_def)
  ultimately obtain w where w: "next_pulse u = (if block_idx u + 1 < num_blocks u then start_block w else tape_stop w)"
    "fixed_part w = fixed_part u" "block_idx w = block_idx u + 1" "playing w"
    using pause_step [of sz u] u(3) by blast
  have bw: "blocks w = blocks t" "block_pulses w = block_pulses t"
    using w(2) fp block_pulses_fixed [of w t] by (auto simp: fixed_part_def)
  have drop: "drop (block_idx t) (blocks t) = cur_block t # drop (block_idx t + 1) (blocks t)"
    using less.prems(2) by (simp add: cur_block_def num_blocks_def Cons_nth_drop_Suc)
  have pause: "plays u [pause_tstates (cur_block t)] (next_pulse u)"
    using u(3) cf less.prems(1) by (simp add: at_pause_def at_def)
  have this_block: "plays (start_block t) (block_pulses t (cur_block t)) (next_pulse u)"
    using plays_trans [OF u(1) pause] by (simp add: block_pulses_def)
  show ?case
  proof (cases "block_idx t + 1 < num_blocks t")
    case False
    then have "plays (start_block t) (concat (map (block_pulses t) (drop (block_idx t) (blocks t)))) (tape_stop w)"
      using this_block w cf drop by (simp add: num_blocks_def)
    then show ?thesis by blast
  next
    case True
    have "\<exists>v. plays (start_block w) (concat (map (block_pulses w) (drop (block_idx w) (blocks w)))) (tape_stop v)"
      using less.prems True bw w(3,4) cf by (intro less.hyps) (simp_all add: num_blocks_def)
    then obtain v where "plays (start_block w) (concat (map (block_pulses t) (drop (block_idx t + 1) (blocks t)))) (tape_stop v)"
      using bw w(3) cf by auto
    then show ?thesis
      using plays_trans [OF this_block, of _ "tape_stop v"] w(1) True cf drop by auto
  qed
qed

section \<open>Playing in time\<close>

text \<open>The toggles of a list of pulses: one at the end of each, at the sum of the lengths so far.\<close>

fun toggles :: "nat \<Rightarrow> bool \<Rightarrow> nat list \<Rightarrow> (nat \<times> bool) list" where
  "toggles c e [] = []"
| "toggles c e (p # ps) = (c + p, \<not> e) # toggles (c + p) (\<not> e) ps"

lemma shift_toggles: "shift_events d (toggles c e ps) = toggles (d + c) e ps"
  by (induction ps arbitrary: c e) (simp_all add: add.assoc)

lemma next_pulse_counter: "tstate_counter (next_pulse t) = 0"
  using nextState_moving(1)
  by (auto simp: next_pulse_def pulse_end_def Let_def split: if_splits)

lemma next_pulse_ear: "playing (next_pulse t) \<Longrightarrow> ear (next_pulse t) = (\<not> ear t)"
  unfolding next_pulse_def pulse_end_def Let_def
  by (auto dest: nextState_moving(3) split: if_splits)

lemma plays_Nil_or_playing: "plays t ps t' \<Longrightarrow> ps = [] \<and> t = t' \<or> playing t"
  by (cases ps) auto

lemma adv_plays:
  assumes "plays t ps t'" "in_order t" "tstate_counter t = 0"
  shows "adv t (sum_list ps) = (t', toggles 0 (ear t) ps)"
  using assms
proof (induction ps arbitrary: t)
  case Nil
  then show ?case by (simp add: adv_idle)
next
  case (Cons p ps)
  let ?u = "next_pulse t"
  have r: "remaining t = p" using Cons.prems by (simp add: remaining_in_order)
  have p: "0 < p" using Cons.prems by (auto simp: in_order_def)
  have u: "plays ?u ps t'" "in_order ?u" "tstate_counter ?u = 0" "playing t"
    using Cons.prems in_order_pulse_end [of t] next_pulse_counter by (simp_all add: next_pulse_def)
  show ?case
  proof (cases "fst (pulse_end (toggle t))")
    case True
    then have "ps = [] \<and> ?u = t'"
      using plays_Nil_or_playing [OF u(1)] pulse_end_return [OF True] by (simp add: next_pulse_def)
    then show ?thesis using True r p u by (simp add: adv_return next_pulse_def)
  next
    case False
    have "toggles p (ear ?u) ps = toggles p (\<not> ear t) ps"
      using plays_Nil_or_playing [OF u(1)] next_pulse_ear [of t] by auto
    then show ?thesis
      using False r p u Cons.IH [OF u(1-3)] by (simp add: adv_pulse next_pulse_def shift_toggles)
  qed
qed

lemma start_plays:
  assumes "tp_enabled t" "blocks t \<noteq> []" "pstate t = IDLE" "block_idx t = 0"
    and "\<forall>b\<in>set (blocks t). playable sz b"
  shows "\<exists>v. plays (tape_play t) (concat (map (block_pulses t) (blocks t))) (tape_stop v)"
    and "tape_play t = start_block (t\<lparr>playing := True, paused := False\<rparr>)"
proof -
  let ?t = "t\<lparr>playing := True, paused := False\<rparr>"
  have f: "fixed_part ?t = fixed_part t" by (simp add: parts)
  show p: "tape_play t = start_block ?t"
    using assms by (simp add: tape_play_def nextState_def num_blocks_def Let_def)
  obtain v where "plays (start_block ?t) (concat (map (block_pulses ?t) (drop (block_idx ?t) (blocks ?t)))) (tape_stop v)"
    using tape_steps [of ?t sz] assms by (auto simp: num_blocks_def)
  then show "\<exists>v. plays (tape_play t) (concat (map (block_pulses t) (blocks t))) (tape_stop v)"
    using assms(4) block_pulses_fixed [OF f] by (auto simp: p)
qed

section \<open>Properties\<close>

text \<open>C10 (play_waveform): Playing a tape from its start produces exactly the pulses its blocks
prescribe - pilot, two sync pulses, two pulses a bit from the most significant bit on with the
last byte cut to its used bits, and the pause - and then the player stops. It holds for standard
and turbo blocks whose pause is not zero and whose pilot and sync pulses, where there are any, are
not of zero length, with data inside an image of at most 1 MB, and with the tape player enabled
and idle in front of the first block.\<close>

theorem play_waveform:
  assumes "tp_enabled t" "blocks t \<noteq> []" "pstate t = IDLE" "block_idx t = 0"
    and "\<forall>b\<in>set (blocks t). playable sz b"
  defines "ps \<equiv> concat (map (block_pulses t) (blocks t))"
  shows "wave (length ps) (tape_play t) = ps \<and> \<not> playing (pulses (length ps) (tape_play t))"
proof -
  obtain v where "plays (tape_play t) ps (tape_stop v)"
    using start_plays(1) [OF assms(1-5)] unfolding ps_def ..
  from plays_wave [OF this] show ?thesis by simp
qed

theorem play_time:
  assumes "tp_enabled t" "isLoaded t" "blocks t \<noteq> []" "pstate t = IDLE" "block_idx t = 0"
    and "tstate_counter t = 0" "\<forall>b\<in>set (blocks t). playable sz b"
  defines "ps \<equiv> concat (map (block_pulses t) (blocks t))"
  assumes "sum_list ps < 2 ^ 32"
  shows "snd (tape_advance (tape_play t) (sum_list ps)) = toggles 0 (ear t) ps
    \<and> \<not> playing (fst (tape_advance (tape_play t) (sum_list ps)))"
proof -
  let ?t = "t\<lparr>playing := True, paused := False\<rparr>"
  note start = start_plays [OF assms(1,3,4,5,7)]
  obtain v where v: "plays (tape_play t) ps (tape_stop v)" using start(1) unfolding ps_def ..
  have "in_block sz ?t" using assms by (simp add: in_block_def cur_block_def num_blocks_def)
  then have pos: "0 < pulse_len (tape_play t)"
    unfolding start(2) using start_block_pos(1) [of sz ?t] by (simp add: in_block_def)
  have "moving_part (tape_play t) = moving_part ?t" "fixed_part (tape_play t) = fixed_part ?t"
    unfolding start(2) by (simp_all add: frame)
  then have f: "playing (tape_play t)" "\<not> paused (tape_play t)" "ear (tape_play t) = ear t"
    "tstate_counter (tape_play t) = 0" "tp_data (tape_play t) \<noteq> None"
    using assms(2,6) by (simp_all add: moving_part_def fixed_part_def isLoaded_def)
  have "tape_play t = nextState ?t" using assms by (simp add: tape_play_def num_blocks_def)
  then have o: "in_order (tape_play t)" using pos f nextState_len [of ?t] by (simp add: in_order_def)
  then have "ready (tape_play t)" by (simp add: in_order_def ready_def)
  then have "tape_advance (tape_play t) (sum_list ps) = adv (tape_play t) (sum_list ps)"
    using assms(9) f normal_in_order [OF o] by (auto simp: tape_advance_adv)
  then show ?thesis using adv_plays [OF v o] f by simp
qed

text \<open>
  A data block with no pause after it, which TZX files use between the parts of one recording, ends
  the playback: the pause of zero T-states is taken for the end of the tape and the player rewinds.
\<close>

theorem zero_pause_stops:
  assumes "playing t" "block_idx t < num_blocks t" "pstate t = DATA" "pulses_left t = 1"
    and "data_byte_idx t + 1 = blk_length (cur_block t)" "blk_length (cur_block t) \<le> 2 ^ 20"
    and "data_bit_idx t + 1 = used_bits (cur_block t)" "used_bits (cur_block t) \<le> 8"
    and "pause_tstates (cur_block t) = 0"
  shows "\<not> playing (next_pulse t) \<and> block_idx (next_pulse t) = 0"
proof -
  let ?u = "(ended t)\<lparr>data_bit_idx := data_bit_idx t + 1\<rparr>"
  have "\<not> fst (advanceBit ?u)" "cur_block (snd (advanceBit ?u)) = cur_block t"
    using assms by (auto simp: advanceBit_def Let_def u32_of_small)
  then have n: "nextState (ended t) = enter_pause (snd (advanceBit ?u))"
    and z: "pulse_len (enter_pause (snd (advanceBit ?u))) = 0"
    using assms by (simp_all add: nextState_def Let_def case_prod_beta enter_pause_def u32_of_def)
  have "moving_part (nextState (ended t)) = moving_part (ended t)"
    unfolding n by (simp add: frame)
  then have "playing (nextState (ended t))" using assms(1) by (simp add: moving_part_def ended_def)
  moreover have "ended t = (toggle t)\<lparr>pulses_left := 0\<rparr>" by (simp add: ended_def)
  ultimately show ?thesis
    using assms(4) n z by (simp add: next_pulse_def pulse_end_def Let_def)
qed

section \<open>A tape to play\<close>

definition sample_block :: tape_block where
  "sample_block = \<lparr>blk_data = Some 0, blk_length = 1, pause_tstates = 3500, pilot_len = T_PILOT,
     pilot_count = 2, sync1_len = T_SYNC1, sync2_len = T_SYNC2, zero_len = T_ZERO, one_len = T_ONE,
     blk_type = 0x11, used_bits = 2\<rparr>"

definition sample_player :: tape where
  "sample_player = tape_new\<lparr>tp_data := Some [0x80], tp_size := 1, tp_enabled := True,
     blocks := [sample_block, sample_block]\<rparr>"

lemma sample_player_fields [simp]:
  "tp_enabled sample_player" "isLoaded sample_player" "blocks sample_player = [sample_block, sample_block]"
  "pstate sample_player = IDLE" "block_idx sample_player = 0" "tstate_counter sample_player = 0"
  "ready sample_player" "playing sample_player = False" "ear sample_player = False"
  by (simp_all add: sample_player_def tape_new_def isLoaded_def ready_def)

lemma sample_playable: "playable 1 sample_block"
  by (simp add: playable_def block_wf_def sample_block_def rom_timing)

lemma sample_pulses: "block_pulses sample_player sample_block =
    [2168, 2168, 667, 735, 1710, 1710, 855, 855, 3500]"
  by (simp add: block_pulses_def lead_pulses_def data_pulses_def byte_pulses_def bits_in_byte_def bit_pulse_def
      block_byte_def sample_block_def sample_player_def rom_timing numeral_2_eq_2)

theorem play_waveform_witness:
  defines "ps \<equiv> [2168, 2168, 667, 735, 1710, 1710, 855, 855, 3500, 2168, 2168, 667, 735, 1710, 1710, 855, 855, 3500]"
  shows "wave (length ps) (tape_play sample_player) = ps"
proof -
  have "concat (map (block_pulses sample_player) (blocks sample_player)) = ps"
    by (simp add: sample_pulses ps_def)
  then show ?thesis
    using play_waveform [of sample_player 1] sample_playable by simp
qed

theorem play_time_witness:
  "\<not> playing (fst (tape_advance (tape_play sample_player) 28736))"
  using play_time [of sample_player 1] sample_playable by (simp add: sample_pulses)

text \<open>In the pilot of the first block: one edge in the first 3000 T-states and three in the next 4000.\<close>

theorem advance_split_witness:
  defines "t \<equiv> sample_player\<lparr>playing := True, pstate := PILOT, pulses_left := 2, pulse_len := 2168\<rparr>"
  shows "snd (tape_advance t 3000) = [(2168, True)]
    \<and> snd (tape_advance t 7000) = [(2168, True), (4336, False), (5003, True), (5738, False)]"
proof -
  define u where "u = t\<lparr>tstate_counter := 832, pulses_left := 1, ear := True\<rparr>"
  have r: "ready t" by (simp add: t_def ready_def sample_player_def tape_new_def)
  have a: "tape_advance t 3000 = (u, [(2168, True)])"
    by (simp add: tape_advance_def advance_loop.simps t_def u_def remaining_def toggle_def pulse_end_def u32_of_small
        sample_player_def tape_new_def)
  have b: "snd (tape_advance u 4000) = [(1336, False), (2003, True), (2738, False)]"
    by (simp add: tape_advance_def advance_loop.simps u_def t_def remaining_def toggle_def pulse_end_def nextState_def
        startDataState_def advanceBit_def cur_block_def block_byte_def num_blocks_def u32_of_small sample_player_def sample_block_def tape_new_def
        rom_timing Let_def)
  show ?thesis
    using advance_split [OF r, of 3000 4000] a b by simp
qed

theorem zero_pause_stops_witness:
  defines "t \<equiv> sample_player\<lparr>playing := True, pstate := DATA, pulses_left := 1, data_bit_idx := 1,
     blocks := [sample_block\<lparr>pause_tstates := 0\<rparr>, sample_block]\<rparr>"
  shows "\<not> playing (next_pulse t) \<and> block_idx (next_pulse t) = 0"
  unfolding t_def
  by (rule zero_pause_stops) (simp_all add: num_blocks_def cur_block_def sample_block_def sample_player_def tape_new_def)

end
