(* ===== verification/Tape_Stall.thy ===== *)
theory Tape_Stall
  imports Tape_Wave
begin

text \<open>
  What a fast-forward during a pause leaves behind: \<open>fastForward\<close> restarts the position in the pulse
  but keeps the length of the pause, so the pause runs on; \<open>play\<close> then starts the next block's first
  pulse with that position, and the unsigned difference in \<open>advance\<close> wraps.
\<close>

text \<open>C39 (ffwd_play_stalls): If the player is fast-forwarded in a pause in front of a block with a
pilot, and then more T-states pass than a pilot pulse has but fewer than the pause had left,
playing leaves it counting down from 2^32: no edge of the tape signal follows for more than four
thousand million T-states.\<close>

theorem ffwd_play_stalls:
  assumes "playing t" "\<not> paused t" "isLoaded t" "tp_enabled t" "block_idx t + 1 < num_blocks t"
    and "pilot_count (blocks t ! (block_idx t + 1)) > 0" "pilot_len (blocks t ! (block_idx t + 1)) = l"
    and "0 < l" "l < n" "n < pulse_len t" "pulse_len t < 2 ^ 32" "k < 2 ^ 32 + l - n"
  shows "snd (tape_advance (tape_play (fst (tape_advance (tape_fastForward t) n))) k) = []
    \<and> block_idx (tape_play (fst (tape_advance (tape_fastForward t) n))) = block_idx t + 1
    \<and> isPlaying (tape_play (fst (tape_advance (tape_fastForward t) n)))"
proof -
  let ?f = "t\<lparr>block_idx := block_idx t + 1, pstate := IDLE, pulses_left := 0, tstate_counter := 0\<rparr>"
  let ?w = "?f\<lparr>tstate_counter := n\<rparr>"
  have f: "tape_fastForward t = ?f" using assms(5) by (simp add: tape_fastForward_def)
  have d: "tp_data t \<noteq> None" using assms(3) by (simp add: isLoaded_def)
  have w: "fst (tape_advance ?f n) = ?w"
    using assms(1,2,9-11) d
    by (simp add: tape_advance_def advance_loop.simps [of _ n] remaining_def u32_of_small)
  let ?p = "?w\<lparr>pstate := PILOT, pulses_left := u32_of (pilot_count (blocks t ! (block_idx t + 1))), pulse_len := u32_of l\<rparr>"
  have p: "tape_play ?w = ?p"
    using assms(1-7) by (auto simp: tape_play_def nextState_def start_block_def cur_block_def num_blocks_def Let_def)
  have l: "u32_of l = l" using assms(9-11) by (simp add: u32_of_small)
  have "\<not> remaining (?p\<lparr>pulse_len := l\<rparr>) \<le> k" using assms(9-12) by (simp add: remaining_def)
  then have "snd (tape_advance ?p k) = []"
    using assms(1,2,8) d l by (auto simp: tape_advance_def Let_def advance_loop.simps [of _ k])
  then show ?thesis unfolding f w p using assms(1,2) by (simp add: isPlaying_def)
qed

text \<open>In the pause of 3500 T-states after the first block, 3000 of them gone by.\<close>

theorem ffwd_play_stalls_witness:
  defines "t \<equiv> sample_player\<lparr>playing := True, pstate := PAUSE, pulses_left := 1, pulse_len := 3500\<rparr>"
  shows "snd (tape_advance (tape_play (fst (tape_advance (tape_fastForward t) 3000))) 4000000000) = []"
  using ffwd_play_stalls [of t 2168 3000 4000000000] unfolding t_def
  by (simp add: num_blocks_def sample_block_def sample_player_def tape_new_def isLoaded_def T_PILOT_def)

end
