(* ===== verification/Web_Command.thy ===== *)
theory Web_Command
  imports Tape_State
begin

text \<open>
  The commands of the web front end: \<open>src/src/webserver/command_queue.h\<close> and the handlers of
  \<open>Webserver.cpp\<close> that fill the queue (\<open>file_load_handler\<close>, \<open>reset_handler\<close>, \<open>model_handler\<close>,
  \<open>tape_handler\<close>, \<open>ws_handler\<close>).

  \<^item> A C string is the list of its characters before the terminating null.
  \<^item> What the HTTP server delivers is a parameter: whether a request has a query, the function
    \<open>kv\<close> from a key and a buffer size to the value (\<open>httpd_query_key_value\<close>), and the received frame.
  \<^item> The queue is protected by its mutex, so each of its operations is one step; \<open>wait_and_pop\<close>
    blocks on an empty queue, which is \<open>None\<close>.
\<close>

section \<open>C strings\<close>

definition c_string :: "u8 list \<Rightarrow> string" where
  "c_string bs = map (\<lambda>b. char_of (unat b)) (takeWhile (\<lambda>b. b \<noteq> 0) bs)"

text \<open>The functions of \<open>string.h\<close> return the rest of the string from the place found.\<close>

fun strchr :: "string \<Rightarrow> char \<Rightarrow> string option" where
  "strchr [] c = None"
| "strchr (x # xs) c = (if x = c then Some (x # xs) else strchr xs c)"

fun strrchr :: "string \<Rightarrow> char \<Rightarrow> string option" where
  "strrchr [] c = None"
| "strrchr (x # xs) c =
     (case strrchr xs c of
        Some r \<Rightarrow> Some r
      | None \<Rightarrow> if x = c then Some (x # xs) else None)"

fun strstr :: "string \<Rightarrow> string \<Rightarrow> string option" where
  "strstr xs needle =
     (if take (length needle) xs = needle then Some xs
      else case xs of [] \<Rightarrow> None | _ # ys \<Rightarrow> strstr ys needle)"

declare strstr.simps [simp del]

definition c_tolower :: "char \<Rightarrow> char" where
  "c_tolower c = (let n = of_char c :: nat in if 65 \<le> n \<and> n \<le> 90 then char_of (n + 32) else c)"

definition strcasecmp_eq :: "string \<Rightarrow> string \<Rightarrow> bool" where
  "strcasecmp_eq a b \<longleftrightarrow> map c_tolower a = map c_tolower b"

text \<open>\<open>snprintf (buf, n, "%s...", ...)\<close>.\<close>

definition snprintf_to :: "nat \<Rightarrow> string \<Rightarrow> string" where
  "snprintf_to n s = take (n - 1) s"

section \<open>Commands\<close>

datatype web_command_type =
  NoCommand | Reset | LoadFile | ChangeModel | TapeCmd | TapeInstantLoad | TapeSetMode
| TapeSetMonitor | KeyboardInput

record web_command =
  cmd_type :: web_command_type
  arg1 :: string
  arg2 :: string
  int_arg1 :: int
  int_arg2 :: int

definition web_command_new :: web_command where
  "web_command_new = \<lparr>cmd_type = NoCommand, arg1 = [], arg2 = [], int_arg1 = 0, int_arg2 = 0\<rparr>"

type_synonym web_queue = "web_command list"

definition queue_push :: "web_queue \<Rightarrow> web_command \<Rightarrow> web_queue" where
  "queue_push q cmd = q @ [cmd]"

definition queue_pop :: "web_queue \<Rightarrow> (web_command \<times> web_queue) option" where
  "queue_pop q = (case q of [] \<Rightarrow> None | cmd # rest \<Rightarrow> Some (cmd, rest))"

definition queue_wait_and_pop :: "web_queue \<Rightarrow> (web_command \<times> web_queue) option" where
  "queue_wait_and_pop q = (if q = [] then None else Some (hd q, tl q))"

definition queue_empty :: "web_queue \<Rightarrow> bool" where
  "queue_empty q \<longleftrightarrow> q = []"

section \<open>The HTTP handlers\<close>

record tape_status =
  st_loaded :: bool
  st_playing :: bool
  st_paused :: bool
  st_mode :: string
  st_current :: nat
  st_total :: nat

datatype response = BadRequest string | ServerError string | Sent string | SentStatus tape_status | SentModel string

definition tape_ext :: "string \<Rightarrow> bool" where
  "tape_ext e \<longleftrightarrow> strcasecmp_eq e ''.tap'' \<or> strcasecmp_eq e ''.tzx'' \<or> strcasecmp_eq e ''.tsx''"

definition snapshot_ext :: "string \<Rightarrow> bool" where
  "snapshot_ext e \<longleftrightarrow> strcasecmp_eq e ''.z80'' \<or> strcasecmp_eq e ''.sna''"

definition load_dir :: "string \<Rightarrow> string" where
  "load_dir filename =
     (case strrchr filename (CHR ''.'') of
        None \<Rightarrow> ''/spiffs''
      | Some e \<Rightarrow>
          if tape_ext e then ''/spiffs/tapes''
          else if snapshot_ext e then ''/spiffs/snapshots''
          else ''/spiffs'')"

definition file_load_handler ::
  "bool \<Rightarrow> (string \<Rightarrow> nat \<Rightarrow> string option) \<Rightarrow> web_queue \<Rightarrow> response \<times> web_queue" where
  "file_load_handler has_query kv q =
     (if \<not> has_query then (BadRequest ''Missing query'', q)
      else case kv ''file'' 256 of
             None \<Rightarrow> (BadRequest ''Missing file'', q)
           | Some filename \<Rightarrow>
               (Sent ''OK'',
                queue_push q (web_command_new\<lparr>cmd_type := LoadFile,
                  arg1 := snprintf_to 512 (load_dir filename @ ''/'' @ filename)\<rparr>)))"

definition reset_handler :: "web_queue \<Rightarrow> response \<times> web_queue" where
  "reset_handler q = (Sent ''OK'', queue_push q (web_command_new\<lparr>cmd_type := Reset\<rparr>))"

text \<open>
  The model preference lives in non-volatile storage, where a string is kept under a namespace and a key.
  The five flags say which of the calls of the storage succeed.  A value is stored once it is committed.
\<close>

type_synonym nvs_store = "string \<times> string \<Rightarrow> string option"

definition model_handler ::
  "bool \<Rightarrow> (string \<Rightarrow> nat \<Rightarrow> string option) \<Rightarrow> bool \<Rightarrow> bool \<Rightarrow> bool \<Rightarrow> bool \<Rightarrow> bool \<Rightarrow> nvs_store \<Rightarrow> web_queue
     \<Rightarrow> response \<times> nvs_store \<times> web_queue" where
  "model_handler has_query kv ro_ok get_ok rw_ok set_ok commit_ok store q =
     (if \<not> has_query
      then (SentModel (if ro_ok \<and> get_ok
                       then (case store (''spectrum_config'', ''model'') of Some m \<Rightarrow> m | None \<Rightarrow> ''48k'')
                       else ''48k''), store, q)
      else case kv ''model'' 32 of
             None \<Rightarrow> (BadRequest ''Missing model parameter'', store, q)
           | Some model \<Rightarrow>
               if model \<noteq> ''48k'' \<and> model \<noteq> ''128k''
               then (BadRequest ''Invalid model (must be 48k or 128k)'', store, q)
               else if \<not> rw_ok then (ServerError ''NVS open failed'', store, q)
               else if \<not> set_ok then (ServerError ''NVS write failed'', store, q)
               else if \<not> commit_ok then (ServerError ''NVS commit failed'', store, q)
               else (SentModel model, store((''spectrum_config'', ''model'') \<mapsto> model),
                     queue_push q (web_command_new\<lparr>cmd_type := ChangeModel, arg1 := model\<rparr>)))"

definition tape_status_of :: "tape option \<Rightarrow> tape_status" where
  "tape_status_of t =
     (case t of
        None \<Rightarrow> \<lparr>st_loaded = False, st_playing = False, st_paused = False, st_mode = ''unknown'',
                 st_current = 0, st_total = 0\<rparr>
      | Some t \<Rightarrow> \<lparr>st_loaded = isLoaded t, st_playing = isPlaying t, st_paused = paused t,
                   st_mode = prof_name (tapeModeProfile (tp_mode t)),
                   st_current = (if num_blocks t > 0 then block_idx t + 1 else 0), st_total = num_blocks t\<rparr>)"

text \<open>The commands of the tape page, by name.\<close>

definition simple_tape_cmds :: "string list" where
  "simple_tape_cmds = [''play'', ''stop'', ''rewind'', ''ffwd'', ''pause'', ''eject'']"

definition tape_request :: "string \<Rightarrow> (string \<Rightarrow> nat \<Rightarrow> string option) \<Rightarrow> web_command" where
  "tape_request cmd kv =
     (if cmd = ''load''
      then case kv ''file'' 256 of
             None \<Rightarrow> web_command_new
           | Some filename \<Rightarrow> web_command_new\<lparr>cmd_type := TapeCmd, arg1 := ''load'',
                 arg2 := snprintf_to 512 (''/spiffs/tapes/'' @ filename)\<rparr>
      else if cmd \<in> set simple_tape_cmds then web_command_new\<lparr>cmd_type := TapeCmd, arg1 := cmd\<rparr>
      else if cmd = ''instant_load'' then web_command_new\<lparr>cmd_type := TapeInstantLoad\<rparr>
      else web_command_new)"

definition tape_handler ::
  "bool \<Rightarrow> (string \<Rightarrow> nat \<Rightarrow> string option) \<Rightarrow> tape option \<Rightarrow> web_queue \<Rightarrow> response \<times> web_queue" where
  "tape_handler has_query kv tape q =
     (case (if has_query then kv ''cmd'' 32 else None) of
        None \<Rightarrow> (SentStatus (tape_status_of tape), q)
      | Some cmd \<Rightarrow>
          if cmd = ''status'' then (SentStatus (tape_status_of tape), q)
          else let command = tape_request cmd kv
               in (Sent ''OK'', if cmd_type command \<noteq> NoCommand then queue_push q command else q))"

section \<open>The WebSocket\<close>

datatype frame_type = Binary | Text | OtherFrame

definition quoted :: "string \<Rightarrow> string" where
  "quoted s = [CHR 0x22] @ s @ [CHR 0x22]"

definition cmd_field :: "string \<Rightarrow> string" where
  "cmd_field name = quoted ''cmd'' @ '':'' @ quoted name"

text \<open>\<open>TapeMode\<close> as the integer of a command, and back; any other value acts as \<open>MANUAL\<close>.\<close>

definition mode_code :: "tape_mode \<Rightarrow> int" where
  "mode_code m = (case m of INSTANT \<Rightarrow> 0 | AUTO \<Rightarrow> 1 | MANUAL \<Rightarrow> 2)"

definition mode_of_code :: "int \<Rightarrow> tape_mode" where
  "mode_of_code n = (if n = 0 then INSTANT else if n = 1 then AUTO else MANUAL)"

definition parse_tape_mode_command :: "string \<Rightarrow> tape_mode option" where
  "parse_tape_mode_command json =
     (let key = quoted ''cmd'' @ '':'' @ [CHR 0x22] @ ''tape_mode_''
      in case strstr json key of
           None \<Rightarrow> None
         | Some at \<Rightarrow>
             let start = drop (length key) at
             in case strchr start (CHR 0x22) of
                  None \<Rightarrow> None
                | Some rest \<Rightarrow>
                    let len = length start - length rest
                    in if len = 0 \<or> len \<ge> 32 then None
                       else tapeModeFromName (Some (take len start)))"

definition text_commands :: "(string \<times> web_command) list" where
  "text_commands =
     [(''tape_play'', web_command_new\<lparr>cmd_type := TapeCmd, arg1 := ''play''\<rparr>),
      (''tape_stop'', web_command_new\<lparr>cmd_type := TapeCmd, arg1 := ''stop''\<rparr>),
      (''tape_rewind'', web_command_new\<lparr>cmd_type := TapeCmd, arg1 := ''rewind''\<rparr>),
      (''tape_ffwd'', web_command_new\<lparr>cmd_type := TapeCmd, arg1 := ''ffwd''\<rparr>),
      (''tape_pause'', web_command_new\<lparr>cmd_type := TapeCmd, arg1 := ''pause''\<rparr>),
      (''tape_eject'', web_command_new\<lparr>cmd_type := TapeCmd, arg1 := ''eject''\<rparr>),
      (''tape_instaload'', web_command_new\<lparr>cmd_type := TapeInstantLoad\<rparr>),
      (''tape_monitor_on'', web_command_new\<lparr>cmd_type := TapeSetMonitor, int_arg1 := 1\<rparr>),
      (''tape_monitor_off'', web_command_new\<lparr>cmd_type := TapeSetMonitor, int_arg1 := 0\<rparr>)]"

definition text_command :: "string \<Rightarrow> web_command" where
  "text_command json =
     (case find (\<lambda>p. strstr json (cmd_field (fst p)) \<noteq> None) text_commands of
        Some p \<Rightarrow> snd p
      | None \<Rightarrow>
          (case parse_tape_mode_command json of
             Some m \<Rightarrow> web_command_new\<lparr>cmd_type := TapeSetMode, int_arg1 := mode_code m\<rparr>
           | None \<Rightarrow> web_command_new))"

definition key_command :: "u8 \<Rightarrow> u8 \<Rightarrow> u8 \<Rightarrow> web_command" where
  "key_command row n pressed =
     web_command_new\<lparr>cmd_type := KeyboardInput, int_arg1 := uint row,
       int_arg2 := (uint n AND 0xFF) OR push_bit 8 (uint pressed AND 0xFF)\<rparr>"

text \<open>
  \<open>ws_handler\<close>: \<open>recv1\<close> and \<open>recv2\<close> say whether the two calls of \<open>httpd_ws_recv_frame\<close> succeed; the
  result says whether the handler returns \<open>ESP_OK\<close>.
\<close>

definition ws_handler :: "bool \<Rightarrow> bool \<Rightarrow> bool \<Rightarrow> frame_type \<Rightarrow> u8 list \<Rightarrow> web_queue \<Rightarrow> bool \<times> web_queue" where
  "ws_handler is_get recv1 recv2 ty payload q =
     (if is_get then (True, q)
      else if \<not> recv1 then (False, q)
      else if length payload > 0
      then if length payload > 127 then (False, q)
           else if \<not> recv2 then (False, q)
           else if ty = Binary \<and> length payload = 3
           then (True, queue_push q (key_command (payload ! 0) (payload ! 1) (payload ! 2)))
           else if ty = Text
           then let command = text_command (c_string payload)
                in (True, if cmd_type command \<noteq> NoCommand then queue_push q command else q)
           else (True, q)
      else (True, q))"

section \<open>Properties\<close>

text \<open>The two integers of a key event come back as the handler packed them.\<close>

lemma key_unpack:
  fixes n pressed :: u8
  shows "((uint n AND 0xFF) OR push_bit 8 (uint pressed AND 0xFF)) AND 0xFF = uint n"
    and "drop_bit 8 ((uint n AND 0xFF) OR push_bit 8 (uint pressed AND 0xFF)) AND 0xFF = uint pressed"
proof -
  have m: "(x :: int) AND 0xFF = take_bit 8 x" for x by (simp add: take_bit_eq_mask mask_eq_exp_minus_1)
  have t: "take_bit 8 (uint v) = uint v" for v :: u8
    using uint_bounded [of v] by (simp add: take_bit_int_eq_self_iff)
  show "((uint n AND 0xFF) OR push_bit 8 (uint pressed AND 0xFF)) AND 0xFF = uint n"
    by (simp add: m t take_bit_or take_bit_push_bit)
  show "drop_bit 8 ((uint n AND 0xFF) OR push_bit 8 (uint pressed AND 0xFF)) AND 0xFF = uint pressed"
    using uint_bounded [of n] by (simp add: m t drop_bit_or drop_bit_push_bit drop_bit_eq_div [of 8 "uint n"])
qed

lemma mode_code_inv [simp]: "mode_of_code (mode_code m) = m"
  by (cases m) (simp_all add: mode_code_def mode_of_code_def)

text \<open>Messages of the page: each names its command.\<close>

definition message :: "string \<Rightarrow> string" where
  "message name = ''{'' @ cmd_field name @ ''}''"

theorem text_messages:
  "map (\<lambda>p. text_command (message (fst p))) text_commands = map snd text_commands
   \<and> text_command (message (''tape_mode_'' @ prof_name (tapeModeProfile m)))
       = web_command_new\<lparr>cmd_type := TapeSetMode, int_arg1 := mode_code m\<rparr>"
proof
  show "map (\<lambda>p. text_command (message (fst p))) text_commands = map snd text_commands" by code_simp
  have "text_command (message (''tape_mode_'' @ prof_name (tapeModeProfile INSTANT)))
      = web_command_new\<lparr>cmd_type := TapeSetMode, int_arg1 := mode_code INSTANT\<rparr>"
    "text_command (message (''tape_mode_'' @ prof_name (tapeModeProfile AUTO)))
      = web_command_new\<lparr>cmd_type := TapeSetMode, int_arg1 := mode_code AUTO\<rparr>"
    "text_command (message (''tape_mode_'' @ prof_name (tapeModeProfile MANUAL)))
      = web_command_new\<lparr>cmd_type := TapeSetMode, int_arg1 := mode_code MANUAL\<rparr>"
    by code_simp+
  then show "text_command (message (''tape_mode_'' @ prof_name (tapeModeProfile m)))
      = web_command_new\<lparr>cmd_type := TapeSetMode, int_arg1 := mode_code m\<rparr>"
    by (cases m) simp_all
qed

end
