(* ===== verification/Screen.thy ===== *)
theory Screen
  imports Prelude
begin

text \<open>
  The renderer of \<open>src/src/spectrum/SpectrumBase_Rendering.cpp\<close> with the palette of
  \<open>SpectrumPalette.h\<close>.  The frame buffer is the list of its 16-bit pixels; \<open>video\<close> reads a byte of
  the video page.  \<open>border_event\<close> is \<open>BorderEvent\<close>.
\<close>

section \<open>The palette\<close>

definition SPECTRUM_PALETTE_NORMAL :: "u16 list" where
  "SPECTRUM_PALETTE_NORMAL = [0x0000, 0x0018, 0xC000, 0xC018, 0x0600, 0x0618, 0xC600, 0xC618]"

definition SPECTRUM_PALETTE_BRIGHT :: "u16 list" where
  "SPECTRUM_PALETTE_BRIGHT = [0x0000, 0x001F, 0xF800, 0xF81F, 0x07E0, 0x07FF, 0xFFE0, 0xFFFF]"

text \<open>The display is big-endian.\<close>

definition bswap16 :: "u16 \<Rightarrow> u16" where
  "bswap16 v = push_bit 8 v OR drop_bit 8 v"

definition spectrum_palette :: "u8 \<Rightarrow> bool \<Rightarrow> u16" where
  "spectrum_palette index bright =
     (let i = unat (index AND 0x07);
          color = (if bright then SPECTRUM_PALETTE_BRIGHT ! i else SPECTRUM_PALETTE_NORMAL ! i)
      in bswap16 color)"

section \<open>The active area\<close>

definition attr_bright :: "u8 \<Rightarrow> bool" where "attr_bright attr \<longleftrightarrow> attr AND 0x40 \<noteq> 0"
definition attr_ink :: "u8 \<Rightarrow> u16" where
  "attr_ink attr = spectrum_palette (attr AND 0x07) (attr_bright attr)"
definition attr_paper :: "u8 \<Rightarrow> u16" where
  "attr_paper attr = spectrum_palette (drop_bit 3 attr AND 0x07) (attr_bright attr)"

text \<open>Two pixels as one 32-bit word, the left one in the low half.\<close>

definition double :: "u16 \<Rightarrow> u32" where
  "double c = push_bit 16 (ucast c) OR ucast c"

definition pair_word :: "u8 \<Rightarrow> u16 \<Rightarrow> u16 \<Rightarrow> nat \<Rightarrow> u32" where
  "pair_word pixels ink paper i =
     (let two_bits = drop_bit (6 - i * 2) pixels AND 0x03;
          mask = (if two_bits AND 0x02 \<noteq> 0 then 0x0000FFFF else 0);
          mask = mask OR (if two_bits AND 0x01 \<noteq> 0 then 0xFFFF0000 else 0);
          diff32 = double ink XOR double paper
      in double paper XOR (mask AND diff32))"

definition halves :: "u32 \<Rightarrow> u16 list" where
  "halves w = [ucast w, ucast (drop_bit 16 w)]"

text \<open>The eight pixels of a byte, written as four words.\<close>

definition eight_pixels :: "u8 \<Rightarrow> u16 \<Rightarrow> u16 \<Rightarrow> u16 list" where
  "eight_pixels pixels ink paper = concat (map (\<lambda>i. halves (pair_word pixels ink paper i)) [0, 1, 2, 3])"

text \<open>
  The cache \<open>attr_lut\<close>: a table of 256 times 8 pixels for each of the 128 attributes, filled on
  first use when \<open>alloc\<close> says the allocation succeeds.
\<close>

definition make_lut :: "u8 \<Rightarrow> u16 list" where
  "make_lut attr_index =
     concat (map (\<lambda>pix. eight_pixels (of_nat pix) (attr_ink attr_index) (attr_paper attr_index)) [0..<256])"

type_synonym luts = "nat \<Rightarrow> u16 list option"

definition get_lut :: "(nat \<Rightarrow> bool) \<Rightarrow> luts \<Rightarrow> u8 \<Rightarrow> u16 list option \<times> luts" where
  "get_lut alloc luts attr_index =
     (if unat attr_index \<ge> 128 then (None, luts)
      else case luts (unat attr_index) of
             Some table \<Rightarrow> (Some table, luts)
           | None \<Rightarrow>
               if \<not> alloc (unat attr_index) then (None, luts)
               else let table = make_lut attr_index
                    in (Some table, luts(unat attr_index := Some table)))"

definition attr_pixels :: "(nat \<Rightarrow> bool) \<Rightarrow> luts \<Rightarrow> u8 \<Rightarrow> u8 \<Rightarrow> u16 list \<times> luts" where
  "attr_pixels alloc luts pixels attr =
     (case get_lut alloc luts (attr AND 0x7F) of
        (Some lut, luts) \<Rightarrow> (take 8 (drop (unat pixels * 8) lut), luts)
      | (None, luts) \<Rightarrow> (eight_pixels pixels (attr_ink attr) (attr_paper attr), luts))"

text \<open>Where the bitmap and the attribute byte of a cell are in the video page.\<close>

definition bitmap_offset :: "nat \<Rightarrow> nat \<Rightarrow> nat" where
  "bitmap_offset y xByte =
     (let y = of_nat y :: u16
      in unat (push_bit 5 (y AND 0xC0) OR push_bit 8 (y AND 0x07) OR push_bit 2 (y AND 0x38) OR of_nat xByte))"

definition attr_offset :: "nat \<Rightarrow> nat \<Rightarrow> nat" where
  "attr_offset y xByte = unat ((of_nat (0x1800 + (y div 8) * 32) :: u16) OR of_nat xByte)"

text \<open>\<open>memcpy\<close> of a list of pixels into the frame buffer.\<close>

definition blit :: "nat \<Rightarrow> 'a list \<Rightarrow> 'a list \<Rightarrow> 'a list" where
  "blit at ps buffer = take at buffer @ take (length buffer - at) ps @ drop (at + length ps) buffer"

definition render_cell :: "(nat \<Rightarrow> bool) \<Rightarrow> (nat \<Rightarrow> u8) \<Rightarrow> nat \<Rightarrow> nat \<Rightarrow> nat \<Rightarrow> nat \<times> nat
    \<Rightarrow> u16 list \<times> luts \<Rightarrow> u16 list \<times> luts" where
  "render_cell alloc video bufWidth offset_x offset_y c bl =
     (let (y, xByte) = c;
          (buffer, luts) = bl;
          pixels = video (bitmap_offset y xByte);
          attr = video (attr_offset y xByte);
          (ps, luts) = attr_pixels alloc luts pixels attr
      in (blit ((offset_y + y) * bufWidth + offset_x + 8 * xByte) ps buffer, luts))"

definition renderActiveArea :: "(nat \<Rightarrow> bool) \<Rightarrow> (nat \<Rightarrow> u8) option \<Rightarrow> nat \<Rightarrow> nat \<Rightarrow> nat \<Rightarrow> nat
    \<Rightarrow> u16 list \<times> luts \<Rightarrow> u16 list \<times> luts" where
  "renderActiveArea alloc video bufWidth offset_x offset_y source_height bl =
     (case video of
        None \<Rightarrow> bl
      | Some v \<Rightarrow>
          fold (render_cell alloc v bufWidth offset_x offset_y) (List.product [0..<source_height] [0..<32]) bl)"

section \<open>The border\<close>

record border_event =
  ev_tstates :: nat
  ev_color :: u8

text \<open>The state of the lambda \<open>consume_until\<close>: the event index and the current colour.\<close>

function consume_until :: "border_event list \<Rightarrow> nat \<Rightarrow> nat \<times> u8 \<Rightarrow> nat \<times> u8" where
  "consume_until evs tstate_excl s =
     (let (evt_idx, cur_color) = s
      in if evt_idx < length evs \<and> ev_tstates (evs ! evt_idx) < tstate_excl
         then consume_until evs tstate_excl (evt_idx + 1, ev_color (evs ! evt_idx) AND 0x07)
         else s)"
  by pat_completeness auto
termination
  by (relation "measure (\<lambda>(evs, _, (i, _)). length evs - i)") auto

declare consume_until.simps [simp del]

definition border_pixels :: "u8 \<Rightarrow> u16 list" where
  "border_pixels color = halves (double (spectrum_palette color False))"

definition render_pair :: "border_event list \<Rightarrow> nat \<Rightarrow> nat \<Rightarrow> nat \<Rightarrow> (nat \<times> u8) \<times> u16 list
    \<Rightarrow> (nat \<times> u8) \<times> u16 list" where
  "render_pair evs tstate_base line_start xp sb =
     (let (s, buffer) = sb;
          t = tstate_base + xp;
          s = (if fst s < length evs \<and> ev_tstates (evs ! fst s) \<le> t then consume_until evs (t + 1) s else s)
      in (s, blit (line_start + 2 * xp) (border_pixels (snd s)) buffer))"

definition border_line :: "border_event list \<Rightarrow> nat \<Rightarrow> int \<Rightarrow> int \<Rightarrow> nat \<Rightarrow> nat \<Rightarrow> nat
    \<Rightarrow> (nat \<times> u8) \<times> u16 list \<Rightarrow> (nat \<times> u8) \<times> u16 list" where
  "border_line evs bufWidth offset_x offset_y source_width source_height y sb =
     (let spectrum_y = 64 + (int y - offset_y);
          spectrum_y = (if spectrum_y < 0 then 0 else spectrum_y);
          spectrum_y = (if spectrum_y \<ge> 312 then 311 else spectrum_y);
          tstate_base = nat spectrum_y * 224;
          line_start = y * bufWidth;
          total_pairs = bufWidth div 2;
          left_pairs = nat offset_x div 2;
          active_end_pair = (nat offset_x + source_width) div 2;
          is_active_y = (offset_y \<le> int y \<and> int y < offset_y + int source_height);
          (s, buffer) = sb;
          s = consume_until evs tstate_base s
      in if \<not> is_active_y
         then fold (render_pair evs tstate_base line_start) [0..<total_pairs] (s, buffer)
         else let (s, buffer) = fold (render_pair evs tstate_base line_start) [0..<left_pairs] (s, buffer);
                  s = consume_until evs (tstate_base + active_end_pair) s
              in fold (render_pair evs tstate_base line_start) [active_end_pair..<total_pairs] (s, buffer))"

definition renderBorder :: "border_event list \<Rightarrow> u8 \<Rightarrow> nat \<Rightarrow> nat \<Rightarrow> int \<Rightarrow> int \<Rightarrow> nat \<Rightarrow> nat
    \<Rightarrow> u16 list \<Rightarrow> u16 list" where
  "renderBorder evs init_color bufWidth bufHeight offset_x offset_y source_width source_height buffer =
     (let evs = take 1024 evs
      in snd (fold (border_line evs bufWidth offset_x offset_y source_width source_height) [0..<bufHeight]
                ((0, init_color AND 0x07), buffer)))"

text \<open>A buffer at least as large as the source, as on every display of the program.\<close>

definition renderToRGB565 :: "(nat \<Rightarrow> bool) \<Rightarrow> (nat \<Rightarrow> u8) option \<Rightarrow> border_event list \<Rightarrow> u8 \<Rightarrow> nat \<Rightarrow> nat
    \<Rightarrow> u16 list \<times> luts \<Rightarrow> u16 list \<times> luts" where
  "renderToRGB565 alloc video evs init_color bufWidth bufHeight bl =
     (let source_width = 256;
          source_height = 192;
          offset_x = (bufWidth - source_width) div 2;
          offset_y = (bufHeight - source_height) div 2;
          (buffer, luts) = bl;
          buffer = renderBorder evs init_color bufWidth bufHeight (int offset_x) (int offset_y)
                     source_width source_height buffer
      in renderActiveArea alloc video bufWidth offset_x offset_y source_height (buffer, luts))"

section \<open>The pixels of a cell\<close>

text \<open>What the eight pixels of a byte should be: ink for a 1 bit, paper for a 0 bit.\<close>

definition cell_pixels :: "u8 \<Rightarrow> u16 \<Rightarrow> u16 \<Rightarrow> u16 list" where
  "cell_pixels pixels ink paper = map (\<lambda>j. if bit pixels (7 - j) then ink else paper) [0..<8]"

lemma halves_double: "halves (double c) = [c, c]"
proof -
  have "ucast (double c) = c" "ucast (drop_bit 16 (double c)) = c"
    unfolding double_def by (rule bit_word_eqI; auto simp: bit_simps dest: bit_imp_le_length)+
  then show ?thesis by (simp add: halves_def)
qed

lemma halves_select:
  "halves (double paper XOR (((if lo then 0x0000FFFF else 0) OR (if hi then 0xFFFF0000 else 0))
     AND (double ink XOR double paper))) = [if lo then ink else paper, if hi then ink else paper]"
proof -
  have m: "bit (0xFFFF :: u32) n \<longleftrightarrow> n < 16" "bit (0xFFFF0000 :: u32) n \<longleftrightarrow> 16 \<le> n \<and> n < 32" for n
  proof -
    have a: "(0xFFFF :: u32) = mask 16" by (simp add: mask_eq_exp_minus_1)
    then show "bit (0xFFFF :: u32) n \<longleftrightarrow> n < 16" by (simp only: bit_mask_iff possible_bit_word) auto
    have b: "(0xFFFF0000 :: u32) = push_bit 16 (mask 16)" by (simp add: push_bit_eq_mult mask_eq_exp_minus_1)
    show "bit (0xFFFF0000 :: u32) n \<longleftrightarrow> 16 \<le> n \<and> n < 32"
      unfolding b by (simp only: bit_push_bit_iff bit_mask_iff possible_bit_word) auto
  qed
  have d: "bit (double c) n \<longleftrightarrow> (if n < 16 then bit c n else bit c (n - 16))" for c n
    unfolding double_def by (auto simp: bit_simps dest: bit_imp_le_length)
  define w where "w = double paper XOR (((if lo then 0x0000FFFF else 0) OR (if hi then 0xFFFF0000 else 0))
     AND (double ink XOR double paper))"
  have w: "bit w n \<longleftrightarrow> (if n < 16 then if lo then bit ink n else bit paper n
      else if hi then bit ink (n - 16) else bit paper (n - 16))" if "n < 32" for n
    unfolding w_def
    by (cases lo; cases hi; simp only: if_True if_False bit_xor_iff bit_and_iff bit_or_iff m d bit_0_eq)
      (use that in auto)
  have "ucast w = (if lo then ink else paper)"
    by (rule bit_word_eqI) (simp only: bit_ucast_iff, simp add: w)
  moreover have "ucast (drop_bit 16 w) = (if hi then ink else paper)"
    by (rule bit_word_eqI) (simp only: bit_ucast_iff bit_drop_bit_eq o_apply, simp add: w)
  ultimately show ?thesis unfolding w_def [symmetric] halves_def by simp
qed

lemma two_bits:
  fixes v :: u8
  shows "(drop_bit k v AND 0x03) AND 0x02 \<noteq> 0 \<longleftrightarrow> bit v (k + 1)"
    and "(drop_bit k v AND 0x03) AND 0x01 \<noteq> 0 \<longleftrightarrow> bit v k"
proof -
  have "(drop_bit k v AND 0x03) AND 2 ^ 1 = drop_bit k v AND 2 ^ 1" "(drop_bit k v AND 0x03) AND 2 ^ 0 = drop_bit k v AND 2 ^ 0"
    by (simp_all add: and.assoc)
  then show "(drop_bit k v AND 0x03) AND 0x02 \<noteq> 0 \<longleftrightarrow> bit v (k + 1)"
    "(drop_bit k v AND 0x03) AND 0x01 \<noteq> 0 \<longleftrightarrow> bit v k"
    using and_exp_eq_0_iff_not_bit [of "drop_bit k v" 1] and_exp_eq_0_iff_not_bit [of "drop_bit k v" 0]
    by (simp_all add: bit_drop_bit_eq)
qed

lemma halves_pair_word:
  "halves (pair_word pixels ink paper i) =
     [if bit pixels (6 - i * 2 + 1) then ink else paper, if bit pixels (6 - i * 2) then ink else paper]"
  unfolding pair_word_def Let_def two_bits by (rule halves_select)

lemma eight_pixels_eq: "eight_pixels pixels ink paper = cell_pixels pixels ink paper"
  by (simp add: eight_pixels_def cell_pixels_def halves_pair_word numeral_eq_Suc)

lemma length_cell_pixels [simp]: "length (cell_pixels p i q) = 8"
  by (simp add: cell_pixels_def)

section \<open>The attribute cache\<close>

lemma concat_segment:
  assumes "\<forall>x\<in>set xs. length (f x) = k" "i < length xs"
  shows "take k (drop (i * k) (concat (map f xs))) = f (xs ! i)"
  using assms
proof (induction xs arbitrary: i)
  case (Cons x xs)
  then show ?case by (cases i) (auto simp: add.commute)
qed simp

lemma lut_entry: "take 8 (drop (unat p * 8) (make_lut a)) = cell_pixels p (attr_ink a) (attr_paper a)"
proof -
  have "unat p < length [0..<256]" using unat8_bound [of p] by simp
  from concat_segment [OF _ this, of "\<lambda>pix. eight_pixels (of_nat pix) (attr_ink a) (attr_paper a)" 8]
  show ?thesis using unat8_bound [of p] by (simp add: make_lut_def eight_pixels_eq)
qed

text \<open>Every table in the cache is the one of its attribute.\<close>

definition luts_ok :: "luts \<Rightarrow> bool" where
  "luts_ok luts \<longleftrightarrow> (\<forall>a :: u8. unat a < 128 \<longrightarrow> luts (unat a) \<in> {None, Some (make_lut a)})"

lemma luts_ok_empty: "luts_ok (\<lambda>_. None)"
  by (simp add: luts_ok_def)

lemma get_lut_ok:
  assumes "luts_ok luts"
  shows "luts_ok (snd (get_lut alloc luts a))" "fst (get_lut alloc luts a) \<in> {None, Some (make_lut a)}"
proof -
  have l: "luts (unat b) \<in> {None, Some (make_lut b)}" if "unat b < 128" for b :: u8
    using assms that by (simp add: luts_ok_def)
  have inj: "unat b = unat a \<longleftrightarrow> b = a" for b by (simp add: word_unat_eq_iff)
  show "fst (get_lut alloc luts a) \<in> {None, Some (make_lut a)}"
    using l [of a] by (auto simp: get_lut_def Let_def not_le split: option.split)
  show "luts_ok (snd (get_lut alloc luts a))"
    using assms l [of a] by (auto simp: get_lut_def Let_def not_le luts_ok_def inj split: option.split)
qed

text \<open>The masked attribute has the same colours: bit 7, the flash bit, is not used.\<close>

lemma attr_colours_mask: "attr_ink (attr AND 0x7F) = attr_ink attr" "attr_paper (attr AND 0x7F) = attr_paper attr"
proof -
  have m: "(0x7F :: u8) = mask 7" "(0x40 :: u8) = 2 ^ 6" "(0x07 :: u8) = mask 3"
    by (simp_all add: mask_eq_exp_minus_1)
  have b: "attr_bright (attr AND 0x7F) = attr_bright attr"
    unfolding attr_bright_def m and_exp_eq_0_iff_not_bit by (simp add: bit_and_iff bit_mask_iff)
  have "(attr AND 0x7F) AND 0x07 = attr AND 0x07" by (simp add: and.assoc)
  then show "attr_ink (attr AND 0x7F) = attr_ink attr" by (simp add: attr_ink_def b)
  have "drop_bit 3 (attr AND 0x7F) AND 0x07 = drop_bit 3 attr AND 0x07"
    unfolding m by (rule bit_word_eqI) (auto simp: bit_drop_bit_eq bit_and_iff bit_mask_iff)
  then show "attr_paper (attr AND 0x7F) = attr_paper attr" by (simp add: attr_paper_def b)
qed

lemma attr_pixels_eq:
  assumes "luts_ok luts"
  shows "fst (attr_pixels alloc luts pixels attr) = cell_pixels pixels (attr_ink attr) (attr_paper attr)"
    and "luts_ok (snd (attr_pixels alloc luts pixels attr))"
  using get_lut_ok [OF assms, of alloc "attr AND 0x7F"]
  by (auto simp: attr_pixels_def eight_pixels_eq lut_entry attr_colours_mask split: prod.split option.split)

section \<open>Addresses in the video page\<close>

lemma or_below: "b < 2 ^ k \<Longrightarrow> (a * 2 ^ k) OR b = a * 2 ^ k + (b :: nat)"
proof -
  assume "b < 2 ^ k"
  then have b: "b = take_bit k b" by (simp add: take_bit_nat_eq_self)
  have "(a * 2 ^ k) AND b = 0"
    by (subst b) (rule bit_eqI, auto simp: bit_and_iff bit_take_bit_iff push_bit_eq_mult [symmetric] bit_push_bit_iff)
  then show ?thesis by (simp add: disjunctive_add_eq_or)
qed

lemma and_field: "(n :: nat) AND push_bit k (mask m) = (n div 2 ^ k mod 2 ^ m) * 2 ^ k"
proof -
  have "n AND push_bit k (mask m) = push_bit k (take_bit m (drop_bit k n))"
    by (rule bit_eqI) (auto simp: bit_and_iff bit_push_bit_iff bit_mask_iff bit_take_bit_iff bit_drop_bit_eq)
  then show ?thesis by (simp add: push_bit_eq_mult take_bit_eq_mod drop_bit_eq_div)
qed

lemma bitmap_offset_eq:
  assumes "y < 192" "x < 32"
  shows "bitmap_offset y x = (y div 64) * 2048 + (y mod 8) * 256 + (y div 8 mod 8) * 32 + x"
proof -
  let ?X = "push_bit 5 (y AND 0xC0) OR push_bit 8 (y AND 0x07) OR push_bit 2 (y AND 0x38) OR x"
  have f: "y AND 0xC0 = (y div 64) * 64" "y AND 0x07 = y mod 8" "y AND 0x38 = (y div 8 mod 8) * 8"
    using and_field [of y 6 2] and_field [of y 0 3] and_field [of y 3 3] assms(1)
    by (simp_all add: mask_eq_exp_minus_1 push_bit_eq_mult)
  have "?X = ((y div 64) * 2 ^ 11) OR (((y mod 8) * 2 ^ 8) OR (((y div 8 mod 8) * 2 ^ 5) OR x))"
    unfolding f by (simp add: push_bit_eq_mult or.assoc mult.assoc)
  also have "\<dots> = (y div 64) * 2048 + (y mod 8) * 256 + (y div 8 mod 8) * 32 + x"
  proof -
    have a: "((y div 8 mod 8) * 2 ^ 5) OR x = (y div 8 mod 8) * 32 + x"
      using assms(2) by (subst or_below) simp_all
    have c: "((y mod 8) * 2 ^ 8) OR ((y div 8 mod 8) * 32 + x) = (y mod 8) * 256 + ((y div 8 mod 8) * 32 + x)"
      using assms(2) by (subst or_below) simp_all
    have d: "((y div 64) * 2 ^ 11) OR ((y mod 8) * 256 + ((y div 8 mod 8) * 32 + x))
        = (y div 64) * 2048 + ((y mod 8) * 256 + ((y div 8 mod 8) * 32 + x))"
      using assms(2) by (subst or_below) simp_all
    show ?thesis unfolding a c d by simp
  qed
  finally have X: "?X = (y div 64) * 2048 + (y mod 8) * 256 + (y div 8 mod 8) * 32 + x" .
  have w: "push_bit 5 (of_nat y AND 0xC0) OR push_bit 8 (of_nat y AND 0x07) OR push_bit 2 (of_nat y AND 0x38) OR of_nat x
      = (of_nat ?X :: u16)"
    by (simp add: of_nat_or_eq of_nat_and_eq flip: push_bit_of_nat)
  let ?N = "(y div 64) * 2048 + (y mod 8) * 256 + (y div 8 mod 8) * 32 + x"
  have "bitmap_offset y x = unat (of_nat ?N :: u16)"
    unfolding bitmap_offset_def Let_def w X ..
  moreover have "?N < 65536" using assms by (simp add: less_mult_imp_div_less)
  ultimately show ?thesis by (simp only: unsigned_of_nat) (simp add: take_bit_nat_eq_self)
qed

lemma attr_offset_eq:
  assumes "y < 192" "x < 32"
  shows "attr_offset y x = 0x1800 + (y div 8) * 32 + x"
proof -
  have "((192 + y div 8) * 2 ^ 5) OR x = (192 + y div 8) * 2 ^ 5 + x"
    using assms(2) by (intro or_below) simp
  then have o: "(0x1800 + (y div 8) * 32) OR x = 0x1800 + (y div 8) * 32 + x" by simp
  have "attr_offset y x = unat (of_nat ((0x1800 + (y div 8) * 32) OR x) :: u16)"
    by (simp only: attr_offset_def of_nat_or_eq)
  moreover have "0x1800 + (y div 8) * 32 + x < 65536" using assms by (simp add: less_mult_imp_div_less)
  ultimately show ?thesis unfolding o by (simp only: unsigned_of_nat) (simp add: take_bit_nat_eq_self)
qed

section \<open>The whole picture\<close>

lemma length_blit [simp]: "at \<le> length buffer \<Longrightarrow> length (blit at ps buffer) = length buffer"
  by (simp add: blit_def)

lemma nth_blit:
  assumes "at + length ps \<le> length buffer" "k < length buffer"
  shows "blit at ps buffer ! k = (if at \<le> k \<and> k < at + length ps then ps ! (k - at) else buffer ! k)"
  using assms by (auto simp: blit_def nth_append min_def)

text \<open>What cell (y, x) shows, and where it is written.\<close>

definition cell_value :: "(nat \<Rightarrow> u8) \<Rightarrow> nat \<times> nat \<Rightarrow> u16 list" where
  "cell_value video c =
     (let attr = video (attr_offset (fst c) (snd c))
      in cell_pixels (video (bitmap_offset (fst c) (snd c))) (attr_ink attr) (attr_paper attr))"

definition cell_pos :: "nat \<Rightarrow> nat \<Rightarrow> nat \<Rightarrow> nat \<times> nat \<Rightarrow> nat" where
  "cell_pos w ox oy c = (oy + fst c) * w + ox + 8 * snd c"

lemma render_cell_eq:
  "luts_ok luts \<Longrightarrow> fst (render_cell alloc video w ox oy c (buffer, luts)) = blit (cell_pos w ox oy c) (cell_value video c) buffer"
  "luts_ok luts \<Longrightarrow> luts_ok (snd (render_cell alloc video w ox oy c (buffer, luts)))"
  using attr_pixels_eq [of luts]
  by (simp_all add: render_cell_def Let_def case_prod_beta cell_pos_def cell_value_def)

lemma render_cells:
  assumes "luts_ok luts" "\<forall>c\<in>set cs. cell_pos w ox oy c + 8 \<le> length buffer" "k < length buffer"
    and "\<forall>c\<in>set cs. cell_pos w ox oy c \<le> k \<and> k < cell_pos w ox oy c + 8 \<longrightarrow> cell_value video c ! (k - cell_pos w ox oy c) = v"
  shows "fst (fold (render_cell alloc video w ox oy) cs (buffer, luts)) ! k =
    (if \<exists>c\<in>set cs. cell_pos w ox oy c \<le> k \<and> k < cell_pos w ox oy c + 8 then v else buffer ! k)"
  using assms
proof (induction cs arbitrary: buffer luts)
  case (Cons c cs)
  let ?r = "render_cell alloc video w ox oy c (buffer, luts)"
  have r: "fst ?r = blit (cell_pos w ox oy c) (cell_value video c) buffer" "luts_ok (snd ?r)"
    using Cons.prems(1) by (rule render_cell_eq)+
  have l: "length (cell_value video c) = 8" by (simp add: cell_value_def Let_def)
  have len: "length (fst ?r) = length buffer" unfolding r(1) using Cons.prems(2) by (intro length_blit) auto
  have IH: "fst (fold (render_cell alloc video w ox oy) cs (fst ?r, snd ?r)) ! k =
    (if \<exists>c\<in>set cs. cell_pos w ox oy c \<le> k \<and> k < cell_pos w ox oy c + 8 then v else fst ?r ! k)"
    using Cons.prems r(2) by (intro Cons.IH) (simp_all add: len)
  have "fst ?r ! k = (if cell_pos w ox oy c \<le> k \<and> k < cell_pos w ox oy c + 8 then v else buffer ! k)"
    using Cons.prems l unfolding r(1) by (subst nth_blit) auto
  then show ?case using IH by auto
qed simp

text \<open>The active area.\<close>

lemma active_area_pixel:
  assumes "luts_ok luts" "y < 192" "x < 256" "ox + 256 \<le> w" "(oy + 192) * w \<le> length buffer"
  shows "fst (renderActiveArea alloc (Some video) w ox oy 192 (buffer, luts)) ! ((oy + y) * w + ox + x) =
    (let attr = video (0x1800 + (y div 8) * 32 + x div 8);
         pixels = video ((y div 64) * 2048 + (y mod 8) * 256 + (y div 8 mod 8) * 32 + x div 8)
     in if bit pixels (7 - x mod 8) then attr_ink attr else attr_paper attr)"
proof -
  let ?k = "(oy + y) * w + ox + x" and ?c = "(y, x div 8)" and ?pos = "cell_pos w ox oy"
  let ?cs = "List.product [0..<192] [0..<32]"
  have div: "((oy + y') * w + r) div w = oy + y' \<and> ((oy + y') * w + r) mod w = r" if "r < w" for y' r
    using that by (simp add: div_mult_self3)
  have k: "?k div w = oy + y" "?k mod w = ox + x" using div [of "ox + x" y] assms(3,4) by (simp_all add: add.assoc)
  have fits: "?pos c + 8 \<le> (oy + 192) * w" if "c \<in> set ?cs" for c
  proof -
    have "fst c \<le> 191" "snd c < 32" using that by auto
    then have "(oy + fst c) * w \<le> (oy + 191) * w" by simp
    moreover have "ox + 8 * snd c + 8 \<le> w" using \<open>snd c < 32\<close> assms(4) by linarith
    moreover have "(oy + 192) * w = (oy + 191) * w + w" by (simp add: algebra_simps)
    ultimately show ?thesis unfolding cell_pos_def by linarith
  qed
  have only: "c = ?c" if c: "c \<in> set ?cs" "?pos c \<le> ?k" "?k < ?pos c + 8" for c
  proof -
    obtain j where j: "?k = ?pos c + j" using c(2) by (metis le_Suc_ex)
    have j8: "j < 8" using c(3) j by simp
    have b: "fst c < 192" "snd c < 32" using c(1) by auto
    have "ox + 8 * snd c + j < w" using b(2) j8 assms(4) by linarith
    from div [OF this, of "fst c"] have "?k div w = oy + fst c" "?k mod w = ox + 8 * snd c + j"
      unfolding j cell_pos_def by (simp_all add: add.assoc)
    then have "fst c = y" "8 * snd c + j = x" using k by linarith+
    moreover from this have "snd c = x div 8" using j8 by arith
    ultimately show ?thesis by (simp add: prod_eq_iff)
  qed
  have at: "?pos ?c \<le> ?k" "?k < ?pos ?c + 8" "?k - ?pos ?c = x mod 8"
    by (simp_all add: cell_pos_def minus_mod_eq_mult_div [symmetric])
  have "?k < length buffer"
  proof -
    have "?k < (oy + y + 1) * w" using assms(3,4) by (simp add: algebra_simps)
    also have "\<dots> \<le> (oy + 192) * w" using assms(2) by (intro mult_right_mono) simp_all
    finally show ?thesis using assms(5) by simp
  qed
  note k_in = this
  let ?v = "cell_value video ?c ! (x mod 8)"
  have "fst (fold (render_cell alloc video w ox oy) ?cs (buffer, luts)) ! ?k =
      (if \<exists>c\<in>set ?cs. ?pos c \<le> ?k \<and> ?k < ?pos c + 8 then ?v else buffer ! ?k)"
  proof (rule render_cells)
    show "luts_ok luts" by (rule assms(1))
    show "\<forall>c\<in>set ?cs. ?pos c + 8 \<le> length buffer"
      using fits assms(5) order_trans by blast
    show "?k < length buffer" by (rule k_in)
    show "\<forall>c\<in>set ?cs. ?pos c \<le> ?k \<and> ?k < ?pos c + 8 \<longrightarrow> cell_value video c ! (?k - ?pos c) = ?v"
    proof (intro ballI impI)
      fix c
      assume "c \<in> set ?cs" "?pos c \<le> ?k \<and> ?k < ?pos c + 8"
      then have "c = ?c" using only by blast
      then show "cell_value video c ! (?k - ?pos c) = ?v" using at(3) by (simp only:)
    qed
  qed
  moreover have "?c \<in> set ?cs" using assms(2,3) by auto
  ultimately have "fst (fold (render_cell alloc video w ox oy) ?cs (buffer, luts)) ! ?k = ?v"
    using at(1,2) by auto
  then show ?thesis
    using assms(2,3)
    by (simp add: renderActiveArea_def cell_value_def cell_pixels_def bitmap_offset_eq attr_offset_eq Let_def)
qed

text \<open>Pixels of no cell keep their colour, and the buffer its size.\<close>

lemma render_cells_length:
  assumes "\<forall>c\<in>set cs. cell_pos w ox oy c \<le> length buffer"
  shows "length (fst (fold (render_cell alloc video w ox oy) cs (buffer, luts))) = length buffer"
  using assms
proof (induction cs arbitrary: buffer luts)
  case (Cons c cs)
  let ?r = "render_cell alloc video w ox oy c (buffer, luts)"
  have len: "length (fst ?r) = length buffer"
    using Cons.prems by (simp add: render_cell_def Let_def case_prod_beta cell_pos_def)
  have "length (fst (fold (render_cell alloc video w ox oy) cs (fst ?r, snd ?r))) = length (fst ?r)"
    by (rule Cons.IH) (use Cons.prems len in simp)
  then show ?case using len by simp
qed simp

lemma active_area_outside:
  assumes "luts_ok luts" "(oy + 192) * w \<le> length buffer" "ox + 256 \<le> w" "k < length buffer"
    and "\<not> (oy \<le> k div w \<and> k div w < oy + 192 \<and> ox \<le> k mod w \<and> k mod w < ox + 256)"
  shows "fst (renderActiveArea alloc (Some video) w ox oy 192 (buffer, luts)) ! k = buffer ! k"
proof -
  let ?cs = "List.product [0..<192] [0..<32]" and ?pos = "cell_pos w ox oy"
  have fits: "?pos c + 8 \<le> length buffer" if "c \<in> set ?cs" for c
  proof -
    have "fst c \<le> 191" "snd c < 32" using that by auto
    then have "(oy + fst c) * w \<le> (oy + 191) * w" by simp
    moreover have "ox + 8 * snd c + 8 \<le> w" using \<open>snd c < 32\<close> assms(3) by linarith
    moreover have "(oy + 192) * w = (oy + 191) * w + w" by (simp add: algebra_simps)
    ultimately show ?thesis using assms(2) unfolding cell_pos_def by linarith
  qed
  have "\<not> (?pos c \<le> k \<and> k < ?pos c + 8)" if c: "c \<in> set ?cs" for c
  proof
    assume k: "?pos c \<le> k \<and> k < ?pos c + 8"
    then obtain j where j: "k = ?pos c + j" by (metis le_Suc_ex)
    have b: "fst c < 192" "snd c < 32" "j < 8" using c k j by auto
    then have r: "ox + 8 * snd c + j < w" "ox \<le> ox + 8 * snd c + j" "ox + 8 * snd c + j < ox + 256"
      using assms(3) by linarith+
    have "k = (oy + fst c) * w + (ox + 8 * snd c + j)" using j by (simp add: cell_pos_def)
    then have "k div w = oy + fst c" "k mod w = ox + 8 * snd c + j" using r(1) by simp_all
    then show False using assms(5) b r by simp
  qed
  then show ?thesis
    using render_cells [OF assms(1), of ?cs w ox oy buffer k video undefined alloc] fits assms(4)
    by (fastforce simp: renderActiveArea_def)
qed

end
