(* ===== verification/Display.thy ===== *)
theory Display
  imports Screen
begin

text \<open>
  The text overlay and the frame buffers of \<open>src/src/display/Display.cpp\<close>.

  \<^item> A frame buffer is the list of its pixels, \<open>None\<close> while it is not allocated.  The panel is
    320 by 240 in both orientations the code selects.
  \<^item> Texts are the characters before the terminating null.  The mutex of the overlay makes
    \<open>display_setOverlayText\<close> one step.
  \<^item> \<open>video_task\<close> says that the video task exists (\<open>s_videoTaskHandle\<close>).  \<open>s_trans_count\<close> counts the SPI
    transactions of the last frame that were not collected; theory \<open>Display_Push\<close> follows it through a
    frame, here a pause clears it.
  \<^item> The SPI and GPIO drivers, the frame counter of the log, and the tasks are not modelled; what is
    handed to the SPI driver for a frame is \<open>lcd_push\<close>.
\<close>

section \<open>State\<close>

record display =
  frame_buffers :: "nat \<Rightarrow> u16 list option"
  draw_buffer :: nat
  overlay_text :: string
  overlay_color :: u16
  overlay_clear_frames :: nat
  pause_video :: bool
  video_task :: bool
  s_trans_count :: int

definition LCD_WIDTH :: nat where "LCD_WIDTH = 320"
definition LCD_HEIGHT :: nat where "LCD_HEIGHT = 240"
definition NUM_STRIPS :: nat where "NUM_STRIPS = 5"
definition OVERLAY_HEIGHT :: nat where "OVERLAY_HEIGHT = 50"

lemmas lcd_size = LCD_WIDTH_def LCD_HEIGHT_def

section \<open>Characters\<close>

definition glyphs :: "u8 list list" where
  "glyphs =
     [[0x3c, 0x66, 0x6e, 0x7e, 0x76, 0x66, 0x3c, 0x00],
      [0x18, 0x38, 0x18, 0x18, 0x18, 0x18, 0x7e, 0x00],
      [0x3c, 0x66, 0x06, 0x0c, 0x18, 0x30, 0x7e, 0x00],
      [0x3c, 0x66, 0x06, 0x1c, 0x06, 0x66, 0x3c, 0x00],
      [0x06, 0x0e, 0x16, 0x26, 0x7e, 0x06, 0x06, 0x00],
      [0x7e, 0x60, 0x7c, 0x06, 0x06, 0x66, 0x3c, 0x00],
      [0x1c, 0x30, 0x60, 0x7c, 0x66, 0x66, 0x3c, 0x00],
      [0x7e, 0x06, 0x0c, 0x18, 0x30, 0x30, 0x30, 0x00],
      [0x3c, 0x66, 0x66, 0x3c, 0x66, 0x66, 0x3c, 0x00],
      [0x3c, 0x66, 0x66, 0x3e, 0x06, 0x0c, 0x38, 0x00],
      [0x00, 0x00, 0x00, 0x00, 0x00, 0x0c, 0x0c, 0x00],
      [0x00, 0x00, 0x0c, 0x0c, 0x00, 0x0c, 0x0c, 0x00],
      [0x3c, 0x66, 0x66, 0x7e, 0x66, 0x66, 0x66, 0x00],
      [0x7c, 0x66, 0x66, 0x7c, 0x66, 0x66, 0x7c, 0x00],
      [0x3c, 0x66, 0x60, 0x60, 0x60, 0x66, 0x3c, 0x00],
      [0x78, 0x6c, 0x66, 0x66, 0x66, 0x6c, 0x78, 0x00],
      [0x7e, 0x60, 0x60, 0x7c, 0x60, 0x60, 0x7e, 0x00],
      [0x7e, 0x60, 0x60, 0x7c, 0x60, 0x60, 0x60, 0x00],
      [0x3c, 0x66, 0x60, 0x6e, 0x66, 0x66, 0x3c, 0x00],
      [0x66, 0x66, 0x66, 0x7e, 0x66, 0x66, 0x66, 0x00],
      [0x3c, 0x18, 0x18, 0x18, 0x18, 0x18, 0x3c, 0x00],
      [0x1e, 0x06, 0x06, 0x06, 0x06, 0x66, 0x3c, 0x00],
      [0x66, 0x6c, 0x78, 0x70, 0x78, 0x6c, 0x66, 0x00],
      [0x60, 0x60, 0x60, 0x60, 0x60, 0x60, 0x7e, 0x00],
      [0x63, 0x77, 0x7f, 0x6b, 0x63, 0x63, 0x63, 0x00],
      [0x66, 0x76, 0x7e, 0x7e, 0x6e, 0x66, 0x66, 0x00],
      [0x3c, 0x66, 0x66, 0x66, 0x66, 0x66, 0x3c, 0x00],
      [0x7c, 0x66, 0x66, 0x7c, 0x60, 0x60, 0x60, 0x00],
      [0x3c, 0x66, 0x66, 0x66, 0x66, 0x3c, 0x0e, 0x00],
      [0x7c, 0x66, 0x66, 0x7c, 0x78, 0x6c, 0x66, 0x00],
      [0x3c, 0x66, 0x30, 0x1c, 0x06, 0x66, 0x3c, 0x00],
      [0x7e, 0x18, 0x18, 0x18, 0x18, 0x18, 0x18, 0x00],
      [0x66, 0x66, 0x66, 0x66, 0x66, 0x66, 0x3c, 0x00],
      [0x66, 0x66, 0x66, 0x66, 0x66, 0x3c, 0x18, 0x00],
      [0x63, 0x63, 0x63, 0x6b, 0x7f, 0x77, 0x63, 0x00],
      [0x66, 0x66, 0x3c, 0x18, 0x3c, 0x66, 0x66, 0x00],
      [0x66, 0x66, 0x66, 0x3c, 0x18, 0x18, 0x18, 0x00],
      [0x7e, 0x06, 0x0c, 0x18, 0x30, 0x60, 0x7e, 0x00],
      [0x00, 0x00, 0x00, 0x00, 0x00, 0x00, 0x00, 0x00],
      [0x00, 0x00, 0x00, 0x7e, 0x00, 0x00, 0x00, 0x00],
      [0x00, 0x02, 0x04, 0x08, 0x10, 0x20, 0x40, 0x00],
      [0x00, 0x01, 0x02, 0x44, 0x28, 0x10, 0x00, 0x00],
      [0x00, 0x3c, 0x42, 0x5a, 0x5a, 0x42, 0x3c, 0x00]]"

definition glyph_index :: "char \<Rightarrow> nat" where
  "glyph_index c =
     (let n = of_char c :: nat
      in if 0x30 \<le> n \<and> n \<le> 0x39 then n - 0x30
         else if c = CHR ''.'' then 10
         else if c = CHR '':'' then 11
         else if 0x41 \<le> n \<and> n \<le> 0x5A then 12 + (n - 0x41)
         else if 0x61 \<le> n \<and> n \<le> 0x7A then 12 + (n - 0x61)
         else if c = CHR '' '' then 38
         else if c = CHR ''-'' then 39
         else if c = CHR ''/'' then 40
         else if n = 0xE2 \<or> n = 0x80 then 41
         else if c = CHR ''?'' then 42
         else 42)"

text \<open>One pixel of a character; a pixel off the screen is skipped.\<close>

definition draw_pixel :: "u8 list \<Rightarrow> int \<Rightarrow> int \<Rightarrow> u16 \<Rightarrow> nat \<times> nat \<Rightarrow> u16 list \<Rightarrow> u16 list" where
  "draw_pixel glyph x y color ij buffer =
     (let (i, j) = ij;
          px = x + int j;
          py = y + int i
      in if glyph ! i AND drop_bit j 0x80 \<noteq> 0
            \<and> 0 \<le> px \<and> px < int LCD_WIDTH \<and> 0 \<le> py \<and> py < int LCD_HEIGHT
         then buffer[nat py * LCD_WIDTH + nat px := color] else buffer)"

definition drawChar :: "u16 list \<Rightarrow> int \<Rightarrow> int \<Rightarrow> char \<Rightarrow> u16 \<Rightarrow> u16 list" where
  "drawChar buffer x y c color =
     fold (draw_pixel (glyphs ! glyph_index c) x y color) (List.product [0..<8] [0..<8]) buffer"

text \<open>A centred line of text.  The width is even, so the division by 2 is exact.\<close>

definition draw_line :: "u16 \<Rightarrow> string \<Rightarrow> int \<Rightarrow> u16 list \<Rightarrow> u16 list" where
  "draw_line color line y buffer =
     (let line_width = int (length line) * 8;
          center_x = (int LCD_WIDTH - line_width) div 2
      in fold (\<lambda>i b. drawChar b (center_x + int i * 8) y (line ! i) color) [0..<length line] buffer)"

text \<open>The scan for lines: a newline at the end starts no further line.\<close>

function overlay_lines :: "string \<Rightarrow> string list" where
  "overlay_lines p =
     (if p = [] then []
      else let line = takeWhile (\<lambda>c. c \<noteq> CHR 0x0A) p;
               line_end = dropWhile (\<lambda>c. c \<noteq> CHR 0x0A) p
           in if line_end = [] then [line] else line # overlay_lines (tl line_end))"
  by pat_completeness auto
termination
proof (relation "measure length")
  fix p line line_end :: string
  assume "p \<noteq> []" "line_end = dropWhile (\<lambda>c. c \<noteq> CHR 0x0A) p" "line_end \<noteq> []"
  then show "(tl line_end, p) \<in> measure length"
  proof -
    assume e: "line_end = dropWhile (\<lambda>c. c \<noteq> CHR 0x0A) p" "line_end \<noteq> []"
    have "length line_end \<le> length p" unfolding e(1) by (rule length_dropWhile_le)
    moreover have "length (tl line_end) < length line_end" using e(2) by simp
    ultimately show ?thesis by simp
  qed
qed simp

declare overlay_lines.simps [simp del]

definition clear_rows :: "nat \<Rightarrow> nat \<Rightarrow> u16 list \<Rightarrow> u16 list" where
  "clear_rows y0 y1 buffer =
     fold (\<lambda>(y, x) b. b[y * LCD_WIDTH + x := 0]) (List.product [y0..<y1] [0..<LCD_WIDTH]) buffer"

section \<open>Frames\<close>

text \<open>\<open>display_present\<close>, up to the transfer: the lines of the overlay go up from the bottom.\<close>

definition draw_overlay :: "u16 \<Rightarrow> string \<Rightarrow> u16 list \<Rightarrow> u16 list" where
  "draw_overlay color text buffer =
     snd (fold (\<lambda>line (y, b). (y - 16, draw_line color line y b)) (overlay_lines text)
            (int LCD_HEIGHT - 10, buffer))"

definition display_present :: "display \<Rightarrow> display" where
  "display_present d =
     (let presentingIndex = draw_buffer d;
          d = d\<lparr>draw_buffer := 1 - draw_buffer d\<rparr>
      in case frame_buffers d presentingIndex of
           None \<Rightarrow> d
         | Some buf \<Rightarrow>
             let overlay_y = LCD_HEIGHT - 10;
                 (buf, n) = (if overlay_clear_frames d > 0
                             then (clear_rows overlay_y LCD_HEIGHT buf, overlay_clear_frames d - 1)
                             else (buf, overlay_clear_frames d));
                 buf = (if overlay_text d \<noteq> [] then draw_overlay (overlay_color d) (overlay_text d) buf else buf)
             in d\<lparr>overlay_clear_frames := n, frame_buffers := (frame_buffers d)(presentingIndex := Some buf)\<rparr>)"

definition display_clear :: "display \<Rightarrow> display" where
  "display_clear d =
     (let d = d\<lparr>frame_buffers := (\<lambda>i. if i < 2 then map_option (\<lambda>b. replicate (LCD_WIDTH * LCD_HEIGHT) 0) (frame_buffers d i)
                                     else frame_buffers d i)\<rparr>
      in display_present (display_present d))"

definition display_setOverlayText :: "display \<Rightarrow> string option \<Rightarrow> u16 \<Rightarrow> display" where
  "display_setOverlayText d text color =
     (let new_swapped_color = bswap16 color;
          will_change =
            (case text of
               Some t \<Rightarrow> overlay_text d = [] \<or> take 64 (overlay_text d) \<noteq> take 64 t \<or> overlay_color d \<noteq> new_swapped_color
             | None \<Rightarrow> overlay_text d \<noteq> [])
      in if \<not> will_change then d
         else let d = (case text of
                         Some t \<Rightarrow> d\<lparr>overlay_text := take 63 t, overlay_clear_frames := 1\<rparr>
                       | None \<Rightarrow>
                           d\<lparr>overlay_text := [], overlay_clear_frames := 2,
                             frame_buffers := (\<lambda>i. if i < 2 then map_option (clear_rows (LCD_HEIGHT - 10) LCD_HEIGHT) (frame_buffers d i)
                                                   else frame_buffers d i)\<rparr>)
              in d\<lparr>overlay_color := new_swapped_color\<rparr>)"

definition display_clearOverlay :: "display \<Rightarrow> display" where
  "display_clearOverlay d = display_setOverlayText d None 0"

definition display_boot_log_add :: "display \<Rightarrow> string option \<Rightarrow> display" where
  "display_boot_log_add d message =
     (case message of None \<Rightarrow> d | Some t \<Rightarrow> display_setOverlayText d (Some t) 0xFFFF)"

text \<open>The boot screen: the overlay area is redrawn in both buffers.\<close>

definition boot_overlay :: "u16 \<Rightarrow> string \<Rightarrow> u16 list \<Rightarrow> u16 list" where
  "boot_overlay color text buf =
     (let y_start = LCD_HEIGHT - OVERLAY_HEIGHT;
          y_end = LCD_HEIGHT;
          buf = clear_rows y_start y_end buf;
          line_color = bswap16 0x07E0;
          buf = fold (\<lambda>x b. b[y_start * LCD_WIDTH + x := line_color]) [0..<LCD_WIDTH] buf
      in if text \<noteq> []
         then let num_lines = 1 + length (filter (\<lambda>c. c = CHR 0x0A) text);
                  total_text_height = int num_lines * 16;
                  start_y = int y_start + (int OVERLAY_HEIGHT - total_text_height) div 2
              in snd (fold (\<lambda>line (y, b). (y + 16,
                        if int y_start \<le> y \<and> y < int y_end then draw_line color line y b else b))
                      (overlay_lines text) (start_y, buf))
         else buf)"

definition display_boot_update :: "display \<Rightarrow> display" where
  "display_boot_update d =
     (case (frame_buffers d 0, frame_buffers d 1) of
        (Some b0, Some b1) \<Rightarrow>
          if LCD_HEIGHT - OVERLAY_HEIGHT < 190 then d
          else d\<lparr>frame_buffers := (frame_buffers d)
                   (0 := Some (boot_overlay (overlay_color d) (overlay_text d) b0),
                    1 := Some (boot_overlay (overlay_color d) (overlay_text d) b1))\<rparr>
      | _ \<Rightarrow> d)"

text \<open>
  The synchronisation with the video task, once there is one.  The wait for its answer ends after 500 ms
  without one, too.
\<close>

definition display_pause_for_reset :: "display \<Rightarrow> display" where
  "display_pause_for_reset d = (if \<not> video_task d then d else d\<lparr>pause_video := True, s_trans_count := 0\<rparr>)"

definition display_resume_after_reset :: "display \<Rightarrow> display" where
  "display_resume_after_reset d = (if \<not> video_task d then d else display_clear (d\<lparr>pause_video := False\<rparr>))"

section \<open>The transfer to the panel\<close>

text \<open>A frame goes out in strips, each with its window: columns, rows, pixels.\<close>

record strip =
  strip_columns :: "u8 list"
  strip_rows :: "u8 list"
  strip_pixels :: "u16 list"

definition be16 :: "nat \<Rightarrow> u8 list" where
  "be16 n = [of_nat (n div 256), of_nat n]"

definition lcd_strip :: "u16 list \<Rightarrow> nat \<Rightarrow> strip" where
  "lcd_strip buffer i =
     (let linesPerStrip = LCD_HEIGHT div NUM_STRIPS;
          startY = i * linesPerStrip;
          height = (if i = NUM_STRIPS - 1 then LCD_HEIGHT - startY else linesPerStrip)
      in \<lparr>strip_columns = be16 0 @ be16 (LCD_WIDTH - 1), strip_rows = be16 startY @ be16 (startY + height - 1),
          strip_pixels = take (LCD_WIDTH * height) (drop (startY * LCD_WIDTH) buffer)\<rparr>)"

definition lcd_push :: "u16 list \<Rightarrow> strip list" where
  "lcd_push buffer = map (lcd_strip buffer) [0..<NUM_STRIPS]"

section \<open>Drawing\<close>

lemma fold_paint:
  assumes "\<And>k. k \<in> set ks \<Longrightarrow> P k \<Longrightarrow> at k < length buffer"
  shows "length (fold (\<lambda>k b. if P k then b[at k := color] else b) ks buffer) = length buffer
    \<and> (\<forall>n<length buffer. fold (\<lambda>k b. if P k then b[at k := color] else b) ks buffer ! n =
         (if \<exists>k\<in>set ks. P k \<and> at k = n then color else buffer ! n))"
  using assms
proof (induction ks arbitrary: buffer)
  case (Cons k ks)
  let ?b = "if P k then buffer[at k := color] else buffer"
  have "length ?b = length buffer" by simp
  moreover have "\<And>k'. k' \<in> set ks \<Longrightarrow> P k' \<Longrightarrow> at k' < length ?b" using Cons.prems by simp
  ultimately show ?case using Cons.IH [of ?b] Cons.prems by (auto simp: nth_list_update)
qed simp

text \<open>Pixel \<open>(px, py)\<close> of a whole frame.\<close>

definition pixel :: "u16 list \<Rightarrow> nat \<Rightarrow> nat \<Rightarrow> u16" where
  "pixel buffer px py = buffer ! (py * LCD_WIDTH + px)"

definition frame_ok :: "u16 list \<Rightarrow> bool" where
  "frame_ok buffer \<longleftrightarrow> length buffer = LCD_WIDTH * LCD_HEIGHT"

lemma pixel_pos_eq:
  "px < LCD_WIDTH \<Longrightarrow> qx < LCD_WIDTH \<Longrightarrow> py * LCD_WIDTH + px = qy * LCD_WIDTH + qx \<longleftrightarrow> py = qy \<and> px = qx"
proof
  assume a: "px < LCD_WIDTH" "qx < LCD_WIDTH" "py * LCD_WIDTH + px = qy * LCD_WIDTH + qx"
  have "(p * LCD_WIDTH + x) div LCD_WIDTH = p" if "x < LCD_WIDTH" for p x using that by simp
  then have "py = qy" using a by metis
  then show "py = qy \<and> px = qx" using a by simp
qed simp

lemma pixel_pos_less: "px < LCD_WIDTH \<Longrightarrow> py < LCD_HEIGHT \<Longrightarrow> py * LCD_WIDTH + px < LCD_WIDTH * LCD_HEIGHT"
  by (simp add: lcd_size)

text \<open>The bit of a glyph under a pixel, for a character at \<open>(x, y)\<close>.\<close>

definition char_covers :: "char \<Rightarrow> int \<Rightarrow> int \<Rightarrow> nat \<Rightarrow> nat \<Rightarrow> bool" where
  "char_covers c x y px py \<longleftrightarrow>
     x \<le> int px \<and> int px < x + 8 \<and> y \<le> int py \<and> int py < y + 8
     \<and> glyphs ! glyph_index c ! nat (int py - y) AND drop_bit (nat (int px - x)) 0x80 \<noteq> 0"

lemma draw_pixel_fold:
  "drawChar buffer x y c color =
     fold (\<lambda>k b. if glyphs ! glyph_index c ! fst k AND drop_bit (snd k) 0x80 \<noteq> 0
         \<and> 0 \<le> x + int (snd k) \<and> x + int (snd k) < int LCD_WIDTH \<and> 0 \<le> y + int (fst k) \<and> y + int (fst k) < int LCD_HEIGHT
       then b[nat (y + int (fst k)) * LCD_WIDTH + nat (x + int (snd k)) := color] else b)
       (List.product [0..<8] [0..<8]) buffer"
  unfolding drawChar_def by (rule fold_cong) (auto simp: draw_pixel_def Let_def fun_eq_iff)

lemma drawChar_pixel:
  assumes "frame_ok buffer"
  shows "frame_ok (drawChar buffer x y c color)"
    and "px < LCD_WIDTH \<Longrightarrow> py < LCD_HEIGHT \<Longrightarrow>
      pixel (drawChar buffer x y c color) px py = (if char_covers c x y px py then color else pixel buffer px py)"
proof -
  let ?P = "\<lambda>k. glyphs ! glyph_index c ! fst k AND drop_bit (snd k) 0x80 \<noteq> 0
         \<and> 0 \<le> x + int (snd k) \<and> x + int (snd k) < int LCD_WIDTH \<and> 0 \<le> y + int (fst k) \<and> y + int (fst k) < int LCD_HEIGHT"
  let ?at = "\<lambda>k. nat (y + int (fst k)) * LCD_WIDTH + nat (x + int (snd k))"
  let ?ks = "List.product [0..<8::nat] [0..<8::nat]"
  have b: "?at k < length buffer" if "?P k" for k
  proof -
    have "nat (x + int (snd k)) < LCD_WIDTH" "nat (y + int (fst k)) < LCD_HEIGHT" using that by linarith+
    then show ?thesis using assms pixel_pos_less by (simp add: frame_ok_def)
  qed
  note f = fold_paint [of ?ks ?P ?at buffer color, OF b]
  show "frame_ok (drawChar buffer x y c color)"
    using f assms unfolding draw_pixel_fold frame_ok_def by simp
  assume p: "px < LCD_WIDTH" "py < LCD_HEIGHT"
  have n: "py * LCD_WIDTH + px < length buffer" using p assms pixel_pos_less by (simp add: frame_ok_def)
  have "(\<exists>k\<in>set ?ks. ?P k \<and> ?at k = py * LCD_WIDTH + px) \<longleftrightarrow> char_covers c x y px py"
  proof
    assume "\<exists>k\<in>set ?ks. ?P k \<and> ?at k = py * LCD_WIDTH + px"
    then obtain k where k: "fst k < 8" "snd k < 8" "?P k" "?at k = py * LCD_WIDTH + px" by auto
    moreover have "nat (x + int (snd k)) < LCD_WIDTH" using k(3) by linarith
    ultimately have "nat (y + int (fst k)) = py" "nat (x + int (snd k)) = px"
      using p pixel_pos_eq [of "nat (x + int (snd k))" px "nat (y + int (fst k))" py] by auto
    then have "int py = y + int (fst k)" "int px = x + int (snd k)" using k(3) by linarith+
    then show "char_covers c x y px py" using k(1-3) by (simp add: char_covers_def)
  next
    assume v: "char_covers c x y px py"
    let ?k = "(nat (int py - y), nat (int px - x))"
    have "?k \<in> set ?ks" using v by (auto simp: char_covers_def)
    moreover have "?P ?k \<and> ?at ?k = py * LCD_WIDTH + px" using v p by (auto simp: char_covers_def)
    ultimately show "\<exists>k\<in>set ?ks. ?P k \<and> ?at k = py * LCD_WIDTH + px" by blast
  qed
  then show "pixel (drawChar buffer x y c color) px py = (if char_covers c x y px py then color else pixel buffer px py)"
    using f n unfolding draw_pixel_fold pixel_def by simp
qed

section \<open>The rows an operation keeps\<close>

definition keeps_above :: "nat \<Rightarrow> u16 list \<Rightarrow> u16 list \<Rightarrow> bool" where
  "keeps_above r b b' \<longleftrightarrow> frame_ok b' \<and> (\<forall>px<LCD_WIDTH. \<forall>py<min r LCD_HEIGHT. pixel b' px py = pixel b px py)"

lemma keeps_above_refl: "frame_ok b \<Longrightarrow> keeps_above r b b"
  by (simp add: keeps_above_def)

lemma keeps_above_trans: "keeps_above r a b \<Longrightarrow> keeps_above r b c \<Longrightarrow> keeps_above r a c"
  by (simp add: keeps_above_def)

lemma keeps_above_frame: "keeps_above r a b \<Longrightarrow> frame_ok b"
  by (simp add: keeps_above_def)

lemma keeps_above_fold:
  assumes "\<And>x b. x \<in> set xs \<Longrightarrow> frame_ok b \<Longrightarrow> keeps_above r b (f x b)" "frame_ok b"
  shows "keeps_above r b (fold f xs b)"
  using assms
proof (induction xs arbitrary: b)
  case (Cons x xs)
  have k: "keeps_above r b (f x b)" using Cons.prems by simp
  have "keeps_above r (f x b) (fold f xs (f x b))"
    by (rule Cons.IH [OF _ keeps_above_frame [OF k]]) (simp add: Cons.prems)
  with k show ?case by (simp add: keeps_above_trans [of r b "f x b"])
qed (simp add: keeps_above_refl)

lemma drawChar_keeps: "frame_ok b \<Longrightarrow> int r \<le> y \<Longrightarrow> keeps_above r b (drawChar b x y c color)"
  by (auto simp: keeps_above_def drawChar_pixel char_covers_def)

lemma draw_line_keeps: "frame_ok b \<Longrightarrow> int r \<le> y \<Longrightarrow> keeps_above r b (draw_line color line y b)"
  unfolding draw_line_def Let_def by (rule keeps_above_fold) (simp_all add: drawChar_keeps)

lemma paint_keeps:
  assumes "frame_ok b" "\<And>k. k \<in> set ks \<Longrightarrow> row k < LCD_HEIGHT \<and> r \<le> row k \<and> col k < LCD_WIDTH"
  shows "keeps_above r b (fold (\<lambda>k b. b[row k * LCD_WIDTH + col k := color]) ks b)"
proof -
  have l: "row k * LCD_WIDTH + col k < length b" if "k \<in> set ks" for k
    using assms(1) assms(2) [OF that] pixel_pos_less by (simp add: frame_ok_def)
  note f = fold_paint [of ks "\<lambda>_. True" "\<lambda>k. row k * LCD_WIDTH + col k" b color, simplified, OF l]
  have "pixel (fold (\<lambda>k b. b[row k * LCD_WIDTH + col k := color]) ks b) px py = pixel b px py"
    if p: "px < LCD_WIDTH" "py < min r LCD_HEIGHT" for px py
  proof -
    have "py * LCD_WIDTH + px < length b" using p assms(1) pixel_pos_less by (simp add: frame_ok_def)
    moreover have "row k * LCD_WIDTH + col k \<noteq> py * LCD_WIDTH + px" if "k \<in> set ks" for k
      using assms(2) [OF that] p pixel_pos_eq [of "col k" px "row k" py] by auto
    ultimately show ?thesis using f by (auto simp: pixel_def)
  qed
  then show ?thesis using f assms(1) by (simp add: keeps_above_def frame_ok_def)
qed

lemma clear_rows_keeps:
  assumes "frame_ok b" "r \<le> y0" "y1 \<le> LCD_HEIGHT"
  shows "keeps_above r b (clear_rows y0 y1 b)"
  using paint_keeps [OF assms(1), of "List.product [y0..<y1] [0..<LCD_WIDTH]" fst r snd 0] assms(2,3)
  by (auto simp: clear_rows_def case_prod_unfold)

lemma boot_lines_keep:
  assumes "frame_ok b"
  shows "keeps_above r b (snd (fold (\<lambda>line (y, b). (y + 16,
      if int r \<le> y \<and> y < int LCD_HEIGHT then draw_line color line y b else b)) ls (y, b)))"
  using assms
proof (induction ls arbitrary: y b)
  case (Cons l ls)
  let ?b = "if int r \<le> y \<and> y < int LCD_HEIGHT then draw_line color l y b else b"
  have k: "keeps_above r b ?b" using Cons.prems by (simp add: draw_line_keeps keeps_above_refl)
  note keeps_above_trans [OF k Cons.IH [OF keeps_above_frame [OF k], of "y + 16"]]
  then show ?case by (simp only: fold_simps comp_apply prod.case)
qed (simp add: keeps_above_refl)

lemma boot_overlay_keeps:
  assumes "frame_ok b"
  shows "keeps_above 190 b (boot_overlay color text b)"
proof -
  let ?c = "clear_rows 190 LCD_HEIGHT b"
  let ?l = "fold (\<lambda>x b. b[190 * LCD_WIDTH + x := bswap16 0x07E0]) [0..<LCD_WIDTH] ?c"
  have h: "LCD_HEIGHT - OVERLAY_HEIGHT = 190" by (simp add: LCD_HEIGHT_def OVERLAY_HEIGHT_def)
  have c: "keeps_above 190 b ?c" using assms by (simp add: clear_rows_keeps)
  have "keeps_above 190 ?c ?l"
    using paint_keeps [OF keeps_above_frame [OF c], of "[0..<LCD_WIDTH]" "\<lambda>_. 190" 190 "\<lambda>x. x" "bswap16 0x07E0"]
    by (simp add: LCD_HEIGHT_def)
  with c have l: "keeps_above 190 b ?l" by (rule keeps_above_trans)
  have n: "int 190 = 190" by simp
  show ?thesis
    unfolding boot_overlay_def h Let_def
    using keeps_above_trans [OF l boot_lines_keep [OF keeps_above_frame [OF l]]] l by simp
qed

section \<open>Properties\<close>

text \<open>The splash image, in the rows above the boot messages, is never touched.\<close>

text \<open>C40 (boot_update_protects): A boot update, whatever the message, writes only below row 190: in
both frame buffers every pixel of the splash image above is kept, and the buffers keep their size.\<close>

theorem boot_update_protects:
  assumes "i < 2" "frame_buffers d i = Some b" "frame_ok b"
  shows "\<exists>b'. frame_buffers (display_boot_update d) i = Some b' \<and> frame_ok b'
    \<and> (\<forall>px<LCD_WIDTH. \<forall>py<190. pixel b' px py = pixel b px py)"
proof -
  have "keeps_above 190 b (boot_overlay (overlay_color d) (overlay_text d) b)" by (rule boot_overlay_keeps [OF assms(3)])
  then have k: "frame_ok (boot_overlay (overlay_color d) (overlay_text d) b)"
    "px < LCD_WIDTH \<Longrightarrow> py < 190 \<Longrightarrow> pixel (boot_overlay (overlay_color d) (overlay_text d) b) px py = pixel b px py" for px py
    by (simp_all add: keeps_above_def LCD_HEIGHT_def)
  show ?thesis
    using assms k by (auto simp: display_boot_update_def less_2_cases split: option.splits)
qed

theorem boot_update_protects_witness:
  "\<exists>b'. frame_buffers (display_boot_update \<lparr>frame_buffers = \<lambda>_. Some (replicate (LCD_WIDTH * LCD_HEIGHT) 7),
       draw_buffer = 0, overlay_text = ''Boot'', overlay_color = 0xFFFF, overlay_clear_frames = 0, pause_video = False,
       video_task = True, s_trans_count = 0\<rparr>) 0
     = Some b' \<and> pixel b' 3 189 = 7"
proof -
  let ?d = "\<lparr>frame_buffers = \<lambda>_. Some (replicate (LCD_WIDTH * LCD_HEIGHT) (7 :: u16)),
       draw_buffer = 0, overlay_text = ''Boot'', overlay_color = 0xFFFF, overlay_clear_frames = 0, pause_video = False,
       video_task = True, s_trans_count = 0\<rparr>"
  have "pixel (replicate (LCD_WIDTH * LCD_HEIGHT) 7) 3 189 = 7" by (simp add: pixel_def lcd_size)
  moreover have "frame_ok (replicate (LCD_WIDTH * LCD_HEIGHT) 7)" by (simp add: frame_ok_def)
  ultimately show ?thesis
    using boot_update_protects [of 0 ?d "replicate (LCD_WIDTH * LCD_HEIGHT) 7"] by (fastforce simp: lcd_size)
qed

text \<open>The strips of a frame are the frame, and their windows are its rows in order.\<close>

lemma concat_slices: "concat (map (\<lambda>i. take n (drop (i * n) xs)) [0..<k]) = take (k * n) xs"
proof (induction k)
  case (Suc k)
  have "take (k * n + n) xs = take (k * n) xs @ take n (drop (k * n) xs)" by (rule take_add)
  then show ?case using Suc by (simp add: add.commute)
qed simp

theorem lcd_push_whole:
  assumes "frame_ok b"
  shows "concat (map strip_pixels (lcd_push b)) = b
    \<and> map strip_rows (lcd_push b) = map (\<lambda>i. be16 (48 * i) @ be16 (48 * i + 47)) [0..<5]
    \<and> (\<forall>s\<in>set (lcd_push b). length (strip_pixels s) = 48 * LCD_WIDTH)"
proof -
  have s: "strip_pixels (lcd_strip b i) = take 15360 (drop (i * 15360) b)"
    "strip_rows (lcd_strip b i) = be16 (48 * i) @ be16 (48 * i + 47)" if "i < 5" for i
  proof -
    have r: "i * 48 + 48 - 1 = 48 * i + 47" "i * 48 = 48 * i" by simp_all
    have h: "(if i = 5 - 1 then 240 - i * (240 div 5) else 240 div 5) = (48 :: nat)" by simp
    show "strip_pixels (lcd_strip b i) = take 15360 (drop (i * 15360) b)"
      "strip_rows (lcd_strip b i) = be16 (48 * i) @ be16 (48 * i + 47)"
      unfolding lcd_strip_def Let_def lcd_size NUM_STRIPS_def h by (simp_all add: r mult.commute [of i] add.commute [of _ 47])
  qed
  have "map strip_pixels (lcd_push b) = map (\<lambda>i. take 15360 (drop (i * 15360) b)) [0..<5]"
    by (simp add: lcd_push_def NUM_STRIPS_def s)
  then have "concat (map strip_pixels (lcd_push b)) = b"
    using assms concat_slices [of 15360 b 5] by (simp add: frame_ok_def lcd_size)
  moreover have "length (strip_pixels (lcd_strip b i)) = 48 * LCD_WIDTH" if "i < 5" for i
    using that assms by (auto simp: s frame_ok_def lcd_size)
  ultimately show ?thesis by (auto simp: lcd_push_def NUM_STRIPS_def s)
qed

theorem lcd_push_whole_witness:
  "concat (map strip_pixels (lcd_push (replicate (LCD_WIDTH * LCD_HEIGHT) 7))) = replicate (LCD_WIDTH * LCD_HEIGHT) 7"
  using lcd_push_whole [of "replicate (LCD_WIDTH * LCD_HEIGHT) 7"] by (simp add: frame_ok_def)

text \<open>The tick of the boot message \<open>Keyboard\<close> is three bytes of UTF-8: it shows as a tick and two question marks.\<close>

theorem tick_glyphs: "map glyph_index [CHR 0xE2, CHR 0x9C, CHR 0x93] = [41, 42, 42]"
  by (simp add: glyph_index_def)

end
