(* ===== verification/IEEE.thy ===== *)
theory IEEE
  imports Prelude Complex_Main "HOL-Library.Log_Nat"
begin

text \<open>
  The floating-point arithmetic of the sound code.  A finite \<open>float\<close> or \<open>double\<close> is its rational
  value; an operation is the exact one followed by rounding to nearest, ties to even, with the
  precision and the least exponent of the format.  Values that overflow, infinities and NaNs do not
  occur in the code and are not represented; every operation is rounded by itself, that is without
  contraction to a fused multiply-add.
\<close>

definition pow2 :: "int \<Rightarrow> rat" where
  "pow2 e = (if 0 \<le> e then 2 ^ nat e else 1 / 2 ^ nat (- e))"

text \<open>The exponent of the leading bit of a positive number.\<close>

definition ilog2 :: "rat \<Rightarrow> int" where
  "ilog2 x =
     (let (p, q) = quotient_of x;
          e = bitlen p - bitlen q
      in if pow2 e \<le> x then e else e - 1)"

definition round_even :: "rat \<Rightarrow> int" where
  "round_even x =
     (let n = \<lfloor>x\<rfloor>;
          d = x - of_int n
      in if d < 1 / 2 then n else if 1 / 2 < d then n + 1 else if even n then n else n + 1)"

definition round_to :: "int \<Rightarrow> int \<Rightarrow> rat \<Rightarrow> rat" where
  "round_to prec emin x =
     (if x = 0 then 0
      else let u = pow2 (max (ilog2 \<bar>x\<bar> - (prec - 1)) emin)
           in of_int (round_even (x / u)) * u)"

definition f32 :: "rat \<Rightarrow> rat" where "f32 x = round_to 24 (- 149) x"
definition f64 :: "rat \<Rightarrow> rat" where "f64 x = round_to 53 (- 1074) x"

text \<open>Conversion to an integer truncates towards zero; conversion to \<open>int16_t\<close> wraps.\<close>

definition trunc :: "rat \<Rightarrow> int" where
  "trunc x = (if 0 \<le> x then \<lfloor>x\<rfloor> else \<lceil>x\<rceil>)"

definition int16 :: "int \<Rightarrow> int" where
  "int16 n = (n + 2 ^ 15) mod 2 ^ 16 - 2 ^ 15"

lemma int16_bounds: "- 32768 \<le> int16 n" "int16 n \<le> 32767"
proof -
  have "0 \<le> (n + 2 ^ 15) mod 2 ^ 16" "(n + 2 ^ 15) mod 2 ^ 16 < 2 ^ 16" by simp_all
  then show "- 32768 \<le> int16 n" "int16 n \<le> 32767" by (simp_all add: int16_def)
qed

lemma int16_small: "- 32768 \<le> n \<Longrightarrow> n \<le> 32767 \<Longrightarrow> int16 n = n"
  by (simp add: int16_def)

lemma pow2_pos [simp]: "0 < pow2 e"
  by (simp add: pow2_def)

text \<open>Rounding keeps the sign and does not move an integer multiple of the unit.\<close>

lemma round_even_of_int [simp]: "round_even (of_int n) = n"
  by (simp add: round_even_def)

lemma round_even_nonneg: "0 \<le> x \<Longrightarrow> 0 \<le> round_even x"
  by (auto simp: round_even_def Let_def intro: order_trans [of 0 "\<lfloor>x\<rfloor>"])

lemma round_to_nonneg: "0 \<le> x \<Longrightarrow> 0 \<le> round_to prec emin x"
  using round_even_nonneg by (auto simp: round_to_def Let_def less_imp_le intro!: mult_nonneg_nonneg)

lemma f32_nonneg: "0 \<le> x \<Longrightarrow> 0 \<le> f32 x" and f64_nonneg: "0 \<le> x \<Longrightarrow> 0 \<le> f64 x"
  by (simp_all add: f32_def f64_def round_to_nonneg)

lemma f32_0 [simp]: "f32 0 = 0" and f64_0 [simp]: "f64 0 = 0"
  by (simp_all add: f32_def f64_def round_to_def)

end
