(* ===== verification/Beeper.thy ===== *)
theory Beeper
  imports IEEE
begin

text \<open>
  The beeper of \<open>src/src/spectrum/Beeper.h\<close> and \<open>Beeper.cpp\<close>: two square waves, the speaker bit and
  the tape's EAR bit, rendered to 882 samples a frame with a correction of the two samples around
  each transition.  The sample buffers are lists of 882 integers; \<open>stray\<close> records that the code has
  written or read outside \<open>m_frameBuffer\<close>, which C++ leaves undefined: it is set by \<open>put_sample\<close>, through
  which every access of a single sample goes, and never cleared.
\<close>

definition FRAME_T_STATES :: nat where "FRAME_T_STATES = 69888"
definition SAMPLES_PER_FRAME :: nat where "SAMPLES_PER_FRAME = 882"
definition AMPLITUDE :: rat where "AMPLITUDE = 3276"
definition TAPE_GAIN :: rat where "TAPE_GAIN = f32 (35 / 100)"

record beeper =
  frame_buffer :: "int list"
  render_buffer :: "int list"
  rendered :: nat
  speaker_corr :: rat
  tape_corr :: rat
  speaker_level :: u8
  tape_level :: u8
  external_ear :: bool
  monitor_enabled :: bool
  speaker_enabled :: bool
  volume :: rat
  stray :: bool

definition beeper_new :: beeper where
  "beeper_new =
     \<lparr>frame_buffer = replicate SAMPLES_PER_FRAME 0, render_buffer = replicate SAMPLES_PER_FRAME 0,
      rendered = 0, speaker_corr = 0, tape_corr = 0, speaker_level = 0, tape_level = 0,
      external_ear = False, monitor_enabled = True, speaker_enabled = True, volume = 1,
      stray = False\<rparr>"

definition beeper_reset :: "beeper \<Rightarrow> beeper" where
  "beeper_reset b =
     b\<lparr>rendered := 0, speaker_corr := 0, tape_corr := 0, speaker_level := 0, tape_level := 0,
       external_ear := False, monitor_enabled := True, speaker_enabled := True,
       frame_buffer := replicate SAMPLES_PER_FRAME 0, render_buffer := replicate SAMPLES_PER_FRAME 0\<rparr>"

definition setVolume :: "beeper \<Rightarrow> rat \<Rightarrow> beeper" where
  "setVolume b vol = b\<lparr>volume := (if vol > 1 then 1 else if vol < 0 then 0 else vol)\<rparr>"

definition speakerAmp :: "beeper \<Rightarrow> rat" where
  "speakerAmp b = f32 (volume b * AMPLITUDE)"

definition tapeAmp :: "beeper \<Rightarrow> rat" where
  "tapeAmp b = f32 (f32 (volume b * AMPLITUDE) * TAPE_GAIN)"

section \<open>Rendering\<close>

text \<open>\<open>((uint64_t)tstates * SAMPLES_PER_FRAME) / FRAME_T_STATES\<close>, and the start of a sample.\<close>

definition sample_of :: "nat \<Rightarrow> nat" where
  "sample_of tstates = tstates * SAMPLES_PER_FRAME div FRAME_T_STATES"

definition clamp16 :: "int \<Rightarrow> int" where
  "clamp16 x = (if x > 32767 then 32767 else if x < - 32768 then - 32768 else x)"

definition clamp_float :: "rat \<Rightarrow> rat" where
  "clamp_float y = (if y > 32767 then 32767 else if y < - 32768 then - 32768 else y)"

text \<open>The access \<open>m_frameBuffer[i] = f (m_frameBuffer[i])\<close>.\<close>

definition put_sample :: "nat \<Rightarrow> (int \<Rightarrow> int) \<Rightarrow> beeper \<Rightarrow> beeper" where
  "put_sample i f b =
     (if i < length (frame_buffer b) then b\<lparr>frame_buffer := (frame_buffer b)[i := f (frame_buffer b ! i)]\<rparr>
      else b\<lparr>stray := True\<rparr>)"

text \<open>One iteration of \<open>renderSamples\<close>; the correction tails are added once and cleared.\<close>

definition render_sample :: "rat \<Rightarrow> rat \<Rightarrow> beeper \<Rightarrow> nat \<Rightarrow> beeper" where
  "render_sample speaker_vol tape_vol b i =
     (let s_base = (if speaker_level b \<noteq> 0 then speaker_vol else - speaker_vol);
          t_base = (if tape_level b \<noteq> 0 then tape_vol else 0);
          y = f32 (s_base + t_base);
          y = f32 (y + speaker_corr b);
          y = f32 (y + tape_corr b);
          y = clamp_float y
      in put_sample i (\<lambda>x. int16 (x + trunc y)) (b\<lparr>speaker_corr := 0, tape_corr := 0\<rparr>))"

definition renderSamples :: "beeper \<Rightarrow> nat \<Rightarrow> nat \<Rightarrow> beeper" where
  "renderSamples b start end_excl =
     (let speaker_vol = (if speaker_enabled b then speakerAmp b else 0);
          tape_vol = (if monitor_enabled b then tapeAmp b else 0)
      in fold (\<lambda>i b. render_sample speaker_vol tape_vol b i) [start..<end_excl] b)"

definition renderTo :: "beeper \<Rightarrow> nat \<Rightarrow> beeper" where
  "renderTo b tstates =
     (let target = sample_of tstates;
          target = (if target > SAMPLES_PER_FRAME then SAMPLES_PER_FRAME else target)
      in if target > rendered b then (renderSamples b (rendered b) target)\<lparr>rendered := target\<rparr> else b)"

section \<open>Transitions\<close>

text \<open>
  The shared arithmetic of the two event functions: the position p of the event inside sample i, the
  corrected sample, and what is carried into the next one.
\<close>

definition event_pos :: "nat \<Rightarrow> nat \<Rightarrow> rat" where
  "event_pos tstates i =
     (let start_t = i * FRAME_T_STATES div SAMPLES_PER_FRAME;
          p = f32 (f32 (f32 (of_nat ((tstates + 2 ^ 32 - start_t) mod 2 ^ 32)) * of_nat SAMPLES_PER_FRAME) / of_nat FRAME_T_STATES)
      in if p > 1 then 1 else p)"

definition corrected_sample :: "beeper \<Rightarrow> nat \<Rightarrow> rat \<Rightarrow> rat \<Rightarrow> beeper" where
  "corrected_sample b i h p =
     (let p_sq = f32 (p * p);
          correction_i = f32 (h * f32 (f32 (p - f32 (p_sq * (1 / 2))) - 1 / 2))
      in put_sample i (\<lambda>x. clamp16 (x + trunc correction_i)) b)"

definition next_corr :: "rat \<Rightarrow> rat \<Rightarrow> rat \<Rightarrow> rat" where
  "next_corr old h p = f32 (old + f32 (f32 (h * f32 (p * p)) * (1 / 2)))"

definition recordSpeakerEvent :: "beeper \<Rightarrow> nat \<Rightarrow> u8 \<Rightarrow> beeper" where
  "recordSpeakerEvent b tstates level =
     (if level = speaker_level b then b
      else let b = renderTo b tstates;
               i = sample_of tstates;
               b = (if i < SAMPLES_PER_FRAME
                    then let vol_amp = speakerAmp b;
                             old_v = (if speaker_level b \<noteq> 0 then vol_amp else - vol_amp);
                             new_v = (if level \<noteq> 0 then vol_amp else - vol_amp);
                             h = f32 (new_v - old_v);
                             p = event_pos tstates i;
                             b = corrected_sample b i h p
                         in if i + 1 < SAMPLES_PER_FRAME
                            then b\<lparr>speaker_corr := next_corr (speaker_corr b) h p\<rparr> else b
                    else b)
           in b\<lparr>speaker_level := level\<rparr>)"

definition recordTapeEvent :: "beeper \<Rightarrow> nat \<Rightarrow> u8 \<Rightarrow> beeper" where
  "recordTapeEvent b tstates level =
     (if level = tape_level b then b
      else let b = renderTo b tstates;
               i = sample_of tstates;
               b = (if i < SAMPLES_PER_FRAME
                    then let tape_amp = tapeAmp b;
                             old_v = (if tape_level b \<noteq> 0 then tape_amp else 0);
                             new_v = (if level \<noteq> 0 then tape_amp else 0);
                             h = f32 (new_v - old_v);
                             p = event_pos tstates i;
                             b = corrected_sample b i h p
                         in if i + 1 < SAMPLES_PER_FRAME
                            then b\<lparr>tape_corr := next_corr (tape_corr b) h p\<rparr> else b
                    else b)
           in b\<lparr>tape_level := level\<rparr>)"

definition copyForFrame :: "beeper \<Rightarrow> beeper" where
  "copyForFrame b =
     (let b = renderTo b FRAME_T_STATES
      in b\<lparr>render_buffer := frame_buffer b, frame_buffer := replicate SAMPLES_PER_FRAME 0, rendered := 0\<rparr>)"

definition getFrameBuffer :: "beeper \<Rightarrow> nat \<Rightarrow> int list" where
  "getFrameBuffer b num_samples =
     take (if num_samples < SAMPLES_PER_FRAME then num_samples else SAMPLES_PER_FRAME) (render_buffer b)
     @ (if num_samples > SAMPLES_PER_FRAME then replicate (num_samples - SAMPLES_PER_FRAME) 0 else [])"

section \<open>The buffers\<close>

definition int16_list :: "int list \<Rightarrow> bool" where
  "int16_list xs \<longleftrightarrow> (\<forall>x\<in>set xs. - 32768 \<le> x \<and> x \<le> 32767)"

text \<open>
  Both buffers hold a frame of 16-bit samples, the cursor is inside the frame, and no access has left
  the buffer.
\<close>

definition beeper_ok :: "beeper \<Rightarrow> bool" where
  "beeper_ok b \<longleftrightarrow> length (frame_buffer b) = SAMPLES_PER_FRAME \<and> length (render_buffer b) = SAMPLES_PER_FRAME
     \<and> int16_list (frame_buffer b) \<and> int16_list (render_buffer b) \<and> rendered b \<le> SAMPLES_PER_FRAME
     \<and> \<not> stray b"

lemma int16_list_update:
  "int16_list xs \<Longrightarrow> - 32768 \<le> x \<Longrightarrow> x \<le> 32767 \<Longrightarrow> int16_list (xs[i := x])"
  by (auto simp: int16_list_def dest!: set_update_subset_insert [THEN subsetD])

lemma int16_list_zero [simp]: "int16_list (replicate n 0)"
  by (simp add: int16_list_def)

lemma levels_ok [simp]:
  "beeper_ok (speaker_level_update f b) = beeper_ok b" "beeper_ok (tape_level_update f b) = beeper_ok b"
  "beeper_ok (speaker_corr_update g b) = beeper_ok b" "beeper_ok (tape_corr_update g b) = beeper_ok b"
  "beeper_ok (monitor_enabled_update h b) = beeper_ok b" "beeper_ok (speaker_enabled_update h b) = beeper_ok b"
  by (simp_all add: beeper_ok_def)

lemma put_sample_ok:
  assumes "beeper_ok b" "i < SAMPLES_PER_FRAME" "\<And>x. - 32768 \<le> f x \<and> f x \<le> 32767"
  shows "beeper_ok (put_sample i f b)"
  using assms by (simp add: beeper_ok_def put_sample_def int16_list_update)

lemma render_sample_ok: "beeper_ok b \<Longrightarrow> i < SAMPLES_PER_FRAME \<Longrightarrow> beeper_ok (render_sample sv tv b i)"
  by (simp add: render_sample_def Let_def put_sample_ok int16_bounds)

lemma render_fold_ok:
  "beeper_ok b \<Longrightarrow> \<forall>i\<in>set is. i < SAMPLES_PER_FRAME \<Longrightarrow> beeper_ok (fold (\<lambda>i b. render_sample sv tv b i) is b)"
  by (induction "is" arbitrary: b) (simp_all add: render_sample_ok)

lemma renderSamples_ok: "beeper_ok b \<Longrightarrow> n \<le> SAMPLES_PER_FRAME \<Longrightarrow> beeper_ok (renderSamples b m n)"
  by (simp add: renderSamples_def Let_def render_fold_ok)

lemma rendered_ok: "beeper_ok b \<Longrightarrow> n \<le> SAMPLES_PER_FRAME \<Longrightarrow> beeper_ok (b\<lparr>rendered := n\<rparr>)"
  by (simp add: beeper_ok_def)

lemma renderTo_ok: "beeper_ok b \<Longrightarrow> beeper_ok (renderTo b n)"
  by (simp add: renderTo_def Let_def renderSamples_ok rendered_ok)

lemma corrected_sample_ok: "beeper_ok b \<Longrightarrow> i < SAMPLES_PER_FRAME \<Longrightarrow> beeper_ok (corrected_sample b i h p)"
  by (simp add: corrected_sample_def Let_def put_sample_ok clamp16_def)

lemma beeper_ops_ok:
  "beeper_ok beeper_new" "beeper_ok b \<Longrightarrow> beeper_ok (beeper_reset b)"
  "beeper_ok b \<Longrightarrow> beeper_ok (recordSpeakerEvent b n l)"
  "beeper_ok b \<Longrightarrow> beeper_ok (recordTapeEvent b n l)"
  "beeper_ok b \<Longrightarrow> beeper_ok (copyForFrame b)"
proof -
  show "beeper_ok beeper_new"
    by (simp add: beeper_ok_def beeper_new_def)
  show "beeper_ok (beeper_reset b)" if "beeper_ok b"
    using that by (simp add: beeper_ok_def beeper_reset_def)
  show "beeper_ok (recordSpeakerEvent b n l)" "beeper_ok (recordTapeEvent b n l)" if "beeper_ok b"
    using that by (simp_all add: recordSpeakerEvent_def recordTapeEvent_def Let_def renderTo_ok corrected_sample_ok)
  show "beeper_ok (copyForFrame b)" if "beeper_ok b"
    using renderTo_ok [OF that, of FRAME_T_STATES] by (simp add: copyForFrame_def Let_def) (simp add: beeper_ok_def)
qed

lemma corrected_sample_corr [simp]:
  "speaker_corr (corrected_sample b i h p) = speaker_corr b" "tape_corr (corrected_sample b i h p) = tape_corr b"
  by (simp_all add: corrected_sample_def put_sample_def Let_def)

text \<open>Sample i covers its share of the frame: the event of a T-state belongs to the sample it falls in.\<close>

lemma sample_of_frame: "tstates < FRAME_T_STATES \<Longrightarrow> sample_of tstates < SAMPLES_PER_FRAME"
  by (simp add: sample_of_def FRAME_T_STATES_def SAMPLES_PER_FRAME_def div_less_iff_less_mult)

lemma sample_of_mono: "m \<le> n \<Longrightarrow> sample_of m \<le> sample_of n"
  by (simp add: sample_of_def div_le_mono)

section \<open>Properties\<close>

text \<open>C37 (beeper_buffers_safe): Recording events, rendering and publishing a frame never read or write
a sample outside the frame buffer, keep the beeper's values in range, and leave no correction for
a sample after the last; the frame buffer delivers as many samples as asked for.\<close>

theorem beeper_buffers_safe:
  assumes "beeper_ok b"
  shows "beeper_ok (renderTo b n) \<and> beeper_ok (recordSpeakerEvent b n l) \<and> beeper_ok (recordTapeEvent b n l)
    \<and> beeper_ok (copyForFrame b) \<and> length (getFrameBuffer b k) = k
    \<and> (SAMPLES_PER_FRAME \<le> sample_of n + 1 \<longrightarrow>
         (l \<noteq> speaker_level b \<longrightarrow> speaker_corr (recordSpeakerEvent b n l) = speaker_corr (renderTo b n))
         \<and> (l \<noteq> tape_level b \<longrightarrow> tape_corr (recordTapeEvent b n l) = tape_corr (renderTo b n)))"
proof -
  have "length (getFrameBuffer b k) = k" using assms by (simp add: getFrameBuffer_def beeper_ok_def)
  moreover have "speaker_corr (recordSpeakerEvent b n l) = speaker_corr (renderTo b n)"
    if "SAMPLES_PER_FRAME \<le> sample_of n + 1" "l \<noteq> speaker_level b"
    using that by (simp add: recordSpeakerEvent_def Let_def)
  moreover have "tape_corr (recordTapeEvent b n l) = tape_corr (renderTo b n)"
    if "SAMPLES_PER_FRAME \<le> sample_of n + 1" "l \<noteq> tape_level b"
    using that by (simp add: recordTapeEvent_def Let_def)
  ultimately show ?thesis using assms by (simp add: renderTo_ok beeper_ops_ok)
qed

theorem beeper_buffers_safe_witness:
  "beeper_ok beeper_new \<and> beeper_ok (recordSpeakerEvent beeper_new 400 1)
   \<and> beeper_ok (recordTapeEvent beeper_new 70000 1)"
  using beeper_ops_ok(1) beeper_buffers_safe [OF beeper_ops_ok(1), of 400 1, THEN conjunct2, THEN conjunct1]
    beeper_buffers_safe [OF beeper_ops_ok(1), of 70000 1, THEN conjunct2, THEN conjunct2, THEN conjunct1]
  by (intro conjI)

end
