(* ===== verification/Input.thy ===== *)
theory Input
  imports Prelude
begin

text \<open>
  The keyboard matrix and the joystick of \<open>src/src/input/Input.cpp\<close>: the two static variables and
  the functions on them.  A pressed key is a 0 bit of its row, a pressed joystick button a 1 bit.
\<close>

record input =
  kb_rows :: "u8 list"
  joystick :: u8

definition input_setKeyboardRow :: "input \<Rightarrow> nat \<Rightarrow> u8 \<Rightarrow> input" where
  "input_setKeyboardRow s row columns =
     (if row < 8 then s\<lparr>kb_rows := (kb_rows s)[row := columns]\<rparr> else s)"

definition input_update_key :: "input \<Rightarrow> nat \<Rightarrow> nat \<Rightarrow> bool \<Rightarrow> input" where
  "input_update_key s row n pressed =
     (if row < 8 \<and> n < 5
      then if pressed then s\<lparr>kb_rows := (kb_rows s)[row := kb_rows s ! row AND NOT (push_bit n 1)]\<rparr>
           else s\<lparr>kb_rows := (kb_rows s)[row := kb_rows s ! row OR push_bit n 1]\<rparr>
      else s)"

definition input_getKeyboardRow :: "input \<Rightarrow> nat \<Rightarrow> u8" where
  "input_getKeyboardRow s row = kb_rows s ! (row mod 8)"

definition input_resetKeyboardRows :: "input \<Rightarrow> input" where
  "input_resetKeyboardRows s = s\<lparr>kb_rows := replicate 8 0xFF\<rparr>"

definition input_setJoystickBit :: "input \<Rightarrow> nat \<Rightarrow> bool \<Rightarrow> input" where
  "input_setJoystickBit s n pressed =
     (if n > 4 then s
      else if pressed then s\<lparr>joystick := joystick s OR push_bit n 1\<rparr>
      else s\<lparr>joystick := joystick s AND NOT (push_bit n 1)\<rparr>)"

definition input_getJoystick :: "input \<Rightarrow> u8" where
  "input_getJoystick s = joystick s"

text \<open>The initial state: the boot code resets the rows, the joystick starts at 0.\<close>

definition input_new :: input where
  "input_new = \<lparr>kb_rows = replicate 8 0xFF, joystick = 0\<rparr>"

section \<open>The matrix\<close>

definition input_ok :: "input \<Rightarrow> bool" where
  "input_ok s \<longleftrightarrow> length (kb_rows s) = 8"

definition key_down :: "input \<Rightarrow> nat \<Rightarrow> nat \<Rightarrow> bool" where
  "key_down s row n \<longleftrightarrow> \<not> bit (kb_rows s ! row) n"

lemma bit_set_clear:
  fixes v :: u8
  assumes "n < 8"
  shows "bit (v AND NOT (2 ^ n)) m \<longleftrightarrow> bit v m \<and> m \<noteq> n"
    and "bit (v OR 2 ^ n) m \<longleftrightarrow> bit v m \<or> m = n"
proof -
  have p: "bit (2 ^ n :: u8) m \<longleftrightarrow> m = n"
    using assms by (simp only: bit_exp_iff possible_bit_word) auto
  have "bit v m \<Longrightarrow> m < 8" by (auto dest: bit_imp_le_length)
  then show "bit (v AND NOT (2 ^ n)) m \<longleftrightarrow> bit v m \<and> m \<noteq> n"
    by (simp only: bit_and_iff bit_not_iff p possible_bit_word) auto
  show "bit (v OR 2 ^ n) m \<longleftrightarrow> bit v m \<or> m = n" by (simp only: bit_or_iff p)
qed

section \<open>Properties\<close>

text \<open>A key event changes its own key and no other.\<close>

theorem key_update:
  assumes "input_ok s" "row < 8" "n < 5" "r < 8"
  shows "key_down (input_update_key s row n pressed) r m =
    (if r = row \<and> m = n then pressed else key_down s r m)"
  using assms by (auto simp: input_ok_def key_down_def input_update_key_def nth_list_update bit_set_clear)

theorem key_update_witness:
  "key_down (input_update_key input_new 3 2 True) 3 2"
  using key_update [of input_new 3 2 3 True 2] by (simp add: input_ok_def input_new_def)

end
