(* ===== verification/Spectrum.thy ===== *)
theory Spectrum
  imports Z80_Frame Z80_Memory Tape_Player Beeper Input Screen
begin

text \<open>
  The class \<open>SpectrumBase\<close> of \<open>src/src/spectrum/SpectrumBase.h\<close> with its memory map, its shared port
  handlers, the tape flush and the ULA (\<open>SpectrumBase_Memory.cpp\<close>, \<open>_IO.cpp\<close>, \<open>_Tape.cpp\<close>,
  \<open>_ULA.cpp\<close> and part of \<open>SpectrumBase.cpp\<close>).

  \<^item> The object embeds the CPU and the CPU's \<open>ctx\<close> points back to it, so the state of a machine is a
    \<open>z80\<close> whose \<open>ctx\<close> is the record \<open>spectrum\<close> of the other fields.  The two machines extend the
    record, as the classes extend \<open>SpectrumBase\<close>; what the base class reaches through a virtual
    function is a parameter (\<open>rom_active\<close> is \<open>isTapeRomActive\<close>).
  \<^item> \<open>sp_input\<close> is the state of \<open>Input.cpp\<close>, which the port handlers read.
  \<^item> The arrays of border events with their counts are the lists of the events recorded so far.  The
    32- and 16-bit clocks of the ULA are \<open>nat\<close> with the wrap-around written out;
    \<open>m_pendingTapeTstates\<close>, a signed integer that never gets near its bound, is an \<open>int\<close>.
\<close>

section \<open>State\<close>

record spectrum =
  read_map :: "nat \<Rightarrow> ptr option"
  write_map :: "nat \<Rightarrow> ptr option"
  rom :: "ptr option"
  rom_size :: nat
  video_page :: "ptr option"
  last_rendered_border :: u8
  border_events :: "border_event list"
  initial_border :: u8
  render_events :: "border_event list"
  render_initial :: u8
  ula_clocks :: nat
  ula_scanline :: nat
  ula_cycle :: nat
  border_color :: u8
  last_speaker :: u8
  last_ear :: bool
  sp_beeper :: beeper
  sp_tape :: tape
  tape_monitor :: bool
  pending_tape :: int
  was_in_ld :: bool
  sp_input :: input

type_synonym 'm machine = "'m spectrum_scheme z80"

definition MAX_BORDER_EVENTS :: nat where "MAX_BORDER_EVENTS = 1024"
definition T_STATES_PER_LINE :: nat where "T_STATES_PER_LINE = 224"
definition FRAME_LINES :: nat where "FRAME_LINES = 312"
definition FIRST_ACTIVE_LINE :: nat where "FIRST_ACTIVE_LINE = 64"
definition ACTIVE_LINES :: nat where "ACTIVE_LINES = 192"
definition ACTIVE_CYCLES_PER_LINE :: nat where "ACTIVE_CYCLES_PER_LINE = 128"

lemmas ula_constants =
  FRAME_T_STATES_def T_STATES_PER_LINE_def FRAME_LINES_def FIRST_ACTIVE_LINE_def ACTIVE_LINES_def
  ACTIVE_CYCLES_PER_LINE_def

text \<open>A change of the fields outside the CPU.\<close>

definition upd_ctx :: "('m spectrum_scheme \<Rightarrow> 'm spectrum_scheme) \<Rightarrow> 'm machine \<Rightarrow> 'm machine" where
  "upd_ctx f s = s\<lparr>ctx := f (ctx s)\<rparr>"

section \<open>Memory\<close>

text \<open>\<open>read\<close> and \<open>write\<close>.  A null read page is not dereferenced by any machine that was set up.\<close>

definition spec_read :: "'m machine \<Rightarrow> u16 \<Rightarrow> u8" where
  "spec_read s a =
     (case read_map (ctx s) (page_of a) of
        Some p \<Rightarrow> heap s (ptr_add p (page_offset a))
      | None \<Rightarrow> 0)"

definition spec_write :: "'m machine \<Rightarrow> u16 \<Rightarrow> u8 \<Rightarrow> 'm machine" where
  "spec_write s a v =
     (case write_map (ctx s) (page_of a) of
        Some p \<Rightarrow> s\<lparr>heap := (heap s)(ptr_add p (page_offset a) := v)\<rparr>
      | None \<Rightarrow> s)"

definition updateMap :: "'m machine \<Rightarrow> int \<Rightarrow> ptr option \<Rightarrow> bool \<Rightarrow> 'm machine" where
  "updateMap s block p writable =
     (if 0 \<le> block \<and> block < 4
      then let i = nat block;
               w = (if writable then p else None)
           in (upd_ctx (\<lambda>c. c\<lparr>read_map := (read_map c)(i := p), write_map := (write_map c)(i := w)\<rparr>) s)
                \<lparr>page_read := (page_read s)(i := p), page_write := (page_write s)(i := w)\<rparr>
      else s)"

text \<open>\<open>memset\<close> and \<open>memcpy\<close> on host memory.\<close>

definition mem_fill :: "(ptr \<Rightarrow> u8) \<Rightarrow> ptr \<Rightarrow> nat \<Rightarrow> u8 \<Rightarrow> ptr \<Rightarrow> u8" where
  "mem_fill h p n v q = (if fst q = fst p \<and> snd p \<le> snd q \<and> snd q < snd p + n then v else h q)"

definition mem_store :: "(ptr \<Rightarrow> u8) \<Rightarrow> ptr \<Rightarrow> u8 list \<Rightarrow> ptr \<Rightarrow> u8" where
  "mem_store h p bs q =
     (if fst q = fst p \<and> snd p \<le> snd q \<and> snd q < snd p + length bs then bs ! (snd q - snd p) else h q)"

text \<open>\<open>loadROM\<close> with the bytes \<open>fread\<close> delivers; a short file is an error after the bytes are stored.\<close>

definition loadROM :: "'m machine \<Rightarrow> u8 list option \<Rightarrow> bool \<times> 'm machine" where
  "loadROM s content =
     (case rom (ctx s) of
        None \<Rightarrow> (False, s)
      | Some p \<Rightarrow>
          (case content of
             None \<Rightarrow> (False, s)
           | Some bytes \<Rightarrow>
               let bytes = take (rom_size (ctx s)) bytes;
                   s = s\<lparr>heap := mem_store (heap s) p bytes\<rparr>
               in (length bytes = rom_size (ctx s), s)))"

section \<open>The tape flush\<close>

text \<open>The callback of \<open>advance\<close>, over the toggles of the batch.\<close>

definition tape_toggle :: "bool \<Rightarrow> nat \<Rightarrow> nat \<times> bool \<Rightarrow> 'm spectrum_scheme \<Rightarrow> 'm spectrum_scheme" where
  "tape_toggle audible start_ula_clocks ev c =
     (let (offset, e) = ev;
          c = (if audible
               then c\<lparr>sp_beeper := recordTapeEvent (sp_beeper c) (u32_of (start_ula_clocks + offset)) (if e then 1 else 0)\<rparr>
               else c)
      in c\<lparr>last_ear := e\<rparr>)"

definition flush_monitor :: "bool \<Rightarrow> u16 \<Rightarrow> 'm spectrum_scheme \<Rightarrow> 'm spectrum_scheme" where
  "flush_monitor active pc c =
     (let mode = tapeModeProfile (tp_mode (sp_tape c));
          speaker_path_enabled =
            (if exclusiveMonitorDuringRomLoad mode \<and> tape_monitor c
             then \<not> (active \<and> 0x0556 \<le> pc \<and> pc < 0x0800)
             else True)
      in c\<lparr>sp_beeper := (sp_beeper c)\<lparr>monitor_enabled := audibleTransport mode, speaker_enabled := speaker_path_enabled\<rparr>\<rparr>)"

definition flushTape :: "('m machine \<Rightarrow> bool) \<Rightarrow> 'm machine \<Rightarrow> 'm machine" where
  "flushTape rom_active s =
     (if pending_tape (ctx s) \<le> 0 then s
      else let tstates = nat (pending_tape (ctx s));
               s = upd_ctx (\<lambda>c. c\<lparr>pending_tape := 0\<rparr>) s;
               audible = audibleTransport (tapeModeProfile (tp_mode (sp_tape (ctx s))));
               s = upd_ctx (flush_monitor (rom_active s) (reg_pc s)) s;
               start_ula_clocks = u32_of (ula_clocks (ctx s) + 2 ^ 32 - tstates);
               (t, evs) = tape_advance (sp_tape (ctx s)) tstates
           in upd_ctx (\<lambda>c. fold (tape_toggle audible start_ula_clocks) evs (c\<lparr>sp_tape := t\<rparr>)) s)"

section \<open>Port 0xFE\<close>

definition writePortFE :: "'m machine \<Rightarrow> u8 \<Rightarrow> 'm machine" where
  "writePortFE s value =
     upd_ctx (\<lambda>c.
       let newColor = value AND 0x07;
           c = (if newColor \<noteq> border_color c
                then let c = (if length (border_events c) < MAX_BORDER_EVENTS
                              then c\<lparr>border_events := border_events c @ [\<lparr>ev_tstates = ula_clocks c, ev_color = newColor\<rparr>]\<rparr>
                              else c)
                     in c\<lparr>border_color := newColor\<rparr>
                else c);
           c = c\<lparr>last_speaker := drop_bit 4 value AND 0x01\<rparr>
       in c\<lparr>sp_beeper := recordSpeakerEvent (sp_beeper c) (ula_clocks c) (last_speaker c)\<rparr>) s"

definition keyboard_read :: "input \<Rightarrow> u16 \<Rightarrow> u8" where
  "keyboard_read i port =
     (let sel = c_uint8 (NOT (drop_bit 8 port))
      in fold (\<lambda>r kbd. if bit sel r then kbd AND input_getKeyboardRow i r else kbd) [0, 1, 2, 3, 4, 5, 6, 7] 0xFF)"

definition readPortFE :: "('m machine \<Rightarrow> bool) \<Rightarrow> 'm machine \<Rightarrow> u16 \<Rightarrow> u8 \<times> 'm machine" where
  "readPortFE rom_active s port =
     (let s = flushTape rom_active s;
          val = 0xBF;
          val = val AND keyboard_read (sp_input (ctx s)) port;
          val = (if ear (sp_tape (ctx s)) then val OR 0x40 else val AND NOT 0x40);
          val = val OR 0xA0
      in (val, s))"

section \<open>The ULA\<close>

definition screenMemoryAddress :: "nat \<Rightarrow> nat \<Rightarrow> u16" where
  "screenMemoryAddress line xByte =
     0x4000 OR push_bit 11 (of_nat line AND 0x07) OR push_bit 5 (of_nat line AND 0x38)
     OR push_bit 2 (of_nat line AND 0xC0) OR of_nat xByte"

definition attributeMemoryAddress :: "nat \<Rightarrow> nat \<Rightarrow> u16" where
  "attributeMemoryAddress line xByte = of_nat (0x5800 + (line div 8) * 32 + xByte)"

definition getFloatingBusValue :: "'m machine \<Rightarrow> u8" where
  "getFloatingBusValue s =
     (let line = ula_scanline (ctx s);
          cycle = ula_cycle (ctx s)
      in if line < FIRST_ACTIVE_LINE \<or> line \<ge> FIRST_ACTIVE_LINE + ACTIVE_LINES then 0xFF
         else if cycle \<ge> ACTIVE_CYCLES_PER_LINE then 0xFF
         else let offset = cycle mod 8
              in if offset \<ge> 4 then 0xFF
                 else let cell = cycle div 8;
                          xByte = 2 * cell + offset div 2 mod 2;
                          requestAttribute = odd offset;
                          lineInDisplay = line - FIRST_ACTIVE_LINE;
                          addr = (if requestAttribute then attributeMemoryAddress lineInDisplay xByte
                                  else screenMemoryAddress lineInDisplay xByte)
                      in case read_map (ctx s) (page_of addr) of
                           Some p \<Rightarrow> heap s (ptr_add p (page_offset addr))
                         | None \<Rightarrow> 0xFF)"

text \<open>The loop that turns cycles into scan lines.\<close>

function ula_lines :: "nat \<Rightarrow> nat \<Rightarrow> nat \<times> nat" where
  "ula_lines cycle scanline =
     (if cycle \<ge> T_STATES_PER_LINE
      then let scanline = (scanline + 1) mod 2 ^ 16
           in ula_lines (cycle - T_STATES_PER_LINE) (if scanline \<ge> FRAME_LINES then 0 else scanline)
      else (cycle, scanline))"
  by pat_completeness auto
termination
  by (relation "measure fst") (auto simp: T_STATES_PER_LINE_def)

declare ula_lines.simps [simp del]

definition publish_frame :: "'m spectrum_scheme \<Rightarrow> 'm spectrum_scheme" where
  "publish_frame c =
     (let c = c\<lparr>render_events := border_events c, render_initial := initial_border c\<rparr>;
          c = c\<lparr>sp_beeper := copyForFrame (sp_beeper c)\<rparr>
      in c\<lparr>initial_border := border_color c, border_events := []\<rparr>)"

definition advanceULA :: "('m machine \<Rightarrow> bool) \<Rightarrow> 'm spectrum_scheme bus \<Rightarrow> 'm machine \<Rightarrow> int \<Rightarrow> 'm machine option" where
  "advanceULA rom_active B s tstates =
     (let s = upd_ctx (\<lambda>c. c\<lparr>ula_clocks := u32_of (ula_clocks c + nat (tstates mod 2 ^ 32))\<rparr>) s;
          frame = (if ula_clocks (ctx s) \<ge> FRAME_T_STATES
                   then let s = flushTape rom_active s;
                            s = upd_ctx (\<lambda>c. c\<lparr>ula_clocks := ula_clocks c - FRAME_T_STATES\<rparr>) s;
                            s = upd_ctx publish_frame s
                        in map_option snd (z80_interrupt B s 0xFF)
                   else Some s)
      in map_option (\<lambda>s. upd_ctx (\<lambda>c.
           let (cycle, scanline) = ula_lines ((ula_cycle c + nat (tstates mod 2 ^ 16)) mod 2 ^ 16) (ula_scanline c)
           in c\<lparr>ula_cycle := cycle, ula_scanline := scanline\<rparr>) s) frame)"

section \<open>Construction and reset\<close>

text \<open>The constructor and the shared reset restore the CPU's cached pointers from the maps.\<close>

definition wire_pages :: "'m machine \<Rightarrow> 'm machine" where
  "wire_pages s =
     s\<lparr>page_read := (\<lambda>i. if i < 4 then read_map (ctx s) i else page_read s i),
       page_write := (\<lambda>i. if i < 4 then write_map (ctx s) i else page_write s i)\<rparr>"

definition base_reset :: "'m machine \<Rightarrow> 'm machine" where
  "base_reset s =
     (let s = upd_ctx (\<lambda>c. c\<lparr>border_color := 0, last_speaker := 0, last_ear := False, pending_tape := 0,
                initial_border := 0, border_events := [], render_initial := 0, render_events := [],
                sp_input := input_resetKeyboardRows (sp_input c),
                ula_clocks := 0, ula_scanline := 0, ula_cycle := 0\<rparr>) s;
          s = z80_init s;
          s = s\<lparr>halted := 0\<rparr>;
          s = wire_pages s
      in upd_ctx (\<lambda>c. c\<lparr>sp_beeper := beeper_reset (sp_beeper c), sp_tape := tape_stop (sp_tape c),
                was_in_ld := False\<rparr>) s)"

definition base_new :: "input \<Rightarrow> spectrum" where
  "base_new i =
     \<lparr>read_map = (\<lambda>_. None), write_map = (\<lambda>_. None), rom = None, rom_size = 0, video_page = None,
      last_rendered_border = 0xFF, border_events = [], initial_border = 0, render_events = [],
      render_initial = 0, ula_clocks = 0, ula_scanline = 0, ula_cycle = 0, border_color = 0,
      last_speaker = 0, last_ear = False, sp_beeper = beeper_new, sp_tape = tape_new,
      tape_monitor = False, pending_tape = 0, was_in_ld = False, sp_input = input_resetKeyboardRows i\<rparr>"

end
