(* ===== verification/Tape_Load.thy ===== *)
theory Tape_Load
  imports Spectrum
begin

text \<open>
  What \<open>src/src/spectrum/Tape.cpp\<close> does with a whole machine: the load trap and the instant load
  (lines 55 to 90, 349 to 360 and 577 to 889), and \<open>SpectrumBase::step\<close>, which calls the latter.

  \<^item> A pointer into the tape image is its index in the image.
  \<^item> \<open>getBlockContent\<close> writes its results through pointers; they are an option, \<open>None\<close> when the
    function returns before it writes them.  A caller that reads its variables then reads
    uninitialised memory, and the model of the caller returns \<open>None\<close>.
  \<^item> The diagnostic text of the last instant load, and the counters that only it uses, are left out.
\<close>

section \<open>Blocks\<close>

definition image_byte :: "tape \<Rightarrow> nat \<Rightarrow> u8" where
  "image_byte t i = (case tp_data t of None \<Rightarrow> 0 | Some d \<Rightarrow> d ! i)"

definition isDataBlock :: "tape \<Rightarrow> int \<Rightarrow> bool" where
  "isDataBlock t idx =
     (if idx < 0 \<or> idx \<ge> int (num_blocks t) then False
      else let b = blocks t ! nat idx
           in blk_data b \<noteq> None \<and> blk_length b > 0
              \<and> (blk_type b = 0x10 \<or> blk_type b = 0x11 \<or> blk_type b = 0x14))"

definition xor_bytes :: "tape \<Rightarrow> nat \<Rightarrow> nat \<Rightarrow> u8 \<Rightarrow> u8" where
  "xor_bytes t off n acc = fold (\<lambda>i acc. acc XOR image_byte t (off + i)) [0..<n] acc"

definition getBlockContent :: "tape \<Rightarrow> int \<Rightarrow> bool \<times> (nat \<times> nat \<times> u8) option" where
  "getBlockContent t idx =
     (if \<not> isDataBlock t idx then (False, None)
      else let b = blocks t ! nat idx;
               off = the (blk_data b)
           in if blk_type b = 0x14 then (True, Some (off, blk_length b, 0xFF))
              else if blk_length b < 2 then (False, None)
              else let out = Some (off + 1, blk_length b - 2, image_byte t off)
                   in if blk_type b = 0x10 \<or> blk_type b = 0x11
                      then (xor_bytes t off (blk_length b - 1) 0 = image_byte t (off + (blk_length b - 1)), out)
                      else (True, out))"

function seek_from :: "tape \<Rightarrow> nat \<Rightarrow> int \<times> nat" where
  "seek_from t i =
     (if i < num_blocks t
      then if isDataBlock t (int i) then (int i, i) else seek_from t (i + 1)
      else (- 1, i))"
  by pat_completeness auto
termination
  by (relation "measure (\<lambda>(t, i). num_blocks t - i)") auto

declare seek_from.simps [simp del]

definition seekToNextDataBlock :: "tape \<Rightarrow> int \<times> tape" where
  "seekToNextDataBlock t = (let (r, i) = seek_from t (block_idx t) in (r, t\<lparr>block_idx := i\<rparr>))"

section \<open>The load trap\<close>

definition popPC :: "'m machine \<Rightarrow> u16 \<times> 'm machine" where
  "popPC s =
     (let lo = c_uint16 (spec_read s (reg_sp s));
          hi = c_uint16 (spec_read s (reg_sp s + 1));
          s = s\<lparr>reg_sp := reg_sp s + 2\<rparr>
      in (lo OR push_bit 8 hi, s))"

definition trapReturn :: "'m machine \<Rightarrow> bool \<Rightarrow> 'm machine" where
  "trapReturn s carry =
     (let s = (if carry then s\<lparr>reg_f := reg_f s OR Z80_CF\<rparr> else s\<lparr>reg_f := reg_f s AND NOT Z80_CF\<rparr>);
          (pc, s) = popPC s
      in s\<lparr>reg_pc := pc\<rparr>)"

text \<open>The bytes are copied one after the other, so a block may overwrite what it was read by.\<close>

definition store_bytes :: "tape \<Rightarrow> nat \<Rightarrow> u16 \<Rightarrow> nat \<Rightarrow> 'm machine \<Rightarrow> 'm machine" where
  "store_bytes t off addr n s =
     fold (\<lambda>i s. spec_write s (addr + of_nat i) (image_byte t (off + i))) [0..<n] s"

definition serviceLoadTrap :: "'m machine \<Rightarrow> (int \<times> 'm machine) option" where
  "serviceLoadTrap s =
     (let (found, t) = seekToNextDataBlock (sp_tape (ctx s));
          s = upd_ctx (\<lambda>c. c\<lparr>sp_tape := t\<rparr>) s
      in if found < 0 then Some (11, trapReturn s False)
         else case snd (getBlockContent t (int (block_idx t))) of
           None \<Rightarrow> None
         | Some (content, contentLen, tapeFlag) \<Rightarrow>
             let raw = the (blk_data (cur_block t));
                 rawLen = blk_length (cur_block t);
                 s = upd_ctx (\<lambda>c. c\<lparr>sp_tape := t\<lparr>block_idx := block_idx t + 1\<rparr>\<rparr>) s;
                 expectedFlag = reg_a s;
                 de = unat (DE s);
                 ix = reg_ix s;
                 isLoad = (reg_f s AND Z80_CF \<noteq> 0)
             in if tapeFlag \<noteq> expectedFlag \<or> de > contentLen then Some (11, trapReturn s False)
                else let parity = xor_bytes t content de tapeFlag;
                         s = (if isLoad then store_bytes t content ix de s else s);
                         last = image_byte t (raw + (rawLen - 1));
                         ok = (de \<noteq> contentLen \<or> parity XOR last = 0);
                         s = s\<lparr>reg_ix := ix + of_nat de, reg_d := 0, reg_e := 0, reg_a := last\<rparr>
                     in Some (11, trapReturn s ok))"

section \<open>Which machine a tape is for\<close>

text \<open>The loop of \<open>looks128K\<close> over one block: the previous address, the repeats and the total size.\<close>

definition looks_block :: "tape \<Rightarrow> nat \<Rightarrow> u16 \<times> nat \<times> nat \<Rightarrow> u16 \<times> nat \<times> nat" where
  "looks_block t i acc =
     (let (prev_addr, dups, total) = acc
      in if \<not> isDataBlock t (int i) then acc
         else let b = blocks t ! i;
                  off = the (blk_data b)
              in if blk_type b = 0x10 \<or> blk_type b = 0x11
                 then if blk_length b = 19 \<and> image_byte t off = 0
                      then let ty = image_byte t (off + 1);
                               start = pair16 (image_byte t (off + 15)) (image_byte t (off + 14))
                           in if ty = 3 \<and> start \<noteq> 0
                              then (start, if start = prev_addr \<and> start \<ge> 0x8000 then dups + 1 else dups, total)
                              else acc
                      else if image_byte t off \<ge> 0x80 then (prev_addr, dups, (total + blk_length b) mod 2 ^ 32)
                      else acc
                 else acc)"

definition looks128K :: "tape \<Rightarrow> bool" where
  "looks128K t =
     (if num_blocks t < 3 then False
      else let (prev_addr, dups, total) = fold (looks_block t) [0..<num_blocks t] (0, 0, 0)
           in dups \<ge> 1 \<or> total > 42000)"

definition canPlay :: "tape \<Rightarrow> bool \<Rightarrow> bool" where
  "canPlay t is128k =
     (if \<not> tp_enabled t \<or> tp_data t = None then True
      else if looks128K t \<and> \<not> is128k then False
      else True)"

section \<open>The entry point of a BASIC loader\<close>

definition ZX_TOKEN_USR :: u8 where "ZX_TOKEN_USR = 192"
definition ROM_LINE_NEW :: u16 where "ROM_LINE_NEW = 0x1B9E"

text \<open>A program is the function that reads its bytes, with its length.\<close>

function skip_spaces :: "(nat \<Rightarrow> u8) \<Rightarrow> nat \<Rightarrow> nat \<Rightarrow> nat" where
  "skip_spaces prog lineEnd j =
     (if j < lineEnd \<and> prog j = 0x20 then skip_spaces prog lineEnd (j + 1) else j)"
  by pat_completeness auto
termination
  by (relation "measure (\<lambda>(_, e, j). e - j)") auto

declare skip_spaces.simps [simp del]

text \<open>The digits: \<open>None\<close> when the number passes 65535, which ends the whole search.\<close>

function usr_digits :: "(nat \<Rightarrow> u8) \<Rightarrow> nat \<Rightarrow> nat \<Rightarrow> nat \<Rightarrow> bool \<Rightarrow> (nat \<times> bool) option" where
  "usr_digits prog lineEnd j v found =
     (if j < lineEnd \<and> 0x30 \<le> prog j \<and> prog j \<le> 0x39
      then let v = v * 10 + (unat (prog j) - 0x30)
           in if v > 65535 then None else usr_digits prog lineEnd (j + 1) v True
      else Some (v, found))"
  by pat_completeness auto
termination
  by (relation "measure (\<lambda>(_, e, j, _). e - j)") auto

declare usr_digits.simps [simp del]

datatype usr_search = UsrFail | UsrAt u16 | UsrNone

function usr_line :: "(nat \<Rightarrow> u8) \<Rightarrow> nat \<Rightarrow> nat \<Rightarrow> usr_search" where
  "usr_line prog lineEnd i =
     (if i < lineEnd
      then if prog i \<noteq> ZX_TOKEN_USR then usr_line prog lineEnd (i + 1)
           else case usr_digits prog lineEnd (skip_spaces prog lineEnd (i + 1)) 0 False of
                  None \<Rightarrow> UsrFail
                | Some (v, found) \<Rightarrow> if found then UsrAt (of_nat v) else usr_line prog lineEnd (i + 1)
      else UsrNone)"
  by pat_completeness auto
termination
  by (relation "measure (\<lambda>(_, e, i). e - i)") auto

declare usr_line.simps [simp del]

function usr_lines :: "(nat \<Rightarrow> u8) \<Rightarrow> nat \<Rightarrow> nat \<Rightarrow> u16 option" where
  "usr_lines prog len pos =
     (if pos + 4 \<le> len
      then let lineLen = unat (prog (pos + 2)) + 256 * unat (prog (pos + 3));
               lineStart = pos + 4;
               lineEnd = lineStart + lineLen
           in if lineLen = 0 \<or> lineEnd > len then None
              else case usr_line prog lineEnd lineStart of
                     UsrFail \<Rightarrow> None
                   | UsrAt v \<Rightarrow> Some v
                   | UsrNone \<Rightarrow> usr_lines prog len lineEnd
      else None)"
  by pat_completeness auto
termination
  by (relation "measure (\<lambda>(_, n, p). n - p)") auto

declare usr_lines.simps [simp del]

definition parse_basic_usr_entry :: "(nat \<Rightarrow> u8) \<Rightarrow> u16 \<Rightarrow> u16 option" where
  "parse_basic_usr_entry prog len = usr_lines prog (unat len) 0"

section \<open>The instant load\<close>

text \<open>What the loop over the blocks has found so far; \<open>basic_data\<close> is \<open>basicProgramData\<close>.\<close>

record insta =
  code_start :: u16
  prog_len :: u16
  auto_start :: u16
  vars_offset :: u16
  basic_data :: "nat option"
  has_code :: bool
  has_basic :: bool

definition insta_new :: insta where
  "insta_new =
     \<lparr>code_start = 0, prog_len = 0, auto_start = 0x8000, vars_offset = 0, basic_data = None,
      has_code = False, has_basic = False\<rparr>"

text \<open>
  A header and the data block after it: the address the block is loaded to and what is noted of it,
  or \<open>None\<close> when the block is skipped.
\<close>

definition insta_pair :: "tape \<Rightarrow> nat \<Rightarrow> insta \<Rightarrow> (u16 \<times> nat \<times> nat \<times> insta) option" where
  "insta_pair t i st =
     (case getBlockContent t (int i) of
        (True, Some (hData, hLen, hFlag)) \<Rightarrow>
          if hLen \<noteq> 17 \<or> hFlag \<noteq> 0 then None
          else let ty = image_byte t hData;
                   len = pair16 (image_byte t (hData + 12)) (image_byte t (hData + 11));
                   start = pair16 (image_byte t (hData + 14)) (image_byte t (hData + 13))
               in if len = 0 \<or> len > 0x8000 then None
                  else (case getBlockContent t (int i + 1) of
                    (True, Some (dData, dLen, _)) \<Rightarrow>
                      let dLen = (if dLen > unat len then unat len else dLen);
                          dLen = (if dLen > 0x8000 then 0x8000 else dLen)
                      in if ty = 0
                         then Some (23755, dData, dLen,
                                st\<lparr>has_basic := True, prog_len := of_nat dLen, auto_start := start,
                                   vars_offset := pair16 (image_byte t (hData + 16)) (image_byte t (hData + 15)),
                                   basic_data := Some dData\<rparr>)
                         else if ty = 3
                         then if start \<ge> 0x4000 \<and> start \<le> 0x57FF then None
                              else if int (unat start) > 0x10000 - int dLen then None
                              else Some (start, dData, dLen, st\<lparr>code_start := start, has_code := True\<rparr>)
                         else None
                  | _ \<Rightarrow> None)
      | _ \<Rightarrow> None)"

function insta_loop :: "tape \<Rightarrow> nat \<Rightarrow> insta \<Rightarrow> 'm machine \<Rightarrow> insta \<times> 'm machine" where
  "insta_loop t i st s =
     (if int i < int (num_blocks t) - 1
      then case insta_pair t i st of
             None \<Rightarrow> insta_loop t (i + 1) st s
           | Some (addr, dData, dLen, st') \<Rightarrow> insta_loop t (i + 2) st' (store_bytes t dData addr dLen s)
      else (st, s))"
  by pat_completeness auto
termination
  by (relation "measure (\<lambda>(t, i, _). num_blocks t - i)") auto

declare insta_loop.simps [simp del]

text \<open>The system variables of BASIC.\<close>

definition write_word :: "'m machine \<Rightarrow> u16 \<Rightarrow> u16 \<Rightarrow> 'm machine" where
  "write_word s a v = spec_write (spec_write s a (lo8 v)) (a + 1) (hi8 v)"

definition basic_vars :: "insta \<Rightarrow> 'm machine \<Rightarrow> 'm machine" where
  "basic_vars st s =
     (let vars = 23755 + (if vars_offset st \<le> prog_len st then vars_offset st else prog_len st);
          eLine = 23755 + prog_len st;
          worksp = eLine + 1;
          s = write_word s 23635 23755;
          s = write_word s 23637 vars;
          s = write_word s 23618 (auto_start st);
          s = spec_write s 23620 0;
          s = write_word s 23621 (auto_start st);
          s = spec_write s 23623 0;
          s = write_word s 23625 (auto_start st);
          s = write_word s 23627 vars;
          s = write_word s 23641 eLine;
          s = (if eLine < 0xFFFF then spec_write s eLine 0x80 else s);
          s = write_word s 23649 worksp;
          s = write_word s 23651 worksp;
          s = write_word s 23653 worksp
      in s)"

definition start_program :: "'m machine \<Rightarrow> u16 \<Rightarrow> 'm machine" where
  "start_program s pc =
     s\<lparr>reg_sp := 0xFF40, iff1 := 1, iff2 := 1, imode := 1, halted := 0, reg_iy := 0x5C3A, reg_pc := pc\<rparr>"

definition instaload :: "'m machine \<Rightarrow> bool \<times> 'm machine" where
  "instaload s =
     (let t = sp_tape (ctx s)
      in if \<not> tp_enabled t \<or> num_blocks t = 0 then (False, s)
         else let (st, s) = insta_loop t 0 insta_new s;
                  usr = (case basic_data st of
                           Some d \<Rightarrow> if has_basic st then parse_basic_usr_entry (\<lambda>i. image_byte t (d + i)) (prog_len st)
                                     else None
                         | None \<Rightarrow> None);
                  s = (if has_basic st then basic_vars st s else s)
              in if has_code st then (True, start_program s (code_start st))
                 else if has_basic st
                 then (True,
                       if auto_start st < 32768
                       then let flags = spec_read s 23611;
                                s = spec_write s 23610 0xFF;
                                s = spec_write s 23620 0;
                                s = spec_write s 23611 (flags OR 0x80)
                            in (start_program s ROM_LINE_NEW)\<lparr>reg_h := hi8 (auto_start st), reg_l := lo8 (auto_start st)\<rparr>
                       else case usr of Some entry \<Rightarrow> start_program s entry | None \<Rightarrow> s)
                 else (False, s))"

section \<open>One step of a machine\<close>

text \<open>\<open>SpectrumBase::step\<close>: an instruction or the instant load, then the ULA and the tape's autostart.\<close>

definition LD_BYTES_ENTRY :: u16 where "LD_BYTES_ENTRY = 0x0556"

definition step_cpu :: "('m machine \<Rightarrow> bool) \<Rightarrow> 'm spectrum_scheme bus \<Rightarrow> 'm machine \<Rightarrow> (int \<times> 'm machine) option" where
  "step_cpu rom_active B s =
     (if loadsInstantly (tapeModeProfile (tp_mode (sp_tape (ctx s)))) \<and> isLoaded (sp_tape (ctx s))
         \<and> rom_active s \<and> reg_pc s = LD_BYTES_ENTRY
      then let s = upd_ctx (\<lambda>c. c\<lparr>sp_tape := tape_stop (sp_tape c)\<rparr>) s;
               (ok, s) = instaload s
           in if ok then Some (11, s) else z80_step B s
      else z80_step B s)"

definition auto_play :: "tape_profile \<Rightarrow> 'm machine \<Rightarrow> 'm machine" where
  "auto_play mode s =
     (if autoStartsPlayback mode \<and> isLoaded (sp_tape (ctx s)) \<and> \<not> isPlaying (sp_tape (ctx s))
      then let inLDBytes = (reg_pc s \<ge> 0x0556 \<and> reg_pc s < 0x0800);
               s = (if \<not> was_in_ld (ctx s) \<and> inLDBytes
                    then upd_ctx (\<lambda>c. c\<lparr>sp_tape := tape_play (sp_tape c)\<rparr>) s else s)
           in upd_ctx (\<lambda>c. c\<lparr>was_in_ld := inLDBytes\<rparr>) s
      else upd_ctx (\<lambda>c. c\<lparr>was_in_ld := False\<rparr>) s)"

definition spec_step :: "('m machine \<Rightarrow> bool) \<Rightarrow> 'm spectrum_scheme bus \<Rightarrow> 'm machine \<Rightarrow> (int \<times> 'm machine) option" where
  "spec_step rom_active B s =
     (let mode = tapeModeProfile (tp_mode (sp_tape (ctx s)))
      in Option.bind (step_cpu rom_active B s) (\<lambda>(tstates, s).
           let s = upd_ctx (\<lambda>c. c\<lparr>pending_tape := pending_tape c + tstates\<rparr>) s
           in Option.bind (advanceULA rom_active B s tstates) (\<lambda>s. Some (tstates, auto_play mode s))))"

end
