(* ===== verification/Spectrum48.thy ===== *)
theory Spectrum48
  imports Tape_Load
begin

text \<open>
  The class \<open>Spectrum48K\<close> of \<open>src/src/spectrum/Spectrum48K.h\<close> and \<open>Spectrum48K.cpp\<close>: one ROM and 48K
  of RAM in one allocation, paged in for good.
\<close>

record spectrum48 = spectrum +
  ram :: "ptr option"

type_synonym machine48 = "spectrum48 z80"

definition ROM_SIZE_48 :: nat where "ROM_SIZE_48 = 16384"
definition RAM_SIZE_48 :: nat where "RAM_SIZE_48 = 49152"

definition fill_opt :: "ptr option \<Rightarrow> nat \<Rightarrow> u8 \<Rightarrow> 'c z80 \<Rightarrow> 'c z80" where
  "fill_opt p n v s = (case p of None \<Rightarrow> s | Some q \<Rightarrow> s\<lparr>heap := mem_fill (heap s) q n v\<rparr>)"

definition opt_add :: "ptr option \<Rightarrow> nat \<Rightarrow> ptr option" where
  "opt_add p n = map_option (\<lambda>q. ptr_add q n) p"

text \<open>The four calls of \<open>updateMap\<close> the constructor and \<open>reset\<close> make, and the video page.\<close>

definition map_ram48 :: "machine48 \<Rightarrow> machine48" where
  "map_ram48 s =
     (let s = updateMap s 1 (ram (ctx s)) True;
          s = updateMap s 2 (opt_add (ram (ctx s)) 0x4000) True;
          s = updateMap s 3 (opt_add (ram (ctx s)) 0x8000) True
      in upd_ctx (\<lambda>c. c\<lparr>video_page := ram c\<rparr>) s)"

definition map48 :: "machine48 \<Rightarrow> machine48" where
  "map48 s = map_ram48 (updateMap s 0 (rom (ctx s)) False)"

text \<open>The constructor, with host memory and the results of the two allocations.\<close>

definition spectrum48_new :: "(ptr \<Rightarrow> u8) \<Rightarrow> input \<Rightarrow> ptr option \<Rightarrow> ptr option \<Rightarrow> machine48" where
  "spectrum48_new h i rom_ptr ram_ptr =
     (let s = z80_init (z80_zero h (spectrum.extend (base_new i) (spectrum48.fields None)));
          s = upd_ctx (\<lambda>c. c\<lparr>rom_size := ROM_SIZE_48, rom := rom_ptr, ram := ram_ptr\<rparr>) s
      in if rom_ptr = None \<or> ram_ptr = None then s
         else let s = fill_opt ram_ptr RAM_SIZE_48 0 s;
                  s = fill_opt rom_ptr ROM_SIZE_48 0xFF s
              in map48 s)"

definition reset48 :: "machine48 \<Rightarrow> machine48" where
  "reset48 s =
     (let s = base_reset s;
          s = fill_opt (ram (ctx s)) RAM_SIZE_48 0 s
      in map48 s)"

definition writePort48 :: "machine48 \<Rightarrow> u16 \<Rightarrow> u8 \<Rightarrow> machine48" where
  "writePort48 s port value = (if port AND 0x0001 = 0 then writePortFE s value else s)"

text \<open>\<open>isTapeRomActive\<close> of the base class.\<close>

definition rom_active48 :: "machine48 \<Rightarrow> bool" where
  "rom_active48 s = True"

definition readPort48 :: "machine48 \<Rightarrow> u16 \<Rightarrow> u8 \<times> machine48" where
  "readPort48 s port =
     (if port AND 0x0001 = 0 then readPortFE rom_active48 s port
      else if port AND 0x00FF = 0x1F then (input_getJoystick (sp_input (ctx s)), s)
      else (getFloatingBusValue s, s))"

definition applySnapshotData48 :: "machine48 \<Rightarrow> u8 list \<Rightarrow> bool \<times> machine48" where
  "applySnapshotData48 s data =
     (case ram (ctx s) of
        None \<Rightarrow> (False, s)
      | Some p \<Rightarrow>
          if length data = RAM_SIZE_48
          then (True, map_ram48 (s\<lparr>heap := mem_store (heap s) p data\<rparr>))
          else (False, s))"

text \<open>The callbacks the constructor installs.\<close>

definition bus48 :: "spectrum48 bus" where
  "bus48 = \<lparr>mem_read = spec_read, mem_write = spec_write, io_read = readPort48, io_write = writePort48\<rparr>"

definition step48 :: "machine48 \<Rightarrow> (int \<times> machine48) option" where
  "step48 s = spec_step rom_active48 bus48 s"

end
