(* ===== verification/PSG.thy ===== *)
theory PSG
  imports IEEE
begin

text \<open>
  The AY-3-8912 sound chip of \<open>src/src/spectrum/PSG.h\<close> and \<open>PSG.cpp\<close>: sixteen registers, three tone
  counters, a 17-bit noise register and the envelope.  The counters are \<open>nat\<close>; they are compared
  with their period right after each increment and stay below it, so the 32-bit fields never wrap
  (theorem \<open>psg_ticks_ok\<close> bounds them).  The fractional clock \<open>m_phase\<close> is a double.
\<close>

section \<open>Registers\<close>

record psg =
  regs :: "u8 list"
  tone_count :: "nat list"
  tone_out :: "u8 list"
  noise_count :: nat
  noise_shift :: u32
  noise_out :: u8
  env_count :: nat
  env_pos :: int
  env_holding :: bool
  phase :: rat
  psg_rendered :: nat

definition s_volumes :: "int list" where
  "s_volumes = [0, 218, 311, 442, 628, 891, 1264, 1793,
     2545, 3612, 5126, 7274, 10323, 14650, 20791, 29505]"

definition psg_reset :: psg where
  "psg_reset =
     \<lparr>regs = (replicate 16 0)[7 := 0x3F], tone_count = replicate 3 0, tone_out = replicate 3 0,
      noise_count = 0, noise_shift = 1, noise_out = 0, env_count = 0, env_pos = 15, env_holding = False,
      phase = 0, psg_rendered = 0\<rparr>"

definition resetFrame :: "psg \<Rightarrow> psg" where
  "resetFrame s = s\<lparr>psg_rendered := 0\<rparr>"

definition writeRegister :: "psg \<Rightarrow> u8 \<Rightarrow> u8 \<Rightarrow> psg" where
  "writeRegister s reg value =
     (if unat reg \<ge> 16 then s
      else let s = s\<lparr>regs := (regs s)[unat reg := value]\<rparr>
           in if reg = 13
              then s\<lparr>env_holding := False, env_count := 0, env_pos := (if value AND 4 \<noteq> 0 then 0 else 15)\<rparr>
              else s)"

definition readRegister :: "psg \<Rightarrow> u8 \<Rightarrow> u8" where
  "readRegister s reg = (if unat reg < 16 then regs s ! unat reg else 0xFF)"

section \<open>One tick of the chip\<close>

definition tone_period :: "psg \<Rightarrow> nat \<Rightarrow> nat" where
  "tone_period s i =
     (let period = 256 * unat (regs s ! (i * 2 + 1) AND 0x0F) + unat (regs s ! (i * 2))
      in if period = 0 then 1 else period)"

definition tick_tone :: "psg \<Rightarrow> nat \<Rightarrow> psg" where
  "tick_tone s i =
     (let s' = s\<lparr>tone_count := (tone_count s)[i := tone_count s ! i + 1]\<rparr>
      in if tone_count s' ! i \<ge> tone_period s i
         then s'\<lparr>tone_count := (tone_count s')[i := 0], tone_out := (tone_out s)[i := tone_out s ! i XOR 1]\<rparr>
         else s')"

definition noise_period :: "psg \<Rightarrow> nat" where
  "noise_period s = (let p = unat (regs s ! 6 AND 0x1F) in if p = 0 then 1 else p)"

text \<open>The 17-bit shift register: the new top bit is the exclusive or of bits 0 and 3.\<close>

definition noise_step :: "u32 \<Rightarrow> u32" where
  "noise_step v =
     drop_bit 1 (if (v AND 1) XOR (drop_bit 3 v AND 1) \<noteq> 0 then v OR 0x20000 else v)"

definition tick_noise :: "psg \<Rightarrow> psg" where
  "tick_noise s =
     (let s = s\<lparr>noise_count := noise_count s + 1\<rparr>
      in if noise_count s \<ge> noise_period s * 2
         then let v = noise_step (noise_shift s)
              in s\<lparr>noise_count := 0, noise_shift := v, noise_out := ucast (v AND 1)\<rparr>
         else s)"

definition updateEnvelope :: "psg \<Rightarrow> psg" where
  "updateEnvelope s =
     (if env_holding s then s
      else let shape = regs s ! 13;
               attack = (shape AND 4 \<noteq> 0);
               alternate = (shape AND 2 \<noteq> 0);
               hold = (shape AND 1 \<noteq> 0);
               continue_bit = (shape AND 8 \<noteq> 0)
           in if attack
              then let s = s\<lparr>env_pos := env_pos s + 1\<rparr>
                   in if env_pos s > 15
                      then if \<not> continue_bit then s\<lparr>env_pos := 0, env_holding := True\<rparr>
                           else if alternate then s\<lparr>env_pos := 15, env_holding := True\<rparr>
                           else if hold then s\<lparr>env_pos := 15, env_holding := True\<rparr>
                           else s\<lparr>env_pos := 0\<rparr>
                      else s
              else let s = s\<lparr>env_pos := env_pos s - 1\<rparr>
                   in if env_pos s < 0
                      then if \<not> continue_bit then s\<lparr>env_pos := 0, env_holding := True\<rparr>
                           else if alternate then s\<lparr>env_pos := 0, env_holding := True\<rparr>
                           else if hold then s\<lparr>env_pos := 0, env_holding := True\<rparr>
                           else s\<lparr>env_pos := 15\<rparr>
                      else s)"

definition env_period :: "psg \<Rightarrow> nat" where
  "env_period s =
     (let p = 256 * unat (regs s ! 12) + unat (regs s ! 11) in if p = 0 then 1 else p)"

definition tick_envelope :: "psg \<Rightarrow> psg" where
  "tick_envelope s =
     (let s = s\<lparr>env_count := env_count s + 1\<rparr>
      in if env_count s \<ge> env_period s * 16 then updateEnvelope (s\<lparr>env_count := 0\<rparr>) else s)"

definition psg_tick :: "psg \<Rightarrow> psg" where
  "psg_tick s = tick_envelope (tick_noise (fold (\<lambda>i s. tick_tone s i) [0, 1, 2] s))"

section \<open>Samples\<close>

definition channel_out :: "psg \<Rightarrow> nat \<Rightarrow> bool" where
  "channel_out s i =
     (let mixer = regs s ! 7;
          tone_off = bit mixer i;
          noise_off = bit mixer (i + 3)
      in (\<not> tone_off \<longrightarrow> tone_out s ! i AND 1 \<noteq> 0) \<and> (\<not> noise_off \<longrightarrow> noise_out s AND 1 \<noteq> 0))"

definition channel_amp :: "psg \<Rightarrow> nat \<Rightarrow> nat" where
  "channel_amp s i =
     (let r = regs s ! (8 + i)
      in if r AND 0x10 \<noteq> 0 then nat (env_pos s mod 256) else unat (r AND 0x0F))"

definition mix :: "psg \<Rightarrow> int" where
  "mix s =
     (let mixed = sum_list (map (\<lambda>i. if channel_out s i then s_volumes ! channel_amp s i else 0) [0, 1, 2])
      in int16 (mixed div 3))"

definition ticks_per_sample :: "rat \<Rightarrow> rat \<Rightarrow> rat" where
  "ticks_per_sample clock_hz sample_rate = f64 (f64 (clock_hz / 16) / sample_rate)"

definition render_psg_sample :: "rat \<Rightarrow> nat \<Rightarrow> psg \<times> int list \<Rightarrow> psg \<times> int list" where
  "render_psg_sample tps i sb =
     (let (s, buffer) = sb;
          ph = f64 (phase s + tps);
          ticks = nat \<lfloor>ph\<rfloor>;
          s = s\<lparr>phase := f64 (ph - of_nat ticks)\<rparr>;
          s = (psg_tick ^^ ticks) s
      in (s, buffer[i := mix s]))"

definition psg_renderTo :: "psg \<Rightarrow> int list \<Rightarrow> nat \<Rightarrow> rat \<Rightarrow> rat \<Rightarrow> psg \<times> int list" where
  "psg_renderTo s buffer target_sample clock_hz sample_rate =
     (if target_sample \<le> psg_rendered s then (s, buffer)
      else let (s, buffer) = fold (render_psg_sample (ticks_per_sample clock_hz sample_rate))
                               [psg_rendered s..<target_sample] (s, buffer)
           in (s\<lparr>psg_rendered := target_sample\<rparr>, buffer))"

text \<open>A tick leaves the registers and the cursor of the frame alone.\<close>

lemma tick_parts_frame [simp]:
  "regs (tick_tone s i) = regs s" "psg_rendered (tick_tone s i) = psg_rendered s"
  "regs (tick_noise s) = regs s" "psg_rendered (tick_noise s) = psg_rendered s"
  "regs (updateEnvelope s) = regs s" "psg_rendered (updateEnvelope s) = psg_rendered s"
  "regs (tick_envelope s) = regs s" "psg_rendered (tick_envelope s) = psg_rendered s"
  "tone_count (updateEnvelope s) = tone_count s" "tone_out (updateEnvelope s) = tone_out s"
  "tone_count (tick_envelope s) = tone_count s" "tone_out (tick_envelope s) = tone_out s"
  "tone_count (tick_noise s) = tone_count s" "tone_out (tick_noise s) = tone_out s"
  by (simp_all add: tick_tone_def tick_noise_def updateEnvelope_def tick_envelope_def Let_def)

lemma psg_tick_frame [simp]: "regs (psg_tick s) = regs s" "psg_rendered (psg_tick s) = psg_rendered s"
  by (simp_all add: psg_tick_def)

section \<open>Invariant\<close>

text \<open>
  The register file and the channels have their sizes, every counter is inside its period or has just
  been overtaken by a new one, the noise register is never 0 and keeps to 17 bits, and the envelope
  indexes the volume table.
\<close>

definition psg_ok :: "psg \<Rightarrow> bool" where
  "psg_ok s \<longleftrightarrow> length (regs s) = 16 \<and> length (tone_count s) = 3 \<and> length (tone_out s) = 3
     \<and> (\<forall>i<3. tone_count s ! i < 4096) \<and> noise_count s < 64 \<and> env_count s < 2 ^ 20
     \<and> noise_shift s \<noteq> 0 \<and> (\<forall>n\<ge>17. \<not> bit (noise_shift s) n)
     \<and> 0 \<le> env_pos s \<and> env_pos s \<le> 15"

lemma tone_period_bounds: "1 \<le> tone_period s i" "tone_period s i < 4096"
proof -
  have "unat (v AND 0x0F :: u8) < 16" for v
  proof -
    have "v AND 0x0F = take_bit 4 v" by (simp add: take_bit_eq_mask mask_eq_exp_minus_1)
    then show ?thesis by (simp add: unsigned_take_bit_eq take_bit_nat_less_exp [of 4, simplified])
  qed
  from this [of "regs s ! (i * 2 + 1)"] show "1 \<le> tone_period s i" "tone_period s i < 4096"
    using unat8_bound [of "regs s ! (i * 2)"] by (simp_all add: tone_period_def Let_def)
qed

lemma noise_period_bounds: "1 \<le> noise_period s" "noise_period s < 32"
proof -
  have "unat (v AND 0x1F :: u8) < 32" for v
  proof -
    have "v AND 0x1F = take_bit 5 v" by (simp add: take_bit_eq_mask mask_eq_exp_minus_1)
    then show ?thesis by (simp add: unsigned_take_bit_eq take_bit_nat_less_exp [of 5, simplified])
  qed
  then show "1 \<le> noise_period s" "noise_period s < 32" by (simp_all add: noise_period_def Let_def Suc_le_eq)
qed

lemma env_period_bounds: "1 \<le> env_period s" "env_period s < 65536"
  using unat8_bound [of "regs s ! 12"] unat8_bound [of "regs s ! 11"] by (simp_all add: env_period_def Let_def)

lemma noise_step_ok:
  assumes "v \<noteq> 0" "\<forall>n\<ge>17. \<not> bit v n"
  shows "noise_step v \<noteq> 0" "\<forall>n\<ge>17. \<not> bit (noise_step v) n"
proof -
  let ?f = "(v AND 1) XOR (drop_bit 3 v AND 1) \<noteq> (0 :: u32)"
  have c: "(0x20000 :: u32) = 2 ^ 17" by simp
  have f: "?f \<longleftrightarrow> (bit v 0 \<noteq> bit v 3)"
  proof -
    have "((v AND 1) XOR (drop_bit 3 v AND 1)) = (if bit v 0 \<noteq> bit v 3 then 1 else 0)"
      by (rule bit_word_eqI) (auto simp: bit_simps)
    then show ?thesis by simp
  qed
  have e: "bit (0x20000 :: u32) m \<longleftrightarrow> m = 17" for m
    unfolding c by (simp only: bit_exp_iff possible_bit_word) auto
  have b: "bit (noise_step v) n \<longleftrightarrow> bit v (n + 1) \<or> (?f \<and> n = 16)" for n
  proof (cases ?f)
    case True
    then have "noise_step v = drop_bit 1 (v OR 0x20000)" by (simp add: noise_step_def)
    then show ?thesis using True by (simp only: bit_drop_bit_eq o_apply bit_or_iff e) auto
  next
    case False
    then have "noise_step v = drop_bit 1 v" by (simp add: noise_step_def)
    then show ?thesis using False by (simp only: bit_drop_bit_eq o_apply) auto
  qed
  show "\<forall>n\<ge>17. \<not> bit (noise_step v) n" using assms(2) by (auto simp: b)
  show "noise_step v \<noteq> 0"
  proof
    assume z: "noise_step v = 0"
    then have "\<not> bit v (Suc n)" for n using b [of n] by simp
    then have only0: "bit v n \<Longrightarrow> n = 0" for n by (cases n) auto
    have "bit v 0"
    proof (rule ccontr)
      assume "\<not> bit v 0"
      then have "\<not> bit v n" for n using only0 [of n] by (cases n) auto
      then have "v = 0" by (intro bit_word_eqI) simp
      then show False using assms(1) by simp
    qed
    then have "?f" using only0 [of 3] f by auto
    then show False using b [of 16] z by simp
  qed
qed

lemma tick_tone_ok: "psg_ok s \<Longrightarrow> i < 3 \<Longrightarrow> psg_ok (tick_tone s i)"
  using tone_period_bounds [of s i]
  by (auto simp: psg_ok_def tick_tone_def Let_def nth_list_update not_le)

lemma tick_noise_ok: "psg_ok s \<Longrightarrow> psg_ok (tick_noise s)"
  using noise_period_bounds [of "s\<lparr>noise_count := noise_count s + 1\<rparr>"] noise_step_ok [of "noise_shift s"]
  by (auto simp: psg_ok_def tick_noise_def Let_def)

lemma updateEnvelope_ok: "psg_ok s \<Longrightarrow> psg_ok (updateEnvelope s)"
  by (auto simp: psg_ok_def updateEnvelope_def Let_def)

lemma tick_envelope_ok: "psg_ok s \<Longrightarrow> psg_ok (tick_envelope s)"
proof -
  assume s: "psg_ok s"
  have "psg_ok (s\<lparr>env_count := 0\<rparr>)" using s by (simp add: psg_ok_def)
  then have "psg_ok (updateEnvelope (s\<lparr>env_count := 0\<rparr>))" by (rule updateEnvelope_ok)
  moreover have "psg_ok (s\<lparr>env_count := env_count s + 1\<rparr>)"
    if "env_count s + 1 < env_period (s\<lparr>env_count := env_count s + 1\<rparr>) * 16"
    using s that env_period_bounds(2) [of "s\<lparr>env_count := env_count s + 1\<rparr>"] by (simp add: psg_ok_def)
  ultimately show ?thesis by (simp add: tick_envelope_def Let_def not_le)
qed

lemma psg_tick_ok: "psg_ok s \<Longrightarrow> psg_ok (psg_tick s)"
  by (simp add: psg_tick_def tick_envelope_ok tick_noise_ok tick_tone_ok)

lemma psg_ticks_ok: "psg_ok s \<Longrightarrow> psg_ok ((psg_tick ^^ n) s)"
  by (induction n) (simp_all add: psg_tick_ok)

lemma psg_ok_upd [simp]:
  "psg_ok (phase_update f s) = psg_ok s" "psg_ok (psg_rendered_update g s) = psg_ok s"
  by (simp_all add: psg_ok_def)

lemma psg_reset_ok: "psg_ok psg_reset"
  by (auto simp: psg_ok_def psg_reset_def less_3_cases bit_1_iff)

lemma writeRegister_ok: "psg_ok s \<Longrightarrow> psg_ok (writeRegister s r v)"
  by (simp add: psg_ok_def writeRegister_def Let_def)

lemma channel_amp_less: "psg_ok s \<Longrightarrow> channel_amp s i < 16"
proof -
  assume "psg_ok s"
  then have "nat (env_pos s mod 256) < 16" by (auto simp: psg_ok_def nat_less_iff)
  moreover have "unat (v AND 0x0F :: u8) < 16" for v
  proof -
    have "v AND 0x0F = take_bit 4 v" by (simp add: take_bit_eq_mask mask_eq_exp_minus_1)
    then show ?thesis by (simp add: unsigned_take_bit_eq take_bit_nat_less_exp [of 4, simplified])
  qed
  ultimately show ?thesis by (simp add: channel_amp_def Let_def)
qed

lemma volume_bounds: "n < 16 \<Longrightarrow> 0 \<le> s_volumes ! n \<and> s_volumes ! n \<le> 29505"
proof -
  have "\<forall>v\<in>set s_volumes. 0 \<le> v \<and> v \<le> 29505" by (simp add: s_volumes_def)
  moreover assume "n < 16"
  then have "n < length s_volumes" by (simp add: s_volumes_def)
  ultimately show ?thesis using nth_mem by blast
qed

lemma mix_bounds:
  assumes "psg_ok s"
  shows "0 \<le> mix s \<and> mix s \<le> 29505"
proof -
  let ?v = "\<lambda>i. if channel_out s i then s_volumes ! channel_amp s i else 0"
  have v: "0 \<le> ?v i \<and> ?v i \<le> 29505" for i
    using volume_bounds [OF channel_amp_less [OF assms, of i]] by simp
  let ?m = "sum_list (map ?v [0, 1, 2])"
  have "0 \<le> ?m" "?m \<le> 3 * 29505"
    unfolding list.map sum_list.Cons sum_list.Nil using v [of 0] v [of 1] v [of 2] by linarith+
  then have "0 \<le> ?m div 3 \<and> ?m div 3 \<le> 29505" by linarith
  then show ?thesis using int16_small [of "?m div 3"] by (simp add: mix_def Let_def)
qed

text \<open>Rendering keeps the chip in order and writes only the samples up to the target.\<close>

definition sample_buffer :: "int list \<Rightarrow> bool" where
  "sample_buffer xs \<longleftrightarrow> length xs = 882 \<and> (\<forall>x\<in>set xs. 0 \<le> x \<and> x \<le> 29505)"

lemma render_psg_sample_ok:
  assumes "psg_ok s" "sample_buffer xs"
  shows "psg_ok (fst (render_psg_sample tps i (s, xs)))" "sample_buffer (snd (render_psg_sample tps i (s, xs)))"
    "psg_rendered (fst (render_psg_sample tps i (s, xs))) = psg_rendered s"
proof -
  define k where "k = nat \<lfloor>f64 (phase s + tps)\<rfloor>"
  define u where "u = (psg_tick ^^ k) (s\<lparr>phase := f64 (f64 (phase s + tps) - of_nat k)\<rparr>)"
  have e: "render_psg_sample tps i (s, xs) = (u, xs[i := mix u])"
    by (simp only: render_psg_sample_def Let_def prod.case u_def k_def)
  have ok: "psg_ok u" unfolding u_def using assms(1) by (intro psg_ticks_ok) simp
  have r: "psg_rendered ((psg_tick ^^ n) v) = psg_rendered v" for n v
    by (induction n) simp_all
  show "psg_ok (fst (render_psg_sample tps i (s, xs)))"
    "psg_rendered (fst (render_psg_sample tps i (s, xs))) = psg_rendered s"
    unfolding e using ok by (simp_all add: u_def r)
  show "sample_buffer (snd (render_psg_sample tps i (s, xs)))"
    unfolding e using assms(2) mix_bounds [OF ok]
    by (auto simp: sample_buffer_def dest!: set_update_subset_insert [THEN subsetD])
qed

lemma psg_fold_ok:
  "psg_ok (fst sb) \<Longrightarrow> sample_buffer (snd sb) \<Longrightarrow>
   psg_ok (fst (fold (render_psg_sample tps) is sb)) \<and> sample_buffer (snd (fold (render_psg_sample tps) is sb))"
proof (induction "is" arbitrary: sb)
  case (Cons i "is")
  then show ?case using render_psg_sample_ok [of "fst sb" "snd sb" tps i] by simp
qed simp

lemma psg_renderTo_ok:
  assumes "psg_ok s" "sample_buffer xs"
  shows "psg_ok (fst (psg_renderTo s xs n c r)) \<and> sample_buffer (snd (psg_renderTo s xs n c r))"
  using assms psg_fold_ok [of "(s, xs)"] by (simp add: psg_renderTo_def case_prod_beta Let_def)

section \<open>The tone generators\<close>

text \<open>
  As long as its registers stay, channel i inverts its output every \<open>tone_period\<close> ticks: from a
  reset counter, that many ticks leave the counter reset and the output inverted once.
\<close>

lemma tick_tone_other: "j \<noteq> i \<Longrightarrow> tone_count (tick_tone s i) ! j = tone_count s ! j
    \<and> tone_out (tick_tone s i) ! j = tone_out s ! j"
  by (simp add: tick_tone_def Let_def)

lemma tick_lengths:
  "length (tone_count (tick_tone s i)) = length (tone_count s)" "length (tone_out (tick_tone s i)) = length (tone_out s)"
  by (simp_all add: tick_tone_def Let_def)

lemma psg_tick_tone:
  assumes "psg_ok s" "i < 3"
  shows "tone_count (psg_tick s) ! i = (if tone_count s ! i + 1 \<ge> tone_period s i then 0 else tone_count s ! i + 1)"
    and "tone_out (psg_tick s) ! i = (if tone_count s ! i + 1 \<ge> tone_period s i then tone_out s ! i XOR 1 else tone_out s ! i)"
proof -
  have l: "length (tone_count s) = 3" "length (tone_out s) = 3" using assms(1) by (simp_all add: psg_ok_def)
  have p: "tone_period (tick_tone u j) k = tone_period u k" for u j k by (simp add: tone_period_def)
  have e: "tone_count (psg_tick s) = tone_count (tick_tone (tick_tone (tick_tone s 0) 1) 2)"
    "tone_out (psg_tick s) = tone_out (tick_tone (tick_tone (tick_tone s 0) 1) 2)"
    by (simp_all add: psg_tick_def)
  have self: "tone_count (tick_tone u k) ! k = (if tone_count u ! k + 1 \<ge> tone_period u k then 0 else tone_count u ! k + 1)"
    "tone_out (tick_tone u k) ! k = (if tone_count u ! k + 1 \<ge> tone_period u k then tone_out u ! k XOR 1 else tone_out u ! k)"
    if "length (tone_count u) = 3" "length (tone_out u) = 3" "k < 3" for u k
    using that by (simp_all add: tick_tone_def Let_def)
  consider "i = 0" | "i = 1" | "i = 2" using assms(2) by arith
  then have "tone_count (psg_tick s) ! i = (if tone_count s ! i + 1 \<ge> tone_period s i then 0 else tone_count s ! i + 1)
    \<and> tone_out (psg_tick s) ! i = (if tone_count s ! i + 1 \<ge> tone_period s i then tone_out s ! i XOR 1 else tone_out s ! i)"
    unfolding e by cases (simp_all add: self tick_lengths l tick_tone_other p del: One_nat_def)
  then show "tone_count (psg_tick s) ! i = (if tone_count s ! i + 1 \<ge> tone_period s i then 0 else tone_count s ! i + 1)"
    "tone_out (psg_tick s) ! i = (if tone_count s ! i + 1 \<ge> tone_period s i then tone_out s ! i XOR 1 else tone_out s ! i)"
    by blast+
qed

lemma tone_ticks:
  assumes "psg_ok s" "i < 3" "tone_count s ! i + n < tone_period s i"
  shows "tone_count ((psg_tick ^^ n) s) ! i = tone_count s ! i + n \<and> tone_out ((psg_tick ^^ n) s) ! i = tone_out s ! i
    \<and> regs ((psg_tick ^^ n) s) = regs s"
  using assms(3)
proof (induction n)
  case (Suc n)
  let ?u = "(psg_tick ^^ n) s"
  have "psg_ok ?u" using assms(1) by (rule psg_ticks_ok)
  moreover have "tone_period ?u i = tone_period s i" using Suc by (simp add: tone_period_def)
  ultimately show ?case using Suc psg_tick_tone [of ?u i] assms(2) by simp
qed simp

section \<open>Properties\<close>

theorem psg_in_order:
  assumes "psg_ok s" "sample_buffer xs"
  shows "psg_ok (psg_tick s) \<and> psg_ok (writeRegister s r v) \<and> 0 \<le> mix s \<and> mix s \<le> 29505
    \<and> psg_ok (fst (psg_renderTo s xs n c rate)) \<and> sample_buffer (snd (psg_renderTo s xs n c rate))"
  using assms psg_tick_ok writeRegister_ok mix_bounds psg_renderTo_ok by blast

theorem psg_in_order_witness:
  "psg_ok psg_reset \<and> sample_buffer (replicate 882 0) \<and> psg_ok (psg_tick psg_reset)"
  using psg_in_order [OF psg_reset_ok, of "replicate 882 0"] psg_reset_ok by (simp add: sample_buffer_def)

text \<open>C36 (tone_half_period): A tone channel whose counter is 0 toggles its output after exactly one
period of ticks (period 0 counting as 1) and its counter is back at 0.\<close>

theorem tone_half_period:
  assumes "psg_ok s" "i < 3" "tone_count s ! i = 0"
  shows "tone_out ((psg_tick ^^ tone_period s i) s) ! i = tone_out s ! i XOR 1
    \<and> tone_count ((psg_tick ^^ tone_period s i) s) ! i = 0"
proof -
  obtain n where n: "tone_period s i = Suc n" using tone_period_bounds(1) [of s i] by (cases "tone_period s i") auto
  let ?u = "(psg_tick ^^ n) s"
  have u: "tone_count ?u ! i = n" "tone_out ?u ! i = tone_out s ! i" "regs ?u = regs s"
    using tone_ticks [OF assms(1,2), of n] assms(3) n by simp_all
  then have "tone_period ?u i = Suc n" using n by (simp add: tone_period_def)
  then show ?thesis
    using psg_tick_tone [OF psg_ticks_ok [OF assms(1)] assms(2), of n] u by (simp add: n)
qed

theorem tone_half_period_witness:
  "tone_out ((psg_tick ^^ tone_period psg_reset 0) psg_reset) ! 0 = tone_out psg_reset ! 0 XOR 1"
  using tone_half_period [OF psg_reset_ok, of 0] by (simp add: psg_reset_def)

end
