(* ===== verification/Spectrum128.thy ===== *)
theory Spectrum128
  imports Spectrum48 PSG
begin

text \<open>
  The class \<open>Spectrum128K\<close> of \<open>src/src/spectrum/Spectrum128K.h\<close> and \<open>Spectrum128K.cpp\<close>: two ROMs,
  eight RAM banks, the paging port \<open>0x7FFD\<close> with its lock, and the sound chip behind \<open>0xFFFD\<close> and
  \<open>0xBFFD\<close>.
\<close>

record spectrum128 = spectrum +
  ram_banks :: "nat \<Rightarrow> ptr option"
  port7FFD :: u8
  paging_locked :: bool
  ay_chip :: psg
  ay_selected :: u8
  ay_buffer :: "int list"

type_synonym machine128 = "spectrum128 z80"

definition ROM_SIZE_128 :: nat where "ROM_SIZE_128 = 32768"
definition BANK_SIZE :: nat where "BANK_SIZE = 16384"

definition updatePaging :: "machine128 \<Rightarrow> machine128" where
  "updatePaging s =
     (let romBank = (if port7FFD (ctx s) AND 0x10 \<noteq> 0 then 1 else 0 :: nat);
          s = updateMap s 0 (opt_add (rom (ctx s)) (romBank * 0x4000)) False;
          s = updateMap s 1 (ram_banks (ctx s) 5) True;
          s = upd_ctx (\<lambda>c. c\<lparr>video_page := (if port7FFD c AND 0x08 \<noteq> 0 then ram_banks c 7 else ram_banks c 5)\<rparr>) s;
          s = updateMap s 2 (ram_banks (ctx s) 2) True;
          ramBank = port7FFD (ctx s) AND 0x07
      in updateMap s 3 (ram_banks (ctx s) (unat ramBank)) True)"

text \<open>
  The constructor, with host memory, the results of the allocations and the content of the sample
  buffer, which it does not clear.
\<close>

definition fill_banks :: "machine128 \<Rightarrow> machine128" where
  "fill_banks s = fold (\<lambda>i s. fill_opt (ram_banks (ctx s) i) BANK_SIZE 0 s) [0..<8] s"

definition spectrum128_new ::
  "(ptr \<Rightarrow> u8) \<Rightarrow> input \<Rightarrow> ptr option \<Rightarrow> (nat \<Rightarrow> ptr option) \<Rightarrow> int list \<Rightarrow> machine128" where
  "spectrum128_new h i rom_ptr banks buffer =
     (let s = z80_init (z80_zero h (spectrum.extend (base_new i) (spectrum128.fields banks 0 False psg_reset 0 buffer)));
          s = upd_ctx (\<lambda>c. c\<lparr>rom_size := ROM_SIZE_128, rom := rom_ptr\<rparr>) s;
          s = fill_banks s;
          s = fill_opt rom_ptr ROM_SIZE_128 0xFF s
      in updatePaging s)"

definition reset128 :: "machine128 \<Rightarrow> machine128" where
  "reset128 s =
     (let s = base_reset s;
          s = upd_ctx (\<lambda>c. c\<lparr>port7FFD := 0, paging_locked := False, ay_selected := 0,
                ay_chip := resetFrame psg_reset, ay_buffer := replicate SAMPLES_PER_FRAME 0\<rparr>) s;
          s = fill_banks s
      in updatePaging s)"

definition AY_CLOCK :: rat where "AY_CLOCK = 1773400"
definition AY_RATE :: rat where "AY_RATE = 44100"

definition ay_render :: "nat \<Rightarrow> spectrum128 \<Rightarrow> spectrum128" where
  "ay_render target c =
     (let (chip, buffer) = psg_renderTo (ay_chip c) (ay_buffer c) target AY_CLOCK AY_RATE
      in c\<lparr>ay_chip := chip, ay_buffer := buffer\<rparr>)"

definition writePort128 :: "machine128 \<Rightarrow> u16 \<Rightarrow> u8 \<Rightarrow> machine128" where
  "writePort128 s port value =
     (if port AND 0x8002 = 0x0000
      then if \<not> paging_locked (ctx s)
           then updatePaging (upd_ctx (\<lambda>c. c\<lparr>port7FFD := value AND 0x3F,
                  paging_locked := (value AND 0x3F) AND 0x20 \<noteq> 0\<rparr>) s)
           else s
      else if port AND 0x0001 = 0 then writePortFE s value
      else if port AND 0xC002 = 0xC000 then upd_ctx (\<lambda>c. c\<lparr>ay_selected := value AND 0x0F\<rparr>) s
      else if port AND 0xC002 = 0x8000
      then upd_ctx (\<lambda>c.
             let c = ay_render (sample_of (ula_clocks c)) c
             in c\<lparr>ay_chip := writeRegister (ay_chip c) (ay_selected c) value\<rparr>) s
      else s)"

definition rom_active128 :: "machine128 \<Rightarrow> bool" where
  "rom_active128 s \<longleftrightarrow> port7FFD (ctx s) AND 0x10 \<noteq> 0"

definition readAY :: "machine128 \<Rightarrow> u8 \<Rightarrow> u8" where
  "readAY s reg = readRegister (ay_chip (ctx s)) reg"

definition writeAY :: "machine128 \<Rightarrow> u8 \<Rightarrow> u8 \<Rightarrow> machine128" where
  "writeAY s reg value = upd_ctx (\<lambda>c. c\<lparr>ay_chip := writeRegister (ay_chip c) reg value\<rparr>) s"

definition readPort128 :: "machine128 \<Rightarrow> u16 \<Rightarrow> u8 \<times> machine128" where
  "readPort128 s port =
     (if port AND 0x0001 = 0 then readPortFE rom_active128 s port
      else if port AND 0x00FF = 0x1F then (input_getJoystick (sp_input (ctx s)), s)
      else if port AND 0xC002 = 0xC000 then (readAY s (ay_selected (ctx s)), s)
      else (getFloatingBusValue s, s))"

definition getCurrentBank :: "machine128 \<Rightarrow> u16 \<Rightarrow> u8" where
  "getCurrentBank s addr =
     (if addr < 0x4000 then 0xFF
      else if addr < 0x8000 then 5
      else if addr < 0xC000 then 2
      else port7FFD (ctx s) AND 0x07)"

definition getBank :: "machine128 \<Rightarrow> u8 \<Rightarrow> ptr option" where
  "getBank s bank = (if bank < 8 then ram_banks (ctx s) (unat bank) else None)"

text \<open>\<open>memcpy\<close> to a bank; a machine without the bank does not get here.\<close>

definition store_opt :: "ptr option \<Rightarrow> u8 list \<Rightarrow> 'c z80 \<Rightarrow> 'c z80" where
  "store_opt p bs s = (case p of None \<Rightarrow> s | Some q \<Rightarrow> s\<lparr>heap := mem_store (heap s) q bs\<rparr>)"

definition applySnapshotData128 :: "machine128 \<Rightarrow> u8 list \<Rightarrow> bool \<times> machine128" where
  "applySnapshotData128 s data =
     (if length data = 49152
      then let s = store_opt (ram_banks (ctx s) 5) (take BANK_SIZE data) s;
               s = store_opt (ram_banks (ctx s) 2) (take BANK_SIZE (drop BANK_SIZE data)) s;
               s = store_opt (ram_banks (ctx s) 0) (take BANK_SIZE (drop (2 * BANK_SIZE) data)) s;
               s = upd_ctx (\<lambda>c. c\<lparr>port7FFD := 0x30, paging_locked := True\<rparr>) s
           in (True, updatePaging s)
      else (False, s))"

text \<open>The rest of the frame's samples, the copy of the first \<open>num_samples\<close> and the new frame.\<close>

definition renderPSGAudio :: "machine128 \<Rightarrow> nat \<Rightarrow> int list \<times> machine128" where
  "renderPSGAudio s num_samples =
     (let s = upd_ctx (ay_render SAMPLES_PER_FRAME) s;
          toCopy = (if num_samples < SAMPLES_PER_FRAME then num_samples else SAMPLES_PER_FRAME);
          out = take toCopy (ay_buffer (ctx s))
                @ (if num_samples > SAMPLES_PER_FRAME then replicate (num_samples - SAMPLES_PER_FRAME) 0 else [])
      in (out, upd_ctx (\<lambda>c. c\<lparr>ay_chip := resetFrame (ay_chip c)\<rparr>) s))"

definition bus128 :: "spectrum128 bus" where
  "bus128 = \<lparr>mem_read = spec_read, mem_write = spec_write, io_read = readPort128, io_write = writePort128\<rparr>"

definition step128 :: "machine128 \<Rightarrow> (int \<times> machine128) option" where
  "step128 s = spec_step rom_active128 bus128 s"

end
