(* ===== verification/Snapshot_RLE.thy ===== *)
theory Snapshot_RLE
  imports Prelude
begin

text \<open>
  The two run-length decoders of \<open>src/src/spectrum/Snapshot.cpp\<close>: \<open>decompressZ80RLE\<close> for the
  48K image of a version 1 file and \<open>loadCompressedMemPage\<close> for the 16K pages of versions 2 and 3.

  A destination buffer is the list of the bytes written to it so far, from index 0; its length is
  the code's \<open>outpos\<close> or \<open>memidx\<close>.  A failed call leaves what it has written, so both functions
  return the bytes with the result.  The reference is the format itself: a list of tokens, literals
  and runs, with an encoder of its own.
\<close>

section \<open>The decoders\<close>

text \<open>\<open>if (outpos < destlen) dest[outpos++] = v\<close>, and the loop that does it \<open>n\<close> times.\<close>

definition put :: "nat \<Rightarrow> u8 \<Rightarrow> u8 list \<Rightarrow> u8 list" where
  "put destlen v dest = (if length dest < destlen then dest @ [v] else dest)"

fun put_run :: "nat \<Rightarrow> nat \<Rightarrow> u8 \<Rightarrow> u8 list \<Rightarrow> u8 list" where
  "put_run destlen 0 v dest = dest"
| "put_run destlen (Suc n) v dest =
     (if length dest < destlen then put_run destlen n v (dest @ [v]) else dest)"

function rle_loop :: "u8 list \<Rightarrow> nat \<Rightarrow> nat \<Rightarrow> u8 list \<Rightarrow> u8 list" where
  "rle_loop src destlen inpos dest =
     (if inpos < length src \<and> length dest < destlen
      then if inpos + 3 < length src \<and> src ! inpos = 0xED \<and> src ! (inpos + 1) = 0xED
           then let count = src ! (inpos + 2);
                    value = src ! (inpos + 3);
                    inpos = inpos + 4
                in if count = 0
                   then rle_loop src destlen inpos
                          (put destlen value (put destlen 0xED (put destlen 0xED dest)))
                   else rle_loop src destlen inpos (put_run destlen (unat count) value dest)
           else rle_loop src destlen (inpos + 1) (dest @ [src ! inpos])
      else dest)"
  by pat_completeness auto
termination
  by (relation "measure (\<lambda>(src, _, inpos, _). length src - inpos)") auto

declare rle_loop.simps [simp del]

definition decompressZ80RLE :: "u8 list \<Rightarrow> nat \<Rightarrow> nat \<Rightarrow> u8 list \<times> bool" where
  "decompressZ80RLE src destlen offset =
     (let dest = rle_loop src destlen offset [] in (dest, length dest = destlen))"

text \<open>
  The page decoder counts the \<open>0xED\<close> bytes it has held back in \<open>ed_cnt\<close>; a run whose value byte
  is missing is dropped, a single held byte is written after the loop.
\<close>

function page_loop :: "u8 list \<Rightarrow> nat \<Rightarrow> nat \<Rightarrow> nat \<Rightarrow> u8 list \<Rightarrow> nat \<times> u8 list" where
  "page_loop src memlen dataOff ed_cnt mem =
     (if dataOff < length src \<and> length mem < memlen
      then let databyte = src ! dataOff;
               dataOff = dataOff + 1
           in if ed_cnt = 0
              then if databyte \<noteq> 0xED
                   then page_loop src memlen dataOff 0 (mem @ [databyte])
                   else page_loop src memlen dataOff 1 mem
              else if ed_cnt = 1
              then if databyte \<noteq> 0xED
                   then page_loop src memlen dataOff 0 (put memlen databyte (put memlen 0xED mem))
                   else page_loop src memlen dataOff 2 mem
              else if ed_cnt = 2
              then if dataOff < length src
                   then page_loop src memlen (dataOff + 1) 0
                          (put_run memlen (unat databyte) (src ! dataOff) mem)
                   else page_loop src memlen dataOff 0 mem
              else page_loop src memlen dataOff ed_cnt mem
      else (ed_cnt, mem))"
  by pat_completeness auto
termination
  by (relation "measure (\<lambda>(src, _, dataOff, _, _). length src - dataOff)") auto

declare page_loop.simps [simp del]

definition loadCompressedMemPage :: "u8 list \<Rightarrow> nat \<Rightarrow> u8 list \<times> bool" where
  "loadCompressedMemPage src memlen =
     (let (ed_cnt, mem) = page_loop src memlen 0 0 [];
          mem = (if ed_cnt = 1 \<and> length mem < memlen then mem @ [0xED] else mem)
      in (mem, length mem = memlen))"

section \<open>The format\<close>

datatype token = Lit u8 | Run u8 u8

fun tok_bytes :: "token \<Rightarrow> u8 list" where
  "tok_bytes (Lit b) = [b]"
| "tok_bytes (Run n v) = [0xED, 0xED, n, v]"

fun tok_out :: "token \<Rightarrow> u8 list" where
  "tok_out (Lit b) = [b]"
| "tok_out (Run n v) = replicate (unat n) v"

abbreviation stream :: "token list \<Rightarrow> u8 list" where
  "stream ts \<equiv> concat (map tok_bytes ts)"

abbreviation expand :: "token list \<Rightarrow> u8 list" where
  "expand ts \<equiv> concat (map tok_out ts)"

text \<open>A literal \<open>0xED\<close> is followed by a literal other byte, or ends the stream; no run is empty.\<close>

fun wf_tokens :: "token list \<Rightarrow> bool" where
  "wf_tokens [] = True"
| "wf_tokens (Run n v # ts) = (n \<noteq> 0 \<and> wf_tokens ts)"
| "wf_tokens (Lit b # ts) =
     ((b = 0xED \<longrightarrow> (case ts of [] \<Rightarrow> True | Lit c # _ \<Rightarrow> c \<noteq> 0xED | Run _ _ # _ \<Rightarrow> False)) \<and> wf_tokens ts)"

text \<open>
  The encoder of the format's description: five equal bytes or more become a run, two equal
  \<open>0xED\<close> already do, and the byte after a single \<open>0xED\<close> is never put into a run.
\<close>

definition run_length :: "u8 \<Rightarrow> u8 list \<Rightarrow> nat" where
  "run_length b xs = Suc (min 254 (length (takeWhile ((=) b) xs)))"

function encode :: "u8 list \<Rightarrow> token list" where
  "encode [] = []"
| "encode (b # xs) =
     (let k = run_length b xs
      in if (if b = 0xED then 2 \<le> k else 5 \<le> k)
         then Run (of_nat k) b # encode (drop (k - 1) xs)
         else if b = 0xED
         then Lit b # (case xs of [] \<Rightarrow> [] | c # ys \<Rightarrow> Lit c # encode ys)
         else Lit b # encode xs)"
  by pat_completeness auto
termination
  by (relation "measure length") auto

section \<open>Buffers\<close>

lemma length_put_run: "length dest \<le> destlen \<Longrightarrow> length (put_run destlen n v dest) \<le> destlen"
  by (induction destlen n v dest rule: put_run.induct) auto

lemma length_put: "length dest \<le> destlen \<Longrightarrow> length (put destlen v dest) \<le> destlen"
  by (simp add: put_def)

lemma put_run_fits:
  "length dest + n \<le> destlen \<Longrightarrow> put_run destlen n v dest = dest @ replicate n v"
  by (induction n arbitrary: dest) auto

lemma rle_loop_bound: "length dest \<le> destlen \<Longrightarrow> length (rle_loop src destlen inpos dest) \<le> destlen"
proof (induction src destlen inpos dest rule: rle_loop.induct)
  case (1 src destlen inpos dest)
  then show ?case
    by (subst rle_loop.simps) (simp add: Let_def length_put length_put_run)
qed

lemma page_loop_bound:
  "length mem \<le> memlen \<Longrightarrow> length (snd (page_loop src memlen dataOff ed_cnt mem)) \<le> memlen"
proof (induction src memlen dataOff ed_cnt mem rule: page_loop.induct)
  case (1 src memlen dataOff ed_cnt mem)
  then show ?case
    by (subst page_loop.simps) (auto simp: Let_def length_put length_put_run)
qed

section \<open>Decoding a token stream\<close>

lemma nth_append_off [simp]: "n = length pre \<Longrightarrow> (pre @ x # rest) ! n = x"
  by simp

lemma rle_loop_stop: "length dest = destlen \<Longrightarrow> rle_loop src destlen inpos dest = dest"
  by (subst rle_loop.simps) simp

lemma rle_loop_run:
  assumes "n \<noteq> 0" "length dest + unat n \<le> destlen"
  shows "rle_loop (pre @ 0xED # 0xED # n # v # rest) destlen (length pre) dest =
    rle_loop (pre @ 0xED # 0xED # n # v # rest) destlen (length (pre @ [0xED, 0xED, n, v])) (dest @ replicate (unat n) v)"
proof -
  have "unat n \<noteq> 0" using assms(1) by (simp add: unat_eq_0)
  then have "length dest < destlen" using assms(2) by arith
  then show ?thesis
    using assms
    by (subst rle_loop.simps) (simp add: Let_def nth_append put_run_fits numeral_eq_Suc)
qed

lemma rle_loop_lit:
  assumes "length dest < destlen"
    and "\<not> (\<exists>n v ys. b = 0xED \<and> rest = 0xED # n # v # ys)"
  shows "rle_loop (pre @ b # rest) destlen (length pre) dest =
    rle_loop (pre @ b # rest) destlen (length pre + 1) (dest @ [b])"
proof -
  let ?src = "pre @ b # rest"
  have no_run: "\<not> (length pre + 3 < length ?src \<and> ?src ! length pre = 0xED \<and> ?src ! (length pre + 1) = 0xED)"
  proof
    assume h: "length pre + 3 < length ?src \<and> ?src ! length pre = 0xED \<and> ?src ! (length pre + 1) = 0xED"
    then have "3 \<le> length rest" by simp
    then obtain x n v ys where "rest = x # n # v # ys"
      by (auto simp: numeral_3_eq_3 Suc_le_length_iff)
    with h assms(2) show False by (simp add: nth_append)
  qed
  show ?thesis
    using assms(1)
    by (subst rle_loop.simps, subst if_P, simp, subst if_not_P [OF no_run]) simp
qed

lemma wf_lit_ok:
  assumes "wf_tokens (Lit b # ts)" "\<forall>ys. rest \<noteq> 0xED # ys"
  shows "\<not> (\<exists>n v ys. b = 0xED \<and> stream ts @ rest = 0xED # n # v # ys)"
proof (cases ts)
  case Nil
  then show ?thesis using assms by auto
next
  case (Cons t ts')
  then show ?thesis using assms(1) by (cases t) auto
qed

lemma rle_loop_tokens:
  assumes "wf_tokens ts" "length dest + length (expand ts) = destlen" "\<forall>ys. rest \<noteq> 0xED # ys"
  shows "rle_loop (pre @ stream ts @ rest) destlen (length pre) dest = dest @ expand ts"
  using assms
proof (induction ts arbitrary: pre dest rule: wf_tokens.induct)
  case 1
  then show ?case by (simp add: rle_loop_stop)
next
  case (2 n v ts)
  have "rle_loop ((pre @ [0xED, 0xED, n, v]) @ stream ts @ rest) destlen (length (pre @ [0xED, 0xED, n, v]))
      (dest @ replicate (unat n) v) = (dest @ replicate (unat n) v) @ expand ts"
    using 2 by (intro "2.IH") auto
  then show ?case
    using 2 rle_loop_run [of n dest destlen pre v "stream ts @ rest"] by (simp add: add.assoc)
next
  case (3 b ts)
  have "rle_loop ((pre @ [b]) @ stream ts @ rest) destlen (length (pre @ [b])) (dest @ [b]) = (dest @ [b]) @ expand ts"
    using 3 by (intro "3.IH") auto
  moreover have "\<not> (\<exists>n v ys. b = 0xED \<and> stream ts @ rest = 0xED # n # v # ys)"
    using 3 by (intro wf_lit_ok) auto
  ultimately show ?case
    using 3 rle_loop_lit [of dest destlen b "stream ts @ rest" pre] by simp
qed

lemma page_loop_run:
  assumes "n \<noteq> 0" "length mem + unat n \<le> memlen"
  shows "page_loop (pre @ 0xED # 0xED # n # v # rest) memlen (length pre) 0 mem =
    page_loop (pre @ 0xED # 0xED # n # v # rest) memlen (length (pre @ [0xED, 0xED, n, v])) 0
      (mem @ replicate (unat n) v)"
proof -
  let ?src = "pre @ 0xED # 0xED # n # v # rest"
  have "unat n \<noteq> 0" using assms(1) by (simp add: unat_eq_0)
  then have l: "length mem < memlen" using assms(2) by arith
  have "page_loop ?src memlen (length pre) 0 mem = page_loop ?src memlen (length pre + 1) 1 mem"
    using l by (subst page_loop.simps) (simp add: Let_def nth_append)
  also have "\<dots> = page_loop ?src memlen (length pre + 2) 2 mem"
    using l by (subst page_loop.simps) (simp add: Let_def nth_append)
  also have "\<dots> = page_loop ?src memlen (length pre + 4) 0 (mem @ replicate (unat n) v)"
    using l assms(2) by (subst page_loop.simps) (simp add: Let_def nth_append put_run_fits numeral_eq_Suc)
  finally show ?thesis by (simp add: numeral_eq_Suc)
qed

lemma page_loop_lit:
  assumes "length mem < memlen" "b \<noteq> 0xED"
  shows "page_loop (pre @ b # rest) memlen (length pre) 0 mem =
    page_loop (pre @ b # rest) memlen (length (pre @ [b])) 0 (mem @ [b])"
  using assms by (subst page_loop.simps) (simp add: Let_def)

lemma page_loop_held:
  assumes "length mem + 1 < memlen" "c \<noteq> 0xED"
  shows "page_loop (pre @ 0xED # c # rest) memlen (length pre) 0 mem =
    page_loop (pre @ 0xED # c # rest) memlen (length (pre @ [0xED])) 0 (mem @ [0xED])"
proof -
  let ?src = "pre @ 0xED # c # rest"
  have "page_loop ?src memlen (length pre) 0 mem = page_loop ?src memlen (length pre + 1) 1 mem"
    using assms(1) by (subst page_loop.simps) (simp add: Let_def nth_append)
  also have "\<dots> = page_loop ?src memlen (length pre + 2) 0 ((mem @ [0xED]) @ [c])"
    using assms by (subst page_loop.simps) (simp add: Let_def nth_append put_def)
  also have "\<dots> = page_loop ?src memlen (length (pre @ [0xED])) 0 (mem @ [0xED])"
    using assms page_loop_lit [of "mem @ [0xED]" memlen c "pre @ [0xED]" rest] by simp
  finally show ?thesis .
qed

lemma page_loop_stop: "length mem = memlen \<Longrightarrow> page_loop src memlen dataOff e mem = (e, mem)"
  by (subst page_loop.simps) simp

lemma page_loop_end: "page_loop src memlen (length src) e mem = (e, mem)"
  by (subst page_loop.simps) simp

text \<open>The code after the loop.\<close>

definition page_finish :: "nat \<Rightarrow> nat \<times> u8 list \<Rightarrow> u8 list" where
  "page_finish memlen r =
     (if fst r = 1 \<and> length (snd r) < memlen then snd r @ [0xED] else snd r)"

lemma load_page_finish:
  "loadCompressedMemPage src memlen =
     (page_finish memlen (page_loop src memlen 0 0 []),
      length (page_finish memlen (page_loop src memlen 0 0 [])) = memlen)"
  by (simp add: loadCompressedMemPage_def page_finish_def case_prod_beta Let_def)

lemma expand_pos: "wf_tokens (t # ts) \<Longrightarrow> 0 < length (tok_out t)"
  by (cases t) (auto simp: unat_gt_0)

lemma page_loop_tokens:
  assumes "wf_tokens ts" "length mem + length (expand ts) = memlen"
  shows "page_finish memlen (page_loop (pre @ stream ts) memlen (length pre) 0 mem) = mem @ expand ts"
  using assms
proof (induction ts arbitrary: pre mem rule: wf_tokens.induct)
  case 1
  then show ?case by (simp add: page_loop_stop page_finish_def)
next
  case (2 n v ts)
  have "page_finish memlen (page_loop ((pre @ [0xED, 0xED, n, v]) @ stream ts) memlen
      (length (pre @ [0xED, 0xED, n, v])) 0 (mem @ replicate (unat n) v))
      = (mem @ replicate (unat n) v) @ expand ts"
    using 2 by (intro "2.IH") auto
  then show ?case
    using 2 page_loop_run [of n mem memlen pre v "stream ts"] by (simp add: add.assoc)
next
  case (3 b ts)
  have IH: "page_finish memlen (page_loop ((pre @ [b]) @ stream ts) memlen (length (pre @ [b])) 0 (mem @ [b]))
      = (mem @ [b]) @ expand ts"
    using 3 by (intro "3.IH") auto
  show ?case
  proof (cases "b = 0xED")
    case False
    then show ?thesis using 3 IH page_loop_lit [of mem memlen b pre "stream ts"] by simp
  next
    case ed: True
    show ?thesis
    proof (cases ts)
      case Nil
      have "page_loop (pre @ [b]) memlen (length pre) 0 mem = (1, mem)"
        using ed 3 Nil page_loop_end [of "pre @ [b]" memlen 1 mem]
        by (subst page_loop.simps) (simp add: Let_def)
      then show ?thesis using ed 3 Nil by (simp add: page_finish_def)
    next
      case (Cons t ts')
      then obtain c where c: "t = Lit c" "c \<noteq> 0xED" using 3 ed by (cases t) auto
      show ?thesis
        using 3 IH ed Cons c page_loop_held [of mem memlen c pre "stream ts'"] by simp
    qed
  qed
qed

section \<open>The encoder\<close>

lemma run_length_bounds: "1 \<le> run_length b xs" "run_length b xs \<le> 255"
  by (simp_all add: run_length_def)

lemma run_length_prefix:
  "b # xs = replicate (run_length b xs) b @ drop (run_length b xs - 1) xs"
proof -
  let ?m = "min 254 (length (takeWhile ((=) b) xs))"
  let ?w = "takeWhile ((=) b) xs"
  have "take ?m xs = take ?m (?w @ dropWhile ((=) b) xs)" by simp
  also have "\<dots> = take ?m ?w" by (simp only: take_append) simp
  finally have eq: "take ?m xs = take ?m ?w" .
  have "\<forall>x \<in> set (take ?m xs). x = b"
    unfolding eq by (auto dest!: in_set_takeD set_takeWhileD)
  moreover have "length (take ?m xs) = ?m"
    using length_takeWhile_le [of "(=) b" xs] by simp
  ultimately have "take ?m xs = replicate ?m b" by (metis replicate_length_same)
  then have "xs = replicate ?m b @ drop ?m xs" by (metis append_take_drop_id)
  then show ?thesis by (simp add: run_length_def)
qed

lemma unat_run_length: "unat (of_nat (run_length b xs) :: u8) = run_length b xs"
  using run_length_bounds [of b xs] by (simp add: unsigned_of_nat take_bit_nat_eq_self)

lemma run_length_pair: "2 \<le> run_length b (b # ys)"
  by (simp add: run_length_def)

lemma expand_encode: "expand (encode xs) = xs"
proof (induction xs rule: encode.induct)
  case 1
  then show ?case by simp
next
  case (2 b xs)
  have "replicate (run_length b xs) b @ drop (run_length b xs - 1) xs = b # xs"
    by (rule run_length_prefix [symmetric])
  then show ?case
    using 2 unat_run_length [of b xs] by (auto simp: Let_def split: list.split)
qed

lemma wf_encode: "wf_tokens (encode xs)"
proof (induction xs rule: encode.induct)
  case 1
  then show ?case by simp
next
  case (2 b xs)
  have "(of_nat (run_length b xs) :: u8) \<noteq> 0"
    using unat_run_length [of b xs] run_length_bounds [of b xs] by (metis not_one_le_zero unat_0)
  then show ?case
    using 2 run_length_pair [of b] by (auto simp: Let_def not_le [symmetric] split: list.split)
qed

section \<open>Properties\<close>

theorem decompress_round_trip:
  "decompressZ80RLE (hdr @ stream (encode ram) @ [0x00, 0xED, 0xED, 0x00]) (length ram) (length hdr)
     = (ram, True)"
  using rle_loop_tokens [OF wf_encode [of ram], of "[]" "length ram" "[0x00, 0xED, 0xED, 0x00]" hdr]
  by (simp add: decompressZ80RLE_def expand_encode Let_def)

theorem page_round_trip:
  "loadCompressedMemPage (stream (encode page)) (length page) = (page, True)"
  using page_loop_tokens [OF wf_encode [of page], of "[]" "length page" "[]"]
  by (simp add: load_page_finish expand_encode)

theorem decoders_agree:
  assumes "wf_tokens ts"
  shows "decompressZ80RLE (stream ts) (length (expand ts)) 0
     = loadCompressedMemPage (stream ts) (length (expand ts))"
  using rle_loop_tokens [OF assms, of "[]" "length (expand ts)" "[]" "[]"]
    page_loop_tokens [OF assms, of "[]" "length (expand ts)" "[]"]
  by (simp add: decompressZ80RLE_def load_page_finish Let_def)

theorem decoders_agree_witness:
  "wf_tokens [Lit 0xED, Lit 1, Run 3 7]
     \<and> decompressZ80RLE (stream [Lit 0xED, Lit 1, Run 3 7]) (length (expand [Lit 0xED, Lit 1, Run 3 7])) 0
       = loadCompressedMemPage (stream [Lit 0xED, Lit 1, Run 3 7]) (length (expand [Lit 0xED, Lit 1, Run 3 7]))"
proof
  show "wf_tokens [Lit 0xED, Lit 1, Run 3 7]" by simp
  then show "decompressZ80RLE (stream [Lit 0xED, Lit 1, Run 3 7]) (length (expand [Lit 0xED, Lit 1, Run 3 7])) 0
       = loadCompressedMemPage (stream [Lit 0xED, Lit 1, Run 3 7]) (length (expand [Lit 0xED, Lit 1, Run 3 7]))"
    by (rule decoders_agree)
qed

theorem decoders_bounded:
  "length (fst (decompressZ80RLE src n off)) \<le> n \<and> length (fst (loadCompressedMemPage src n)) \<le> n
     \<and> (snd (decompressZ80RLE src n off) \<longleftrightarrow> length (fst (decompressZ80RLE src n off)) = n)
     \<and> (snd (loadCompressedMemPage src n) \<longleftrightarrow> length (fst (loadCompressedMemPage src n)) = n)"
  using rle_loop_bound [of "[]" n src off] page_loop_bound [of "[]" n src 0 0]
  by (auto simp: decompressZ80RLE_def load_page_finish page_finish_def Let_def)

text \<open>
  A run of length zero is outside the format.  The two decoders disagree on it: one writes the two
  \<open>0xED\<close> bytes and the value, the other nothing.
\<close>

theorem zero_run_differs:
  "decompressZ80RLE [0xED, 0xED, 0, v] 3 0 = ([0xED, 0xED, v], True)
     \<and> loadCompressedMemPage [0xED, 0xED, 0, v] 3 = ([], False)"
  by (simp_all add: decompressZ80RLE_def loadCompressedMemPage_def rle_loop.simps page_loop.simps put_def Let_def)

end
