(* ===== verification/Snapshot.thy ===== *)
theory Snapshot
  imports Spectrum128 Snapshot_RLE
begin

text \<open>
  The loader of \<open>.z80\<close> files, \<open>src/src/spectrum/Snapshot.cpp\<close> lines 11 to 203.

  \<^item> A file is the list of its bytes; the results of the allocations are parameters, and the buffer
    of a 48K image holds what its memory held before.
  \<^item> The virtual functions the loader calls, \<open>applySnapshotData\<close>, \<open>writePort\<close> and
    \<open>getBank\<close>, come with the machine: \<open>loader\<close> holds them, with \<open>None\<close> where \<open>is128k()\<close> is false.
  \<^item> A read past the end of the file buffer is undefined behaviour: the result is then \<open>None\<close>.
\<close>

section \<open>The header\<close>

record z80_header =
  hdr :: "u8 list"
  extra_len :: nat
  ext_pc :: u16
  have_header :: bool

definition file16 :: "u8 list \<Rightarrow> nat \<Rightarrow> u16" where
  "file16 d p = pair16 (d ! (p + 1)) (d ! p)"

definition read_header :: "u8 list \<Rightarrow> z80_header \<times> u16" where
  "read_header filebuf =
     (let got = length filebuf;
          header = \<lparr>hdr = replicate 30 0, extra_len = 0, ext_pc = 0, have_header = False\<rparr>;
          (header, hdr_pc) =
            (if got \<ge> 30 then (header\<lparr>hdr := take 30 filebuf, have_header := True\<rparr>, file16 filebuf 6)
             else (header, 0));
          header =
            (if have_header header \<and> hdr_pc = 0 \<and> got \<ge> 34
             then let header = header\<lparr>extra_len := unat (file16 filebuf 30)\<rparr>
                  in if extra_len header \<ge> 2 then header\<lparr>ext_pc := file16 filebuf 32\<rparr> else header
             else header)
      in (header, hdr_pc))"

text \<open>The registers.\<close>

definition restore_regs :: "u8 list \<Rightarrow> u16 \<Rightarrow> 'c z80 \<Rightarrow> 'c z80" where
  "restore_regs h pc s =
     s\<lparr>reg_a := h ! 0, reg_f := h ! 1, reg_c := h ! 2, reg_b := h ! 3, reg_l := h ! 4, reg_h := h ! 5,
       reg_e := h ! 13, reg_d := h ! 14,
       alt_c := h ! 15, alt_b := h ! 16, alt_e := h ! 17, alt_d := h ! 18, alt_l := h ! 19, alt_h := h ! 20,
       alt_a := h ! 21, alt_f := h ! 22,
       reg_iy := file16 h 23, reg_ix := file16 h 25,
       reg_sp := file16 h 8, reg_pc := pc,
       reg_i := h ! 10,
       reg_r := (h ! 11 AND 0x7F) OR (if h ! 12 AND 0x01 \<noteq> 0 then 0x80 else 0x00),
       iff1 := (if h ! 27 \<noteq> 0 then 1 else 0), iff2 := (if h ! 28 \<noteq> 0 then 1 else 0),
       imode := h ! 29 AND 0x03\<rparr>"

definition restoreCPUFromSnapshot :: "'m machine \<Rightarrow> z80_header \<Rightarrow> u8 list \<Rightarrow> 'm machine" where
  "restoreCPUFromSnapshot s header filebuf =
     (if \<not> have_header header then s
      else let h = hdr header;
               pc = file16 h 6;
               pc = (if pc = 0 \<and> extra_len header \<ge> 2 then ext_pc header
                     else if pc = 0 \<and> length filebuf \<ge> 34 then file16 filebuf 32
                     else pc);
               border = drop_bit 1 (h ! 12) AND 0x07;
               s = upd_ctx (\<lambda>c. c\<lparr>border_color := border, initial_border := border, render_initial := border,
                      border_events := [], render_events := []\<rparr>) s;
               s = restore_regs h pc s
           in if spec_read s pc = 0x76 then s\<lparr>halted := 1\<rparr> else s)"

section \<open>The pages of versions 2 and 3\<close>

record 'm loader =
  apply_data :: "'m machine \<Rightarrow> u8 list \<Rightarrow> bool \<times> 'm machine"
  paged :: "(('m machine \<Rightarrow> u16 \<Rightarrow> u8 \<Rightarrow> 'm machine) \<times> ('m machine \<Rightarrow> u8 \<Rightarrow> ptr option)) option"

definition pageStart48 :: "nat list" where
  "pageStart48 = [0, 0, 0, 0, 0x8000, 0xC000, 0, 0, 0x4000, 0, 0, 0]"

text \<open>Where a page goes: into host memory, or into the temporary image at an offset.\<close>

datatype page_target = Bank ptr | Temp nat

definition dest_of :: "ptr option \<Rightarrow> page_target option" where
  "dest_of p = map_option Bank p"

definition page_dest :: "'m loader \<Rightarrow> 'm machine \<Rightarrow> bool \<Rightarrow> u8 list \<Rightarrow> u8 \<Rightarrow> page_target option" where
  "page_dest L s have_tmp filebuf pageId =
     (let start = (if pageId < 12 then pageStart48 ! unat pageId else 0)
      in case paged L of
           Some (_, bank) \<Rightarrow>
             if filebuf ! 34 \<ge> 3 \<and> pageId \<ge> 3 \<and> pageId < 11 then dest_of (bank s (pageId - 3))
             else if pageId < 12 \<and> start \<noteq> 0
             then if start = 0x4000 then dest_of (bank s 5)
                  else if start = 0x8000 then dest_of (bank s 2)
                  else if start = 0xC000 then dest_of (bank s 0)
                  else None
             else if have_tmp \<and> pageId < 12 \<and> start \<noteq> 0 then Some (Temp (start - 0x4000))
             else None
         | None \<Rightarrow>
             if have_tmp \<and> pageId < 12 \<and> start \<noteq> 0 then Some (Temp (start - 0x4000)) else None)"

definition overwrite :: "u8 list \<Rightarrow> nat \<Rightarrow> u8 list \<Rightarrow> u8 list" where
  "overwrite buf off bs = take off buf @ bs @ drop (off + length bs) buf"

definition store_page :: "page_target \<Rightarrow> u8 list \<Rightarrow> 'm machine \<times> u8 list option \<Rightarrow> 'm machine \<times> u8 list option" where
  "store_page d bs st =
     (let (s, tmp) = st
      in case d of
           Bank p \<Rightarrow> (s\<lparr>heap := mem_store (heap s) p bs\<rparr>, tmp)
         | Temp off \<Rightarrow> (s, map_option (\<lambda>buf. overwrite buf off bs) tmp))"

text \<open>The loop over the pages: whether all pages were good, whether there was one, and the state.\<close>

definition page_data :: "u8 list \<Rightarrow> nat \<Rightarrow> nat \<Rightarrow> u8 list \<times> bool" where
  "page_data filebuf pos compLen =
     (if compLen = 0xFFFF then (take 0x4000 (drop pos filebuf), True)
      else loadCompressedMemPage (take compLen (drop pos filebuf)) 0x4000)"

function pages_loop ::
  "'m loader \<Rightarrow> u8 list \<Rightarrow> nat \<Rightarrow> bool \<Rightarrow> bool \<Rightarrow> 'm machine \<times> u8 list option
     \<Rightarrow> bool \<times> bool \<times> 'm machine \<times> u8 list option" where
  "pages_loop L filebuf pos allPagesOk foundAnyPage st =
     (if pos + 3 \<le> length filebuf
      then let compLen = unat (file16 filebuf pos);
               pageId = filebuf ! (pos + 2);
               pos = pos + 3;
               dataLen = (if compLen = 0xFFFF then 0x4000 else compLen)
           in if pos + dataLen > length filebuf then (False, foundAnyPage, st)
              else case page_dest L (fst st) (snd st \<noteq> None) filebuf pageId of
                     None \<Rightarrow> pages_loop L filebuf (pos + dataLen) allPagesOk foundAnyPage st
                   | Some d \<Rightarrow>
                       let (bs, pageSuccess) = page_data filebuf pos compLen
                       in pages_loop L filebuf (pos + dataLen) (allPagesOk \<and> pageSuccess) True (store_page d bs st)
      else (allPagesOk, foundAnyPage, st))"
  by pat_completeness auto
termination
  by (relation "measure (\<lambda>(_, f, pos, _). length f - pos)") auto

declare pages_loop.simps [simp del]

section \<open>The loader\<close>

text \<open>The paging and the sound registers of a 128K file; the reads are not checked.\<close>

definition ay_registers :: "('m machine \<Rightarrow> u16 \<Rightarrow> u8 \<Rightarrow> 'm machine) \<Rightarrow> u8 list \<Rightarrow> 'm machine \<Rightarrow> 'm machine" where
  "ay_registers wp filebuf s =
     wp (fold (\<lambda>i s. wp (wp s 0xFFFD (of_nat i)) 0xBFFD (filebuf ! (39 + i))) [0..<16] s) 0xFFFD (filebuf ! 38)"

definition hardware_state :: "'m loader \<Rightarrow> nat \<Rightarrow> u8 list \<Rightarrow> 'm machine \<Rightarrow> 'm machine option" where
  "hardware_state L extra filebuf s =
     (case paged L of
        None \<Rightarrow> Some s
      | Some (wp, _) \<Rightarrow>
          if extra < 4 then Some s
          else if length filebuf \<le> 35 then None
          else let s = wp s 0x7FFD (filebuf ! 35)
               in if extra < 23 then Some s
                  else if length filebuf \<le> 54 then None
                  else Some (ay_registers wp filebuf s))"

definition load_v1 :: "'m loader \<Rightarrow> u8 list \<Rightarrow> z80_header \<Rightarrow> 'm machine \<Rightarrow> bool \<times> 'm machine" where
  "load_v1 L filebuf header s =
     (let is_compressed = (hdr header ! 12 AND 0x20 \<noteq> 0)
      in if \<not> is_compressed \<and> length filebuf \<ge> 30 + 49152
         then apply_data L s (take 49152 (drop 30 filebuf))
         else let (out, ok) = decompressZ80RLE filebuf 49152 30
              in if ok then apply_data L s out else (False, s))"

definition load_v23 :: "'m loader \<Rightarrow> u8 list option \<Rightarrow> u8 list \<Rightarrow> nat \<Rightarrow> 'm machine \<Rightarrow> (bool \<times> 'm machine) option" where
  "load_v23 L tmp48 filebuf extra s =
     (let tmp48 = (if paged L \<noteq> None then None else tmp48)
      in Option.bind (hardware_state L extra filebuf s) (\<lambda>s.
           let (allPagesOk, foundAnyPage, s, tmp48) = pages_loop L filebuf (30 + 2 + extra) True False (s, tmp48)
           in if allPagesOk \<and> foundAnyPage
              then let s = (case paged L of
                              Some (wp, _) \<Rightarrow> if filebuf ! 34 < 3 then wp s 0x7FFD 0x30 else s
                            | None \<Rightarrow> s)
                   in case tmp48 of Some buf \<Rightarrow> Some (apply_data L s buf) | None \<Rightarrow> Some (True, s)
              else Some (False, s)))"

definition snapshot_load :: "'m loader \<Rightarrow> bool \<Rightarrow> u8 list option \<Rightarrow> u8 list option \<Rightarrow> 'm machine \<Rightarrow> (bool \<times> 'm machine) option" where
  "snapshot_load L tmpout_ok tmp48 content s =
     (case content of
        None \<Rightarrow> Some (False, s)
      | Some filebuf \<Rightarrow>
          let (header, hdr_pc) = read_header filebuf;
              (applied, s) = apply_data L s filebuf
          in Option.bind
               (if applied then Some (True, s)
                else if \<not> tmpout_ok then Some (False, s)
                else if hdr_pc \<noteq> 0 then Some (load_v1 L filebuf header s)
                else if extra_len header > 0 then load_v23 L tmp48 filebuf (extra_len header) s
                else Some (False, s))
               (\<lambda>(success, s). Some (success, if success then restoreCPUFromSnapshot s header filebuf else s)))"

text \<open>The two machines.\<close>

definition loader48 :: "\<lparr>ram :: ptr option\<rparr> loader" where
  "loader48 = \<lparr>apply_data = applySnapshotData48, paged = None\<rparr>"

definition loader128 where
  "loader128 = \<lparr>apply_data = applySnapshotData128, paged = Some (writePort128, getBank)\<rparr>"

end
