(* ===== verification/Emulator.thy ===== *)
theory Emulator
  imports Web_Command Display Snapshot Tape_Parse
begin

text \<open>
  The emulator task of \<open>src/src/main.cpp\<close>: the handling of the commands of the web front end, the
  loop that runs the machine for a frame, and the text of the tape overlay.

  \<^item> \<open>mach\<close> is the object behind the pointer \<open>spectrum\<close>: one of the two machines.
  \<^item> What the platform provides at a step is the record \<open>host\<close>: the files, the results of the
    allocations and what the memory they return held before.
  \<^item> A result \<open>None\<close> stands for code that does not return (a tape image that hangs the parser, an
    instruction that does not end) or that reads outside its buffers.
\<close>

section \<open>The machine behind the pointer\<close>

datatype mach = M48 machine48 | M128 machine128

record host =
  h_files :: "string \<Rightarrow> u8 list option"
  h_rom :: "ptr option"
  h_ram :: "ptr option"
  h_banks :: "nat \<Rightarrow> ptr option"
  h_buffer :: "int list"
  h_tape_alloc :: bool
  h_tape_read :: nat
  h_snap_alloc :: bool
  h_tmp48 :: "u8 list option"

fun mach_step :: "mach \<Rightarrow> (int \<times> mach) option" where
  "mach_step (M48 s) = map_option (apsnd M48) (step48 s)"
| "mach_step (M128 s) = map_option (apsnd M128) (step128 s)"

fun mach_reset :: "mach \<Rightarrow> mach" where
  "mach_reset (M48 s) = M48 (reset48 s)"
| "mach_reset (M128 s) = M128 (reset128 s)"

fun mach_tape :: "mach \<Rightarrow> tape" where
  "mach_tape (M48 s) = sp_tape (ctx s)"
| "mach_tape (M128 s) = sp_tape (ctx s)"

fun set_tape :: "tape \<Rightarrow> mach \<Rightarrow> mach" where
  "set_tape t (M48 s) = M48 (upd_ctx (\<lambda>c. c\<lparr>sp_tape := t\<rparr>) s)"
| "set_tape t (M128 s) = M128 (upd_ctx (\<lambda>c. c\<lparr>sp_tape := t\<rparr>) s)"

fun mach_input :: "mach \<Rightarrow> input" where
  "mach_input (M48 s) = sp_input (ctx s)"
| "mach_input (M128 s) = sp_input (ctx s)"

fun set_input :: "input \<Rightarrow> mach \<Rightarrow> mach" where
  "set_input i (M48 s) = M48 (upd_ctx (\<lambda>c. c\<lparr>sp_input := i\<rparr>) s)"
| "set_input i (M128 s) = M128 (upd_ctx (\<lambda>c. c\<lparr>sp_input := i\<rparr>) s)"

fun set_monitor :: "bool \<Rightarrow> mach \<Rightarrow> mach" where
  "set_monitor b (M48 s) = M48 (upd_ctx (\<lambda>c. c\<lparr>tape_monitor := b\<rparr>) s)"
| "set_monitor b (M128 s) = M128 (upd_ctx (\<lambda>c. c\<lparr>tape_monitor := b\<rparr>) s)"

fun mach_loadROM :: "u8 list option \<Rightarrow> mach \<Rightarrow> bool \<times> mach" where
  "mach_loadROM content (M48 s) = apsnd M48 (loadROM s content)"
| "mach_loadROM content (M128 s) = apsnd M128 (loadROM s content)"

fun mach_instaload :: "mach \<Rightarrow> bool \<times> mach" where
  "mach_instaload (M48 s) = apsnd M48 (instaload s)"
| "mach_instaload (M128 s) = apsnd M128 (instaload s)"

fun mach_snapshot :: "host \<Rightarrow> u8 list option \<Rightarrow> mach \<Rightarrow> (bool \<times> mach) option" where
  "mach_snapshot h content (M48 s) =
     map_option (apsnd M48) (snapshot_load loader48 (h_snap_alloc h) (h_tmp48 h) content s)"
| "mach_snapshot h content (M128 s) =
     map_option (apsnd M128) (snapshot_load loader128 (h_snap_alloc h) (h_tmp48 h) content s)"

text \<open>The heap is the host's memory; the keyboard state is global, so the constructor resets it.\<close>

fun mach_heap :: "mach \<Rightarrow> ptr \<Rightarrow> u8" where
  "mach_heap (M48 s) = heap s"
| "mach_heap (M128 s) = heap s"

definition createSpectrumInstance :: "host \<Rightarrow> bool \<Rightarrow> (ptr \<Rightarrow> u8) \<Rightarrow> input \<Rightarrow> mach" where
  "createSpectrumInstance h is128K mem i =
     (if is128K then M128 (spectrum128_new mem i (h_rom h) (h_banks h) (h_buffer h))
      else M48 (spectrum48_new mem i (h_rom h) (h_ram h)))"

text \<open>
  The model at boot: the stored preference (\<open>ro_ok\<close>: the storage opens, \<open>get_ok\<close>: it reads), and steps 7
  to 9 of \<open>app_main\<close>, which abort without the ROM.
\<close>

definition getStoredModelPreference :: "bool \<Rightarrow> bool \<Rightarrow> nvs_store \<Rightarrow> bool \<times> string" where
  "getStoredModelPreference ro_ok get_ok store =
     (if ro_ok \<and> get_ok \<and> store (''spectrum_config'', ''model'') = Some ''128k'' then (True, ''/spiffs/128k.rom'') else (False, ''/spiffs/48k.rom''))"

definition boot_machine :: "host \<Rightarrow> (ptr \<Rightarrow> u8) \<Rightarrow> input \<Rightarrow> bool \<Rightarrow> bool \<Rightarrow> nvs_store \<Rightarrow> mach option" where
  "boot_machine h mem i ro_ok get_ok store =
     (let (is128K, romFile) = getStoredModelPreference ro_ok get_ok store
      in if h_files h romFile = None then None
         else let (ok, m) = mach_loadROM (h_files h romFile) (createSpectrumInstance h is128K mem i)
              in if ok then Some (mach_reset m) else None)"

section \<open>The state of the task\<close>

record emu =
  machine_ptr :: mach
  disp :: display
  display_ready :: bool
  last_tape_text :: string
  attr_luts :: luts

definition on_mach :: "(mach \<Rightarrow> mach) \<Rightarrow> emu \<Rightarrow> emu" where
  "on_mach f e = e\<lparr>machine_ptr := f (machine_ptr e)\<rparr>"

definition show_text :: "string \<Rightarrow> u16 \<Rightarrow> emu \<Rightarrow> emu" where
  "show_text t color e = e\<lparr>disp := display_setOverlayText (disp e) (Some t) color\<rparr>"

definition clear_text :: "emu \<Rightarrow> emu" where
  "clear_text e = e\<lparr>disp := display_clearOverlay (disp e)\<rparr>"

text \<open>A reset while the video task waits.\<close>

definition paused_reset :: "emu \<Rightarrow> emu" where
  "paused_reset e =
     (let e = e\<lparr>disp := display_pause_for_reset (disp e)\<rparr>;
          e = on_mach mach_reset e
      in e\<lparr>disp := display_resume_after_reset (disp e)\<rparr>)"

definition on_tape :: "(tape \<Rightarrow> tape) \<Rightarrow> emu \<Rightarrow> emu" where
  "on_tape f = on_mach (\<lambda>m. set_tape (f (mach_tape m)) m)"

section \<open>The commands\<close>

text \<open>The end of an instant load, shared by its two callers.\<close>

definition instaload_now :: "emu \<Rightarrow> emu" where
  "instaload_now e =
     (let (ok, m) = mach_instaload (machine_ptr e);
          e = e\<lparr>machine_ptr := m\<rparr>
      in if ok then clear_text e else show_text ''INSTALOAD FAILED'' 0xF800 e)"

definition handleLoadedTape :: "emu \<Rightarrow> emu" where
  "handleLoadedTape e =
     (let mode = tapeModeProfile (tp_mode (mach_tape (machine_ptr e)));
          e = on_tape tape_stop e
      in if loadsInstantly mode then instaload_now e
         else let e = (if autoStartsPlayback mode then on_tape tape_play e else e)
              in clear_text e)"

definition load_tape :: "host \<Rightarrow> string \<Rightarrow> emu \<Rightarrow> emu option" where
  "load_tape h path e =
     map_option (\<lambda>(ok, t).
         let e = on_mach (set_tape t) e
         in if ok then handleLoadedTape e else show_text ''TAPE LOAD FAILED'' 0xF800 e)
       (tape_load (mach_tape (machine_ptr e)) (h_files h path) (h_tape_alloc h) (h_tape_read h))"

definition load_rom :: "host \<Rightarrow> string \<Rightarrow> emu \<Rightarrow> emu" where
  "load_rom h path e =
     (let (ok, m) = mach_loadROM (h_files h path) (machine_ptr e);
          e = e\<lparr>machine_ptr := m\<rparr>
      in if ok then clear_text (paused_reset e) else show_text ''ROM LOAD FAILED'' 0xF800 e)"

definition load_snapshot :: "host \<Rightarrow> string \<Rightarrow> emu \<Rightarrow> emu option" where
  "load_snapshot h path e =
     (let e = on_tape tape_stop e
      in map_option (\<lambda>(ok, m).
           let e = e\<lparr>machine_ptr := m\<rparr>
           in if ok then clear_text e else show_text ''SNAPSHOT LOAD FAILED'' 0xF800 e)
         (mach_snapshot h (h_files h path) (machine_ptr e)))"

definition load_file :: "host \<Rightarrow> string \<Rightarrow> emu \<Rightarrow> emu option" where
  "load_file h path e =
     (let e = show_text ''LOADING...'' 0xFFFF e
      in case strrchr path (CHR ''.'') of
           Some ext \<Rightarrow>
             if tape_ext ext then load_tape h path e
             else if strcasecmp_eq ext ''.rom'' then Some (load_rom h path e)
             else load_snapshot h path e
         | None \<Rightarrow> load_snapshot h path e)"

definition change_model :: "host \<Rightarrow> string \<Rightarrow> emu \<Rightarrow> emu" where
  "change_model h arg e =
     (let e = show_text ''CHANGING MODEL...'' 0xFFFF e;
          is128K = (arg = ''128k'');
          romFile = (if is128K then ''/spiffs/128k.rom'' else ''/spiffs/48k.rom'');
          newSpectrum = createSpectrumInstance h is128K (mach_heap (machine_ptr e)) (mach_input (machine_ptr e));
          (ok, newSpectrum) = mach_loadROM (h_files h romFile) newSpectrum
      in if ok then clear_text (paused_reset (e\<lparr>machine_ptr := newSpectrum\<rparr>))
         else let e = on_mach (set_input (mach_input newSpectrum)) e
              in show_text ''ROM LOAD FAILED'' 0xF800 e)"

definition tape_command :: "host \<Rightarrow> string \<Rightarrow> string \<Rightarrow> emu \<Rightarrow> emu option" where
  "tape_command h name path e =
     (if name = ''load'' then load_tape h path e
      else Some (if name = ''play'' then on_tape tape_play e
                 else if name = ''stop'' then on_tape tape_stop e
                 else if name = ''rewind'' then on_tape tape_rewind e
                 else if name = ''ffwd'' then on_tape tape_fastForward e
                 else if name = ''pause'' then on_tape tape_pause e
                 else if name = ''eject'' then on_tape tape_eject e
                 else e))"

definition keyboard_input :: "int \<Rightarrow> int \<Rightarrow> emu \<Rightarrow> emu" where
  "keyboard_input a b e =
     (let row = nat (a mod 2 ^ 8);
          n = nat (b AND 0xFF);
          pressed = (drop_bit 8 b AND 0xFF \<noteq> 0)
      in on_mach (\<lambda>m. set_input (if row = 0xFF then input_setJoystickBit (mach_input m) n pressed
                                else input_update_key (mach_input m) row n pressed) m) e)"

definition process_command :: "host \<Rightarrow> web_command \<Rightarrow> emu \<Rightarrow> emu option" where
  "process_command h cmd e =
     (case cmd_type cmd of
        Reset \<Rightarrow> Some (paused_reset (clear_text e))
      | ChangeModel \<Rightarrow> Some (change_model h (arg1 cmd) e)
      | LoadFile \<Rightarrow> load_file h (arg1 cmd) e
      | TapeCmd \<Rightarrow> tape_command h (arg1 cmd) (arg2 cmd) e
      | TapeInstantLoad \<Rightarrow>
          Some (if \<not> isLoaded (mach_tape (machine_ptr e)) then show_text ''NO TAPE LOADED'' 0xF800 e
                else instaload_now (on_tape tape_stop e))
      | TapeSetMode \<Rightarrow> Some (on_tape (\<lambda>t. tape_setMode t (mode_of_code (int_arg1 cmd))) e)
      | TapeSetMonitor \<Rightarrow> Some (on_mach (set_monitor (int_arg1 cmd \<noteq> 0)) e)
      | KeyboardInput \<Rightarrow> Some (keyboard_input (int_arg1 cmd) (int_arg2 cmd) e)
      | NoCommand \<Rightarrow> Some e)"

text \<open>The loop over the queue at the start of a frame.\<close>

fun drain_queue :: "host \<Rightarrow> web_queue \<Rightarrow> emu \<Rightarrow> emu option" where
  "drain_queue h [] e = Some e"
| "drain_queue h (cmd # q) e = Option.bind (process_command h cmd e) (drain_queue h q)"

section \<open>A frame\<close>

definition T_STATES_PER_FRAME :: int where "T_STATES_PER_FRAME = 69888"

partial_function (option) run_frame :: "int \<Rightarrow> mach \<Rightarrow> (int \<times> mach) option" where
  "run_frame tStates m =
     (if tStates < T_STATES_PER_FRAME
      then Option.bind (mach_step m) (\<lambda>(t, m). run_frame (tStates + t) m)
      else Some (tStates, m))"

text \<open>The text of the tape overlay.\<close>

fun dec_digits :: "nat \<Rightarrow> string" where
  "dec_digits n = (if n < 10 then [char_of (48 + n)] else dec_digits (n div 10) @ [char_of (48 + n mod 10)])"

declare dec_digits.simps [simp del]

definition updateTapeOverlay :: "emu \<Rightarrow> emu" where
  "updateTapeOverlay e =
     (if \<not> display_ready e then e
      else let tape = mach_tape (machine_ptr e)
           in if \<not> isLoaded tape
              then if last_tape_text e \<noteq> [] then clear_text (e\<lparr>last_tape_text := []\<rparr>) else e
              else let currentBlock = (if num_blocks tape > 0 then block_idx tape + 1 else 0);
                       totalBlocks = num_blocks tape;
                       state = (if isPlaying tape then ''PLAY'' else if paused tape then ''PAUSED'' else ''STOP'');
                       overlayText = snprintf_to 64 (''TAPE '' @ dec_digits currentBlock @ ''/'' @ dec_digits totalBlocks
                                                     @ '' '' @ state)
                   in if overlayText \<noteq> last_tape_text e
                      then (show_text overlayText 0xFFFF e)\<lparr>last_tape_text := take 63 overlayText\<rparr>
                      else e)"

text \<open>The sound of the frame: what the two sources of the machine deliver.\<close>

fun mach_audio :: "nat \<Rightarrow> mach \<Rightarrow> int list \<times> int list \<times> mach" where
  "mach_audio n (M48 s) = (getFrameBuffer (sp_beeper (ctx s)) n, replicate n 0, M48 s)"
| "mach_audio n (M128 s) =
     (let (psg, s') = renderPSGAudio s n in (getFrameBuffer (sp_beeper (ctx s)) n, psg, M128 s'))"

text \<open>
  The video task: a notification renders the machine into the back buffer and presents it.  \<open>alloc\<close>
  says which table allocations succeed; the cache of attribute tables is global.
\<close>

definition picture_page :: "'m spectrum_scheme \<Rightarrow> ptr option" where
  "picture_page c = (case video_page c of Some p \<Rightarrow> Some p | None \<Rightarrow> read_map c 1)"

fun mach_render :: "(nat \<Rightarrow> bool) \<Rightarrow> u16 list \<times> luts \<Rightarrow> mach \<Rightarrow> (u16 list \<times> luts) \<times> mach" where
  "mach_render alloc bl (M48 s) =
     (renderToRGB565 alloc (map_option (\<lambda>p k. heap s (ptr_add p k)) (picture_page (ctx s)))
        (render_events (ctx s)) (render_initial (ctx s)) LCD_WIDTH LCD_HEIGHT bl,
      M48 (upd_ctx (\<lambda>c. c\<lparr>last_rendered_border := border_color c\<rparr>) s))"
| "mach_render alloc bl (M128 s) =
     (renderToRGB565 alloc (map_option (\<lambda>p k. heap s (ptr_add p k)) (picture_page (ctx s)))
        (render_events (ctx s)) (render_initial (ctx s)) LCD_WIDTH LCD_HEIGHT bl,
      M128 (upd_ctx (\<lambda>c. c\<lparr>last_rendered_border := border_color c\<rparr>) s))"

definition display_renderSpectrum :: "(nat \<Rightarrow> bool) \<Rightarrow> emu \<Rightarrow> emu" where
  "display_renderSpectrum alloc e =
     (let d = disp e
      in case frame_buffers d (draw_buffer d) of
           None \<Rightarrow> e
         | Some buf \<Rightarrow>
             let ((buf, l), m) = mach_render alloc (buf, attr_luts e) (machine_ptr e)
             in e\<lparr>machine_ptr := m, attr_luts := l,
                  disp := d\<lparr>frame_buffers := (frame_buffers d)(draw_buffer d := Some buf)\<rparr>\<rparr>)"

definition video_frame :: "(nat \<Rightarrow> bool) \<Rightarrow> emu \<Rightarrow> emu" where
  "video_frame alloc e =
     (if pause_video (disp e) then e
      else let e = display_renderSpectrum alloc e in e\<lparr>disp := display_present (disp e)\<rparr>)"

definition end_of_frame :: "mach \<Rightarrow> emu \<Rightarrow> emu" where
  "end_of_frame m e =
     (let e = updateTapeOverlay (e\<lparr>machine_ptr := m\<rparr>)
      in on_mach (\<lambda>m. snd (snd (mach_audio SAMPLES_PER_FRAME m))) e)"

definition emulator_frame :: "host \<Rightarrow> web_queue \<Rightarrow> emu \<Rightarrow> emu option" where
  "emulator_frame h q e =
     Option.bind (drain_queue h q e) (\<lambda>e.
       map_option (\<lambda>(t, m). end_of_frame m e) (run_frame 0 (machine_ptr e)))"

end
