(* ===== verification/Spectrum_Inv.thy ===== *)
theory Spectrum_Inv
  imports Tape_Load Z80_Timing
begin

text \<open>
  What every operation of a machine keeps.  \<open>core_ok\<close> is the invariant of the fields of
  \<open>SpectrumBase\<close>; \<open>spectrum_machine\<close> is the interface a machine offers: an invariant of its own on
  the wiring of its memory, kept by its port handlers.  From it follow the invariant of the CPU's
  bus, and that a whole step keeps it.
\<close>

section \<open>The invariant of the base class\<close>

definition events_ok :: "nat \<Rightarrow> border_event list \<Rightarrow> bool" where
  "events_ok now es \<longleftrightarrow> length es \<le> MAX_BORDER_EVENTS \<and> sorted (map ev_tstates es) \<and> (\<forall>e\<in>set es. ev_tstates e \<le> now)"

definition core_ok :: "'m spectrum_scheme \<Rightarrow> bool" where
  "core_ok c \<longleftrightarrow> events_ok (ula_clocks c) (border_events c)
     \<and> length (render_events c) \<le> MAX_BORDER_EVENTS \<and> sorted (map ev_tstates (render_events c))
     \<and> ula_clocks c < FRAME_T_STATES \<and> beeper_ok (sp_beeper c) \<and> input_ok (sp_input c)
     \<and> 0 \<le> pending_tape c \<and> pending_tape c \<le> int (ula_clocks c)"

text \<open>The beam: the clock inside the frame is the position of the beam.\<close>

definition beam_ok :: "'m spectrum_scheme \<Rightarrow> bool" where
  "beam_ok c \<longleftrightarrow> ula_clocks c = 224 * ula_scanline c + ula_cycle c \<and> ula_cycle c < 224 \<and> ula_scanline c < 312"

text \<open>What the wiring of a machine may depend on besides the pages and host memory.\<close>

definition wiring where
  "wiring c = (read_map c, write_map c, rom c, rom_size c, video_page c, spectrum.more c)"

lemma ctx_upd_ctx [simp]: "ctx (upd_ctx f s) = f (ctx s)"
  by (simp add: upd_ctx_def)

lemma upd_ctx_fields [simp]:
  "page_read (upd_ctx f s) = page_read s" "page_write (upd_ctx f s) = page_write s"
  "heap (upd_ctx f s) = heap s" "clocks (upd_ctx f s) = clocks s" "reg_pc (upd_ctx f s) = reg_pc s"
  "reg_sp (upd_ctx f s) = reg_sp s" "halted (upd_ctx f s) = halted s" "iff1 (upd_ctx f s) = iff1 s"
  by (simp_all add: upd_ctx_def)

lemma events_ok_later: "events_ok n es \<Longrightarrow> n \<le> m \<Longrightarrow> events_ok m es"
  by (auto simp: events_ok_def)

lemma events_ok_snoc:
  "events_ok n es \<Longrightarrow> length es < MAX_BORDER_EVENTS \<Longrightarrow> events_ok n (es @ [\<lparr>ev_tstates = n, ev_color = c\<rparr>])"
  by (auto simp: events_ok_def sorted_append)

lemma events_ok_Nil [simp]: "events_ok n []"
  by (simp add: events_ok_def)

lemma advance_loop_fixed: "fixed_part (fst (advance_loop t n k evs)) = fixed_part t"
proof (induction t n k evs rule: advance_loop.induct)
  case (1 t n k evs)
  show ?case
  proof (cases "playing t \<and> 0 < n \<and> remaining t \<le> n \<and> \<not> fst (pulse_end (toggle t))")
    case True
    have "fixed_part (fst (advance_loop (snd (pulse_end (toggle t))) (n - remaining t) (u32_of (k + remaining t))
        (evs @ [(u32_of (k + remaining t), ear (toggle t))]))) = fixed_part (snd (pulse_end (toggle t)))"
      by (rule "1.IH" [OF _ _ refl refl refl refl prod.collapse, of False]) (use True in simp_all)
    then show ?thesis
      using True by (subst advance_loop.simps) (simp add: Let_def case_prod_beta frame)
  next
    case False
    then show ?thesis
      by (subst advance_loop.simps) (auto simp: Let_def case_prod_beta frame fixed_part_def [of "tstate_counter_update _ _"] fixed_part_def [of t])
  qed
qed

lemma tape_advance_fixed: "fixed_part (fst (tape_advance t n)) = fixed_part t"
  by (simp add: tape_advance_def Let_def advance_loop_fixed) (simp add: fixed_part_def)

text \<open>A flush changes the tape, the sound and the pending time, and nothing else.\<close>

lemma fold_toggle_form:
  "\<exists>b e. fold (tape_toggle audible k) evs c = c\<lparr>sp_beeper := b, last_ear := e\<rparr>
     \<and> (beeper_ok (sp_beeper c) \<longrightarrow> beeper_ok b)"
proof (induction evs arbitrary: c)
  case Nil
  show ?case by (intro exI [of _ "sp_beeper c"] exI [of _ "last_ear c"]) simp
next
  case (Cons ev evs)
  let ?b = "if audible then recordTapeEvent (sp_beeper c) (u32_of (k + fst ev)) (if snd ev then 1 else 0) else sp_beeper c"
  have e: "tape_toggle audible k ev c = c\<lparr>sp_beeper := ?b, last_ear := snd ev\<rparr>"
    by (simp add: tape_toggle_def case_prod_beta Let_def)
  obtain b' e' where i: "fold (tape_toggle audible k) evs (tape_toggle audible k ev c)
      = (tape_toggle audible k ev c)\<lparr>sp_beeper := b', last_ear := e'\<rparr>"
    "beeper_ok (sp_beeper (tape_toggle audible k ev c)) \<longrightarrow> beeper_ok b'"
    using Cons.IH by blast
  then show ?case
    by (intro exI [of _ b'] exI [of _ e']) (simp add: e beeper_ops_ok(4))
qed

lemma flush_monitor_form:
  "\<exists>m sp. flush_monitor a pc c = c\<lparr>sp_beeper := (sp_beeper c)\<lparr>monitor_enabled := m, speaker_enabled := sp\<rparr>\<rparr>"
  unfolding flush_monitor_def Let_def by blast

lemma flushTape_form:
  "\<exists>p b e t. flushTape ra s = upd_ctx (\<lambda>c. c\<lparr>pending_tape := p, sp_beeper := b, last_ear := e, sp_tape := t\<rparr>) s
     \<and> (beeper_ok (sp_beeper (ctx s)) \<longrightarrow> beeper_ok b) \<and> (0 \<le> pending_tape (ctx s) \<longrightarrow> p = 0)
     \<and> fixed_part t = fixed_part (sp_tape (ctx s))"
proof (cases "pending_tape (ctx s) \<le> 0")
  case True
  then show ?thesis
    by (intro exI [of _ "pending_tape (ctx s)"] exI [of _ "sp_beeper (ctx s)"] exI [of _ "last_ear (ctx s)"]
        exI [of _ "sp_tape (ctx s)"]) (simp add: flushTape_def upd_ctx_def)
next
  case False
  let ?n = "nat (pending_tape (ctx s))"
  obtain t evs where t: "tape_advance (sp_tape (ctx s)) ?n = (t, evs)" by fastforce
  have fx: "fixed_part t = fixed_part (sp_tape (ctx s))"
    using tape_advance_fixed [of "sp_tape (ctx s)" ?n] by (simp add: t)
  let ?u = "s\<lparr>ctx := (ctx s)\<lparr>pending_tape := 0\<rparr>\<rparr>"
  let ?c0 = "(ctx s)\<lparr>pending_tape := 0\<rparr>"
  obtain m sp where m: "flush_monitor (ra ?u) (reg_pc s) ?c0 = ?c0\<lparr>sp_beeper := (sp_beeper ?c0)\<lparr>monitor_enabled := m, speaker_enabled := sp\<rparr>\<rparr>"
    using flush_monitor_form by blast
  let ?c = "flush_monitor (ra ?u) (reg_pc s) ?c0\<lparr>sp_tape := t\<rparr>"
  let ?a = "audibleTransport (tapeModeProfile (tp_mode (sp_tape (ctx s))))"
  obtain b e where f: "fold (tape_toggle ?a (u32_of (ula_clocks (ctx s) + 2 ^ 32 - ?n))) evs ?c
      = ?c\<lparr>sp_beeper := b, last_ear := e\<rparr>" "beeper_ok (sp_beeper ?c) \<longrightarrow> beeper_ok b"
    using fold_toggle_form by blast
  have "flushTape ra s = upd_ctx (\<lambda>c. c\<lparr>pending_tape := 0, sp_beeper := b, last_ear := e, sp_tape := t\<rparr>) s"
    using False f(1) by (simp add: flushTape_def t Let_def upd_ctx_def m)
  then show ?thesis using f(2) fx by (intro exI [of _ 0] exI [of _ b] exI [of _ e] exI [of _ t]) (simp add: m)
qed

section \<open>The beam\<close>

lemma ula_lines_eq:
  "sl < 312 \<Longrightarrow> ula_lines cy sl = (cy mod 224, (sl + cy div 224) mod 312)"
proof (induction cy sl rule: ula_lines.induct)
  case (1 cy sl)
  show ?case
  proof (cases "cy \<ge> 224")
    case True
    then obtain n where n: "cy = 224 + n" using le_Suc_ex by blast
    have d: "cy mod 224 = n mod 224" "cy div 224 = Suc (n div 224)" by (simp_all add: n)
    have sl: "(sl + 1) mod 2 ^ 16 = sl + 1" using 1(2) by simp
    show ?thesis
    proof (cases "sl + 1 \<ge> 312")
      case True
      then have "sl = 311" using 1(2) by simp
      moreover have "(311 + Suc m) mod 312 = m mod 312" for m :: nat by simp
      ultimately show ?thesis
        using 1(1) [OF _ refl] \<open>cy \<ge> 224\<close> sl by (subst ula_lines.simps) (simp add: n d ula_constants)
    next
      case False
      then show ?thesis
        using 1(1) [OF _ refl] \<open>cy \<ge> 224\<close> sl by (subst ula_lines.simps) (simp add: n d ula_constants)
    qed
  next
    case False
    then show ?thesis using 1(2) by (subst ula_lines.simps) (simp add: ula_constants)
  qed
qed

text \<open>Moving the clock moves the beam with it.\<close>

lemma beam_moves:
  assumes "k = 224 * sl + cy" "cy < 224" "sl < 312" "ula_lines (cy + n) sl = (cy', sl')"
  shows "cy' < 224" "sl' < 312" "(k + n) mod 69888 = 224 * sl' + cy'"
proof -
  have e: "cy' = (cy + n) mod 224" "sl' = (sl + (cy + n) div 224) mod 312"
    using assms(3,4) by (simp_all add: ula_lines_eq)
  show "cy' < 224" "sl' < 312" by (simp_all add: e)
  let ?q = "sl + (cy + n) div 224"
  have split_lines: "224 * q + r = 69888 * (q div 312) + (224 * (q mod 312) + r)" for q r :: nat
    using div_mult_mod_eq [of q 312] by linarith
  have "k + n = 224 * ?q + (cy + n) mod 224" using assms(1) by (simp add: algebra_simps)
  moreover have "(224 * ?q + (cy + n) mod 224) mod 69888 = 224 * (?q mod 312) + (cy + n) mod 224"
  proof -
    have "224 * (?q mod 312) + (cy + n) mod 224 < 69888"
      using mod_less_divisor [of 312 ?q] mod_less_divisor [of 224 "cy + n"] by linarith
    moreover have "224 * ?q + (cy + n) mod 224 = 69888 * (?q div 312) + (224 * (?q mod 312) + (cy + n) mod 224)"
      by (rule split_lines)
    ultimately show ?thesis by simp
  qed
  ultimately show "(k + n) mod 69888 = 224 * sl' + cy'" by (simp only: e)
qed

section \<open>A machine with its memory\<close>

definition machine_inv :: "('m machine \<Rightarrow> bool) \<Rightarrow> nat \<Rightarrow> nat \<Rightarrow> nat \<Rightarrow> 'm machine \<Rightarrow> bool" where
  "machine_inv W k cy sl s \<longleftrightarrow> W s \<and> core_ok (ctx s) \<and> ula_clocks (ctx s) = k \<and> ula_cycle (ctx s) = cy
     \<and> ula_scanline (ctx s) = sl"

definition full_inv :: "('m machine \<Rightarrow> bool) \<Rightarrow> 'm machine \<Rightarrow> bool" where
  "full_inv W s \<longleftrightarrow> W s \<and> core_ok (ctx s) \<and> beam_ok (ctx s)"

text \<open>
  W is what a machine keeps of its pages, maps and extra fields.  The base class never changes
  what W looks at but through \<open>write\<close>.
\<close>

locale wired_machine =
  fixes B :: "'m spectrum_scheme bus" and W :: "'m machine \<Rightarrow> bool"
  assumes mem_callbacks: "mem_write B = spec_write"
    and W_cong: "page_read s' = page_read s \<Longrightarrow> page_write s' = page_write s \<Longrightarrow> heap s' = heap s
      \<Longrightarrow> wiring (ctx s') = wiring (ctx s) \<Longrightarrow> W s' = W s"
    and W_wired: "W s \<Longrightarrow> i < 4 \<Longrightarrow> page_write s i = write_map (ctx s) i"
    and W_write: "W s \<Longrightarrow> W (spec_write s a v)"
    and W_mapped: "W s \<Longrightarrow> mapped B s"
begin

lemma W_upd: "wiring (f (ctx s)) = wiring (ctx s) \<Longrightarrow> W (upd_ctx f s) = W s"
  by (rule W_cong) simp_all

lemma WB_spec_write: "W s \<Longrightarrow> WB B s a v = spec_write s a v"
  using W_wired [of s "page_of a"] by (simp add: WB_def spec_write_def mem_callbacks split: option.split)

lemma inv_cong: "host_view s' = host_view s \<Longrightarrow> machine_inv W k cy sl s' = machine_inv W k cy sl s"
  using W_cong [of s' s] by (auto simp: host_view_def machine_inv_def)

lemma inv_clocks: "machine_inv W k cy sl (clocks_update f s) = machine_inv W k cy sl s"
  using W_cong [of "clocks_update f s" s] by (simp add: machine_inv_def)

lemma inv_write: "machine_inv W k cy sl s \<Longrightarrow> machine_inv W k cy sl (spec_write s a v)"
  using W_write [of s a v] by (auto simp: machine_inv_def spec_write_def split: option.splits)

lemma inv_WB: "machine_inv W k cy sl s \<Longrightarrow> machine_inv W k cy sl (WB B s a v)"
  using WB_spec_write inv_write by (simp add: machine_inv_def)

text \<open>The shared port.\<close>

lemma inv_flush:
  assumes "machine_inv W k cy sl s"
  shows "machine_inv W k cy sl (flushTape ra s)"
proof -
  obtain p b e t where f: "flushTape ra s = upd_ctx (\<lambda>c. c\<lparr>pending_tape := p, sp_beeper := b, last_ear := e, sp_tape := t\<rparr>) s"
    "beeper_ok (sp_beeper (ctx s)) \<longrightarrow> beeper_ok b" "0 \<le> pending_tape (ctx s) \<longrightarrow> p = 0"
    using flushTape_form [of ra s] by blast
  have "W (flushTape ra s)" using assms unfolding f(1) by (subst W_upd) (simp_all add: wiring_def machine_inv_def)
  then show ?thesis using assms f by (auto simp: machine_inv_def core_ok_def)
qed

lemma inv_readPortFE: "machine_inv W k cy sl s \<Longrightarrow> machine_inv W k cy sl (snd (readPortFE ra s p))"
  using inv_flush by (simp add: readPortFE_def Let_def)

lemma inv_writePortFE:
  assumes "machine_inv W k cy sl s"
  shows "machine_inv W k cy sl (writePortFE s v)"
proof -
  have "W (writePortFE s v)"
    using assms unfolding writePortFE_def by (subst W_upd) (simp_all add: wiring_def machine_inv_def Let_def)
  then show ?thesis
    using assms beeper_ops_ok(3)
    by (auto simp add: machine_inv_def core_ok_def writePortFE_def Let_def events_ok_snoc)
qed

end

section \<open>Instructions, the instant load and the ULA\<close>

locale spectrum_machine = wired_machine B W for B :: "'m spectrum_scheme bus" and W +
  fixes rom_active :: "'m machine \<Rightarrow> bool"
  assumes inv_IN: "machine_inv W k cy sl s \<Longrightarrow> k < FRAME_T_STATES \<Longrightarrow> machine_inv W k cy sl (snd (io_read B s p))"
    and inv_OUT: "machine_inv W k cy sl s \<Longrightarrow> k < FRAME_T_STATES \<Longrightarrow> machine_inv W k cy sl (io_write B s p v)"

sublocale spectrum_machine \<subseteq> bus_invariant B "machine_inv W k cy sl" for k cy sl
proof
  fix s s' :: "'m machine" and a p v f
  show "host_view s' = host_view s \<Longrightarrow> machine_inv W k cy sl s' = machine_inv W k cy sl s" by (rule inv_cong)
  show "machine_inv W k cy sl (clocks_update f s) = machine_inv W k cy sl s" by (rule inv_clocks)
  assume m: "machine_inv W k cy sl s"
  then have k: "k < FRAME_T_STATES" by (auto simp: machine_inv_def core_ok_def)
  show "machine_inv W k cy sl (WB B s a v)" using m by (rule inv_WB)
  show "machine_inv W k cy sl (snd (IN B s p))" unfolding IN_def using m k by (rule inv_IN)
  show "machine_inv W k cy sl (OUT B s p v)" unfolding OUT_def using m k by (rule inv_OUT)
qed

context spectrum_machine
begin

lemma inv_store: "machine_inv W k cy sl s \<Longrightarrow> machine_inv W k cy sl (store_bytes t off a n s)"
  unfolding store_bytes_def by (induction n) (simp_all add: inv_write)

lemma inv_write_word: "machine_inv W k cy sl s \<Longrightarrow> machine_inv W k cy sl (write_word s a v)"
  by (simp add: write_word_def inv_write)

lemma inv_insta_loop: "machine_inv W k cy sl s \<Longrightarrow> machine_inv W k cy sl (snd (insta_loop t i st s))"
proof (induction t i st s rule: insta_loop.induct)
  case (1 t i st s)
  show ?case
    using 1 inv_store by (subst insta_loop.simps) (auto split: option.split)
qed

lemma inv_start: "machine_inv W k cy sl (start_program s pc) = machine_inv W k cy sl s"
  by (rule inv_cong) (simp add: start_program_def host_view_def)

lemma inv_instaload:
  assumes "machine_inv W k cy sl s"
  shows "machine_inv W k cy sl (snd (instaload s))"
proof -
  obtain st u where l: "insta_loop (sp_tape (ctx s)) 0 insta_new s = (st, u)" by fastforce
  have u: "machine_inv W k cy sl u" using inv_insta_loop [OF assms] l by (metis snd_conv)
  have "machine_inv W k cy sl (basic_vars st v)" if "machine_inv W k cy sl v" for v
    using that by (simp add: basic_vars_def Let_def inv_write_word inv_write)
  then show ?thesis
    using assms u by (simp add: instaload_def l Let_def inv_start inv_write split: option.split)
qed

lemma inv_tape:
  assumes "machine_inv W k cy sl s"
  shows "machine_inv W k cy sl (upd_ctx (\<lambda>c. c\<lparr>sp_tape := g c\<rparr>) s)"
  using assms W_upd [of "\<lambda>c. c\<lparr>sp_tape := g c\<rparr>" s] by (auto simp add: machine_inv_def core_ok_def wiring_def)

lemma inv_step_cpu:
  assumes "step_cpu rom_active B s = Some (t, s')" "machine_inv W k cy sl s"
  shows "machine_inv W k cy sl s'"
proof -
  let ?u = "upd_ctx (\<lambda>c. c\<lparr>sp_tape := tape_stop (sp_tape c)\<rparr>) s"
  have u: "machine_inv W k cy sl (snd (instaload ?u))" using assms(2) by (intro inv_instaload inv_tape)
  show ?thesis
    using assms u I_step by (auto simp: step_cpu_def Let_def case_prod_beta split: if_splits)
qed

lemma step_cpu_time:
  assumes "step_cpu rom_active B s = Some (t, s')" "machine_inv W k cy sl s"
  shows "4 \<le> t"
proof -
  let ?u = "upd_ctx (\<lambda>c. c\<lparr>sp_tape := tape_stop (sp_tape c)\<rparr>) s"
  have "machine_inv W k cy sl (snd (instaload ?u))" using assms(2) by (intro inv_instaload inv_tape)
  then have "mapped B (snd (instaload ?u))" "mapped B s" using assms(2) W_mapped by (auto simp: machine_inv_def)
  then show ?thesis
    using assms(1) step_time_lower by (auto simp: step_cpu_def Let_def case_prod_beta split: if_splits)
qed

text \<open>The frame boundary: the flushed machine is published and its clock starts again.\<close>

lemma inv_publish:
  assumes W: "W s" and u: "ula_clocks (ctx s) = k + FRAME_T_STATES" "k < FRAME_T_STATES"
    and b: "beeper_ok (sp_beeper (ctx s))" "input_ok (sp_input (ctx s))" "0 \<le> pending_tape (ctx s)"
    and e: "events_ok (ula_clocks (ctx s)) (border_events (ctx s))"
  shows "machine_inv W k (ula_cycle (ctx s)) (ula_scanline (ctx s))
    (upd_ctx publish_frame (upd_ctx (\<lambda>c. c\<lparr>ula_clocks := ula_clocks c - FRAME_T_STATES\<rparr>) (flushTape rom_active s)))"
proof -
  obtain p bp el t where f: "flushTape rom_active s = upd_ctx (\<lambda>c. c\<lparr>pending_tape := p, sp_beeper := bp, last_ear := el, sp_tape := t\<rparr>) s"
    "beeper_ok bp" "p = 0"
    using flushTape_form [of rom_active s] b by blast
  let ?s = "upd_ctx publish_frame (upd_ctx (\<lambda>c. c\<lparr>ula_clocks := ula_clocks c - FRAME_T_STATES\<rparr>) (flushTape rom_active s))"
  have "W ?s"
    unfolding f(1) by (subst W_upd, simp add: wiring_def publish_frame_def Let_def,
        subst W_upd, simp add: wiring_def, subst W_upd, simp_all add: wiring_def W)
  moreover have "core_ok (ctx ?s)"
    using f b e u beeper_ops_ok(5) by (simp add: core_ok_def publish_frame_def Let_def events_ok_def)
  ultimately show ?thesis
    using u by (simp add: machine_inv_def f publish_frame_def Let_def)
qed

lemma beam_step:
  assumes "machine_inv W k' cy sl s" "k = 224 * sl + cy" "cy < 224" "sl < 312" "k' = (k + n) mod 69888"
  shows "full_inv W (upd_ctx (\<lambda>c. let (cycle, scanline) = ula_lines (ula_cycle c + n) (ula_scanline c)
    in c\<lparr>ula_cycle := cycle, ula_scanline := scanline\<rparr>) s) \<and> ula_clocks (ctx (upd_ctx (\<lambda>c.
      let (cycle, scanline) = ula_lines (ula_cycle c + n) (ula_scanline c)
      in c\<lparr>ula_cycle := cycle, ula_scanline := scanline\<rparr>) s)) = k'"
proof -
  obtain cy' sl' where l: "ula_lines (cy + n) sl = (cy', sl')" by fastforce
  note m = beam_moves [OF assms(2-4) l]
  let ?f = "\<lambda>c. let (cycle, scanline) = ula_lines (ula_cycle c + n) (ula_scanline c) in c\<lparr>ula_cycle := cycle, ula_scanline := scanline\<rparr>"
  have f: "?f (ctx s) = (ctx s)\<lparr>ula_cycle := cy', ula_scanline := sl'\<rparr>"
    using assms(1) l by (simp add: machine_inv_def)
  have "W (upd_ctx ?f s)" using assms(1) W_upd [of ?f s] unfolding f by (simp add: wiring_def machine_inv_def)
  moreover have "ctx (upd_ctx ?f s) = (ctx s)\<lparr>ula_cycle := cy', ula_scanline := sl'\<rparr>" unfolding ctx_upd_ctx by (rule f)
  ultimately show ?thesis
    using assms(1,5) m by (auto simp only: full_inv_def) (auto simp: beam_ok_def core_ok_def machine_inv_def)
qed

lemma ula_step:
  assumes m: "machine_inv W k cy sl s" and b: "k = 224 * sl + cy" "cy < 224" "sl < 312"
    and t: "0 \<le> t" "t \<le> 65311"
    and a: "advanceULA rom_active B (upd_ctx (\<lambda>c. c\<lparr>pending_tape := pending_tape c + t\<rparr>) s) t = Some s'"
  shows "full_inv W s' \<and> ula_clocks (ctx s') = (k + nat t) mod FRAME_T_STATES"
proof -
  define n where "n = nat t"
  have n: "nat (t mod 4294967296) = n" "nat (t mod 65536) = n" "t = int n" "n \<le> 65311"
    using t by (simp_all add: n_def)
  have k: "k < FRAME_T_STATES" using m by (auto simp: machine_inv_def core_ok_def)
  have uk: "u32_of (k + n) = k + n" using k n(4) by (simp add: u32_of_def FRAME_T_STATES_def)
  have cyn: "(cy + n) mod 2 ^ 16 = cy + n" using b n(4) by simp
  let ?u = "upd_ctx (\<lambda>c. c\<lparr>pending_tape := pending_tape c + t, ula_clocks := k + n\<rparr>) s"
  have u0: "upd_ctx (\<lambda>c. c\<lparr>ula_clocks := u32_of (ula_clocks c + nat (t mod 2 ^ 32))\<rparr>)
      (upd_ctx (\<lambda>c. c\<lparr>pending_tape := pending_tape c + t\<rparr>) s) = ?u"
    using m by (simp add: upd_ctx_def machine_inv_def n(1) uk)
  have W: "W ?u" using m by (subst W_upd) (simp_all add: wiring_def machine_inv_def)
  have ev: "events_ok (k + n) (border_events (ctx s))"
    using m events_ok_later [of k _ "k + n"] by (auto simp: machine_inv_def core_ok_def)
  have fin: "full_inv W s' \<and> ula_clocks (ctx s') = (k + nat t) mod FRAME_T_STATES" if c: "machine_inv W k' cy sl v" "k' = (k + n) mod 69888"
    "s' = upd_ctx (\<lambda>c. let (cycle, scanline) = ula_lines ((ula_cycle c + nat (t mod 2 ^ 16)) mod 2 ^ 16) (ula_scanline c)
        in c\<lparr>ula_cycle := cycle, ula_scanline := scanline\<rparr>) v" for k' v
  proof -
    have "s' = upd_ctx (\<lambda>c. let (cycle, scanline) = ula_lines (ula_cycle c + n) (ula_scanline c)
        in c\<lparr>ula_cycle := cycle, ula_scanline := scanline\<rparr>) v"
      using c(1,3) cyn by (simp add: upd_ctx_def machine_inv_def n(2))
    then show ?thesis using beam_step [OF c(1) b c(2)] c(2) by (simp add: n_def FRAME_T_STATES_def)
  qed
  show ?thesis
  proof (cases "k + n \<ge> FRAME_T_STATES")
    case True
    let ?v = "upd_ctx publish_frame (upd_ctx (\<lambda>c. c\<lparr>ula_clocks := ula_clocks c - FRAME_T_STATES\<rparr>) (flushTape rom_active ?u))"
    have v: "machine_inv W (k + n - FRAME_T_STATES) (ula_cycle (ctx ?u)) (ula_scanline (ctx ?u)) ?v"
      by (rule inv_publish [OF W])
        (use True k m ev t n in \<open>auto simp: machine_inv_def core_ok_def FRAME_T_STATES_def\<close>)
    obtain t' w where w: "z80_interrupt B ?v 0xFF = Some (t', w)"
      and s': "s' = upd_ctx (\<lambda>c. let (cycle, scanline) = ula_lines ((ula_cycle c + nat (t mod 2 ^ 16)) mod 2 ^ 16) (ula_scanline c)
        in c\<lparr>ula_cycle := cycle, ula_scanline := scanline\<rparr>) w"
      using a True unfolding advanceULA_def u0 by (auto simp: Let_def)
    have "machine_inv W (k + n - FRAME_T_STATES) cy sl w"
      using I_interrupt [OF w] v m by (simp add: machine_inv_def)
    moreover have "k + n - FRAME_T_STATES = (k + n) mod 69888"
      using True k n(4) by (simp add: FRAME_T_STATES_def mod_if)
    ultimately show ?thesis using fin s' by blast
  next
    case False
    have "machine_inv W (k + n) cy sl ?u"
      using m W ev False n t by (simp add: machine_inv_def core_ok_def)
    moreover have "k + n = (k + n) mod 69888" using False by (simp add: FRAME_T_STATES_def)
    moreover have "s' = upd_ctx (\<lambda>c. let (cycle, scanline) = ula_lines ((ula_cycle c + nat (t mod 2 ^ 16)) mod 2 ^ 16) (ula_scanline c)
        in c\<lparr>ula_cycle := cycle, ula_scanline := scanline\<rparr>) ?u"
      using a False unfolding advanceULA_def u0 by (auto simp: Let_def)
    ultimately show ?thesis using fin by blast
  qed
qed

lemma full_inv_tape: "full_inv W s \<Longrightarrow> full_inv W (upd_ctx (\<lambda>c. c\<lparr>sp_tape := g c\<rparr>) s)"
  using W_upd [of "\<lambda>c. c\<lparr>sp_tape := g c\<rparr>" s] by (auto simp: full_inv_def core_ok_def beam_ok_def wiring_def)

lemma full_inv_was: "full_inv W s \<Longrightarrow> full_inv W (upd_ctx (\<lambda>c. c\<lparr>was_in_ld := b\<rparr>) s)"
  using W_upd [of "\<lambda>c. c\<lparr>was_in_ld := b\<rparr>" s] by (auto simp: full_inv_def core_ok_def beam_ok_def wiring_def)

text \<open>A whole step.\<close>

lemma full_inv_step:
  assumes "spec_step rom_active B s = Some (t, s')" "full_inv W s" "t \<le> 65311"
  shows "full_inv W s' \<and> ula_clocks (ctx s') = (ula_clocks (ctx s) + nat t) mod FRAME_T_STATES \<and> 4 \<le> t"
proof -
  let ?k = "ula_clocks (ctx s)" and ?cy = "ula_cycle (ctx s)" and ?sl = "ula_scanline (ctx s)"
  have m: "machine_inv W ?k ?cy ?sl s" using assms(2) by (simp add: full_inv_def machine_inv_def)
  obtain u v where u: "step_cpu rom_active B s = Some (t, u)"
    and v: "advanceULA rom_active B (upd_ctx (\<lambda>c. c\<lparr>pending_tape := pending_tape c + t\<rparr>) u) t = Some v"
    and s': "s' = auto_play (tapeModeProfile (tp_mode (sp_tape (ctx s)))) v"
    using assms(1) by (auto simp: spec_step_def Let_def bind_eq_Some_conv)
  have "full_inv W v \<and> ula_clocks (ctx v) = (?k + nat t) mod FRAME_T_STATES"
  proof (rule ula_step [OF inv_step_cpu [OF u m] _ _ _ _ assms(3) v])
    show "?k = 224 * ?sl + ?cy" "?cy < 224" "?sl < 312" using assms(2) by (simp_all add: full_inv_def beam_ok_def)
    show "0 \<le> t" using step_cpu_time [OF u m] by simp
  qed
  then show ?thesis
    using step_cpu_time [OF u m] by (simp add: s' auto_play_def Let_def full_inv_tape full_inv_was)
qed

end

end
