(* ===== verification/Spectrum48_Inv.thy ===== *)
theory Spectrum48_Inv
  imports Spectrum_Inv Spectrum48
begin

text \<open>
  The 48K machine's memory is wired as its constructor left it, and stays so: the interfaces of
  theory \<open>Spectrum_Inv\<close> and the memory contract of theory \<open>Z80_Memory\<close> hold of it.
\<close>

section \<open>Wiring\<close>

text \<open>
  Page i is at \<open>page i\<close> for the CPU and for the machine; page 0 is read-only.  The bytes of the ROM
  are \<open>R\<close>.
\<close>

definition wired :: "(nat \<Rightarrow> ptr) \<Rightarrow> 'm machine \<Rightarrow> bool" where
  "wired page s \<longleftrightarrow>
     (\<forall>i<4. page_read s i = Some (page i) \<and> read_map (ctx s) i = Some (page i)
        \<and> page_write s i = (if i = 0 then None else Some (page i))
        \<and> write_map (ctx s) i = (if i = 0 then None else Some (page i)))"

definition rom_image :: "ptr \<Rightarrow> nat \<Rightarrow> (nat \<Rightarrow> u8) \<Rightarrow> (ptr \<Rightarrow> u8) \<Rightarrow> bool" where
  "rom_image r n R h \<longleftrightarrow> (\<forall>k<n. h (ptr_add r k) = R k)"

lemma wired_page:
  assumes "wired page s"
  shows "page_read s (page_of a) = Some (page (page_of a))"
    and "read_map (ctx s) (page_of a) = Some (page (page_of a))"
    and "page_write s (page_of a) = (if page_of a = 0 then None else Some (page (page_of a)))"
    and "write_map (ctx s) (page_of a) = (if page_of a = 0 then None else Some (page (page_of a)))"
  using assms page_of_less [of a] by (simp_all add: wired_def)

lemma wired_write:
  assumes "wired page s"
  shows "spec_write s a v = (if page_of a = 0 then s
    else s\<lparr>heap := (heap s)(ptr_add (page (page_of a)) (page_offset a) := v)\<rparr>)"
  using wired_page(4) [OF assms, of a] by (simp add: spec_write_def)

lemma wired_read:
  assumes "wired page s"
  shows "spec_read s a = heap s (ptr_add (page (page_of a)) (page_offset a))"
  using wired_page(2) [OF assms, of a] by (simp add: spec_read_def)

lemma wired_cong:
  "page_read s' = page_read s \<Longrightarrow> page_write s' = page_write s \<Longrightarrow> read_map (ctx s') = read_map (ctx s)
   \<Longrightarrow> write_map (ctx s') = write_map (ctx s) \<Longrightarrow> wired page s' = wired page s"
  by (simp add: wired_def)

lemma wired_spec_write: "wired page s \<Longrightarrow> wired page (spec_write s a v)"
  by (subst wired_cong [of _ s]) (auto simp: spec_write_def split: option.split)

lemma wired_mapped:
  assumes "wired page s" "mem_write B = spec_write"
  shows "mapped B s"
  using assms wired_page(3,4) [OF assms(1)]
  by (auto simp: mapped_def wired_def spec_write_def)

lemma rom_image_write:
  assumes "wired page s" "\<forall>i\<in>{1, 2, 3}. fst (page i) \<noteq> fst r" "rom_image r n R (heap s)"
  shows "rom_image r n R (heap (spec_write s a v))"
proof -
  have "page_of a < 4" by simp
  then have "page_of a \<noteq> 0 \<Longrightarrow> page_of a = 1 \<or> page_of a = 2 \<or> page_of a = 3" by arith
  then have "page_of a \<noteq> 0 \<Longrightarrow> fst (page (page_of a)) \<noteq> fst r" using assms(2) by blast
  then show ?thesis
    using assms(3) by (auto simp: wired_write [OF assms(1)] rom_image_def ptr_add_def)
qed

text \<open>Pages in different allocations, or far enough apart in one, do not overlap.\<close>

lemma wired_disjoint:
  assumes "wired page s"
    and "\<And>i j. i < 4 \<Longrightarrow> j < 4 \<Longrightarrow> i \<noteq> j \<Longrightarrow> fst (page i) \<noteq> fst (page j)
      \<or> snd (page i) + 0x4000 \<le> snd (page j) \<or> snd (page j) + 0x4000 \<le> snd (page i)"
  shows "pages_disjoint s"
proof -
  have a: "ptr_add (page i) m \<noteq> ptr_add (page j) n" if "i < 4" "j < 4" "i \<noteq> j" "m < 0x4000" "n < 0x4000" for i j m n
    using assms(2) [OF that(1-3)] that(4,5) by (auto simp: ptr_add_def)
  show ?thesis
    unfolding pages_disjoint_def
  proof (intro allI impI, elim conjE)
    fix i j m n :: nat and p q :: ptr
    assume "i < 4" "j < 4" "i \<noteq> j" "page_read s i = Some p" "page_read s j = Some q" "m < 0x4000" "n < 0x4000"
    then show "ptr_add p m \<noteq> ptr_add q n" using a [of i j m n] assms(1) by (simp add: wired_def)
  qed
qed

section \<open>The 48K machine\<close>

definition page48 :: "ptr \<Rightarrow> ptr \<Rightarrow> nat \<Rightarrow> ptr" where
  "page48 r m i = (if i = 0 then r else ptr_add m ((i - 1) * 0x4000))"

definition wired48 :: "ptr \<Rightarrow> ptr \<Rightarrow> (nat \<Rightarrow> u8) \<Rightarrow> machine48 \<Rightarrow> bool" where
  "wired48 r m R s \<longleftrightarrow> rom (ctx s) = Some r \<and> ram (ctx s) = Some m \<and> rom_size (ctx s) = ROM_SIZE_48
     \<and> video_page (ctx s) = Some m \<and> fst r \<noteq> fst m \<and> wired (page48 r m) s \<and> rom_image r ROM_SIZE_48 R (heap s)"

lemma page48_apart: "fst r \<noteq> fst m \<Longrightarrow> \<forall>i\<in>{1, 2, 3}. fst (page48 r m i) \<noteq> fst r"
  by (auto simp: page48_def ptr_add_def)

lemma ram_more: "spectrum.more c' = spectrum.more c \<Longrightarrow> ram c' = ram c" for c c' :: spectrum48
  by (cases c; cases c') simp

interpretation w48: wired_machine bus48 "wired48 r m R" for r m R
proof
  fix s s' :: machine48 and i a v
  show "mem_write bus48 = spec_write" by (simp add: bus48_def)
  show "wired48 r m R s' = wired48 r m R s"
    if "page_read s' = page_read s" "page_write s' = page_write s" "heap s' = heap s" "wiring (ctx s') = wiring (ctx s)"
    using that wired_cong [of s' s] ram_more [of "ctx s'" "ctx s"] by (simp add: wired48_def wiring_def)
  assume w: "wired48 r m R s"
  then have wd: "wired (page48 r m) s" "fst r \<noteq> fst m" by (simp_all add: wired48_def)
  show "page_write s i = write_map (ctx s) i" if "i < 4" using wd that by (simp add: wired_def)
  show "mapped bus48 s" using wd by (intro wired_mapped) (simp_all add: bus48_def)
  have c: "ctx (spec_write s a v) = ctx s" by (simp add: spec_write_def split: option.split)
  show "wired48 r m R (spec_write s a v)"
    using w wired_spec_write [OF wd(1)] rom_image_write [OF wd(1) page48_apart [OF wd(2)]]
    unfolding wired48_def c by blast
qed

interpretation m48: spectrum_machine bus48 "wired48 r m R" rom_active48 for r m R
proof
  fix k cy sl s p v
  assume "machine_inv (wired48 r m R) k cy sl s"
  then show "machine_inv (wired48 r m R) k cy sl (snd (io_read bus48 s p))"
    "machine_inv (wired48 r m R) k cy sl (io_write bus48 s p v)"
    using w48.inv_readPortFE w48.inv_writePortFE by (auto simp: bus48_def readPort48_def writePort48_def)
qed

section \<open>Setting the machine up\<close>

lemma updateMap_fields [simp]:
  "heap (updateMap s i p w) = heap s"
  "wiring (ctx (updateMap s i p w)) = (read_map (ctx (updateMap s i p w)), write_map (ctx (updateMap s i p w)),
     rom (ctx s), rom_size (ctx s), video_page (ctx s), spectrum.more (ctx s))"
  "rom (ctx (updateMap s i p w)) = rom (ctx s)" "rom_size (ctx (updateMap s i p w)) = rom_size (ctx s)"
  "video_page (ctx (updateMap s i p w)) = video_page (ctx s)"
  "sp_beeper (ctx (updateMap s i p w)) = sp_beeper (ctx s)"
  "core_ok (ctx (updateMap s i p w)) = core_ok (ctx s)" "beam_ok (ctx (updateMap s i p w)) = beam_ok (ctx s)"
  by (simp_all add: updateMap_def wiring_def core_ok_def beam_ok_def Let_def)

lemma mem_fill_same: "mem_fill h p n v (ptr_add p k) = (if k < n then v else h (ptr_add p k))"
  by (simp add: mem_fill_def ptr_add_def)

lemma mem_other:
  "fst q \<noteq> fst p \<Longrightarrow> mem_fill h p n v (ptr_add q k) = h (ptr_add q k)"
  "fst q \<noteq> fst p \<Longrightarrow> mem_store h p bs (ptr_add q k) = h (ptr_add q k)"
  by (simp_all add: mem_fill_def mem_store_def ptr_add_def)

lemma map48_wired:
  assumes "rom (ctx s) = Some r" "ram (ctx s) = Some m"
  shows "wired (page48 r m) (map48 s)" "rom (ctx (map48 s)) = Some r" "ram (ctx (map48 s)) = Some m"
    "video_page (ctx (map48 s)) = Some m" "heap (map48 s) = heap s" "rom_size (ctx (map48 s)) = rom_size (ctx s)"
    "core_ok (ctx (map48 s)) = core_ok (ctx s)" "beam_ok (ctx (map48 s)) = beam_ok (ctx s)"
proof -
  have i: "(\<forall>i<4. P i) \<longleftrightarrow> P 0 \<and> P 1 \<and> P 2 \<and> P 3" for P :: "nat \<Rightarrow> bool"
    by (auto simp: numeral_eq_Suc All_less_Suc)
  show "wired (page48 r m) (map48 s)"
    unfolding wired_def i using assms
    by (simp add: map48_def map_ram48_def updateMap_def Let_def opt_add_def page48_def ptr_add_def)
qed (use assms in \<open>simp_all add: map48_def map_ram48_def updateMap_def Let_def core_ok_def beam_ok_def\<close>)

lemma base_new_ok: "core_ok (spectrum.extend (base_new i) x)" "beam_ok (spectrum.extend (base_new i) x)"
  by (simp_all add: core_ok_def beam_ok_def base_new_def spectrum.defs beeper_ops_ok input_ok_def
      input_resetKeyboardRows_def FRAME_T_STATES_def)

lemma spectrum48_new_ok:
  assumes "fst r \<noteq> fst m"
  shows "full_inv (wired48 r m (\<lambda>_. 0xFF)) (spectrum48_new h i (Some r) (Some m))"
proof -
  define s0 where "s0 = upd_ctx (\<lambda>c. c\<lparr>rom_size := ROM_SIZE_48, rom := Some r, ram := Some m\<rparr>)
    (z80_init (z80_zero h (spectrum.extend (base_new i) (spectrum48.fields None))))"
  define s1 where "s1 = fill_opt (Some r) ROM_SIZE_48 0xFF (fill_opt (Some m) RAM_SIZE_48 0 s0)"
  have s: "spectrum48_new h i (Some r) (Some m) = map48 s1"
    by (simp add: spectrum48_new_def Let_def s0_def s1_def)
  have c0: "rom (ctx s0) = Some r" "ram (ctx s0) = Some m" "rom_size (ctx s0) = ROM_SIZE_48"
    "core_ok (ctx s0)" "beam_ok (ctx s0)"
    using base_new_ok [of i "spectrum48.fields None"]
    by (simp_all add: s0_def z80_init_def z80_zero_def core_ok_def beam_ok_def)
  have c1: "ctx s1 = ctx s0" "rom_image r ROM_SIZE_48 (\<lambda>_. 0xFF) (heap s1)"
    by (simp_all add: s1_def fill_opt_def rom_image_def mem_fill_same)
  show ?thesis
    using c0 c1 assms by (simp add: full_inv_def s wired48_def map48_wired)
qed

text \<open>A reset clears the CPU, the RAM and the frame, and rebuilds the wiring.\<close>

lemma base_reset_ctx:
  "ctx (base_reset s) = (ctx s)\<lparr>border_color := 0, last_speaker := 0, last_ear := False, pending_tape := 0,
     initial_border := 0, border_events := [], render_initial := 0, render_events := [],
     sp_input := input_resetKeyboardRows (sp_input (ctx s)), ula_clocks := 0, ula_scanline := 0, ula_cycle := 0,
     sp_beeper := beeper_reset (sp_beeper (ctx s)), sp_tape := tape_stop (sp_tape (ctx s)), was_in_ld := False\<rparr>"
  by (simp add: base_reset_def Let_def wire_pages_def z80_init_def z80_zero_def)

lemma base_reset_heap: "heap (base_reset s) = heap s"
  by (simp add: base_reset_def Let_def wire_pages_def z80_init_def z80_zero_def)

lemma base_reset_core:
  assumes "beeper_ok (sp_beeper (ctx s))"
  shows "core_ok (ctx (base_reset s))" "beam_ok (ctx (base_reset s))"
  using assms by (simp_all add: base_reset_ctx core_ok_def beam_ok_def beeper_ops_ok input_ok_def input_resetKeyboardRows_def
      FRAME_T_STATES_def)

lemma reset48_ok:
  assumes "full_inv (wired48 r m R) s"
  shows "full_inv (wired48 r m R) (reset48 s)"
proof -
  define s1 where "s1 = fill_opt (Some m) RAM_SIZE_48 0 (base_reset s)"
  have c: "rom (ctx s) = Some r" "ram (ctx s) = Some m" "rom_size (ctx s) = ROM_SIZE_48" "fst r \<noteq> fst m"
    "rom_image r ROM_SIZE_48 R (heap s)"
    using assms by (simp_all add: full_inv_def wired48_def)
  have b: "beeper_ok (sp_beeper (ctx s))" using assms by (simp add: full_inv_def core_ok_def)
  have s: "reset48 s = map48 s1" using c by (simp add: reset48_def Let_def s1_def base_reset_ctx)
  have c1: "ctx s1 = ctx (base_reset s)" "heap s1 = mem_fill (heap s) m RAM_SIZE_48 0"
    by (simp_all add: s1_def fill_opt_def base_reset_heap)
  then show ?thesis
    using c base_reset_core [OF b]
    by (simp add: full_inv_def s wired48_def map48_wired base_reset_ctx rom_image_def mem_other)
qed

text \<open>Snapshot data goes to the RAM.\<close>

lemma apply48_ok:
  assumes "full_inv (wired48 r m R) s"
  shows "full_inv (wired48 r m R) (snd (applySnapshotData48 s data))"
proof (cases "length data = RAM_SIZE_48")
  case True
  let ?s = "s\<lparr>heap := mem_store (heap s) m data\<rparr>"
  have w: "wired48 r m R s" using assms by (simp add: full_inv_def)
  then have c: "rom (ctx s) = Some r" "ram (ctx s) = Some m" "wired (page48 r m) s" by (simp_all add: wired48_def)
  have m: "map_ram48 ?s = map48 ?s"
  proof -
    have "read_map (ctx s) 0 = Some r" "write_map (ctx s) 0 = None" "page_read s 0 = Some r" "page_write s 0 = None"
      using c(3) by (simp_all add: wired_def page48_def)
    then have "updateMap ?s 0 (rom (ctx ?s)) False = ?s"
      by (simp add: updateMap_def upd_ctx_def c(1) fun_upd_idem)
    then show ?thesis by (simp add: map48_def)
  qed
  have f: "rom (ctx ?s) = Some r" "ram (ctx ?s) = Some m" by (simp_all add: c)
  show ?thesis
    using assms w True c
    by (simp add: full_inv_def applySnapshotData48_def m wired48_def map48_wired [OF f] rom_image_def mem_other)
next
  case False
  then show ?thesis using assms by (simp add: applySnapshotData48_def split: option.split)
qed

text \<open>The CPU of a 48K machine has four pages that do not overlap: what the CPU's theories assume.\<close>

lemma wired48_flat:
  assumes "wired48 r m R s"
  shows "flat_mapped bus48 s"
proof -
  have w: "wired (page48 r m) s" "fst r \<noteq> fst m" using assms by (simp_all add: wired48_def)
  have "pages_disjoint s"
  proof (rule wired_disjoint [OF w(1)])
    fix i j :: nat
    assume "i < 4" "j < 4" "i \<noteq> j"
    then have "i < j \<or> j < i" "i < 4" "j < 4" by auto
    then show "fst (page48 r m i) \<noteq> fst (page48 r m j) \<or> snd (page48 r m i) + 0x4000 \<le> snd (page48 r m j)
        \<or> snd (page48 r m j) + 0x4000 \<le> snd (page48 r m i)"
      using w(2) by (auto simp: page48_def ptr_add_def)
  qed
  then show ?thesis using w48.W_mapped [OF assms] by (simp add: flat_mapped_def)
qed

end
