(* ===== verification/Spectrum128_Inv.thy ===== *)
theory Spectrum128_Inv
  imports Spectrum48_Inv Spectrum128
begin

text \<open>
  The 128K machine: the pages follow the paging register, the sound chip and its buffer stay in
  order, and the interfaces of theory \<open>Spectrum_Inv\<close> hold, also for a machine whose paging is locked.
\<close>

section \<open>Wiring\<close>

definition rom_offset :: "u8 \<Rightarrow> nat" where
  "rom_offset port = (if port AND 0x10 \<noteq> 0 then 0x4000 else 0)"

definition top_bank :: "u8 \<Rightarrow> nat" where
  "top_bank port = unat (port AND 0x07)"

definition page128 :: "ptr \<Rightarrow> (nat \<Rightarrow> ptr) \<Rightarrow> u8 \<Rightarrow> nat \<Rightarrow> ptr" where
  "page128 r b port i =
     (if i = 0 then ptr_add r (rom_offset port) else if i = 1 then b 5 else if i = 2 then b 2 else b (top_bank port))"

definition banks_apart :: "ptr \<Rightarrow> (nat \<Rightarrow> ptr) \<Rightarrow> bool" where
  "banks_apart r b \<longleftrightarrow> (\<forall>i<8. fst (b i) \<noteq> fst r) \<and> (\<forall>i<8. \<forall>j<8. i \<noteq> j \<longrightarrow> fst (b i) \<noteq> fst (b j))"

definition ay_ok :: "spectrum128 \<Rightarrow> bool" where
  "ay_ok c \<longleftrightarrow> psg_ok (ay_chip c) \<and> length (ay_buffer c) = SAMPLES_PER_FRAME
     \<and> psg_rendered (ay_chip c) \<le> SAMPLES_PER_FRAME \<and> unat (ay_selected c) < 16"

definition paging_ok :: "spectrum128 \<Rightarrow> bool" where
  "paging_ok c \<longleftrightarrow> port7FFD c AND 0x3F = port7FFD c \<and> paging_locked c = (port7FFD c AND 0x20 \<noteq> 0)"

definition wired128 :: "ptr \<Rightarrow> (nat \<Rightarrow> ptr) \<Rightarrow> (nat \<Rightarrow> u8) \<Rightarrow> machine128 \<Rightarrow> bool" where
  "wired128 r b R s \<longleftrightarrow> rom (ctx s) = Some r \<and> rom_size (ctx s) = ROM_SIZE_128
     \<and> (\<forall>i<8. ram_banks (ctx s) i = Some (b i)) \<and> banks_apart r b
     \<and> wired (page128 r b (port7FFD (ctx s))) s
     \<and> video_page (ctx s) = Some (b (if port7FFD (ctx s) AND 0x08 \<noteq> 0 then 7 else 5))
     \<and> paging_ok (ctx s) \<and> ay_ok (ctx s) \<and> rom_image r ROM_SIZE_128 R (heap s)"

lemma top_bank_less [simp]: "top_bank port < 8"
proof -
  have "port AND 0x07 = take_bit 3 port" by (simp add: take_bit_eq_mask mask_eq_exp_minus_1)
  then show ?thesis by (simp add: top_bank_def unsigned_take_bit_eq take_bit_nat_less_exp [of 3, simplified])
qed

lemma page128_apart: "banks_apart r b \<Longrightarrow> \<forall>i\<in>{1, 2, 3}. fst (page128 r b port i) \<noteq> fst r"
  by (simp add: banks_apart_def page128_def)

lemma bank_not_rom: "banks_apart r b \<Longrightarrow> i < 8 \<Longrightarrow> fst r \<noteq> fst (b i)"
  unfolding banks_apart_def by metis

lemma more128:
  assumes "spectrum.more c' = spectrum.more c"
  shows "ram_banks c' = ram_banks c" "port7FFD c' = port7FFD c" "paging_ok c' = paging_ok c" "ay_ok c' = ay_ok c"
  using assms by (cases c; cases c'; simp add: paging_ok_def ay_ok_def)+

lemma updatePaging_ok:
  assumes "rom (ctx s) = Some r" "\<forall>i<8. ram_banks (ctx s) i = Some (b i)"
  shows "wired (page128 r b (port7FFD (ctx s))) (updatePaging s)"
    "video_page (ctx (updatePaging s)) = Some (b (if port7FFD (ctx s) AND 0x08 \<noteq> 0 then 7 else 5))"
proof -
  have i: "(\<forall>i<4. P i) \<longleftrightarrow> P 0 \<and> P 1 \<and> P 2 \<and> P 3" for P :: "nat \<Rightarrow> bool"
    by (auto simp: numeral_eq_Suc All_less_Suc)
  have b: "ram_banks (ctx s) (unat (port7FFD (ctx s) AND 7)) = Some (b (top_bank (port7FFD (ctx s))))"
    using assms(2) top_bank_less [of "port7FFD (ctx s)"] by (simp add: top_bank_def)
  show "wired (page128 r b (port7FFD (ctx s))) (updatePaging s)"
    unfolding wired_def i using assms b
    by (simp add: updatePaging_def updateMap_def Let_def opt_add_def page128_def rom_offset_def)
  show "video_page (ctx (updatePaging s)) = Some (b (if port7FFD (ctx s) AND 0x08 \<noteq> 0 then 7 else 5))"
    using assms(2) by (simp add: updatePaging_def updateMap_def Let_def)
qed

lemma updatePaging_fields [simp]:
  "heap (updatePaging s) = heap s" "rom (ctx (updatePaging s)) = rom (ctx s)"
  "rom_size (ctx (updatePaging s)) = rom_size (ctx s)" "ram_banks (ctx (updatePaging s)) = ram_banks (ctx s)"
  "port7FFD (ctx (updatePaging s)) = port7FFD (ctx s)" "paging_locked (ctx (updatePaging s)) = paging_locked (ctx s)"
  "paging_ok (ctx (updatePaging s)) = paging_ok (ctx s)" "ay_ok (ctx (updatePaging s)) = ay_ok (ctx s)"
  "core_ok (ctx (updatePaging s)) = core_ok (ctx s)" "beam_ok (ctx (updatePaging s)) = beam_ok (ctx s)"
  "ula_clocks (ctx (updatePaging s)) = ula_clocks (ctx s)" "ula_cycle (ctx (updatePaging s)) = ula_cycle (ctx s)"
  "ula_scanline (ctx (updatePaging s)) = ula_scanline (ctx s)"
  by (simp_all add: updatePaging_def updateMap_def Let_def paging_ok_def ay_ok_def core_ok_def beam_ok_def)

lemma core_ok_ext [simp]:
  fixes c :: spectrum128
  shows "core_ok (port7FFD_update f c) = core_ok c" "core_ok (paging_locked_update g c) = core_ok c"
    "beam_ok (port7FFD_update f c) = beam_ok c" "beam_ok (paging_locked_update g c) = beam_ok c"
    "core_ok (ay_chip_update u c) = core_ok c" "core_ok (ay_selected_update f c) = core_ok c"
    "core_ok (ay_buffer_update w c) = core_ok c" "beam_ok (ay_chip_update u c) = beam_ok c"
    "beam_ok (ay_selected_update f c) = beam_ok c" "beam_ok (ay_buffer_update w c) = beam_ok c"
  by (simp_all add: core_ok_def beam_ok_def)

text \<open>After \<open>updatePaging\<close> the machine is wired, whatever the pages were before.\<close>

lemma updatePaging_wired:
  assumes "rom (ctx s) = Some r" "rom_size (ctx s) = ROM_SIZE_128" "\<forall>i<8. ram_banks (ctx s) i = Some (b i)"
    "banks_apart r b" "paging_ok (ctx s)" "ay_ok (ctx s)" "rom_image r ROM_SIZE_128 R (heap s)"
  shows "wired128 r b R (updatePaging s)"
  using assms updatePaging_ok [OF assms(1,3)] by (simp add: wired128_def)

lemma wired128_parts:
  assumes "wired128 r b R s"
  shows "rom (ctx s) = Some r" "rom_size (ctx s) = ROM_SIZE_128" "\<forall>i<8. ram_banks (ctx s) i = Some (b i)"
    "banks_apart r b" "paging_ok (ctx s)" "ay_ok (ctx s)" "rom_image r ROM_SIZE_128 R (heap s)"
    "wired (page128 r b (port7FFD (ctx s))) s"
  using assms by (simp_all add: wired128_def)

interpretation w128: wired_machine bus128 "wired128 r b R" for r b R
proof
  fix s s' :: machine128 and i a v
  show "mem_write bus128 = spec_write" by (simp add: bus128_def)
  show "wired128 r b R s' = wired128 r b R s"
    if "page_read s' = page_read s" "page_write s' = page_write s" "heap s' = heap s" "wiring (ctx s') = wiring (ctx s)"
    using that wired_cong [of s' s] more128 [of "ctx s'" "ctx s"] by (simp add: wired128_def wiring_def)
  assume w: "wired128 r b R s"
  note wd = wired128_parts(8) [OF w]
  show "page_write s i = write_map (ctx s) i" if "i < 4" using wd that by (simp add: wired_def)
  show "mapped bus128 s" using wd by (intro wired_mapped) (simp_all add: bus128_def)
  have c: "ctx (spec_write s a v) = ctx s" by (simp add: spec_write_def split: option.split)
  show "wired128 r b R (spec_write s a v)"
    using w wired_spec_write [OF wd] rom_image_write [OF wd page128_apart]
    unfolding wired128_def c by blast
qed

section \<open>Ports\<close>

lemma psg_renderTo_parts:
  assumes "psg_ok s"
  shows "psg_ok (fst (psg_renderTo s xs n c rt))" "length (snd (psg_renderTo s xs n c rt)) = length xs"
    "psg_rendered (fst (psg_renderTo s xs n c rt)) = max (psg_rendered s) n"
proof -
  have e: "psg_ok (fst sb) \<Longrightarrow> psg_ok (fst (fold (render_psg_sample tps) is sb))
      \<and> length (snd (fold (render_psg_sample tps) is sb)) = length (snd sb)" for tps "is" sb
  proof (induction "is" arbitrary: sb)
    case (Cons i "is")
    have "psg_ok (fst (render_psg_sample tps i sb)) \<and> length (snd (render_psg_sample tps i sb)) = length (snd sb)"
      using Cons.prems by (simp add: render_psg_sample_def case_prod_beta Let_def psg_ticks_ok)
    then show ?case using Cons.IH by simp
  qed simp
  show "psg_ok (fst (psg_renderTo s xs n c rt))" "length (snd (psg_renderTo s xs n c rt)) = length xs"
    "psg_rendered (fst (psg_renderTo s xs n c rt)) = max (psg_rendered s) n"
    using assms e [of "(s, xs)"] by (simp_all add: psg_renderTo_def case_prod_beta Let_def max_def)
qed

lemma ay_render_ok:
  assumes "ay_ok c" "n \<le> SAMPLES_PER_FRAME"
  shows "ay_ok (ay_render n c)"
  using assms psg_renderTo_parts [of "ay_chip c"] by (simp add: ay_ok_def ay_render_def case_prod_beta)

lemma ay_write_ok: "ay_ok c \<Longrightarrow> ay_ok (c\<lparr>ay_chip := writeRegister (ay_chip c) r v\<rparr>)"
  by (simp add: ay_ok_def writeRegister_ok) (simp add: writeRegister_def Let_def)

lemma paging_value_ok: "paging_ok (c\<lparr>port7FFD := v AND 0x3F, paging_locked := (v AND 0x3F) AND 0x20 \<noteq> 0\<rparr>)"
  by (simp add: paging_ok_def and.assoc)

text \<open>The machine's own ports, once the shared one is excluded.\<close>

lemma ay_ctx_upd:
  assumes "wired128 r b R s" "ay_ok c'" "c' = (ctx s)\<lparr>ay_chip := x, ay_buffer := y, ay_selected := z\<rparr>"
  shows "wired128 r b R (upd_ctx (\<lambda>_. c') s)" "core_ok c' = core_ok (ctx s)" "beam_ok c' = beam_ok (ctx s)"
  using assms wired_cong [of "upd_ctx (\<lambda>_. c') s" s]
  by (simp_all add: wired128_def paging_ok_def core_ok_def beam_ok_def)

lemma and_0F_less: "unat (v AND 0x0F :: u8) < 16"
proof -
  have "v AND 0x0F = take_bit 4 v" by (simp add: take_bit_eq_mask mask_eq_exp_minus_1)
  then show ?thesis by (simp add: unsigned_take_bit_eq take_bit_nat_less_exp [of 4, simplified])
qed

lemma inv_upd_ay:
  assumes "machine_inv (wired128 r b R) k cy sl s" "ay_ok (f (ctx s))"
    "f (ctx s) = (ctx s)\<lparr>ay_chip := x, ay_buffer := y, ay_selected := z\<rparr>"
  shows "machine_inv (wired128 r b R) k cy sl (upd_ctx f s)"
proof -
  have e: "upd_ctx f s = upd_ctx (\<lambda>_. f (ctx s)) s" by (simp add: upd_ctx_def)
  show ?thesis
    using assms ay_ctx_upd [of r b R s "f (ctx s)", where x = x and y = y and z = z] unfolding e by (simp add: machine_inv_def)
qed

lemma inv_paging:
  assumes "machine_inv (wired128 r b R) k cy sl s"
  shows "machine_inv (wired128 r b R) k cy sl (updatePaging (upd_ctx (\<lambda>c. c\<lparr>port7FFD := v AND 0x3F,
    paging_locked := (v AND 0x3F) AND 0x20 \<noteq> 0\<rparr>) s))"
proof -
  have w: "wired128 r b R s" using assms by (simp add: machine_inv_def)
  have "wired128 r b R (updatePaging (upd_ctx (\<lambda>c. c\<lparr>port7FFD := v AND 0x3F,
      paging_locked := (v AND 0x3F) AND 0x20 \<noteq> 0\<rparr>) s))"
    using wired128_parts [OF w] paging_value_ok [of v "ctx s"] by (intro updatePaging_wired) (simp_all add: ay_ok_def)
  then show ?thesis using assms by (simp add: machine_inv_def)
qed

lemma inv_OUT128:
  assumes m: "machine_inv (wired128 r b R) k cy sl s" and k: "k < FRAME_T_STATES"
  shows "machine_inv (wired128 r b R) k cy sl (writePort128 s p v)"
proof -
  have ay: "ay_ok (ctx s)" and u: "ula_clocks (ctx s) = k" using m by (auto simp: machine_inv_def wired128_def)
  have n: "sample_of k \<le> SAMPLES_PER_FRAME" using sample_of_frame [OF k] by simp
  let ?c = "ay_render (sample_of k) (ctx s)"
  have ok: "ay_ok (?c\<lparr>ay_chip := writeRegister (ay_chip ?c) (ay_selected ?c) v\<rparr>)"
    by (rule ay_write_ok [OF ay_render_ok [OF ay n]])
  have data: "machine_inv (wired128 r b R) k cy sl (upd_ctx (\<lambda>c. let c = ay_render (sample_of (ula_clocks c)) c
      in c\<lparr>ay_chip := writeRegister (ay_chip c) (ay_selected c) v\<rparr>) s)"
    by (rule inv_upd_ay [OF m, where x = "writeRegister (ay_chip ?c) (ay_selected ?c) v" and y = "ay_buffer ?c"
          and z = "ay_selected (ctx s)"])
      (use ok in \<open>simp_all add: u Let_def ay_render_def case_prod_beta\<close>)
  have sel: "machine_inv (wired128 r b R) k cy sl (upd_ctx (\<lambda>c. c\<lparr>ay_selected := v AND 0x0F\<rparr>) s)"
    by (rule inv_upd_ay [OF m, where x = "ay_chip (ctx s)" and y = "ay_buffer (ctx s)" and z = "v AND 0x0F"])
      (use ay in \<open>simp_all add: ay_ok_def and_0F_less\<close>)
  show ?thesis
    unfolding writePort128_def
    by (simp only: if_split [of "machine_inv (wired128 r b R) k cy sl"] m inv_paging [OF m] w128.inv_writePortFE [OF m]
        data sel simp_thms)
qed

lemma inv_IN128:
  "machine_inv (wired128 r b R) k cy sl s \<Longrightarrow> machine_inv (wired128 r b R) k cy sl (snd (readPort128 s p))"
  using w128.inv_readPortFE by (simp add: readPort128_def)

interpretation m128: spectrum_machine bus128 "wired128 r b R" rom_active128 for r b R
  by unfold_locales (simp_all add: bus128_def inv_IN128 inv_OUT128)

section \<open>Setting the machine up\<close>

lemma fill_banks_fields [simp]: "ctx (fill_banks s) = ctx s"
proof -
  have "ctx (fold (\<lambda>i s. fill_opt (ram_banks (ctx s) i) BANK_SIZE 0 s) is s) = ctx s" for "is"
    by (induction "is" arbitrary: s) (simp_all add: fill_opt_def split: option.split)
  then show ?thesis by (simp add: fill_banks_def)
qed

lemma fill_banks_rom:
  assumes "\<forall>i<8. ram_banks (ctx s) i = Some (b i)" "banks_apart r b"
  shows "heap (fill_banks s) (ptr_add r k) = heap s (ptr_add r k)"
proof -
  let ?f = "\<lambda>i s. fill_opt (ram_banks (ctx s) i) BANK_SIZE 0 s"
  have "heap (fold ?f is u) (ptr_add r k) = heap u (ptr_add r k)"
    if "\<forall>i\<in>set is. i < 8" "ram_banks (ctx u) = ram_banks (ctx s)" for "is" u
    using that
  proof (induction "is" arbitrary: u)
    case (Cons i "is")
    have i: "ram_banks (ctx u) i = Some (b i)" "fst r \<noteq> fst (b i)"
      using Cons.prems assms by (simp_all add: bank_not_rom)
    have "ram_banks (ctx (?f i u)) = ram_banks (ctx s)" using Cons.prems i by (simp add: fill_opt_def)
    then have "heap (fold ?f is (?f i u)) (ptr_add r k) = heap (?f i u) (ptr_add r k)"
      using Cons.prems by (intro Cons.IH) simp_all
    then show ?case using i by (simp add: fill_opt_def mem_other)
  qed simp
  from this [of "[0..<8]" s] show ?thesis by (simp add: fill_banks_def)
qed

lemma spectrum128_new_ok:
  assumes "banks_apart r b" "length buffer = SAMPLES_PER_FRAME"
  shows "full_inv (wired128 r b (\<lambda>_. 0xFF)) (spectrum128_new h i (Some r) (\<lambda>i. Some (b i)) buffer)"
proof -
  define s0 where "s0 = upd_ctx (\<lambda>c. c\<lparr>rom_size := ROM_SIZE_128, rom := Some r\<rparr>)
    (z80_init (z80_zero h (spectrum.extend (base_new i) (spectrum128.fields (\<lambda>i. Some (b i)) 0 False psg_reset 0 buffer))))"
  define s1 where "s1 = fill_opt (Some r) ROM_SIZE_128 0xFF (fill_banks s0)"
  have s: "spectrum128_new h i (Some r) (\<lambda>i. Some (b i)) buffer = updatePaging s1"
    by (simp add: spectrum128_new_def Let_def s0_def s1_def)
  have c0: "rom (ctx s0) = Some r" "rom_size (ctx s0) = ROM_SIZE_128" "\<forall>i<8. ram_banks (ctx s0) i = Some (b i)"
    "paging_ok (ctx s0)" "ay_ok (ctx s0)" "core_ok (ctx s0)" "beam_ok (ctx s0)"
    using base_new_ok [of i "spectrum128.fields (\<lambda>i. Some (b i)) 0 False psg_reset 0 buffer"] assms(2) psg_reset_ok
    by (simp_all add: s0_def z80_init_def z80_zero_def core_ok_def beam_ok_def paging_ok_def ay_ok_def
        base_new_def spectrum.defs spectrum128.defs) (simp_all add: psg_reset_def)
  have c1: "ctx s1 = ctx s0" "rom_image r ROM_SIZE_128 (\<lambda>_. 0xFF) (heap s1)"
    by (simp_all add: s1_def fill_opt_def rom_image_def mem_fill_same)
  have "wired128 r b (\<lambda>_. 0xFF) (updatePaging s1)"
    using c0 c1 assms(1) by (intro updatePaging_wired) simp_all
  then show ?thesis using c0 c1 by (simp add: full_inv_def s)
qed

lemma reset128_ok:
  assumes "full_inv (wired128 r b R) s"
  shows "full_inv (wired128 r b R) (reset128 s)"
proof -
  have "wired128 r b R s" and b: "beeper_ok (sp_beeper (ctx s))" using assms by (simp_all add: full_inv_def core_ok_def)
  note w = wired128_parts [OF this(1)]
  define s1 where "s1 = upd_ctx (\<lambda>c. c\<lparr>port7FFD := 0, paging_locked := False, ay_selected := 0,
    ay_chip := resetFrame psg_reset, ay_buffer := replicate SAMPLES_PER_FRAME 0\<rparr>) (base_reset s)"
  have s: "reset128 s = updatePaging (fill_banks s1)" by (simp add: reset128_def Let_def s1_def)
  have c: "rom (ctx s1) = Some r" "rom_size (ctx s1) = ROM_SIZE_128" "\<forall>i<8. ram_banks (ctx s1) i = Some (b i)"
    "paging_ok (ctx s1)" "ay_ok (ctx s1)" "core_ok (ctx s1)" "beam_ok (ctx s1)" "heap s1 = heap s"
    using w base_reset_core [OF b] psg_reset_ok
    by (simp_all add: s1_def base_reset_ctx paging_ok_def ay_ok_def resetFrame_def base_reset_heap)
  have "wired128 r b R (updatePaging (fill_banks s1))"
    using c w fill_banks_rom [OF c(3) w(4)] by (intro updatePaging_wired) (simp_all add: rom_image_def)
  then show ?thesis using c by (simp add: full_inv_def s)
qed

lemma store_opt_fields [simp]: "ctx (store_opt p bs s) = ctx s"
  by (simp add: store_opt_def split: option.split)

lemma store_opt_rom: "p = Some q \<Longrightarrow> fst r \<noteq> fst q \<Longrightarrow> heap (store_opt p bs s) (ptr_add r k) = heap s (ptr_add r k)"
  by (simp add: store_opt_def mem_other)

lemma apply128_ok:
  assumes "full_inv (wired128 r b R) s"
  shows "full_inv (wired128 r b R) (snd (applySnapshotData128 s data))"
proof (cases "length data = 49152")
  case True
  have "wired128 r b R s" using assms by (simp add: full_inv_def)
  note w = wired128_parts [OF this]
  define u where "u = store_opt (ram_banks (ctx s) 0) (take BANK_SIZE (drop (2 * BANK_SIZE) data))
    (store_opt (ram_banks (ctx s) 2) (take BANK_SIZE (drop BANK_SIZE data)) (store_opt (ram_banks (ctx s) 5) (take BANK_SIZE data) s))"
  define v where "v = upd_ctx (\<lambda>c. c\<lparr>port7FFD := 0x30, paging_locked := True\<rparr>) u"
  have e: "snd (applySnapshotData128 s data) = updatePaging v"
    using True by (simp add: applySnapshotData128_def Let_def u_def v_def)
  have ctx: "ctx u = ctx s" by (simp add: u_def)
  have rb: "fst r \<noteq> fst (b 0)" "fst r \<noteq> fst (b 2)" "fst r \<noteq> fst (b 5)"
    "ram_banks (ctx s) 0 = Some (b 0)" "ram_banks (ctx s) 2 = Some (b 2)" "ram_banks (ctx s) 5 = Some (b 5)"
    using w(3) bank_not_rom [OF w(4)] by simp_all
  have "rom_image r ROM_SIZE_128 R (heap v)"
    using w(7) rb by (simp add: v_def u_def rom_image_def store_opt_rom)
  then have "wired128 r b R (updatePaging v)"
    using w by (intro updatePaging_wired) (simp_all add: v_def ctx paging_ok_def ay_ok_def)
  then show ?thesis using assms by (simp add: full_inv_def e v_def ctx)
next
  case False
  then show ?thesis using assms by (simp add: applySnapshotData128_def)
qed

lemma renderPSGAudio_ok:
  assumes "full_inv (wired128 r b R) s"
  shows "full_inv (wired128 r b R) (snd (renderPSGAudio s n))" "length (fst (renderPSGAudio s n)) = n"
proof -
  have w: "wired128 r b R s" using assms by (simp add: full_inv_def)
  then have ay: "ay_ok (ctx s)" by (rule wired128_parts)
  let ?c = "ay_render SAMPLES_PER_FRAME (ctx s)"
  have ok: "ay_ok ?c" using ay by (rule ay_render_ok) simp
  then have "ay_ok (?c\<lparr>ay_chip := resetFrame (ay_chip ?c)\<rparr>)" by (simp add: ay_ok_def resetFrame_def)
  note a = ay_ctx_upd [OF w this, where x = "resetFrame (ay_chip ?c)" and y = "ay_buffer ?c" and z = "ay_selected (ctx s)"]
  have e: "snd (renderPSGAudio s n) = upd_ctx (\<lambda>_. ?c\<lparr>ay_chip := resetFrame (ay_chip ?c)\<rparr>) s"
    by (simp add: renderPSGAudio_def Let_def upd_ctx_def)
  show "full_inv (wired128 r b R) (snd (renderPSGAudio s n))"
    using assms a unfolding e by (simp add: full_inv_def ay_render_def case_prod_beta)
  show "length (fst (renderPSGAudio s n)) = n"
    using ok by (simp add: renderPSGAudio_def Let_def ay_ok_def)
qed

end
