(* ===== verification/Snapshot_Inv.thy ===== *)
theory Snapshot_Inv
  imports Snapshot Spectrum128_Inv
begin

text \<open>
  What loading a snapshot keeps.  \<open>snapshot_target\<close> is what the loader needs of a machine; it is
  discharged for the invariants of both machines, so any file leaves them in order.
\<close>

section \<open>The interface\<close>

locale snapshot_target =
  fixes L :: "'m loader" and I :: "'m machine \<Rightarrow> bool"
  assumes I_apply: "I s \<Longrightarrow> I (snd (apply_data L s d))"
    and I_port: "paged L = Some (wp, bank) \<Longrightarrow> I s \<Longrightarrow> I (wp s p v)"
    and I_bank: "paged L = Some (wp, bank) \<Longrightarrow> I s \<Longrightarrow> bank s k = Some q \<Longrightarrow> I (s\<lparr>heap := mem_store (heap s) q bs\<rparr>)"
    and I_restore: "I s \<Longrightarrow> I (restoreCPUFromSnapshot s h f)"
begin

lemma I_store_page:
  assumes "page_dest L s b filebuf pid = Some d" "I s"
  shows "I (fst (store_page d bs (s, tmp)))"
  using assms I_bank
  by (auto simp: page_dest_def store_page_def dest_of_def Let_def split: option.splits if_splits)

end

lemma pages_keep:
  assumes "snapshot_target L I" "I (fst st)"
  shows "I (fst (snd (snd (pages_loop L filebuf pos ok found st))))"
  using assms
proof (induction L filebuf pos ok found st rule: pages_loop.induct)
  case (1 L filebuf pos ok found st)
  let ?compLen = "unat (file16 filebuf pos)"
  let ?dataLen = "if ?compLen = 0xFFFF then 0x4000 else ?compLen"
  let ?dest = "page_dest L (fst st) (snd st \<noteq> None) filebuf (filebuf ! (pos + 2))"
  let ?data = "page_data filebuf (pos + 3) ?compLen"
  show ?case
  proof (cases "pos + 3 \<le> length filebuf \<and> \<not> pos + 3 + ?dataLen > length filebuf")
    case go: True
    show ?thesis
    proof (cases ?dest)
      case None
      have "I (fst (snd (snd (pages_loop L filebuf (pos + 3 + ?dataLen) ok found st))))"
        by (rule "1.IH"(1) [OF _ refl refl refl refl _ None "1.prems"]) (use go in simp_all)
      then show ?thesis using go None by (subst pages_loop.simps) (simp add: Let_def)
    next
      case (Some d)
      have "I (fst (store_page d (fst ?data) st))"
        using snapshot_target.I_store_page [OF "1.prems"(1) Some "1.prems"(2), of _ "snd st"] by simp
      then have "I (fst (snd (snd (pages_loop L filebuf (pos + 3 + ?dataLen) (ok \<and> snd ?data) True (store_page d (fst ?data) st)))))"
        by (intro "1.IH"(2) [OF _ refl refl refl refl _ Some refl prod.collapse "1.prems"(1)]) (use go in simp_all)
      then show ?thesis using go Some by (subst pages_loop.simps) (simp add: Let_def case_prod_beta)
    qed
  next
    case False
    then show ?thesis using "1.prems" by (subst pages_loop.simps) (auto simp: Let_def)
  qed
qed

context snapshot_target
begin

lemma I_ay: "paged L = Some (wp, bank) \<Longrightarrow> I s \<Longrightarrow> I (ay_registers wp filebuf s)"
proof -
  assume wp: "paged L = Some (wp, bank)" and s: "I s"
  have "I (fold (\<lambda>i s. wp (wp s 0xFFFD (of_nat i)) 0xBFFD (filebuf ! (39 + i))) is s)" for "is"
    using s by (induction "is" arbitrary: s) (simp_all add: I_port [OF wp])
  then show ?thesis by (simp add: ay_registers_def I_port [OF wp])
qed

lemma I_hardware: "hardware_state L extra filebuf s = Some s' \<Longrightarrow> I s \<Longrightarrow> I s'"
  by (auto simp: hardware_state_def Let_def I_port I_ay split: option.splits if_splits)

lemma I_load_v1: "I s \<Longrightarrow> I (snd (load_v1 L filebuf h s))"
  by (simp add: load_v1_def Let_def case_prod_beta I_apply)

lemma I_load_v23:
  assumes "load_v23 L tmp filebuf extra s = Some (ok, s')" "I s"
  shows "I s'"
proof -
  let ?tmp = "if paged L \<noteq> None then None else tmp"
  obtain u where u: "hardware_state L extra filebuf s = Some u" using assms(1) by (auto simp: load_v23_def Let_def bind_eq_Some_conv)
  obtain a f v t where l: "pages_loop L filebuf (30 + 2 + extra) True False (u, ?tmp) = (a, f, v, t)" by (metis prod_cases4)
  have "I v" using pages_keep [OF snapshot_target_axioms, of "(u, ?tmp)"] I_hardware [OF u assms(2)] l by (metis fst_conv snd_conv)
  then show ?thesis
    using assms(1) u l I_apply
    by (auto simp: load_v23_def Let_def I_port split: option.splits if_splits) (metis snd_conv I_port)+
qed

lemma I_load:
  assumes "snapshot_load L a tmp c s = Some (ok, s')" "I s"
  shows "I s'"
proof (cases c)
  case None
  then show ?thesis using assms by (simp add: snapshot_load_def)
next
  case (Some filebuf)
  obtain h pc where h: "read_header filebuf = (h, pc)" by fastforce
  obtain ap u where ap: "apply_data L s filebuf = (ap, u)" by fastforce
  have u: "I u" using I_apply [OF assms(2), of filebuf] by (simp add: ap)
  show ?thesis
    using assms(1) u I_load_v1 [OF u, of filebuf h] I_load_v23 [of tmp filebuf "extra_len h" u]
    by (auto simp: snapshot_load_def Some h ap Let_def bind_eq_Some_conv I_restore split: if_splits)
qed

end

section \<open>The two machines\<close>

context wired_machine
begin

lemma restore_keeps:
  assumes "full_inv W s"
  shows "full_inv W (restoreCPUFromSnapshot s h f)"
proof -
  have "W u" if "page_read u = page_read s" "page_write u = page_write s" "heap u = heap s"
    "wiring (ctx u) = wiring (ctx s)" for u
    using W_cong [OF that] assms by (simp add: full_inv_def)
  then have "W (restoreCPUFromSnapshot s h f)"
    by (simp add: restoreCPUFromSnapshot_def Let_def restore_regs_def wiring_def)
  then show ?thesis
    using assms by (auto simp: full_inv_def restoreCPUFromSnapshot_def Let_def restore_regs_def core_ok_def beam_ok_def)
qed

end

interpretation snap48: snapshot_target loader48 "full_inv (wired48 r m R)" for r m R
  by unfold_locales (simp_all add: loader48_def apply48_ok w48.restore_keeps)

lemma getBank_ok:
  assumes "full_inv (wired128 r b R) s" "getBank s k = Some q"
  shows "full_inv (wired128 r b R) (s\<lparr>heap := mem_store (heap s) q bs\<rparr>)"
proof -
  have "wired128 r b R s" using assms(1) by (simp add: full_inv_def)
  note w = wired128_parts [OF this]
  have k: "unat k < 8" using assms(2) by (simp add: getBank_def word_less_nat_alt split: if_splits)
  then have "q = b (unat k)" using assms(2) w(3) by (simp add: getBank_def split: if_splits)
  then have "fst r \<noteq> fst q" using bank_not_rom [OF w(4) k] by simp
  then show ?thesis
    using assms(1) by (simp add: full_inv_def wired128_def wired_def rom_image_def mem_other)
qed

lemma writePort128_ok:
  assumes "full_inv (wired128 r b R) s"
  shows "full_inv (wired128 r b R) (writePort128 s p v)"
proof -
  have "machine_inv (wired128 r b R) (ula_clocks (ctx s)) (ula_cycle (ctx s)) (ula_scanline (ctx s)) s"
    using assms by (simp add: full_inv_def machine_inv_def)
  then have "machine_inv (wired128 r b R) (ula_clocks (ctx s)) (ula_cycle (ctx s)) (ula_scanline (ctx s)) (writePort128 s p v)"
    by (rule inv_OUT128) (use assms in \<open>simp add: full_inv_def core_ok_def\<close>)
  then show ?thesis using assms by (simp add: full_inv_def machine_inv_def beam_ok_def)
qed

interpretation snap128: snapshot_target loader128 "full_inv (wired128 r b R)" for r b R
  by unfold_locales
    (auto simp: loader128_def apply128_ok writePort128_ok getBank_ok w128.restore_keeps)

end
