(* ===== verification/Machine_Props.thy ===== *)
theory Machine_Props
  imports Snapshot_Inv
begin

text \<open>
  Properties of whole machines: a step keeps the invariant and moves the clock of the frame, and a
  locked paging register stays locked.
\<close>

section \<open>A locked machine\<close>

definition locked128 :: "ptr \<Rightarrow> (nat \<Rightarrow> ptr) \<Rightarrow> (nat \<Rightarrow> u8) \<Rightarrow> u8 \<Rightarrow> machine128 \<Rightarrow> bool" where
  "locked128 r b R v s \<longleftrightarrow> wired128 r b R s \<and> paging_locked (ctx s) \<and> port7FFD (ctx s) = v"

lemma more128_lock:
  fixes c c' :: spectrum128
  shows "spectrum.more c' = spectrum.more c \<Longrightarrow> paging_locked c' = paging_locked c"
  by (cases c; cases c') simp

lemma spec_write_ctx [simp]: "ctx (spec_write s a v) = ctx s"
  by (simp add: spec_write_def split: option.split)

lemma flushTape_more: "spectrum.more (ctx (flushTape ra s)) = spectrum.more (ctx s)"
  using flushTape_form [of ra s] by auto

lemma readPortFE_more: "spectrum.more (ctx (snd (readPortFE ra s p))) = spectrum.more (ctx s)"
  by (simp add: readPortFE_def Let_def flushTape_more)

lemma writePortFE_more: "spectrum.more (ctx (writePortFE s v)) = spectrum.more (ctx s)"
  by (simp add: writePortFE_def Let_def)

text \<open>No port access moves the paging of a locked machine.\<close>

lemma locked_ports:
  assumes "paging_locked (ctx s)"
  shows "paging_locked (ctx (writePort128 s p v))" "port7FFD (ctx (writePort128 s p v)) = port7FFD (ctx s)"
    "paging_locked (ctx (snd (readPort128 s p)))" "port7FFD (ctx (snd (readPort128 s p))) = port7FFD (ctx s)"
proof -
  note w = writePortFE_more [of s v] and rd = readPortFE_more [of rom_active128 s p]
  show "paging_locked (ctx (writePort128 s p v))" "port7FFD (ctx (writePort128 s p v)) = port7FFD (ctx s)"
    using assms more128_lock [OF w] more128(2) [OF w]
    by (simp_all add: writePort128_def Let_def ay_render_def case_prod_beta)
  show "paging_locked (ctx (snd (readPort128 s p)))" "port7FFD (ctx (snd (readPort128 s p))) = port7FFD (ctx s)"
    using assms more128_lock [OF rd] more128(2) [OF rd] by (simp_all add: readPort128_def)
qed

interpretation lock128: spectrum_machine bus128 "locked128 r b R v" rom_active128 for r b R v
proof
  fix s s' :: machine128 and i a x k cy sl p
  show "mem_write bus128 = spec_write" by (simp add: bus128_def)
  show "locked128 r b R v s' = locked128 r b R v s"
    if "page_read s' = page_read s" "page_write s' = page_write s" "heap s' = heap s" "wiring (ctx s') = wiring (ctx s)"
    using w128.W_cong [OF that] more128_lock [of "ctx s'" "ctx s"] more128(2) [of "ctx s'" "ctx s"] that(4)
    by (simp add: locked128_def wiring_def)
  show "page_write s i = write_map (ctx s) i" if "locked128 r b R v s" "i < 4"
    using that w128.W_wired [of r b R s i] by (simp add: locked128_def)
  show "mapped bus128 s" if "locked128 r b R v s"
    using that w128.W_mapped [of r b R s] by (simp add: locked128_def)
  show "locked128 r b R v (spec_write s a x)" if "locked128 r b R v s"
    using that w128.W_write by (simp add: locked128_def)
  assume m: "machine_inv (locked128 r b R v) k cy sl s" and k: "k < FRAME_T_STATES"
  then have l: "machine_inv (wired128 r b R) k cy sl s" "paging_locked (ctx s)" "port7FFD (ctx s) = v"
    by (simp_all add: machine_inv_def locked128_def)
  show "machine_inv (locked128 r b R v) k cy sl (snd (io_read bus128 s p))"
    using m128.inv_IN [OF l(1) k, of p] locked_ports [OF l(2)] l(3)
    by (simp add: machine_inv_def locked128_def bus128_def)
  show "machine_inv (locked128 r b R v) k cy sl (io_write bus128 s p x)"
    using m128.inv_OUT [OF l(1) k, of p x] locked_ports [OF l(2)] l(3)
    by (simp add: machine_inv_def locked128_def bus128_def)
qed

section \<open>Sample machines\<close>

text \<open>
  Allocation 0 holds the ROM; allocations 1 to 8 the RAM.  The machine is fresh but for a halted CPU,
  so its next step is known.
\<close>

definition sample128 :: machine128 where
  "sample128 = (spectrum128_new (\<lambda>_. 0) input_new (Some (0, 0)) (\<lambda>i. Some (i + 1, 0)) (replicate 882 0))\<lparr>halted := 1\<rparr>"

definition sample48 :: machine48 where
  "sample48 = (spectrum48_new (\<lambda>_. 0) input_new (Some (0, 0)) (Some (1, 0)))\<lparr>halted := 1\<rparr>"

lemma full_inv_regs:
  "wired_machine B W \<Longrightarrow> host_view s' = host_view s \<Longrightarrow> full_inv W s' = full_inv W s"
  using wired_machine.W_cong [of B W s' s] by (auto simp: full_inv_def host_view_def)

lemma sample_ok:
  "full_inv (wired128 (0, 0) (\<lambda>i. (i + 1, 0)) (\<lambda>_. 0xFF)) sample128"
  "full_inv (wired48 (0, 0) (1, 0) (\<lambda>_. 0xFF)) sample48"
proof -
  have "banks_apart (0, 0) (\<lambda>i. (i + 1, 0))" by (simp add: banks_apart_def)
  then have "full_inv (wired128 (0, 0) (\<lambda>i. (i + 1, 0)) (\<lambda>_. 0xFF))
      (spectrum128_new (\<lambda>_. 0) input_new (Some (0, 0)) (\<lambda>i. Some (i + 1, 0)) (replicate 882 0))"
    by (rule spectrum128_new_ok) (simp add: SAMPLES_PER_FRAME_def)
  then show "full_inv (wired128 (0, 0) (\<lambda>i. (i + 1, 0)) (\<lambda>_. 0xFF)) sample128"
    using full_inv_regs [OF w128.wired_machine_axioms, of sample128] by (simp add: sample128_def host_view_def)
  have "full_inv (wired48 (0, 0) (1, 0) (\<lambda>_. 0xFF)) (spectrum48_new (\<lambda>_. 0) input_new (Some (0, 0)) (Some (1, 0)))"
    by (rule spectrum48_new_ok) simp
  then show "full_inv (wired48 (0, 0) (1, 0) (\<lambda>_. 0xFF)) sample48"
    using full_inv_regs [OF w48.wired_machine_axioms, of sample48] by (simp add: sample48_def host_view_def)
qed

lemma halted_step: "halted s \<noteq> 0 \<Longrightarrow> \<exists>s'. z80_step B s = Some (4, s')"
  by (simp add: z80_step_def Let_def INC_R_def)

text \<open>A halted CPU without a pending instant load takes four T-states.\<close>

lemma halted_spec_step:
  assumes "halted s \<noteq> 0" "\<not> isLoaded (sp_tape (ctx s))" "ula_clocks (ctx s) < 69000"
  shows "\<exists>s'. spec_step ra B s = Some (4, s')"
  using assms
  by (simp add: spec_step_def step_cpu_def z80_step_def advanceULA_def Let_def u32_of_def FRAME_T_STATES_def INC_R_def)

section \<open>Steps\<close>

text \<open>C4 (machine128_step): Every step of a 128K machine that takes at most 65311 T-states keeps the
machine invariant and advances the frame clock by the T-states returned, modulo 69888; the ROM is
unchanged. The invariant has the page wiring as the code sets it from the paging register (bank 5
at 0x4000, bank 2 at 0x8000 whatever bit 3 is), and the sound chip, beeper, border events and beam
position in range.\<close>

theorem machine128_step:
  assumes "full_inv (wired128 r b R) s" "step128 s = Some (t, s')" "t \<le> 65311"
  shows "full_inv (wired128 r b R) s' \<and> ula_clocks (ctx s') = (ula_clocks (ctx s) + nat t) mod FRAME_T_STATES
    \<and> (\<forall>k<ROM_SIZE_128. heap s' (ptr_add r k) = heap s (ptr_add r k))"
proof -
  have i: "full_inv (wired128 r b R) s'" "ula_clocks (ctx s') = (ula_clocks (ctx s) + nat t) mod FRAME_T_STATES"
    using m128.full_inv_step [OF _ assms(1,3), of s'] assms(2) by (simp_all add: step128_def)
  then show ?thesis using assms(1) by (simp add: full_inv_def wired128_def rom_image_def)
qed

theorem machine48_step:
  assumes "full_inv (wired48 r m R) s" "step48 s = Some (t, s')" "t \<le> 65311"
  shows "full_inv (wired48 r m R) s' \<and> ula_clocks (ctx s') = (ula_clocks (ctx s) + nat t) mod FRAME_T_STATES
    \<and> (\<forall>k<ROM_SIZE_48. heap s' (ptr_add r k) = heap s (ptr_add r k))"
proof -
  have i: "full_inv (wired48 r m R) s'" "ula_clocks (ctx s') = (ula_clocks (ctx s) + nat t) mod FRAME_T_STATES"
    using m48.full_inv_step [OF _ assms(1,3), of s'] assms(2) by (simp_all add: step48_def)
  then show ?thesis using assms(1) by (simp add: full_inv_def wired48_def rom_image_def)
qed

lemma sample_fields128:
  "halted sample128 \<noteq> 0" "\<not> isLoaded (sp_tape (ctx sample128))" "ula_clocks (ctx sample128) = 0"
  by (simp_all add: sample128_def spectrum128_new_def Let_def updatePaging_def updateMap_def fill_opt_def z80_init_def
      z80_zero_def base_new_def spectrum.defs tape_new_def isLoaded_def)

lemma sample_fields48:
  "halted sample48 \<noteq> 0" "\<not> isLoaded (sp_tape (ctx sample48))" "ula_clocks (ctx sample48) = 0"
  by (simp_all add: sample48_def spectrum48_new_def Let_def map48_def map_ram48_def updateMap_def fill_opt_def z80_init_def
      z80_zero_def base_new_def spectrum.defs tape_new_def isLoaded_def)

theorem machine128_step_witness:
  "\<exists>s'. step128 sample128 = Some (4, s') \<and> full_inv (wired128 (0, 0) (\<lambda>i. (i + 1, 0)) (\<lambda>_. 0xFF)) s'
     \<and> ula_clocks (ctx s') = 4"
proof -
  obtain s' where s: "step128 sample128 = Some (4, s')"
    using halted_spec_step [of sample128] sample_fields128 by (auto simp: step128_def)
  then show ?thesis
    using machine128_step [OF sample_ok(1) s] sample_fields128(3) by (simp add: FRAME_T_STATES_def)
qed

theorem machine48_step_witness:
  "\<exists>s'. step48 sample48 = Some (4, s') \<and> full_inv (wired48 (0, 0) (1, 0) (\<lambda>_. 0xFF)) s' \<and> ula_clocks (ctx s') = 4"
proof -
  obtain s' where s: "step48 sample48 = Some (4, s')"
    using halted_spec_step [of sample48] sample_fields48 by (auto simp: step48_def)
  then show ?thesis
    using machine48_step [OF sample_ok(2) s] sample_fields48(3) by (simp add: FRAME_T_STATES_def)
qed

section \<open>The paging lock\<close>

text \<open>C18 (paging_lock_permanent): Once bit 5 of a write to 0x7FFD has locked paging, no program can
move a page again: after any run of CPU instructions the register, the lock and the four pages are
the same; only a reset clears the lock.\<close>

theorem paging_lock_permanent:
  assumes "wired128 r b R s" "core_ok (ctx s)" "paging_locked (ctx s)" "z80_run bus128 n s = Some (t, s')"
  shows "paging_locked (ctx s') \<and> port7FFD (ctx s') = port7FFD (ctx s)
    \<and> (\<forall>i<4. page_read s' i = page_read s i \<and> page_write s' i = page_write s i)
    \<and> \<not> paging_locked (ctx (reset128 s'))"
proof -
  have "machine_inv (locked128 r b R (port7FFD (ctx s))) (ula_clocks (ctx s)) (ula_cycle (ctx s)) (ula_scanline (ctx s)) s"
    using assms by (simp add: machine_inv_def locked128_def)
  then have l: "locked128 r b R (port7FFD (ctx s)) s'"
    using lock128.I_run [OF assms(4)] by (auto simp: machine_inv_def)
  moreover have "paging_locked (ctx (reset128 s')) = False" by (simp add: reset128_def Let_def)
  moreover have "\<forall>i<4. page_read s' i = page_read s i \<and> page_write s' i = page_write s i"
    using l wired128_parts(8) [OF assms(1)] by (auto simp: locked128_def wired128_def wired_def)
  ultimately show ?thesis by (simp add: locked128_def)
qed

definition locked_sample :: machine128 where
  "locked_sample = writePort128 sample128 0x7FFD 0x30"

theorem paging_lock_permanent_witness:
  "\<exists>s'. z80_run bus128 1 locked_sample = Some (4, s') \<and> port7FFD (ctx s') = 0x30 \<and> paging_locked (ctx s')"
proof -
  have i: "full_inv (wired128 (0, 0) (\<lambda>i. (i + 1, 0)) (\<lambda>_. 0xFF)) locked_sample"
    unfolding locked_sample_def by (rule writePort128_ok [OF sample_ok(1)])
  have u: "paging_locked (ctx sample128) = False"
    by (simp add: sample128_def spectrum128_new_def Let_def fill_opt_def z80_init_def z80_zero_def spectrum.defs spectrum128.defs
        base_new_def)
  have l: "paging_locked (ctx locked_sample)" "port7FFD (ctx locked_sample) = 0x30" "halted locked_sample \<noteq> 0"
    using sample_fields128(1) u
    by (simp_all add: locked_sample_def writePort128_def updatePaging_def updateMap_def Let_def)
  obtain s' where "z80_step bus128 locked_sample = Some (4, s')" using halted_step [OF l(3)] by blast
  then have s: "z80_run bus128 1 locked_sample = Some (4, s')" unfolding One_nat_def by simp
  show ?thesis
    using paging_lock_permanent [OF _ _ l(1) s] i l(2) s by (auto simp: full_inv_def)
qed

end
