(* ===== verification/Emulator_Inv.thy ===== *)
theory Emulator_Inv
  imports Emulator Machine_Props
begin

text \<open>
  The invariant of the whole program: whatever commands arrive, whatever the files hold and however
  the tasks interleave, the machine behind the pointer satisfies its invariant.  \<open>sys_step\<close> is the
  step relation of the web server task, the emulator task and the video task.
\<close>

section \<open>The machine\<close>

definition mach_inv :: "mach \<Rightarrow> bool" where
  "mach_inv m \<longleftrightarrow>
     (case m of
        M48 s \<Rightarrow> (\<exists>r p R. full_inv (wired48 r p R) s)
      | M128 u \<Rightarrow> (\<exists>r b R. full_inv (wired128 r b R) u))"

definition mach_clock :: "mach \<Rightarrow> nat" where
  "mach_clock m = (case m of M48 s \<Rightarrow> ula_clocks (ctx s) | M128 s \<Rightarrow> ula_clocks (ctx s))"

lemma mach_invI:
  "full_inv (wired48 r p R) s \<Longrightarrow> mach_inv (M48 s)"
  "full_inv (wired128 r b R) u \<Longrightarrow> mach_inv (M128 u)"
  by (simp_all add: mach_inv_def del: split_paired_Ex) blast+

lemma mach_invE:
  assumes "mach_inv m"
  obtains s r p R where "m = M48 s" "full_inv (wired48 r p R) s"
  | u r b R where "m = M128 u" "full_inv (wired128 r b R) u"
  using assms by (auto simp: mach_inv_def split: mach.splits)

context wired_machine
begin

lemma full_inv_ctx:
  assumes "full_inv W s" "wiring (f (ctx s)) = wiring (ctx s)" "core_ok (ctx s) \<Longrightarrow> core_ok (f (ctx s))"
    "beam_ok (ctx s) \<Longrightarrow> beam_ok (f (ctx s))"
  shows "full_inv W (upd_ctx f s)"
  using assms W_upd [of f s] by (simp add: full_inv_def)

lemma full_inv_input: "full_inv W s \<Longrightarrow> input_ok i \<Longrightarrow> full_inv W (upd_ctx (\<lambda>c. c\<lparr>sp_input := i\<rparr>) s)"
  by (rule full_inv_ctx) (auto simp: core_ok_def beam_ok_def wiring_def)

lemma full_inv_monitor: "full_inv W s \<Longrightarrow> full_inv W (upd_ctx (\<lambda>c. c\<lparr>tape_monitor := b\<rparr>) s)"
  by (rule full_inv_ctx) (auto simp: core_ok_def beam_ok_def wiring_def)

lemma full_inv_rendered: "full_inv W s \<Longrightarrow> full_inv W (upd_ctx (\<lambda>c. c\<lparr>last_rendered_border := g c\<rparr>) s)"
  by (rule full_inv_ctx) (auto simp: core_ok_def beam_ok_def wiring_def)

lemma full_inv_input_ok: "full_inv W s \<Longrightarrow> input_ok (sp_input (ctx s))"
  by (simp add: full_inv_def core_ok_def)

end

context spectrum_machine
begin

lemma full_inv_instaload: "full_inv W s \<Longrightarrow> full_inv W (snd (instaload s))"
  using inv_instaload [of "ula_clocks (ctx s)" "ula_cycle (ctx s)" "ula_scanline (ctx s)" s]
  by (auto simp: full_inv_def machine_inv_def beam_ok_def)

end

text \<open>A new ROM image replaces the old one.\<close>

lemma loadROM_result:
  assumes "rom (ctx s) = Some r"
  shows "\<exists>h. snd (loadROM s content) = s\<lparr>heap := h\<rparr> \<and> (\<forall>q. fst q \<noteq> fst r \<longrightarrow> h q = heap s q)"
proof (cases content)
  case None
  then show ?thesis using assms by (auto simp: loadROM_def intro: exI [of _ "heap s"])
next
  case (Some d)
  then show ?thesis
    using assms by (auto simp: loadROM_def Let_def mem_store_def intro!: exI [of _ "mem_store (heap s) r (take (rom_size (ctx s)) d)"])
qed

lemma loadROM_ok:
  "full_inv (wired48 r p R) s \<Longrightarrow> \<exists>R'. full_inv (wired48 r p R') (snd (loadROM s content))"
  "full_inv (wired128 r b R) u \<Longrightarrow> \<exists>R'. full_inv (wired128 r b R') (snd (loadROM u content))"
proof -
  have w: "wired page (v\<lparr>heap := h\<rparr>) = wired page v" for page h and v :: "'a machine" by (simp add: wired_def)
  show "\<exists>R'. full_inv (wired48 r p R') (snd (loadROM s content))" if "full_inv (wired48 r p R) s"
  proof -
    have "rom (ctx s) = Some r" using that by (simp add: full_inv_def wired48_def)
    from loadROM_result [OF this] obtain h where "snd (loadROM s content) = s\<lparr>heap := h\<rparr>" by blast
    then show ?thesis
      using that by (intro exI [of _ "\<lambda>k. h (ptr_add r k)"]) (simp add: full_inv_def wired48_def w rom_image_def)
  qed
  show "\<exists>R'. full_inv (wired128 r b R') (snd (loadROM u content))" if "full_inv (wired128 r b R) u"
  proof -
    have "rom (ctx u) = Some r" using that by (simp add: full_inv_def wired128_def)
    from loadROM_result [OF this] obtain h where "snd (loadROM u content) = u\<lparr>heap := h\<rparr>" by blast
    then show ?thesis
      using that by (intro exI [of _ "\<lambda>k. h (ptr_add r k)"]) (simp add: full_inv_def wired128_def w rom_image_def)
  qed
qed

text \<open>What every operation on the machine keeps.\<close>

definition host_ok :: "host \<Rightarrow> bool" where
  "host_ok h \<longleftrightarrow> (\<exists>r p b. h_rom h = Some r \<and> h_ram h = Some p \<and> fst r \<noteq> fst p
     \<and> h_banks h = (\<lambda>i. Some (b i)) \<and> banks_apart r b \<and> length (h_buffer h) = SAMPLES_PER_FRAME)"

named_theorems mach_keeps \<open>operations that keep the machine's invariant\<close>

lemma full_inv_wired: "full_inv W s \<Longrightarrow> W s"
  by (simp add: full_inv_def)

lemmas mach_inv_ops =
  m48.full_inv_tape m128.full_inv_tape w48.full_inv_input w128.full_inv_input
  w48.full_inv_monitor w128.full_inv_monitor m48.full_inv_instaload m128.full_inv_instaload
  w48.full_inv_rendered w128.full_inv_rendered renderPSGAudio_ok(1)
  reset48_ok reset128_ok

lemma mach_reset_ok [mach_keeps]: "mach_inv m \<Longrightarrow> mach_inv (mach_reset m)"
  by (elim mach_invE) (auto intro: mach_invI mach_inv_ops)

lemma set_tape_ok [mach_keeps]: "mach_inv m \<Longrightarrow> mach_inv (set_tape t m)"
  by (elim mach_invE) (auto intro: mach_invI mach_inv_ops)

lemma set_input_ok [mach_keeps]: "mach_inv m \<Longrightarrow> input_ok i \<Longrightarrow> mach_inv (set_input i m)"
  by (elim mach_invE) (auto intro: mach_invI mach_inv_ops)

lemma set_monitor_ok [mach_keeps]: "mach_inv m \<Longrightarrow> mach_inv (set_monitor v m)"
  by (elim mach_invE) (auto intro: mach_invI mach_inv_ops)

lemma mach_loadROM_ok [mach_keeps]: "mach_inv m \<Longrightarrow> mach_inv (snd (mach_loadROM content m))"
  by (elim mach_invE) (auto dest: loadROM_ok [where content = content] intro: mach_invI)

lemma mach_instaload_ok [mach_keeps]: "mach_inv m \<Longrightarrow> mach_inv (snd (mach_instaload m))"
  by (elim mach_invE) (auto intro: mach_invI mach_inv_ops)

lemma mach_snapshot_ok: "mach_snapshot h c m = Some (ok, m') \<Longrightarrow> mach_inv m \<Longrightarrow> mach_inv m'"
  by (elim mach_invE) (auto dest: snap48.I_load snap128.I_load intro: mach_invI)

lemma mach_input_ok: "mach_inv m \<Longrightarrow> input_ok (mach_input m)"
  by (elim mach_invE) (auto dest: w48.full_inv_input_ok w128.full_inv_input_ok)

lemma create_ok: "host_ok h \<Longrightarrow> mach_inv (createSpectrumInstance h is128K mem i)"
  unfolding host_ok_def createSpectrumInstance_def
  by (elim exE conjE) (simp add: mach_invI(1) [OF spectrum48_new_ok] mach_invI(2) [OF spectrum128_new_ok])

lemma mach_audio_ok [mach_keeps]: "mach_inv m \<Longrightarrow> mach_inv (snd (snd (mach_audio n m)))"
  by (elim mach_invE) (auto simp: case_prod_beta Let_def intro: mach_invI mach_inv_ops)

lemma mach_render_ok [mach_keeps]: "mach_inv m \<Longrightarrow> mach_inv (snd (mach_render alloc bl m))"
  by (elim mach_invE) (auto intro: mach_invI mach_inv_ops)

lemma mach_step_ok:
  assumes "mach_step m = Some (t, m')" "mach_inv m" "t \<le> 65311"
  shows "mach_inv m'" "mach_clock m' = (mach_clock m + nat t) mod FRAME_T_STATES" "4 \<le> t"
proof -
  have "mach_inv m' \<and> mach_clock m' = (mach_clock m + nat t) mod FRAME_T_STATES \<and> 4 \<le> t"
    using assms(2)
  proof (cases rule: mach_invE)
    case (1 s r p R)
    then obtain s' where s': "step48 s = Some (t, s')" "m' = M48 s'" using assms by auto
    then show ?thesis
      using m48.full_inv_step [OF s'(1) [unfolded step48_def] 1(2) assms(3)] 1(1) by (auto simp: mach_clock_def intro: mach_invI)
  next
    case (2 u r b R)
    then obtain u' where u': "step128 u = Some (t, u')" "m' = M128 u'" using assms by auto
    then show ?thesis
      using m128.full_inv_step [OF u'(1) [unfolded step128_def] 2(2) assms(3)] 2(1) by (auto simp: mach_clock_def intro: mach_invI)
  qed
  then show "mach_inv m'" "mach_clock m' = (mach_clock m + nat t) mod FRAME_T_STATES" "4 \<le> t" by simp_all
qed

section \<open>The commands\<close>

lemma machine_of_simps [simp]:
  "machine_ptr (show_text t c e) = machine_ptr e" "machine_ptr (clear_text e) = machine_ptr e"
  "machine_ptr (on_mach f e) = f (machine_ptr e)"
  "machine_ptr (on_tape g e) = set_tape (g (mach_tape (machine_ptr e))) (machine_ptr e)"
  "machine_ptr (paused_reset e) = mach_reset (machine_ptr e)"
  by (simp_all add: show_text_def clear_text_def on_mach_def on_tape_def paused_reset_def Let_def)

lemma instaload_now_ok [mach_keeps]: "mach_inv (machine_ptr e) \<Longrightarrow> mach_inv (machine_ptr (instaload_now e))"
  using mach_instaload_ok [of "machine_ptr e"] by (auto simp: instaload_now_def case_prod_beta Let_def)

lemma handleLoadedTape_ok [mach_keeps]: "mach_inv (machine_ptr e) \<Longrightarrow> mach_inv (machine_ptr (handleLoadedTape e))"
  by (simp add: handleLoadedTape_def Let_def mach_keeps)

lemma load_tape_ok: "load_tape h path e = Some e' \<Longrightarrow> mach_inv (machine_ptr e) \<Longrightarrow> mach_inv (machine_ptr e')"
  by (auto simp: load_tape_def Let_def mach_keeps split: if_splits)

lemma load_rom_ok [mach_keeps]: "mach_inv (machine_ptr e) \<Longrightarrow> mach_inv (machine_ptr (load_rom h path e))"
  using mach_loadROM_ok [of "machine_ptr e" "h_files h path"] by (auto simp: load_rom_def case_prod_beta Let_def mach_reset_ok)

lemma load_snapshot_ok:
  assumes "load_snapshot h path e = Some e'" "mach_inv (machine_ptr e)"
  shows "mach_inv (machine_ptr e')"
proof -
  obtain ok m where "mach_snapshot h (h_files h path) (machine_ptr (on_tape tape_stop e)) = Some (ok, m)"
    "machine_ptr e' = m"
    using assms(1) by (auto simp: load_snapshot_def Let_def split: if_splits)
  then show ?thesis using mach_snapshot_ok assms(2) by (metis machine_of_simps(4) set_tape_ok)
qed

lemma load_file_ok: "load_file h path e = Some e' \<Longrightarrow> mach_inv (machine_ptr e) \<Longrightarrow> mach_inv (machine_ptr e')"
  by (auto simp: load_file_def Let_def mach_keeps split: option.splits if_splits
      dest!: load_tape_ok load_snapshot_ok)

lemma change_model_ok:
  assumes "host_ok h" "mach_inv (machine_ptr e)"
  shows "mach_inv (machine_ptr (change_model h arg e))"
proof -
  let ?new = "createSpectrumInstance h (arg = ''128k'') (mach_heap (machine_ptr e)) (mach_input (machine_ptr e))"
  have "mach_inv (snd (mach_loadROM content ?new))" for content by (intro mach_loadROM_ok create_ok assms(1))
  then show ?thesis
    using assms(2) mach_input_ok by (auto simp: change_model_def case_prod_beta Let_def mach_reset_ok set_input_ok)
qed

lemma input_ops_ok:
  "input_ok i \<Longrightarrow> input_ok (input_setJoystickBit i n v)" "input_ok i \<Longrightarrow> input_ok (input_update_key i r n v)"
  by (simp_all add: input_ok_def input_setJoystickBit_def input_update_key_def)

lemma keyboard_input_ok: "mach_inv (machine_ptr e) \<Longrightarrow> mach_inv (machine_ptr (keyboard_input a b e))"
  by (simp add: keyboard_input_def Let_def set_input_ok input_ops_ok mach_input_ok)

lemma tape_command_ok:
  "tape_command h name path e = Some e' \<Longrightarrow> mach_inv (machine_ptr e) \<Longrightarrow> mach_inv (machine_ptr e')"
  by (auto simp: tape_command_def set_tape_ok split: if_splits dest: load_tape_ok)

lemma process_command_ok:
  assumes "process_command h cmd e = Some e'" "host_ok h" "mach_inv (machine_ptr e)"
  shows "mach_inv (machine_ptr e')"
  using assms
  by (cases "cmd_type cmd")
    (auto simp: process_command_def mach_keeps change_model_ok keyboard_input_ok
      split: if_splits dest: load_file_ok tape_command_ok)

lemma end_of_frame_ok: "mach_inv m \<Longrightarrow> mach_inv (machine_ptr (end_of_frame m e))"
proof -
  have "machine_ptr (updateTapeOverlay u) = machine_ptr u" for u
    by (simp add: updateTapeOverlay_def Let_def)
  then show "mach_inv m \<Longrightarrow> mach_inv (machine_ptr (end_of_frame m e))"
    by (simp add: end_of_frame_def Let_def mach_audio_ok)
qed

lemma video_frame_ok: "mach_inv (machine_ptr e) \<Longrightarrow> mach_inv (machine_ptr (video_frame alloc e))"
  using mach_render_ok [of "machine_ptr e" alloc]
  by (auto simp: video_frame_def display_renderSpectrum_def Let_def case_prod_beta split: option.split)

section \<open>The tasks\<close>

text \<open>
  The emulator task is at its command loop or inside a frame, the video task waits or draws a picture.
  Three fields the code does not have: \<open>pushed\<close> and \<open>handled\<close> record the commands the web server
  queued and those the emulator took, in order; \<open>freed\<close> records that a machine has been deleted while the
  video task was drawing it.

  \<^item> A step is one push, one command, one instruction with its ULA, the end of a frame, or the start or the
    end of a picture; \<open>event\<close> names it.  The picture is what the machine holds at its end.
\<close>

datatype phase = Commands | Running int

record sys =
  phase :: phase
  queue :: web_queue
  em :: emu
  drawing :: bool
  pushed :: "web_command list"
  handled :: "web_command list"
  freed :: bool

datatype event = Push web_command | Take web_command | FrameStart | Instr int | FrameEnd | PictureStart | PictureEnd

text \<open>A model change whose ROM loads deletes the machine it replaces.\<close>

definition replaces_machine :: "host \<Rightarrow> web_command \<Rightarrow> emu \<Rightarrow> bool" where
  "replaces_machine h c e \<longleftrightarrow> cmd_type c = ChangeModel
     \<and> fst (mach_loadROM (h_files h (if arg1 c = ''128k'' then ''/spiffs/128k.rom'' else ''/spiffs/48k.rom''))
            (createSpectrumInstance h (arg1 c = ''128k'') (mach_heap (machine_ptr e)) (mach_input (machine_ptr e))))"

inductive sys_step :: "sys \<Rightarrow> event \<Rightarrow> sys \<Rightarrow> bool" where
  push: "sys_step s (Push c) (s\<lparr>queue := queue_push (queue s) c, pushed := pushed s @ [c]\<rparr>)"
| pop: "phase s = Commands \<Longrightarrow> queue_pop (queue s) = Some (c, q) \<Longrightarrow> host_ok h
    \<Longrightarrow> process_command h c (em s) = Some e
    \<Longrightarrow> sys_step s (Take c) (s\<lparr>queue := q, em := e, handled := handled s @ [c],
          freed := freed s \<or> drawing s \<and> replaces_machine h c (em s)\<rparr>)"
| start: "phase s = Commands \<Longrightarrow> queue_pop (queue s) = None \<Longrightarrow> sys_step s FrameStart (s\<lparr>phase := Running 0\<rparr>)"
| instr: "phase s = Running T \<Longrightarrow> T < T_STATES_PER_FRAME \<Longrightarrow> mach_step (machine_ptr (em s)) = Some (t, m)
    \<Longrightarrow> sys_step s (Instr t) (s\<lparr>phase := Running (T + t), em := (em s)\<lparr>machine_ptr := m\<rparr>\<rparr>)"
| finish: "phase s = Running T \<Longrightarrow> \<not> T < T_STATES_PER_FRAME
    \<Longrightarrow> sys_step s FrameEnd (s\<lparr>phase := Commands, em := end_of_frame (machine_ptr (em s)) (em s)\<rparr>)"
| video_start: "\<not> drawing s \<Longrightarrow> sys_step s PictureStart (s\<lparr>drawing := True\<rparr>)"
| video_end: "drawing s \<Longrightarrow> sys_step s PictureEnd (s\<lparr>drawing := False, em := video_frame alloc (em s)\<rparr>)"

text \<open>A run with the events of its steps, in order.\<close>

inductive sys_run :: "sys \<Rightarrow> event list \<Rightarrow> sys \<Rightarrow> bool" where
  run_none: "sys_run s [] s"
| run_more: "sys_run s es u \<Longrightarrow> sys_step u x v \<Longrightarrow> sys_run s (es @ [x]) v"

inductive_cases sys_stepE: "sys_step s x u"

text \<open>No model change is taken while a picture is drawn; the flag says whether one is being drawn.\<close>

fun apart :: "bool \<Rightarrow> event list \<Rightarrow> bool" where
  "apart d [] = True"
| "apart d (PictureStart # es) = apart True es"
| "apart d (PictureEnd # es) = apart False es"
| "apart d (Take c # es) = (\<not> (d \<and> cmd_type c = ChangeModel) \<and> apart d es)"
| "apart d (x # es) = apart d es"

fun drawing_after :: "bool \<Rightarrow> event list \<Rightarrow> bool" where
  "drawing_after d [] = d"
| "drawing_after d (PictureStart # es) = drawing_after True es"
| "drawing_after d (PictureEnd # es) = drawing_after False es"
| "drawing_after d (x # es) = drawing_after d es"

lemma apart_append: "apart d (es @ fs) \<longleftrightarrow> apart d es \<and> apart (drawing_after d es) fs"
  by (induction d es rule: drawing_after.induct) auto

lemma drawing_after_append: "drawing_after d (es @ fs) = drawing_after (drawing_after d es) fs"
  by (induction d es rule: drawing_after.induct) auto

text \<open>What a step keeps: always the order of the commands, and within the time limit the machine.\<close>

definition fifo_inv :: "sys \<Rightarrow> bool" where
  "fifo_inv s \<longleftrightarrow> pushed s = handled s @ queue s"

definition sys_inv :: "sys \<Rightarrow> bool" where
  "sys_inv s \<longleftrightarrow> mach_inv (machine_ptr (em s))
     \<and> (case phase s of Commands \<Rightarrow> True | Running T \<Rightarrow> 0 \<le> T \<and> T < T_STATES_PER_FRAME + 65311)"

lemma fifo_step: "sys_step s x u \<Longrightarrow> fifo_inv s \<Longrightarrow> fifo_inv u"
  by (cases rule: sys_step.cases) (auto simp: fifo_inv_def queue_push_def queue_pop_def split: list.splits)

lemma sys_inv_step:
  assumes "sys_step s x u" "sys_inv s" "\<And>t. x = Instr t \<Longrightarrow> t \<le> 65311"
  shows "sys_inv u"
  using assms(1)
proof (cases rule: sys_step.cases)
  case (pop c q h e)
  then show ?thesis using assms(2) process_command_ok by (auto simp: sys_inv_def)
next
  case (instr T t m)
  then show ?thesis using assms(2) assms(3) [of t] mach_step_ok [of "machine_ptr (em s)" t m] by (simp add: sys_inv_def)
qed (use assms(2) in \<open>auto simp: sys_inv_def end_of_frame_ok video_frame_ok T_STATES_PER_FRAME_def\<close>)

lemma run_fifo: "sys_run s es u \<Longrightarrow> fifo_inv s \<Longrightarrow> fifo_inv u"
  by (induction rule: sys_run.induct) (auto intro: fifo_step)

lemma run_inv: "sys_run s es u \<Longrightarrow> sys_inv s \<Longrightarrow> (\<And>t. Instr t \<in> set es \<Longrightarrow> t \<le> 65311) \<Longrightarrow> sys_inv u"
  by (induction rule: sys_run.induct) (auto intro: sys_inv_step)

lemma run_freed:
  "sys_run s es u \<Longrightarrow> drawing u = drawing_after (drawing s) es
     \<and> (\<not> freed s \<longrightarrow> apart (drawing s) es \<longrightarrow> \<not> freed u)"
proof (induction rule: sys_run.induct)
  case (run_more s es u x v)
  from run_more(2) show ?case
    by (cases rule: sys_step.cases)
      (use run_more(3) in \<open>auto simp: apart_append drawing_after_append replaces_machine_def\<close>)
qed simp

end
