(* ===== verification/Screen_Border.thy ===== *)
theory Screen_Border
  imports Screen
begin

text \<open>
  What the border renderer draws: the colour of every pixel off the active area is the border colour
  at the time the beam passes it, whatever the recorded events are.
\<close>

section \<open>The colour under the beam\<close>

text \<open>The events before a time, and the colour they leave.\<close>

definition before :: "border_event list \<Rightarrow> nat \<Rightarrow> border_event list" where
  "before evs T = takeWhile (\<lambda>e. ev_tstates e < T) evs"

definition beam_state :: "border_event list \<Rightarrow> u8 \<Rightarrow> nat \<Rightarrow> nat \<times> u8" where
  "beam_state evs c T = (length (before evs T), fold (\<lambda>e c. ev_color e AND 0x07) (before evs T) c)"

lemma consume_until_eq:
  "consume_until evs T (i, c) =
     (let es = takeWhile (\<lambda>e. ev_tstates e < T) (drop i evs)
      in (i + length es, fold (\<lambda>e c. ev_color e AND 0x07) es c))"
proof (induction "length evs - i" arbitrary: i c)
  case 0
  then show ?case by (subst consume_until.simps) simp
next
  case (Suc n)
  then have i: "i < length evs" by simp
  then have d: "drop i evs = evs ! i # drop (Suc i) evs" by (simp add: Cons_nth_drop_Suc)
  show ?case
  proof (cases "ev_tstates (evs ! i) < T")
    case True
    have "n = length evs - (i + 1)" using Suc.hyps(2) by simp
    then show ?thesis
      using True i Suc.hyps(1) [of "i + 1" "ev_color (evs ! i) AND 0x07"] by (subst consume_until.simps) (simp add: d Let_def)
  next
    case False
    then show ?thesis using i by (subst consume_until.simps) (simp add: d Let_def)
  qed
qed

lemma before_split: "st \<le> T \<Longrightarrow> before evs T = before evs st @ takeWhile (\<lambda>e. ev_tstates e < T) (drop (length (before evs st)) evs)"
  unfolding before_def by (induction evs) auto

lemma consume_beam: "st \<le> T \<Longrightarrow> consume_until evs T (beam_state evs c st) = beam_state evs c T"
  by (simp add: beam_state_def consume_until_eq Let_def before_split [of st T])

lemma consume_start: "consume_until evs T (0, c) = beam_state evs c T"
  by (simp add: consume_until_eq beam_state_def before_def Let_def)

text \<open>The colour at a time: for events in order, that of the last one not after it.\<close>

definition colour_at :: "border_event list \<Rightarrow> u8 \<Rightarrow> nat \<Rightarrow> u8" where
  "colour_at evs c t =
     (let es = filter (\<lambda>e. ev_tstates e \<le> t) evs in if es = [] then c else ev_color (last es) AND 0x07)"

lemma fold_last: "fold (\<lambda>e c. f e) es c = (if es = [] then c else f (last es))"
  by (induction es rule: rev_induct) simp_all

lemma takeWhile_sorted:
  "sorted (map ev_tstates evs) \<Longrightarrow> takeWhile (\<lambda>e. ev_tstates e < T) evs = filter (\<lambda>e. ev_tstates e < T) evs"
proof (induction evs)
  case (Cons e evs)
  have "filter (\<lambda>e. ev_tstates e < T) evs = []" if "\<not> ev_tstates e < T"
    using Cons.prems that by (auto simp: filter_empty_conv)
  then show ?case using Cons by simp
qed simp

lemma beam_colour:
  assumes "sorted (map ev_tstates evs)"
  shows "snd (beam_state evs c (t + 1)) = colour_at evs c t"
  using takeWhile_sorted [OF assms, of "t + 1"]
  by (simp add: beam_state_def before_def fold_last colour_at_def less_Suc_eq_le Let_def)

section \<open>Pairs of pixels\<close>

lemma border_pixels_eq: "border_pixels c = [spectrum_palette c False, spectrum_palette c False]"
  by (simp add: border_pixels_def halves_double)

lemma render_pair_eq:
  "render_pair evs base ls xp (s, b) =
     (consume_until evs (base + xp + 1) s, blit (ls + 2 * xp) (border_pixels (snd (consume_until evs (base + xp + 1) s))) b)"
proof (cases "fst s < length evs \<and> ev_tstates (evs ! fst s) \<le> base + xp")
  case True
  then show ?thesis by (simp add: render_pair_def Let_def)
next
  case False
  then have "consume_until evs (base + xp + 1) s = s"
    by (subst consume_until.simps) (auto simp: case_prod_beta less_Suc_eq_le)
  then show ?thesis using False by (auto simp: render_pair_def Let_def)
qed

text \<open>Pairs a to b of a line, from a state before them.\<close>

lemma render_pairs:
  fixes evs :: "border_event list" and c :: u8
  assumes "a \<le> b" "st \<le> base + a + 1" "ls + 2 * b \<le> length buffer"
  defines "r \<equiv> fold (render_pair evs base ls) [a..<b] (beam_state evs c st, buffer)"
  shows "fst r = (if a < b then beam_state evs c (base + b) else beam_state evs c st) \<and> length (snd r) = length buffer
    \<and> (\<forall>k<length buffer. snd r ! k =
        (if ls + 2 * a \<le> k \<and> k < ls + 2 * b then spectrum_palette (snd (beam_state evs c (base + (k - ls) div 2 + 1))) False
         else buffer ! k))"
  using assms(1,3) unfolding r_def
proof (induction b rule: dec_induct)
  case base
  then show ?case by auto
next
  case (step n)
  let ?f = "fold (render_pair evs base ls) [a..<n] (beam_state evs c st, buffer)"
  have IH: "fst ?f = (if a < n then beam_state evs c (base + n) else beam_state evs c st)" "length (snd ?f) = length buffer"
    "\<And>k. k < length buffer \<Longrightarrow> snd ?f ! k = (if ls + 2 * a \<le> k \<and> k < ls + 2 * n
      then spectrum_palette (snd (beam_state evs c (base + (k - ls) div 2 + 1))) False else buffer ! k)"
    using step by simp_all
  have sc: "consume_until evs (base + n + 1) (fst ?f) = beam_state evs c (base + n + 1)"
    using IH(1) assms(2) step.hyps by (auto intro: consume_beam)
  have e: "fold (render_pair evs base ls) [a..<Suc n] (beam_state evs c st, buffer) = render_pair evs base ls n (fst ?f, snd ?f)"
    using step.hyps by simp
  have px: "blit (ls + 2 * n) (border_pixels col) (snd ?f) ! k =
      (if ls + 2 * n \<le> k \<and> k < ls + 2 * n + 2 then spectrum_palette col False else snd ?f ! k)"
    if "k < length buffer" for k col
    using that step.prems IH(2) by (subst nth_blit) (auto simp: border_pixels_eq less_Suc_eq nth_Cons split: nat.split)
  have "(k - ls) div 2 = n" if "ls + 2 * n \<le> k" "k < ls + 2 * n + 2" for k using that by arith
  then show ?case
    unfolding e render_pair_eq sc using step.hyps step.prems IH px by (auto simp: border_pixels_eq)
qed

section \<open>Lines of a 320 by 240 display\<close>

text \<open>The time of the first pixel of a line, and the pixels of a line the border renderer draws.\<close>

definition line_time :: "nat \<Rightarrow> nat" where "line_time y = (40 + y) * 224"

definition in_border :: "nat \<Rightarrow> nat \<Rightarrow> bool" where
  "in_border x y \<longleftrightarrow> \<not> (24 \<le> y \<and> y < 216 \<and> 32 \<le> x \<and> x < 288)"

lemma pixel_off_line: "k div 320 = y \<Longrightarrow> k - y * 320 = k mod (320 :: nat)"
  by (metis minus_div_mult_eq_mod)

lemma pixel_in_line:
  fixes k y :: nat
  assumes "a \<le> b" "b \<le> 160"
  shows "(y * 320 + 2 * a \<le> k \<and> k < y * 320 + 2 * b) \<longleftrightarrow> k div 320 = y \<and> 2 * a \<le> k mod 320 \<and> k mod 320 < 2 * b"
proof -
  have d: "k = (k div 320) * 320 + k mod 320" "k mod 320 < 320" by simp_all
  show "(y * 320 + 2 * a \<le> k \<and> k < y * 320 + 2 * b) \<longleftrightarrow> k div 320 = y \<and> 2 * a \<le> k mod 320 \<and> k mod 320 < 2 * b"
  proof
    assume k: "y * 320 + 2 * a \<le> k \<and> k < y * 320 + 2 * b"
    then have "k div 320 = y" using assms by (intro div_nat_eqI) auto
    then show "k div 320 = y \<and> 2 * a \<le> k mod 320 \<and> k mod 320 < 2 * b" using k d by auto
  next
    assume "k div 320 = y \<and> 2 * a \<le> k mod 320 \<and> k mod 320 < 2 * b"
    then show "y * 320 + 2 * a \<le> k \<and> k < y * 320 + 2 * b" using d by linarith
  qed
qed

lemma line_pairs:
  fixes evs :: "border_event list" and c :: u8
  assumes "a \<le> b" "b \<le> 160" "st \<le> line_time y + a + 1" "y < 240" "length buffer = 320 * 240"
  defines "r \<equiv> fold (render_pair evs (line_time y) (y * 320)) [a..<b] (beam_state evs c st, buffer)"
  shows "fst r = (if a < b then beam_state evs c (line_time y + b) else beam_state evs c st)" "length (snd r) = 320 * 240"
    and "k < 320 * 240 \<Longrightarrow> snd r ! k =
        (if k div 320 = y \<and> 2 * a \<le> k mod 320 \<and> k mod 320 < 2 * b
         then spectrum_palette (snd (beam_state evs c (line_time y + k mod 320 div 2 + 1))) False
         else buffer ! k)"
proof -
  have "y * 320 + 2 * b \<le> length buffer" using assms(2,4,5) by linarith
  note R = render_pairs [OF assms(1,3) this, where evs = evs and c = c]
  show "fst r = (if a < b then beam_state evs c (line_time y + b) else beam_state evs c st)" "length (snd r) = 320 * 240"
    using R assms(5) by (simp_all add: r_def)
  assume "k < 320 * 240"
  then have "snd r ! k = (if y * 320 + 2 * a \<le> k \<and> k < y * 320 + 2 * b
      then spectrum_palette (snd (beam_state evs c (line_time y + (k - y * 320) div 2 + 1))) False else buffer ! k)"
    using R assms(5) by (simp add: r_def)
  then show "snd r ! k =
        (if k div 320 = y \<and> 2 * a \<le> k mod 320 \<and> k mod 320 < 2 * b
         then spectrum_palette (snd (beam_state evs c (line_time y + k mod 320 div 2 + 1))) False
         else buffer ! k)"
    using pixel_in_line [OF assms(1,2), of y k] pixel_off_line [of k y] by simp
qed

lemma border_line_ok:
  fixes evs :: "border_event list" and c :: u8
  assumes "st \<le> line_time y" "y < 240" "length buffer = 320 * 240"
  defines "r \<equiv> border_line evs 320 32 24 256 192 y (beam_state evs c st, buffer)"
  shows "fst r = beam_state evs c (line_time y + 160)" "length (snd r) = 320 * 240"
    and "k < 320 * 240 \<Longrightarrow> snd r ! k =
        (if k div 320 = y \<and> in_border (k mod 320) y
         then spectrum_palette (snd (beam_state evs c (line_time y + k mod 320 div 2 + 1))) False
         else buffer ! k)"
proof -
  have base: "nat (if (if 64 + (int y - 24) < 0 then 0 else 64 + (int y - 24)) \<ge> 312 then 311
      else (if 64 + (int y - 24) < 0 then 0 else 64 + (int y - 24))) * 224 = line_time y"
    using assms(2) by (simp add: line_time_def nat_add_distrib)
  have act: "(24 \<le> int y \<and> int y < 24 + int 192) \<longleftrightarrow> 24 \<le> y \<and> y < 216" by auto
  have c0: "consume_until evs (line_time y) (beam_state evs c st) = beam_state evs c (line_time y)"
    using assms(1) by (rule consume_beam)
  have m: "k mod 320 < 320" for k :: nat by simp
  have "fst r = beam_state evs c (line_time y + 160) \<and> length (snd r) = 320 * 240
    \<and> (k < 320 * 240 \<longrightarrow> snd r ! k =
        (if k div 320 = y \<and> in_border (k mod 320) y
         then spectrum_palette (snd (beam_state evs c (line_time y + k mod 320 div 2 + 1))) False
         else buffer ! k))"
  proof (cases "24 \<le> y \<and> y < 216")
    case False
    have e: "r = fold (render_pair evs (line_time y) (y * 320)) [0..<160] (beam_state evs c (line_time y), buffer)"
      using False unfolding r_def border_line_def Let_def base act by (simp add: c0)
    note L = line_pairs [OF _ _ _ assms(2,3), where a = 0 and b = 160 and st = "line_time y" and evs = evs and c = c]
    show ?thesis using L False m [of k] unfolding e by (auto simp: in_border_def)
  next
    case True
    define r1 where "r1 = fold (render_pair evs (line_time y) (y * 320)) [0..<16] (beam_state evs c (line_time y), buffer)"
    note L = line_pairs [OF _ _ _ assms(2,3), where a = 0 and b = 16 and st = "line_time y" and evs = evs and c = c, folded r1_def, simplified]
    have c1: "consume_until evs (line_time y + 144) (fst r1) = beam_state evs c (line_time y + 144)"
      using L(1) by (simp add: consume_beam)
    have e: "r = fold (render_pair evs (line_time y) (y * 320)) [144..<160] (beam_state evs c (line_time y + 144), snd r1)"
      using True c1 unfolding r_def border_line_def Let_def base act by (simp add: c0 r1_def case_prod_beta)
    note R = line_pairs [OF _ _ _ assms(2), where a = 144 and b = 160 and st = "line_time y + 144" and buffer = "snd r1" and evs = evs and c = c]
    show ?thesis using R L True m [of k] unfolding e by (auto simp: in_border_def)
  qed
  then show "fst r = beam_state evs c (line_time y + 160)" "length (snd r) = 320 * 240"
    and "k < 320 * 240 \<Longrightarrow> snd r ! k =
        (if k div 320 = y \<and> in_border (k mod 320) y
         then spectrum_palette (snd (beam_state evs c (line_time y + k mod 320 div 2 + 1))) False
         else buffer ! k)" by simp_all
qed

lemma border_lines_ok:
  fixes evs :: "border_event list" and c :: u8
  assumes "n \<le> 240" "length buffer = 320 * 240"
  defines "r \<equiv> fold (border_line evs 320 32 24 256 192) [0..<n] (beam_state evs c 0, buffer)"
  shows "(\<exists>st \<le> line_time n. fst r = beam_state evs c st) \<and> length (snd r) = 320 * 240
    \<and> (\<forall>k<320 * 240. snd r ! k =
        (if k div 320 < n \<and> in_border (k mod 320) (k div 320)
         then spectrum_palette (snd (beam_state evs c (line_time (k div 320) + k mod 320 div 2 + 1))) False
         else buffer ! k))"
  using assms(1) unfolding r_def
proof (induction n)
  case 0
  then show ?case using assms(2) by auto
next
  case (Suc n)
  let ?r = "fold (border_line evs 320 32 24 256 192) [0..<n] (beam_state evs c 0, buffer)"
  obtain st where st: "st \<le> line_time n" "fst ?r = beam_state evs c st" using Suc by auto
  then have r: "?r = (beam_state evs c st, snd ?r)" by (simp add: prod_eq_iff)
  have len: "length (snd ?r) = 320 * 240" using Suc by simp
  have n: "n < 240" using Suc.prems by simp
  note L = border_line_ok [OF st(1) n len, where evs = evs and c = c]
  have e: "fold (border_line evs 320 32 24 256 192) [0..<Suc n] (beam_state evs c 0, buffer)
      = border_line evs 320 32 24 256 192 n (beam_state evs c st, snd ?r)"
    using r by simp
  have "line_time n + 160 \<le> line_time (Suc n)" by (simp add: line_time_def)
  moreover have "k < 320 * 240 \<Longrightarrow> snd ?r ! k =
        (if k div 320 < n \<and> in_border (k mod 320) (k div 320)
         then spectrum_palette (snd (beam_state evs c (line_time (k div 320) + k mod 320 div 2 + 1))) False
         else buffer ! k)" for k using Suc by simp
  ultimately show ?case unfolding e using L by (auto simp: less_Suc_eq)
qed

text \<open>The whole border.\<close>

lemma border_pixel:
  fixes c :: u8
  assumes "length buffer = 320 * 240" "length evs \<le> 1024" "sorted (map ev_tstates evs)" "x < 320" "y < 240"
  defines "b \<equiv> renderBorder evs c 320 240 32 24 256 192 buffer"
  shows "length b = 320 * 240"
    and "b ! (y * 320 + x) =
      (if in_border x y then spectrum_palette (colour_at evs (c AND 0x07) (line_time y + x div 2)) False
       else buffer ! (y * 320 + x))"
proof -
  have s0: "(0, c AND 0x07) = beam_state evs (c AND 0x07) 0" by (cases evs) (simp_all add: beam_state_def before_def)
  note L = border_lines_ok [OF order_refl assms(1), where evs = evs and c = "c AND 0x07"]
  have k: "y * 320 + x < 320 * 240" "(y * 320 + x) div 320 = y" "(y * 320 + x) mod 320 = x"
    using assms(4,5) by simp_all
  have e: "b = snd (fold (border_line evs 320 32 24 256 192) [0..<240] (beam_state evs (c AND 0x07) 0, buffer))"
    using assms(2) by (simp add: b_def renderBorder_def s0)
  show "length b = 320 * 240" unfolding e using L by simp
  have "snd (beam_state evs (c AND 0x07) (line_time y + x div 2 + 1)) = colour_at evs (c AND 0x07) (line_time y + x div 2)"
    by (rule beam_colour [OF assms(3)])
  then show "b ! (y * 320 + x) =
      (if in_border x y then spectrum_palette (colour_at evs (c AND 0x07) (line_time y + x div 2)) False
       else buffer ! (y * 320 + x))"
    using L k assms(5) unfolding e by simp
qed

end
