(* ===== verification/Machine_Screen.thy ===== *)
theory Machine_Screen
  imports Emulator_Inv Screen_Border
begin

text \<open>
  The picture the video task draws, from the memory of the machine and the border events of the frame.
\<close>

text \<open>Byte \<open>k\<close> of the displayed screen: of page 1 of the 48K machine, of bank 5 or 7 of the 128K machine.\<close>

definition screen_byte :: "mach \<Rightarrow> nat \<Rightarrow> u8" where
  "screen_byte m k =
     (case m of
        M48 s \<Rightarrow> RB bus48 s (of_nat (0x4000 + k))
      | M128 u \<Rightarrow> (case getBank u (if port7FFD (ctx u) AND 0x08 \<noteq> 0 then 7 else 5) of
                    Some p \<Rightarrow> heap u (ptr_add p k) | None \<Rightarrow> 0))"

definition frame_events :: "mach \<Rightarrow> border_event list" where
  "frame_events m = (case m of M48 s \<Rightarrow> render_events (ctx s) | M128 u \<Rightarrow> render_events (ctx u))"

definition frame_border :: "mach \<Rightarrow> u8" where
  "frame_border m = (case m of M48 s \<Rightarrow> render_initial (ctx s) | M128 u \<Rightarrow> render_initial (ctx u))"

text \<open>The pixel a machine shows at a place of the 320 by 240 display.\<close>

definition shown :: "mach \<Rightarrow> nat \<Rightarrow> nat \<Rightarrow> u16" where
  "shown m x y =
     (if in_border x y
      then spectrum_palette (colour_at (frame_events m) (frame_border m AND 0x07) (line_time y + x div 2)) False
      else let px = x - 32;
               py = y - 24;
               attr = screen_byte m (0x1800 + (py div 8) * 32 + px div 8);
               pixels = screen_byte m ((py div 64) * 2048 + (py mod 8) * 256 + (py div 8 mod 8) * 32 + px div 8)
           in if bit pixels (7 - px mod 8) then attr_ink attr else attr_paper attr)"

lemma frame_events_ok: "mach_inv m \<Longrightarrow> length (frame_events m) \<le> 1024 \<and> sorted (map ev_tstates (frame_events m))"
  by (elim mach_invE) (auto simp: frame_events_def full_inv_def core_ok_def MAX_BORDER_EVENTS_def)

lemma page_1:
  assumes "k < 0x4000"
  shows "page_of (of_nat (0x4000 + k)) = 1" "page_offset (of_nat (0x4000 + k)) = k"
proof -
  have "unat (of_nat (0x4000 + k) :: u16) = 0x4000 + k"
    using assms by (simp only: unsigned_of_nat) (simp add: take_bit_nat_eq_self)
  then show "page_of (of_nat (0x4000 + k)) = 1" "page_offset (of_nat (0x4000 + k)) = k"
    using assms by (simp_all add: page_of_div page_offset_mod)
qed

text \<open>The video page of a machine in order holds the displayed screen.\<close>

lemma video_bytes:
  assumes "mach_inv m"
  obtains video where "\<And>k. k < 0x4000 \<Longrightarrow> video k = screen_byte m k"
    "\<And>alloc bl. fst (mach_render alloc bl m) = renderToRGB565 alloc (Some video) (frame_events m) (frame_border m) LCD_WIDTH LCD_HEIGHT bl"
  using assms
proof (cases rule: mach_invE)
  case (1 s r p R)
  then have w: "wired (page48 r p) s" "video_page (ctx s) = Some p" by (simp_all add: full_inv_def wired48_def)
  show ?thesis
  proof (rule that [of "\<lambda>k. heap s (ptr_add p k)"])
    show "heap s (ptr_add p k) = screen_byte m k" if "k < 0x4000" for k
      using wired_page(1) [OF w(1), of "of_nat (0x4000 + k)"] page_1 [OF that] 1
      by (simp add: screen_byte_def RB_def page48_def ptr_add_def)
  qed (simp add: 1 w frame_events_def frame_border_def picture_page_def)
next
  case (2 u r b R)
  then have w: "\<forall>i<8. ram_banks (ctx u) i = Some (b i)"
    "video_page (ctx u) = Some (b (if port7FFD (ctx u) AND 0x08 \<noteq> 0 then 7 else 5))"
    by (simp_all add: full_inv_def wired128_def)
  show ?thesis
    by (rule that [of "\<lambda>k. heap u (ptr_add (b (if port7FFD (ctx u) AND 0x08 \<noteq> 0 then 7 else 5)) k)"])
      (auto simp: 2 w screen_byte_def getBank_def frame_events_def frame_border_def picture_page_def)
qed

text \<open>C6 (picture_correct): Rendering a machine in its invariant after a frame, with a table cache whose
entries are right and a buffer of 320 by 240 pixels, gives, at every pixel, the ink or paper of
the attribute byte for the active area (its FLASH bit ignored), and in the border the colour of
the last recorded border event before the beam reached the pixel, or the border the frame started
with; at most 1024 events of a frame are recorded.\<close>

theorem picture_correct:
  assumes "mach_inv m" "luts_ok l" "length buffer = 320 * 240" "x < 320" "y < 240"
  shows "fst (fst (mach_render alloc (buffer, l) m)) ! (y * 320 + x) = shown m x y"
proof -
  obtain video where v: "\<And>k. k < 0x4000 \<Longrightarrow> video k = screen_byte m k"
    "fst (mach_render alloc (buffer, l) m) =
       renderToRGB565 alloc (Some video) (frame_events m) (frame_border m) LCD_WIDTH LCD_HEIGHT (buffer, l)"
    using video_bytes [OF assms(1)] by metis
  define b where "b = renderBorder (frame_events m) (frame_border m) 320 240 32 24 256 192 buffer"
  have B: "length b = 320 * 240" "b ! (y * 320 + x) =
      (if in_border x y then spectrum_palette (colour_at (frame_events m) (frame_border m AND 0x07) (line_time y + x div 2)) False
       else buffer ! (y * 320 + x))"
    using border_pixel [OF assms(3), of "frame_events m" x y "frame_border m"] frame_events_ok [OF assms(1)] assms(4,5)
    by (simp_all add: b_def)
  have e: "fst (mach_render alloc (buffer, l) m) = renderActiveArea alloc (Some video) 320 32 24 192 (b, l)"
    by (simp add: v(2) renderToRGB565_def LCD_WIDTH_def LCD_HEIGHT_def b_def)
  have k: "y * 320 + x < length b" "(y * 320 + x) div 320 = y" "(y * 320 + x) mod 320 = x" using assms(4,5) B(1) by simp_all
  show ?thesis
  proof (cases "in_border x y")
    case True
    have "fst (renderActiveArea alloc (Some video) 320 32 24 192 (b, l)) ! (y * 320 + x) = b ! (y * 320 + x)"
      using True k B(1) by (intro active_area_outside [OF assms(2)]) (auto simp: in_border_def)
    then show ?thesis using True B by (simp add: e shown_def)
  next
    case False
    then have a: "24 \<le> y" "y - 24 < 192" "32 \<le> x" "x - 32 < 256" by (auto simp: in_border_def)
    have i: "(24 + (y - 24)) * 320 + 32 + (x - 32) = y * 320 + x" using a by simp
    have "(y - 24) div 64 < 3" "(y - 24) mod 8 < 8" "(y - 24) div 8 mod 8 < 8" "(x - 32) div 8 < 32" "(y - 24) div 8 < 24"
      using a by (simp_all add: less_mult_imp_div_less)
    then have lt: "0x1800 + (y - 24) div 8 * 32 + (x - 32) div 8 < 0x4000"
      "(y - 24) div 64 * 2048 + (y - 24) mod 8 * 256 + (y - 24) div 8 mod 8 * 32 + (x - 32) div 8 < 0x4000"
      by linarith+
    have "fst (renderActiveArea alloc (Some video) 320 32 24 192 (b, l)) ! ((24 + (y - 24)) * 320 + 32 + (x - 32)) = shown m x y"
      using False a B(1) v(1) [OF lt(1)] v(1) [OF lt(2)]
      by (subst active_area_pixel [OF assms(2)]) (simp_all add: shown_def Let_def)
    then show ?thesis unfolding i e .
  qed
qed

theorem picture_correct_witness:
  "fst (fst (mach_render (\<lambda>_. True) (replicate (320 * 240) 0, \<lambda>_. None) (M48 sample48))) ! (100 * 320 + 3)
     = shown (M48 sample48) 3 100"
  using picture_correct [OF mach_invI(1) [OF sample_ok(2)] luts_ok_empty, of "replicate (320 * 240) 0" 3 100] by simp

end
