(* ===== verification/Machine_Memory.thy ===== *)
theory Machine_Memory
  imports Machine_Props
begin

text \<open>
  The memory of the 128K machine as a programmer sees it: two ROMs, eight RAM banks and the paging
  register, with no pointers and no page tables.  The machine refines it, and the CPU's memory is flat
  (different addresses, different bytes) unless a bank is paged in twice.
\<close>

section \<open>The abstract memory\<close>

record mem128 =
  m_rom :: "nat \<Rightarrow> u8"
  m_banks :: "nat \<Rightarrow> nat \<Rightarrow> u8"
  m_port :: u8
  m_lock :: bool

definition bank_at :: "mem128 \<Rightarrow> u16 \<Rightarrow> nat" where
  "bank_at m a = (if a < 0x8000 then 5 else if a < 0xC000 then 2 else unat (m_port m AND 0x07))"

definition read_mem :: "mem128 \<Rightarrow> u16 \<Rightarrow> u8" where
  "read_mem m a =
     (if a < 0x4000 then m_rom m ((if m_port m AND 0x10 \<noteq> 0 then 0x4000 else 0) + unat a mod 0x4000)
      else m_banks m (bank_at m a) (unat a mod 0x4000))"

definition write_mem :: "mem128 \<Rightarrow> u16 \<Rightarrow> u8 \<Rightarrow> mem128" where
  "write_mem m a v =
     (if a < 0x4000 then m
      else m\<lparr>m_banks := (m_banks m)(bank_at m a := (m_banks m (bank_at m a))(unat a mod 0x4000 := v))\<rparr>)"

definition out_mem :: "mem128 \<Rightarrow> u16 \<Rightarrow> u8 \<Rightarrow> mem128" where
  "out_mem m port v =
     (if port AND 0x8002 = 0 \<and> \<not> m_lock m then m\<lparr>m_port := v AND 0x3F, m_lock := bit v 5\<rparr> else m)"

definition abs_mem :: "ptr \<Rightarrow> (nat \<Rightarrow> ptr) \<Rightarrow> machine128 \<Rightarrow> mem128" where
  "abs_mem r b s =
     \<lparr>m_rom = (\<lambda>k. if k < 0x8000 then heap s (ptr_add r k) else 0),
      m_banks = (\<lambda>i k. if i < 8 \<and> k < 0x4000 then heap s (ptr_add (b i) k) else 0),
      m_port = port7FFD (ctx s), m_lock = paging_locked (ctx s)\<rparr>"

lemma page_ranges:
  "page_of a = 0 \<longleftrightarrow> a < 0x4000" "page_of a = 1 \<longleftrightarrow> 0x4000 \<le> a \<and> a < 0x8000"
  "page_of a = 2 \<longleftrightarrow> 0x8000 \<le> a \<and> a < 0xC000" "page_of a = 3 \<longleftrightarrow> 0xC000 \<le> a"
  using unat16_bound [of a] by (auto simp: page_of_div word_less_nat_alt word_le_nat_alt)

lemma page_cases:
  obtains "page_of a = 0" "a < 0x4000" | "page_of a = 1" "\<not> a < 0x4000" "a < 0x8000"
  | "page_of a = 2" "\<not> a < 0x4000" "\<not> a < 0x8000" "a < 0xC000"
  | "page_of a = 3" "\<not> a < 0x4000" "\<not> a < 0x8000" "\<not> a < 0xC000"
proof -
  have "page_of a < 4" by simp
  then have "page_of a = 0 \<or> page_of a = 1 \<or> page_of a = 2 \<or> page_of a = 3" by arith
  then show ?thesis using that page_ranges [of a] by (auto simp: word_less_nat_alt word_le_nat_alt)
qed

lemma bank_of_page:
  assumes "page_of a \<noteq> 0" "m_port m = port"
  shows "page128 r b port (page_of a) = b (bank_at m a)"
  by (rule page_cases [of a]) (use assms in \<open>simp_all add: page128_def bank_at_def top_bank_def\<close>)

lemma bank_at_less: "bank_at m a < 8"
  using top_bank_less [of "m_port m"] by (simp add: bank_at_def top_bank_def)

lemma abs_fields [simp]:
  "m_rom (abs_mem r b s) k = (if k < 0x8000 then heap s (ptr_add r k) else 0)"
  "m_banks (abs_mem r b s) i k = (if i < 8 \<and> k < 0x4000 then heap s (ptr_add (b i) k) else 0)"
  "m_port (abs_mem r b s) = port7FFD (ctx s)" "m_lock (abs_mem r b s) = paging_locked (ctx s)"
  by (simp_all add: abs_mem_def)

lemma mem128_eqI:
  assumes "\<And>k. m_rom m k = m_rom m' k" "\<And>i k. m_banks m i k = m_banks m' i k" "m_port m = m_port m'" "m_lock m = m_lock m'"
  shows "m = (m' :: mem128)"
  by (rule mem128.equality) (use assms in \<open>auto intro!: ext\<close>)

lemma abs_read:
  assumes "wired128 r b R s"
  shows "RB bus128 s a = read_mem (abs_mem r b s) a"
proof -
  note w = wired128_parts [OF assms]
  have rd: "RB bus128 s a = heap s (ptr_add (page128 r b (port7FFD (ctx s)) (page_of a)) (page_offset a))"
    by (simp add: RB_def wired_page [OF w(8)])
  show ?thesis
  proof (cases "page_of a = 0")
    case True
    have "unat a mod 0x4000 < 0x4000" by simp
    then have "0x4000 + unat a mod 0x4000 < 0x8000" "unat a mod 0x4000 < 0x8000" by linarith+
    then show ?thesis
      using True page_ranges(1) [of a]
      by (simp add: rd read_mem_def page128_def ptr_add_def page_offset_mod add.assoc rom_offset_def)
  next
    case False
    then show ?thesis
      using page_ranges(1) [of a] bank_of_page [OF False, of "abs_mem r b s" "port7FFD (ctx s)" r b]
      by (simp add: rd read_mem_def bank_at_less page_offset_mod)
  qed
qed

lemma heap_bank_upd:
  assumes "banks_apart r b" "i < 8" "j < 8" "k < 0x4000"
  shows "((heap s)(ptr_add (b i) n := v)) (ptr_add (b j) k) = (if j = i \<and> k = n then v else heap s (ptr_add (b j) k))"
proof (cases "j = i")
  case False
  then have "fst (b j) \<noteq> fst (b i)" using assms by (simp add: banks_apart_def)
  then show ?thesis using False by (simp add: ptr_add_def)
qed simp

lemma abs_write:
  assumes "wired128 r b R s"
  shows "abs_mem r b (WB bus128 s a v) = write_mem (abs_mem r b s) a v"
proof -
  note w = wired128_parts [OF assms]
  let ?m = "abs_mem r b s"
  have wr: "WB bus128 s a v = spec_write s a v" by (rule w128.WB_spec_write [OF assms])
  show ?thesis
  proof (cases "page_of a = 0")
    case True
    then show ?thesis using page_ranges(1) [of a] by (simp add: wr wired_write [OF w(8)] write_mem_def)
  next
    case False
    let ?i = "bank_at ?m a"
    have p: "page128 r b (port7FFD (ctx s)) (page_of a) = b ?i"
      using bank_of_page [OF False, of ?m "port7FFD (ctx s)"] by (simp add: abs_mem_def)
    have i: "?i < 8" by (rule bank_at_less)
    have s: "WB bus128 s a v = s\<lparr>heap := (heap s)(ptr_add (b ?i) (page_offset a) := v)\<rparr>"
      using False by (simp add: wr wired_write [OF w(8)] p)
    show ?thesis
    proof (rule mem128_eqI)
      show "m_rom (abs_mem r b (WB bus128 s a v)) k = m_rom (write_mem ?m a v) k" for k
        using bank_not_rom [OF w(4) i] by (simp add: s write_mem_def ptr_add_def)
      show "m_banks (abs_mem r b (WB bus128 s a v)) j k = m_banks (write_mem ?m a v) j k" for j k
        using False page_ranges(1) [of a] heap_bank_upd [OF w(4) i, of j k s "page_offset a" v] i page_offset_less [of a]
        by (auto simp: s write_mem_def page_offset_mod [symmetric])
    qed (simp_all add: s write_mem_def)
  qed
qed

text \<open>Port accesses.\<close>

lemma page_switch_heap: "heap (flushTape ra s) = heap s" "heap (writePortFE s v) = heap s"
  using flushTape_form [of ra s] by (auto simp: writePortFE_def)

lemma abs_out:
  "abs_mem r b (OUT bus128 s port v) = out_mem (abs_mem r b s) port v"
proof -
  note fe = more128(2) [OF writePortFE_more [of s v]] more128_lock [OF writePortFE_more [of s v]]
  have lk: "bit v 5 \<longleftrightarrow> (v AND 0x3F) AND 0x20 \<noteq> (0 :: u8)"
  proof -
    have "(v AND 0x3F) AND 0x20 = v AND (2 ^ 5 :: u8)" by (simp add: and.assoc)
    then show ?thesis by (simp only: and_exp_eq_0_iff_not_bit not_not simp_thms)
  qed
  have r: "ay_render n c = c\<lparr>ay_chip := fst (psg_renderTo (ay_chip c) (ay_buffer c) n AY_CLOCK AY_RATE),
      ay_buffer := snd (psg_renderTo (ay_chip c) (ay_buffer c) n AY_CLOCK AY_RATE)\<rparr>" for n c
    by (simp add: ay_render_def case_prod_beta)
  show ?thesis
    by (rule mem128_eqI)
      (simp_all add: OUT_def bus128_def writePort128_def out_mem_def page_switch_heap fe lk Let_def r)
qed

lemma abs_in:
  "abs_mem r b (snd (IN bus128 s port)) = abs_mem r b s"
proof -
  note fe = more128(2) [OF readPortFE_more [of rom_active128 s port]] more128_lock [OF readPortFE_more [of rom_active128 s port]]
  have "heap (snd (readPortFE rom_active128 s port)) = heap s" by (simp add: readPortFE_def Let_def page_switch_heap)
  then show ?thesis
    by (intro mem128_eqI) (simp_all add: IN_def bus128_def readPort128_def fe)
qed

section \<open>Runs of memory and port accesses\<close>

text \<open>
  A program sees the memory through the bytes it reads, so the refinement is about runs: the bytes that
  a sequence of accesses reads from the machine, through the page tables its port writes have set, are
  the bytes the same sequence reads from the abstract memory.
\<close>

datatype access = Read u16 | Store u16 u8 | Out u16 u8 | Inp u16

fun run128 :: "access list \<Rightarrow> machine128 \<Rightarrow> u8 list \<times> machine128" where
  "run128 [] s = ([], s)"
| "run128 (Read a # xs) s = apfst ((#) (RB bus128 s a)) (run128 xs s)"
| "run128 (Store a v # xs) s = run128 xs (WB bus128 s a v)"
| "run128 (Out p v # xs) s = run128 xs (OUT bus128 s p v)"
| "run128 (Inp p # xs) s = run128 xs (snd (IN bus128 s p))"

fun run_mem :: "access list \<Rightarrow> mem128 \<Rightarrow> u8 list \<times> mem128" where
  "run_mem [] m = ([], m)"
| "run_mem (Read a # xs) m = apfst ((#) (read_mem m a)) (run_mem xs m)"
| "run_mem (Store a v # xs) m = run_mem xs (write_mem m a v)"
| "run_mem (Out p v # xs) m = run_mem xs (out_mem m p v)"
| "run_mem (Inp p # xs) m = run_mem xs m"

text \<open>
  The page at \<open>0x8000\<close> is bank 2 whatever the port: a byte stored there with bit 3 set replaces the one stored
  with bit 3 clear.
\<close>

lemma middle_bank_fixed:
  assumes "\<not> m_lock m"
  shows "fst (run_mem [Out 0x7FFD 0, Store 0x8000 0x99, Out 0x7FFD 8, Store 0x8000 0xAA, Out 0x7FFD 0, Read 0x8000] m) = [0xAA]"
  using assms by (simp add: out_mem_def write_mem_def read_mem_def bank_at_def)

lemma full_inv_iff_machine:
  "full_inv W s \<longleftrightarrow> machine_inv W (ula_clocks (ctx s)) (ula_cycle (ctx s)) (ula_scanline (ctx s)) s
     \<and> beam_ok (ctx s)"
  by (auto simp: full_inv_def machine_inv_def)

lemma full_inv_access:
  assumes "full_inv (wired128 r b R) s"
  shows "full_inv (wired128 r b R) (WB bus128 s a v)" "full_inv (wired128 r b R) (OUT bus128 s p v)"
    "full_inv (wired128 r b R) (snd (IN bus128 s p))"
proof -
  let ?inv = "machine_inv (wired128 r b R) (ula_clocks (ctx s)) (ula_cycle (ctx s)) (ula_scanline (ctx s))"
  have i: "?inv s" "beam_ok (ctx s)" using assms by (simp_all add: full_inv_iff_machine)
  have k: "ula_clocks (ctx s) < FRAME_T_STATES" using assms by (simp add: full_inv_def core_ok_def)
  have f: "full_inv (wired128 r b R) u" if "?inv u" for u
    using that i(2) by (auto simp: full_inv_def machine_inv_def beam_ok_def)
  show "full_inv (wired128 r b R) (WB bus128 s a v)" by (rule f [OF w128.inv_WB [OF i(1)]])
  show "full_inv (wired128 r b R) (OUT bus128 s p v)" unfolding OUT_def by (rule f [OF m128.inv_OUT [OF i(1) k]])
  show "full_inv (wired128 r b R) (snd (IN bus128 s p))" unfolding IN_def by (rule f [OF m128.inv_IN [OF i(1) k]])
qed

section \<open>Properties\<close>

text \<open>C3 (memory128_refines): The 128K machine refines a paged memory without pointers: for any sequence
of CPU reads and writes, port writes and port reads, on a machine in its invariant, the bytes read
are those of two ROMs, eight banks, the paging register and its lock under the abstract
operations, the state at the end is the abstract one, and getCurrentBank names the bank in use.\<close>

theorem memory128_refines:
  assumes "full_inv (wired128 r b R) s"
  shows "case run128 xs s of (bytes, s') \<Rightarrow>
    run_mem xs (abs_mem r b s) = (bytes, abs_mem r b s')
    \<and> (\<forall>a. RB bus128 s' a = read_mem (abs_mem r b s') a)
    \<and> (\<forall>a\<ge>0x4000. getCurrentBank s' a = of_nat (bank_at (abs_mem r b s') a))"
  using assms
proof (induction xs arbitrary: s)
  case Nil
  then have "wired128 r b R s" by (simp add: full_inv_def)
  moreover have "getCurrentBank s a = of_nat (bank_at (abs_mem r b s) a)" if "a \<ge> 0x4000" for a
  proof -
    have "\<not> a < 0x4000" using that by simp
    then show ?thesis by (simp add: getCurrentBank_def bank_at_def)
  qed
  ultimately show ?case using abs_read by simp
next
  case (Cons x xs)
  have w: "wired128 r b R s" using Cons.prems by (simp add: full_inv_def)
  note keep = Cons.IH [OF full_inv_access(1) [OF Cons.prems]] Cons.IH [OF full_inv_access(2) [OF Cons.prems]]
    Cons.IH [OF full_inv_access(3) [OF Cons.prems]] Cons.IH [OF Cons.prems]
  show ?case
    by (cases x) (use keep in \<open>simp_all add: abs_read [OF w] abs_write [OF w] abs_out abs_in case_prod_beta apfst_def map_prod_def\<close>)
qed

text \<open>A byte is stored in bank 1 and another in bank 3, both at \<open>0xC000\<close>, and the first is read back.\<close>

theorem memory128_refines_witness:
  "fst (run128 [Out 0x7FFD 1, Store 0xC000 7, Out 0x7FFD 3, Store 0xC000 9, Out 0x7FFD 1, Read 0xC000] sample128) = [7]"
proof -
  let ?xs = "[Out 0x7FFD 1, Store 0xC000 7, Out 0x7FFD 3, Store 0xC000 9, Out 0x7FFD 1, Read 0xC000]"
    and ?m = "abs_mem (0, 0) (\<lambda>i. (i + 1, 0)) sample128"
  have "paging_locked (ctx sample128) = False"
    by (simp add: sample128_def spectrum128_new_def Let_def fill_opt_def z80_init_def z80_zero_def spectrum.defs spectrum128.defs
        base_new_def)
  then have l: "\<not> m_lock ?m" by simp
  have "fst (run_mem ?xs ?m) = [7]"
    using l by (simp add: out_mem_def write_mem_def read_mem_def bank_at_def bit_iff_odd)
  then show ?thesis
    using memory128_refines [of "(0, 0)" "\<lambda>i. (i + 1, 0)" "\<lambda>_. 0xFF" sample128 ?xs] sample_ok(1)
    by (simp only: case_prod_beta fst_conv)
qed

text \<open>The bank at \<open>0xC000\<close> may be one that is paged in below already.\<close>

theorem memory128_flat_iff:
  assumes "wired128 r b R s"
  shows "flat_mapped bus128 s \<longleftrightarrow> port7FFD (ctx s) AND 0x07 \<noteq> 2 \<and> port7FFD (ctx s) AND 0x07 \<noteq> 5"
proof -
  note w = wired128_parts [OF assms]
  let ?t = "top_bank (port7FFD (ctx s))" and ?page = "page128 r b (port7FFD (ctx s))"
  have t: "?t = 2 \<longleftrightarrow> port7FFD (ctx s) AND 0x07 = 2" "?t = 5 \<longleftrightarrow> port7FFD (ctx s) AND 0x07 = 5"
    by (simp_all add: top_bank_def word_unat_eq_iff)
  have pages: "page_read s 1 = Some (b 5)" "page_read s 2 = Some (b 2)" "page_read s 3 = Some (b ?t)"
    using w(8) by (simp_all add: wired_def page128_def)
  have "pages_disjoint s" if n: "?t \<noteq> 2" "?t \<noteq> 5"
  proof (rule wired_disjoint [OF w(8)])
    fix i j :: nat
    assume ij: "i < 4" "j < 4" "i \<noteq> j"
    have d: "fst (b 5) \<noteq> fst (b 2)" "fst (b ?t) \<noteq> fst (b 2)" "fst (b ?t) \<noteq> fst (b 5)"
      using w(4) n top_bank_less [of "port7FFD (ctx s)"] by (simp_all add: banks_apart_def)
    note r = bank_not_rom [OF w(4), of 5] bank_not_rom [OF w(4), of 2] bank_not_rom [OF w(4) top_bank_less [of "port7FFD (ctx s)"]]
    have i: "i = 0 \<or> i = 1 \<or> i = 2 \<or> i = 3" and j: "j = 0 \<or> j = 1 \<or> j = 2 \<or> j = 3" using ij by arith+
    have "fst (?page i) \<noteq> fst (?page j)"
      using i j ij(3) d r by (elim disjE) (auto simp: page128_def ptr_add_def)
    then show "fst (?page i) \<noteq> fst (?page j) \<or> snd (?page i) + 0x4000 \<le> snd (?page j) \<or> snd (?page j) + 0x4000 \<le> snd (?page i)"
      by blast
  qed
  moreover have "\<not> pages_disjoint s" if "?t = 2 \<or> ?t = 5"
  proof -
    have "\<exists>i<4. \<exists>j<4. \<exists>p. i \<noteq> j \<and> page_read s i = Some p \<and> page_read s j = Some p"
      using that pages by (elim disjE) (rule exI [of _ 2] exI [of _ 1], simp, rule exI [of _ 3], simp)+
    then obtain i j p where "i < 4" "j < 4" "i \<noteq> j" "page_read s i = Some p" "page_read s j = Some p" by blast
    then show ?thesis unfolding pages_disjoint_def by (metis zero_less_numeral)
  qed
  ultimately show ?thesis
    using w128.W_mapped [OF assms] t by (auto simp: flat_mapped_def)
qed

theorem memory128_flat_iff_witness: "flat_mapped bus128 sample128"
proof -
  have "port7FFD (ctx sample128) = 0"
    by (simp add: sample128_def spectrum128_new_def Let_def fill_opt_def z80_init_def z80_zero_def spectrum.defs spectrum128.defs
        base_new_def)
  then show ?thesis
    using memory128_flat_iff [of "(0, 0)" "\<lambda>i. (i + 1, 0)" "\<lambda>_. 0xFF" sample128] sample_ok(1) by (simp add: full_inv_def)
qed

end
