(* ===== verification/Snapshot_Format.thy ===== *)
theory Snapshot_Format
  imports Machine_Memory
begin

text \<open>
  The \<open>.z80\<close> format as a writer sees it, and that the loader inverts the writer: a version 1 file of
  a 48K machine and a version 3 file of a 128K machine, loaded into any machine of the same kind in
  any state, give back the registers and the memory that were saved.  The writer is a reference
  of this development; the program only reads snapshots.
\<close>

section \<open>The writer\<close>

definition u16_bytes :: "u16 \<Rightarrow> u8 list" where
  "u16_bytes v = [lo8 v, hi8 v]"

definition flags12 :: "u8 \<Rightarrow> u8 \<Rightarrow> u8" where
  "flags12 r border = (if bit r 7 then 1 else 0) OR push_bit 1 border OR 0x20"

definition cpu_block :: "u16 \<Rightarrow> 'm machine \<Rightarrow> u8 list" where
  "cpu_block pc s =
     [reg_a s, reg_f s, reg_c s, reg_b s, reg_l s, reg_h s] @ u16_bytes pc @ u16_bytes (reg_sp s)
     @ [reg_i s, reg_r s AND 0x7F, flags12 (reg_r s) (border_color (ctx s)), reg_e s, reg_d s,
        alt_c s, alt_b s, alt_e s, alt_d s, alt_l s, alt_h s, alt_a s, alt_f s]
     @ u16_bytes (reg_iy s) @ u16_bytes (reg_ix s) @ [iff1 s, iff2 s, imode s]"

text \<open>What a snapshot can hold of a CPU: its flip-flops are 0 or 1, its mode and the border fit their bits.\<close>

definition savable :: "'m machine \<Rightarrow> bool" where
  "savable s \<longleftrightarrow> iff1 s < 2 \<and> iff2 s < 2 \<and> imode s < 4 \<and> border_color (ctx s) < 8"

definition registers where
  "registers s = ((reg_a s, reg_f s, reg_b s, reg_c s, reg_d s, reg_e s, reg_h s, reg_l s),
     (alt_a s, alt_f s, alt_b s, alt_c s, alt_d s, alt_e s, alt_h s, alt_l s),
     (reg_ix s, reg_iy s, reg_sp s, reg_pc s), (reg_i s, reg_r s, iff1 s, iff2 s, imode s))"

definition ram_image :: "(u16 \<Rightarrow> u8) \<Rightarrow> u8 list" where
  "ram_image rd = map (\<lambda>k. rd (of_nat (0x4000 + k))) [0..<49152]"

definition save_v1 :: "machine48 \<Rightarrow> u8 list" where
  "save_v1 s = cpu_block (reg_pc s) s @ stream (encode (ram_image (RB bus48 s))) @ [0x00, 0xED, 0xED, 0x00]"

section \<open>The registers\<close>

lemma length_cpu_block [simp]: "length (cpu_block pc s) = 30"
  by (simp add: cpu_block_def u16_bytes_def)

lemma cpu_block_file16 [simp]:
  "file16 (cpu_block pc s @ xs) 6 = pc" "file16 (cpu_block pc s) 6 = pc"
  "file16 (cpu_block pc s) 8 = reg_sp s" "file16 (cpu_block pc s) 23 = reg_iy s"
  "file16 (cpu_block pc s) 25 = reg_ix s"
  by (simp_all add: file16_def cpu_block_def u16_bytes_def numeral_eq_Suc)

lemma cpu_block_nth:
  "cpu_block pc s ! 0 = reg_a s" "cpu_block pc s ! 1 = reg_f s" "cpu_block pc s ! 2 = reg_c s"
  "cpu_block pc s ! 3 = reg_b s" "cpu_block pc s ! 4 = reg_l s" "cpu_block pc s ! 5 = reg_h s"
  "cpu_block pc s ! 10 = reg_i s" "cpu_block pc s ! 11 = reg_r s AND 0x7F"
  "cpu_block pc s ! 12 = flags12 (reg_r s) (border_color (ctx s))" "cpu_block pc s ! 13 = reg_e s"
  "cpu_block pc s ! 14 = reg_d s" "cpu_block pc s ! 15 = alt_c s" "cpu_block pc s ! 16 = alt_b s"
  "cpu_block pc s ! 17 = alt_e s" "cpu_block pc s ! 18 = alt_d s" "cpu_block pc s ! 19 = alt_l s"
  "cpu_block pc s ! 20 = alt_h s" "cpu_block pc s ! 21 = alt_a s" "cpu_block pc s ! 22 = alt_f s"
  "cpu_block pc s ! 27 = iff1 s" "cpu_block pc s ! 28 = iff2 s" "cpu_block pc s ! 29 = imode s"
  by (simp_all add: cpu_block_def u16_bytes_def numeral_eq_Suc)

lemma less_8_cases:
  assumes "v < (8 :: u8)"
  shows "v = 0 \<or> v = 1 \<or> v = 2 \<or> v = 3 \<or> v = 4 \<or> v = 5 \<or> v = 6 \<or> v = 7"
proof -
  have "unat v < 8" using assms by (simp add: word_less_nat_alt)
  then have "unat v = 0 \<or> unat v = 1 \<or> unat v = 2 \<or> unat v = 3 \<or> unat v = 4 \<or> unat v = 5 \<or> unat v = 6 \<or> unat v = 7" by arith
  then show ?thesis by (auto simp: word_unat_eq_iff)
qed

lemma flags12_parts:
  assumes "border < 8"
  shows "drop_bit 1 (flags12 r border) AND 0x07 = border" "flags12 r border AND 0x01 \<noteq> 0 \<longleftrightarrow> bit r 7"
    "flags12 r border AND 0x20 \<noteq> 0"
  using less_8_cases [OF assms] by (cases "bit r 7"; elim disjE; simp add: flags12_def)+

lemma bit7_set: "bit r 7 \<Longrightarrow> (r AND 0x7F) OR 0x80 = (r :: u8)"
  and bit7_clear: "\<not> bit r 7 \<Longrightarrow> r AND 0x7F = (r :: u8)"
proof -
  have m: "(0x7F :: u8) = mask 7" by (simp add: mask_eq_exp_minus_1)
  have e: "bit (0x80 :: u8) n \<longleftrightarrow> n = 7" for n using bit_exp_iff [of 7 n, where 'a = "8 word"] by auto
  have n: "n < 7 \<or> n = 7" if "n < LENGTH(8)" for n using that by auto
  show "(r AND 0x7F) OR 0x80 = r" if b: "bit r 7"
  proof (rule bit_word_eqI)
    fix k assume "k < LENGTH(8)"
    from n [OF this] b e [of k] show "bit ((r AND 0x7F) OR 0x80) k = bit r k"
      unfolding m by (elim disjE) (simp_all add: bit_or_iff bit_and_iff bit_mask_iff)
  qed
  show "r AND 0x7F = r" if b: "\<not> bit r 7"
  proof (rule bit_word_eqI)
    fix k assume "k < LENGTH(8)"
    from n [OF this] b show "bit (r AND 0x7F) k = bit r k"
      unfolding m by (elim disjE) (simp_all add: bit_and_iff bit_mask_iff)
  qed
qed

lemma r_parts: "(r AND 0x7F) OR (if bit r 7 then 0x80 else 0x00) = (r :: u8)"
  by (simp add: bit7_set bit7_clear)

lemma small_parts:
  "v < 2 \<Longrightarrow> (if v \<noteq> 0 then 1 else 0) = (v :: u8)" "w < 4 \<Longrightarrow> w AND 0x03 = (w :: u8)"
proof -
  have "v = 0 \<or> v = 1" if "v < 2" using that less_8_cases [of v] by (auto simp: word_less_nat_alt)
  then show "v < 2 \<Longrightarrow> (if v \<noteq> 0 then 1 else 0) = v" by auto
  have "w = 0 \<or> w = 1 \<or> w = 2 \<or> w = 3" if "w < 4" using that less_8_cases [of w] by (auto simp: word_less_nat_alt)
  then show "w < 4 \<Longrightarrow> w AND 0x03 = w" by auto
qed

lemma restore_block:
  assumes "savable s" "hdr h = cpu_block pc s" "have_header h"
    "(if pc = 0 \<and> extra_len h \<ge> 2 then ext_pc h else if pc = 0 \<and> length f \<ge> 34 then file16 f 32 else pc) = reg_pc s"
  shows "registers (restoreCPUFromSnapshot t h f) = registers s
    \<and> border_color (ctx (restoreCPUFromSnapshot t h f)) = border_color (ctx s)
    \<and> heap (restoreCPUFromSnapshot t h f) = heap t
    \<and> spectrum.more (ctx (restoreCPUFromSnapshot t h f)) = spectrum.more (ctx t)
    \<and> halted (restoreCPUFromSnapshot t h f) = (if spec_read t (reg_pc s) = 0x76 then 1 else halted t)"
proof -
  let ?g = "\<lambda>c. c\<lparr>border_color := border_color (ctx s), initial_border := border_color (ctx s),
    render_initial := border_color (ctx s), border_events := [], render_events := []\<rparr>"
  let ?u = "restore_regs (cpu_block pc s) (reg_pc s) (upd_ctx ?g t)"
  have b: "border_color (ctx s) < 8" using assms(1) by (simp add: savable_def)
  have e: "restoreCPUFromSnapshot t h f = (if spec_read ?u (reg_pc s) = 0x76 then ?u\<lparr>halted := 1\<rparr> else ?u)"
    unfolding restoreCPUFromSnapshot_def assms(2) Let_def cpu_block_file16 assms(4) cpu_block_nth flags12_parts(1) [OF b]
    using assms(3) by simp
  have rd: "spec_read ?u (reg_pc s) = spec_read t (reg_pc s)"
    by (simp add: spec_read_def restore_regs_def split: option.split)
  have regs: "registers ?u = registers s"
    using assms(1) unfolding restore_regs_def cpu_block_nth cpu_block_file16
    by (simp add: registers_def savable_def flags12_parts r_parts small_parts)
  have "border_color (ctx ?u) = border_color (ctx s)" "heap ?u = heap t" "halted ?u = halted t"
    "spectrum.more (ctx ?u) = spectrum.more (ctx t)"
    by (simp_all add: restore_regs_def)
  then show ?thesis using regs by (simp add: e rd registers_def)
qed

section \<open>Version 1\<close>

lemma length_ram_image [simp]: "length (ram_image rd) = 49152"
  by (simp add: ram_image_def)

lemma ram_image_nth:
  assumes "0x4000 \<le> a"
  shows "ram_image rd ! (unat a - 0x4000) = rd a"
proof -
  have "0x4000 \<le> unat a" "unat a < 65536" using assms unat16_bound [of a] by (simp_all add: word_le_nat_alt)
  then have "unat a - 0x4000 < 49152" "0x4000 + (unat a - 0x4000) = unat a" by simp_all
  then show ?thesis by (simp add: ram_image_def)
qed

lemma v1_header:
  assumes "reg_pc s \<noteq> 0"
  shows "read_header (save_v1 s) = (\<lparr>hdr = cpu_block (reg_pc s) s, extra_len = 0, ext_pc = 0, have_header = True\<rparr>, reg_pc s)"
  using assms by (simp add: read_header_def Let_def save_v1_def)

lemma v1_data:
  assumes "savable s" "hdr h = cpu_block (reg_pc s) s"
  shows "load_v1 L (save_v1 s) h t = apply_data L t (ram_image (RB bus48 s))"
proof -
  have c: "hdr h ! 12 AND 0x20 \<noteq> 0"
    using assms flags12_parts(3) [of "border_color (ctx s)" "reg_r s"] by (simp add: cpu_block_nth savable_def)
  have "rle_loop (save_v1 s) 49152 30 [] = ram_image (RB bus48 s)"
    using rle_loop_tokens [OF wf_encode [of "ram_image (RB bus48 s)"], of "[]" 49152 "[0x00, 0xED, 0xED, 0x00]" "cpu_block (reg_pc s) s"]
    by (simp add: save_v1_def expand_encode)
  then show ?thesis using c by (simp add: load_v1_def decompressZ80RLE_def Let_def)
qed

text \<open>What loading leaves, once the image is in the machine u.\<close>

definition loaded_cpu :: "'n machine \<Rightarrow> 'm machine \<Rightarrow> 'm machine \<Rightarrow> bool" where
  "loaded_cpu s u t \<longleftrightarrow> registers t = registers s \<and> border_color (ctx t) = border_color (ctx s)
     \<and> halted t = (if spec_read u (reg_pc s) = 0x76 then 1 else halted u)
     \<and> heap t = heap u \<and> spectrum.more (ctx t) = spectrum.more (ctx u)"

lemma v1_load:
  assumes "savable s" "reg_pc s \<noteq> 0" "apply_data L t (save_v1 s) = (False, t)"
    "apply_data L t (ram_image (RB bus48 s)) = (True, u)"
  obtains t' where "snapshot_load L True tmp (Some (save_v1 s)) t = Some (True, t')" "loaded_cpu s u t'"
proof -
  let ?h = "\<lparr>hdr = cpu_block (reg_pc s) s, extra_len = 0, ext_pc = 0, have_header = True\<rparr>"
  let ?t = "restoreCPUFromSnapshot u ?h (save_v1 s)"
  have "snapshot_load L True tmp (Some (save_v1 s)) t = Some (True, ?t)"
    using assms v1_data [OF assms(1), of ?h L t] by (simp add: snapshot_load_def v1_header)
  moreover have "loaded_cpu s u ?t"
    using restore_block [OF assms(1), of ?h "reg_pc s" "save_v1 s" u] assms(2) by (simp add: loaded_cpu_def)
  ultimately show thesis using that by blast
qed

text \<open>The loaded machine's memory, from host memory.\<close>

lemma wired_RB: "wired page s \<Longrightarrow> RB B s a = heap s (ptr_add (page (page_of a)) (page_offset a))"
  by (simp add: RB_def wired_page)

lemma mem_store_in: "k < length bs \<Longrightarrow> mem_store h p bs (ptr_add p k) = bs ! k"
  by (simp add: mem_store_def ptr_add_def)

lemma page48_ram:
  assumes "0x4000 \<le> a"
  shows "ptr_add (page48 r m (page_of a)) (page_offset a) = ptr_add m (unat a - 0x4000)"
proof -
  have "0x4000 \<le> unat a" using assms by (simp add: word_le_nat_alt)
  then have "page_of a \<noteq> 0" "(page_of a - 1) * 0x4000 + page_offset a = unat a - 0x4000"
    by (auto simp: page_of_div page_offset_mod diff_mult_distrib)
  then show ?thesis by (simp add: page48_def ptr_add_def)
qed

lemma file_not_image:
  assumes "length (save_v1 s) \<noteq> 49152"
  shows "applySnapshotData48 t (save_v1 s) = (False, t)" "applySnapshotData128 u (save_v1 s) = (False, u)"
  using assms by (simp_all add: applySnapshotData48_def applySnapshotData128_def RAM_SIZE_48_def split: option.split)

text \<open>C8 (snapshot48_round_trip): A version 1 snapshot written from a 48K machine and loaded into any
48K machine gives back the CPU registers, the border and every byte of RAM, leaves the ROM alone,
and leaves the machine halted if it was halted before or stands on a HALT. The conditions: both
machines satisfy their invariant, the program counter is not 0 (a zero there announces a later
version, so a machine just reset cannot be saved in version 1), the values saved fit their fields,
the file is not exactly 49152 bytes long, and the temporary buffer of the loader can be allocated.\<close>

theorem snapshot48_round_trip:
  assumes "full_inv (wired48 r m R) s" "full_inv (wired48 r' m' R') t"
    and "savable s" "reg_pc s \<noteq> 0" "length (save_v1 s) \<noteq> 49152"
  shows "\<exists>t'. snapshot_load loader48 True tmp (Some (save_v1 s)) t = Some (True, t')
    \<and> registers t' = registers s \<and> border_color (ctx t') = border_color (ctx s)
    \<and> halted t' = (if RB bus48 t' (reg_pc s) = 0x76 then 1 else halted t)
    \<and> (\<forall>a. RB bus48 t' a = (if 0x4000 \<le> a then RB bus48 s a else RB bus48 t a))
    \<and> full_inv (wired48 r' m' R') t'"
proof -
  have w: "wired48 r' m' R' t" using assms(2) by (simp add: full_inv_def)
  let ?u = "map_ram48 (t\<lparr>heap := mem_store (heap t) m' (ram_image (RB bus48 s))\<rparr>)"
  have u: "apply_data loader48 t (ram_image (RB bus48 s)) = (True, ?u)"
    using w by (simp add: loader48_def applySnapshotData48_def RAM_SIZE_48_def wired48_def)
  have hu: "heap ?u = mem_store (heap t) m' (ram_image (RB bus48 s))" "halted ?u = halted t"
    by (simp_all add: map_ram48_def updateMap_def Let_def)
  have iu: "full_inv (wired48 r' m' R') ?u"
    using apply48_ok [OF assms(2), of "ram_image (RB bus48 s)"] u by (simp add: loader48_def)
  obtain t' where t': "snapshot_load loader48 True tmp (Some (save_v1 s)) t = Some (True, t')"
    "loaded_cpu s ?u t'"
    by (rule v1_load [OF assms(3,4) _ u]) (use file_not_image(1) [OF assms(5), of t] in \<open>simp_all add: loader48_def\<close>)
  have h: "heap t' = heap ?u" using t'(2) by (simp add: loaded_cpu_def)
  have it: "full_inv (wired48 r' m' R') t'" by (rule snap48.I_load [OF t'(1) assms(2)])
  have p: "wired (page48 r' m') t" "wired (page48 r' m') ?u" "wired (page48 r' m') t'" "fst r' \<noteq> fst m'"
    using assms(2) iu it by (simp_all add: full_inv_def wired48_def)
  have rd: "RB bus48 t' a = (if 0x4000 \<le> a then RB bus48 s a else RB bus48 t a)" for a
  proof (cases "0x4000 \<le> a")
    case True
    then have k: "unat a - 0x4000 < length (ram_image (RB bus48 s))" using unat16_bound [of a] by simp
    show ?thesis using True ram_image_nth [OF True] by (simp add: wired_RB [OF p(3)] h hu page48_ram mem_store_in [OF k])
  next
    case False
    then have z: "page_of a = 0" using page_ranges(1) [of a] by (simp add: not_le)
    show ?thesis using False p(4) by (simp add: wired_RB [OF p(3)] wired_RB [OF p(1)] z h hu page48_def mem_other)
  qed
  have "spec_read ?u (reg_pc s) = RB bus48 t' (reg_pc s)"
    by (simp add: wired_RB [OF p(3)] wired_read [OF p(2)] h)
  then show ?thesis using t' it rd hu by (auto simp: loaded_cpu_def)
qed

section \<open>Version 1 on a 128K machine\<close>

definition bank_of :: "u8 list \<Rightarrow> nat \<Rightarrow> u8" where
  "bank_of bs k = (if k < 0x4000 then bs ! k else 0)"

lemma abs_store:
  assumes "banks_apart r b" "i < 8" "length bs = 0x4000" "heap s' = mem_store (heap s) (b i) bs"
    "port7FFD (ctx s') = port7FFD (ctx s)" "paging_locked (ctx s') = paging_locked (ctx s)"
  shows "abs_mem r b s' = (abs_mem r b s)\<lparr>m_banks := (m_banks (abs_mem r b s))(i := bank_of bs)\<rparr>"
proof (rule mem128_eqI)
  fix j k
  show "m_rom (abs_mem r b s') k = m_rom ((abs_mem r b s)\<lparr>m_banks := (m_banks (abs_mem r b s))(i := bank_of bs)\<rparr>) k"
    using bank_not_rom [OF assms(1,2)] by (simp add: assms(4) mem_other)
  show "m_banks (abs_mem r b s') j k = m_banks ((abs_mem r b s)\<lparr>m_banks := (m_banks (abs_mem r b s))(i := bank_of bs)\<rparr>) j k"
  proof (cases "j = i \<or> \<not> j < 8")
    case True
    then show ?thesis using assms(2,3) by (auto simp: assms(4) bank_of_def mem_store_in)
  next
    case False
    then have "fst (b j) \<noteq> fst (b i)" using assms(1,2) by (simp add: banks_apart_def)
    then show ?thesis using False by (simp add: assms(4) mem_other)
  qed
qed (simp_all add: assms)

lemma apply128_abs:
  assumes "wired128 r b R t" "length img = 49152"
  obtains u where "applySnapshotData128 t img = (True, u)" "halted u = halted t"
    "abs_mem r b u = (abs_mem r b t)\<lparr>m_port := 0x30, m_lock := True,
       m_banks := (m_banks (abs_mem r b t))(5 := bank_of (take BANK_SIZE img),
         2 := bank_of (take BANK_SIZE (drop BANK_SIZE img)), 0 := bank_of (take BANK_SIZE (drop (2 * BANK_SIZE) img)))\<rparr>"
proof -
  note w = wired128_parts [OF assms(1)]
  define u5 where "u5 = t\<lparr>heap := mem_store (heap t) (b 5) (take BANK_SIZE img)\<rparr>"
  define u2 where "u2 = u5\<lparr>heap := mem_store (heap u5) (b 2) (take BANK_SIZE (drop BANK_SIZE img))\<rparr>"
  define u0 where "u0 = u2\<lparr>heap := mem_store (heap u2) (b 0) (take BANK_SIZE (drop (2 * BANK_SIZE) img))\<rparr>"
  let ?u = "updatePaging (upd_ctx (\<lambda>c. c\<lparr>port7FFD := 0x30, paging_locked := True\<rparr>) u0)"
  have a: "abs_mem r b u5 = (abs_mem r b t)\<lparr>m_banks := (m_banks (abs_mem r b t))(5 := bank_of (take BANK_SIZE img))\<rparr>"
    "abs_mem r b u2 = (abs_mem r b u5)\<lparr>m_banks := (m_banks (abs_mem r b u5))(2 := bank_of (take BANK_SIZE (drop BANK_SIZE img)))\<rparr>"
    "abs_mem r b u0 = (abs_mem r b u2)\<lparr>m_banks := (m_banks (abs_mem r b u2))(0 := bank_of (take BANK_SIZE (drop (2 * BANK_SIZE) img)))\<rparr>"
    by (rule abs_store [OF w(4)]; simp add: u5_def u2_def u0_def assms(2) BANK_SIZE_def)+
  have "applySnapshotData128 t img = (True, ?u)"
    using w(3) assms(2) by (simp add: applySnapshotData128_def Let_def store_opt_def u5_def u2_def u0_def)
  moreover have "halted ?u = halted t"
    by (simp add: updatePaging_def updateMap_def Let_def u5_def u2_def u0_def)
  moreover have "abs_mem r b ?u = (abs_mem r b u0)\<lparr>m_port := 0x30, m_lock := True\<rparr>" by (rule mem128_eqI) simp_all
  ultimately show thesis using that a by simp
qed

text \<open>With the paging of a 48K machine the three banks are the RAM.\<close>

lemma read_48_banks:
  assumes "m_port m = 0x30" "m_banks m 5 = bank_of (take BANK_SIZE img)" "m_banks m 2 = bank_of (take BANK_SIZE (drop BANK_SIZE img))"
    "m_banks m 0 = bank_of (take BANK_SIZE (drop (2 * BANK_SIZE) img))" "length img = 49152" "0x4000 \<le> a"
  shows "read_mem m a = img ! (unat a - 0x4000)"
proof -
  have k: "unat a mod 0x4000 < 0x4000" by simp
  have d: "unat a = page_of a * 0x4000 + unat a mod 0x4000" by (simp add: page_of_div)
  show ?thesis
  proof (rule page_cases [of a])
    assume "page_of a = 0" "a < 0x4000"
    then show ?thesis using assms(6) by simp
  next
    assume p: "page_of a = 1" "\<not> a < 0x4000" "a < 0x8000"
    have u: "unat a - 0x4000 = unat a mod 0x4000" using d p(1) by linarith
    show ?thesis using p(2,3) k assms(2,5) unfolding u by (simp add: read_mem_def bank_at_def bank_of_def BANK_SIZE_def)
  next
    assume p: "page_of a = 2" "\<not> a < 0x4000" "\<not> a < 0x8000" "a < 0xC000"
    have u: "unat a - 0x4000 = 0x4000 + unat a mod 0x4000" using d p(1) by linarith
    show ?thesis using p(2-4) k assms(3,5) unfolding u by (simp add: read_mem_def bank_at_def bank_of_def BANK_SIZE_def)
  next
    assume p: "page_of a = 3" "\<not> a < 0x4000" "\<not> a < 0x8000" "\<not> a < 0xC000"
    have u: "unat a - 0x4000 = 0x8000 + unat a mod 0x4000" using d p(1) by linarith
    show ?thesis using p(2-4) k assms(1,4,5) unfolding u by (simp add: read_mem_def bank_at_def bank_of_def BANK_SIZE_def)
  qed
qed

theorem snapshot48_on_128:
  assumes "full_inv (wired48 r m R) s" "full_inv (wired128 r' b R') t"
    and "savable s" "reg_pc s \<noteq> 0" "length (save_v1 s) \<noteq> 49152"
  shows "\<exists>t'. snapshot_load loader128 True tmp (Some (save_v1 s)) t = Some (True, t')
    \<and> registers t' = registers s \<and> border_color (ctx t') = border_color (ctx s)
    \<and> (\<forall>a\<ge>0x4000. RB bus128 t' a = RB bus48 s a)
    \<and> paging_locked (ctx t') \<and> full_inv (wired128 r' b R') t'"
proof -
  let ?img = "ram_image (RB bus48 s)"
  have w: "wired128 r' b R' t" using assms(2) by (simp add: full_inv_def)
  obtain u where u: "applySnapshotData128 t ?img = (True, u)" "abs_mem r' b u = (abs_mem r' b t)\<lparr>m_port := 0x30, m_lock := True,
       m_banks := (m_banks (abs_mem r' b t))(5 := bank_of (take BANK_SIZE ?img),
         2 := bank_of (take BANK_SIZE (drop BANK_SIZE ?img)), 0 := bank_of (take BANK_SIZE (drop (2 * BANK_SIZE) ?img)))\<rparr>"
    by (rule apply128_abs [OF w, of ?img]) simp_all
  obtain t' where t': "snapshot_load loader128 True tmp (Some (save_v1 s)) t = Some (True, t')" "loaded_cpu s u t'"
    by (rule v1_load [OF assms(3,4), of loader128 t u]) (use file_not_image(2) [OF assms(5), of t] u(1) in \<open>simp_all add: loader128_def\<close>)
  have it: "full_inv (wired128 r' b R') t'" by (rule snap128.I_load [OF t'(1) assms(2)])
  have l: "heap t' = heap u" "spectrum.more (ctx t') = spectrum.more (ctx u)" using t'(2) by (simp_all add: loaded_cpu_def)
  have m: "abs_mem r' b t' = abs_mem r' b u" by (rule mem128_eqI) (simp_all add: l(1) more128(2) [OF l(2)] more128_lock [OF l(2)])
  have "RB bus128 t' a = RB bus48 s a" if "0x4000 \<le> a" for a
  proof -
    have "RB bus128 t' a = read_mem (abs_mem r' b t') a" using it by (intro abs_read [of _ _ R']) (simp add: full_inv_def)
    also have "\<dots> = ?img ! (unat a - 0x4000)" by (rule read_48_banks [OF _ _ _ _ _ that]) (simp_all add: m u(2))
    finally show ?thesis by (simp add: ram_image_nth [OF that])
  qed
  moreover have "paging_locked (ctx t')" using arg_cong [OF m, of m_lock] by (simp add: u(2) del: abs_fields(4)) (simp add: abs_mem_def)
  ultimately show ?thesis using t' it by (auto simp: loaded_cpu_def)
qed

section \<open>Version 3\<close>

definition page_block :: "nat \<Rightarrow> u8 list \<Rightarrow> u8 list" where
  "page_block i bs = (let z = stream (encode bs) in u16_bytes (of_nat (length z)) @ [of_nat (i + 3)] @ z)"

definition bank_bytes :: "mem128 \<Rightarrow> nat \<Rightarrow> u8 list" where
  "bank_bytes m i = map (m_banks m i) [0..<0x4000]"

definition v3_header :: "mem128 \<Rightarrow> machine128 \<Rightarrow> u8 list" where
  "v3_header m s = cpu_block 0 s @ u16_bytes 54 @ u16_bytes (reg_pc s) @ [4, m_port m, 0, 0, ay_selected (ctx s)]
     @ regs (ay_chip (ctx s)) @ replicate 31 0"

definition save_v3 :: "mem128 \<Rightarrow> machine128 \<Rightarrow> u8 list" where
  "save_v3 m s = v3_header m s @ concat (map (\<lambda>i. page_block i (bank_bytes m i)) [0..<8])"

text \<open>The encoder at most doubles its input, so a page's length field is never the marker \<open>0xFFFF\<close>.\<close>

lemma encode_length: "length (stream (encode xs)) \<le> 2 * length xs"
proof (induction xs rule: encode.induct)
  case 1
  then show ?case by simp
next
  case (2 b xs)
  let ?k = "run_length b xs"
  have k: "length (b # xs) = ?k + length (drop (?k - 1) xs)"
    using arg_cong [OF run_length_prefix [of b xs], of length] by (simp only: length_append length_replicate)
  show ?case
  proof (cases "if b = 0xED then 2 \<le> ?k else 5 \<le> ?k")
    case True
    then have "encode (b # xs) = Run (of_nat ?k) b # encode (drop (?k - 1) xs)"
      unfolding encode.simps Let_def by (rule if_P)
    moreover have "2 \<le> ?k" using True by (cases "b = 0xED") simp_all
    ultimately show ?thesis using "2.IH"(1) [OF refl True] unfolding k by simp
  next
    case run: False
    show ?thesis
    proof (cases "b = 0xED")
      case True
      show ?thesis
      proof (cases xs)
        case Nil
        then show ?thesis using run True by (simp add: Let_def)
      next
        case (Cons c ys)
        then have "encode (b # xs) = Lit b # Lit c # encode ys" using run True by (simp add: Let_def)
        then show ?thesis using "2.IH"(2) [OF refl run True Cons] Cons by simp
      qed
    next
      case False
      then have "encode (b # xs) = Lit b # encode xs" using run by (simp add: Let_def)
      then show ?thesis using "2.IH"(3) [OF refl run False] by simp
    qed
  qed
qed

lemma page_decodes:
  "length bs = 0x4000 \<Longrightarrow> loadCompressedMemPage (stream (encode bs)) 0x4000 = (bs, True)"
  using page_loop_tokens [OF wf_encode [of bs], of "[]" "0x4000" "[]"] by (simp add: load_page_finish expand_encode)

lemma page_block_parts:
  assumes "length bs = 0x4000" "file = pre @ page_block i bs @ rest"
  defines "n \<equiv> length (stream (encode bs))"
  shows "unat (file16 file (length pre)) = n" "n \<noteq> 0xFFFF" "file ! (length pre + 2) = of_nat (i + 3)"
    "length pre + 3 \<le> length file" "length pre + 3 + n \<le> length file"
    "take n (drop (length pre + 3) file) = stream (encode bs)" "length (pre @ page_block i bs) = length pre + 3 + n"
proof -
  have b: "n \<le> 0x8000" using encode_length [of bs] assms(1) by (simp add: n_def)
  then show "n \<noteq> 0xFFFF" by simp
  have f: "file = pre @ lo8 (of_nat n) # hi8 (of_nat n) # of_nat (i + 3) # stream (encode bs) @ rest"
    by (simp add: assms(2) page_block_def u16_bytes_def Let_def n_def)
  have "file16 file (length pre) = of_nat n" by (simp add: f file16_def nth_append)
  then show "unat (file16 file (length pre)) = n" using b by (simp add: unsigned_of_nat take_bit_nat_eq_self)
  show "file ! (length pre + 2) = of_nat (i + 3)" "length pre + 3 \<le> length file" "length pre + 3 + n \<le> length file"
    "take n (drop (length pre + 3) file) = stream (encode bs)"
    by (simp_all add: f nth_append n_def)
  show "length (pre @ page_block i bs) = length pre + 3 + n" by (simp add: page_block_def u16_bytes_def Let_def n_def)
qed

lemma page_dest128:
  assumes "wired128 r b R s" "i < 8" "file ! 34 = 4"
  shows "page_dest loader128 s False file (of_nat (i + 3)) = Some (Bank (b i))"
proof -
  have "i = 0 \<or> i = 1 \<or> i = 2 \<or> i = 3 \<or> i = 4 \<or> i = 5 \<or> i = 6 \<or> i = 7" using assms(2) by arith
  then show ?thesis
    using assms(1,3) by (elim disjE) (simp_all add: page_dest_def loader128_def getBank_def wired128_def dest_of_def)
qed

lemma pages_loop_page:
  assumes "wired128 r b R s" "i < 8" "file ! 34 = 4" "length bs = 0x4000" "file = pre @ page_block i bs @ rest"
  shows "pages_loop loader128 file (length pre) True found (s, None)
    = pages_loop loader128 file (length (pre @ page_block i bs)) True True (s\<lparr>heap := mem_store (heap s) (b i) bs\<rparr>, None)"
proof -
  note p = page_block_parts [OF assms(4,5)]
  show ?thesis
    using p(2,4,5) p(3) [unfolded numeral_2_eq_2 add_Suc_right add_0_right] unfolding p(7)
    by (subst pages_loop.simps)
      (simp add: p(1,6) Let_def page_dest128 [OF assms(1-3), simplified] page_data_def page_decodes [OF assms(4)] store_page_def)
qed

text \<open>The loop over the eight pages stores every bank.\<close>

lemma length_bank_bytes [simp]: "length (bank_bytes m i) = 0x4000"
  by (simp add: bank_bytes_def)

lemma bank_of_bytes: "\<forall>k\<ge>0x4000. m_banks m i k = 0 \<Longrightarrow> bank_of (bank_bytes m i) = m_banks m i"
  by (rule ext) (simp add: bank_of_def bank_bytes_def not_less)

lemma store_bank_keeps:
  assumes "wired128 r b R s" "i < 8"
  shows "wired128 r b R (s\<lparr>heap := mem_store (heap s) (b i) bs\<rparr>)"
  using assms bank_not_rom [OF wired128_parts(4) [OF assms(1)] assms(2)]
  by (simp add: wired128_def wired_def rom_image_def mem_other)

lemma pages_loop_all:
  assumes "wired128 r b R s" "j \<le> 8" "file ! 34 = 4"
    "file = pre @ concat (map (\<lambda>i. page_block i (bank_bytes m i)) [j..<8])" "\<forall>i<8. \<forall>k\<ge>0x4000. m_banks m i k = 0"
  shows "\<exists>s'. pages_loop loader128 file (length pre) True found (s, None) = (True, found \<or> j < 8, s', None)
    \<and> wired128 r b R s' \<and> ctx s' = ctx s \<and> halted s' = halted s
    \<and> abs_mem r b s' = (abs_mem r b s)\<lparr>m_banks := (\<lambda>i. if j \<le> i \<and> i < 8 then m_banks m i else m_banks (abs_mem r b s) i)\<rparr>"
  using assms
proof (induction "8 - j" arbitrary: j s pre found)
  case 0
  then have "j = 8" "file = pre" by simp_all
  moreover have "abs_mem r b s = (abs_mem r b s)\<lparr>m_banks := (\<lambda>i. if j \<le> i \<and> i < 8 then m_banks m i else m_banks (abs_mem r b s) i)\<rparr>"
    by (rule mem128_eqI) (auto simp: \<open>j = 8\<close>)
  ultimately show ?case using "0.prems" by (subst pages_loop.simps) simp
next
  case (Suc d)
  then have j: "j < 8" and d: "d = 8 - Suc j" by simp_all
  let ?p = "page_block j (bank_bytes m j)"
  let ?s = "s\<lparr>heap := mem_store (heap s) (b j) (bank_bytes m j)\<rparr>"
  have f: "file = pre @ ?p @ concat (map (\<lambda>i. page_block i (bank_bytes m i)) [Suc j..<8])"
    using Suc.prems(4) j by (simp add: upt_conv_Cons)
  have step: "pages_loop loader128 file (length pre) True found (s, None) = pages_loop loader128 file (length (pre @ ?p)) True True (?s, None)"
    by (rule pages_loop_page [OF Suc.prems(1) j Suc.prems(3) _ f]) simp
  have a: "abs_mem r b ?s = (abs_mem r b s)\<lparr>m_banks := (m_banks (abs_mem r b s))(j := m_banks m j)\<rparr>"
    using abs_store [OF wired128_parts(4) [OF Suc.prems(1)] j, of "bank_bytes m j" ?s s] Suc.prems(5) j by (simp add: bank_of_bytes)
  obtain s' where s': "pages_loop loader128 file (length (pre @ ?p)) True True (?s, None) = (True, True, s', None)"
    "wired128 r b R s'" "ctx s' = ctx ?s" "halted s' = halted ?s"
    "abs_mem r b s' = (abs_mem r b ?s)\<lparr>m_banks := (\<lambda>i. if Suc j \<le> i \<and> i < 8 then m_banks m i else m_banks (abs_mem r b ?s) i)\<rparr>"
    using Suc.hyps(1) [OF d store_bank_keeps [OF Suc.prems(1) j, of "bank_bytes m j"] _ Suc.prems(3), of "pre @ ?p" True] f j Suc.prems(5) by auto
  have "abs_mem r b s' = (abs_mem r b s)\<lparr>m_banks := (\<lambda>i. if j \<le> i \<and> i < 8 then m_banks m i else m_banks (abs_mem r b s) i)\<rparr>"
    unfolding s'(5) a using j by (intro mem128_eqI) (auto simp: not_less_eq_eq le_Suc_eq)
  then show ?case using s'(1-4) step j by simp
qed

text \<open>The port writes of the loader.\<close>

lemma port_select: "writePort128 s 0xFFFD v = upd_ctx (\<lambda>c. c\<lparr>ay_selected := v AND 0x0F\<rparr>) s"
  by (simp add: writePort128_def)

lemma port_data:
  "writePort128 s 0xBFFD v = upd_ctx (\<lambda>c. let c = ay_render (sample_of (ula_clocks c)) c
     in c\<lparr>ay_chip := writeRegister (ay_chip c) (ay_selected c) v\<rparr>) s"
  by (simp add: writePort128_def)

lemma renderTo_regs [simp]: "regs (fst (psg_renderTo s xs n c rt)) = regs s"
proof -
  have t: "regs ((psg_tick ^^ n) s) = regs s" for n s by (induction n) simp_all
  have "regs (fst (fold (render_psg_sample k) js sb)) = regs (fst sb)" for k js sb
    by (induction js arbitrary: sb) (simp_all add: render_psg_sample_def case_prod_beta Let_def t)
  then show ?thesis by (simp add: psg_renderTo_def case_prod_beta Let_def)
qed

lemma ay_render_fields [simp]:
  "regs (ay_chip (ay_render n c)) = regs (ay_chip c)" "ay_selected (ay_render n c) = ay_selected c"
  by (simp_all add: ay_render_def case_prod_beta)

definition ay_regs :: "machine128 \<Rightarrow> u8 list" where
  "ay_regs s = regs (ay_chip (ctx s))"

lemma port_select_ay:
  "ay_regs (writePort128 s 0xFFFD v) = ay_regs s" "ay_selected (ctx (writePort128 s 0xFFFD v)) = v AND 0x0F"
  by (simp_all add: ay_regs_def port_select)

lemma port_data_regs:
  "unat (ay_selected (ctx s)) < 16 \<Longrightarrow> ay_regs (writePort128 s 0xBFFD v) = (ay_regs s)[unat (ay_selected (ctx s)) := v]"
  by (simp add: ay_regs_def port_data Let_def writeRegister_def)

lemma select_small: "i < 16 \<Longrightarrow> unat (of_nat i AND 0x0F :: u8) = i"
proof -
  have "of_nat i AND 0x0F = take_bit 4 (of_nat i :: u8)" by (simp add: take_bit_eq_mask mask_eq_exp_minus_1)
  then show "i < 16 \<Longrightarrow> unat (of_nat i AND 0x0F :: u8) = i"
    by (simp add: unsigned_take_bit_eq unsigned_of_nat take_bit_nat_eq_self)
qed

lemma ay_pair:
  "i < 16 \<Longrightarrow> ay_regs (writePort128 (writePort128 s 0xFFFD (of_nat i)) 0xBFFD v) = (ay_regs s)[i := v]"
  by (subst port_data_regs) (simp_all add: port_select select_small, simp add: ay_regs_def)

lemma ay_fold:
  assumes "length (ay_regs s) = 16" "n \<le> 16"
  shows "ay_regs (fold (\<lambda>i s. writePort128 (writePort128 s 0xFFFD (of_nat i)) 0xBFFD (f i)) [0..<n] s)
    = map f [0..<n] @ drop n (ay_regs s)"
  using assms(2)
proof (induction n)
  case (Suc n)
  then have n: "n < length (ay_regs s)" using assms(1) by simp
  have "drop n (ay_regs s) = ay_regs s ! n # drop (Suc n) (ay_regs s)" using n by (simp add: Cons_nth_drop_Suc)
  then show ?case using Suc by (simp add: ay_pair list_update_append)
qed simp

lemma loader_ports:
  "halted (writePort128 s p v) = halted s" "heap (writePort128 s p v) = heap s"
  by (simp_all add: writePort128_def writePortFE_def updatePaging_def updateMap_def Let_def)

lemma ay_registers_keeps:
  "halted (ay_registers writePort128 file s) = halted s"
  "abs_mem r b (ay_registers writePort128 file s) = abs_mem r b s"
proof -
  let ?w = "\<lambda>i s. writePort128 (writePort128 s 0xFFFD (of_nat i)) 0xBFFD (file ! (39 + i))"
  have o: "abs_mem r b (writePort128 u 0xFFFD v) = abs_mem r b u" "abs_mem r b (writePort128 u 0xBFFD v) = abs_mem r b u" for u v
    using abs_out [of r b u "0xFFFD" v] abs_out [of r b u "0xBFFD" v] by (simp_all add: OUT_def bus128_def out_mem_def)
  have "halted (fold ?w js s) = halted s \<and> abs_mem r b (fold ?w js s) = abs_mem r b s" for js
    by (induction js arbitrary: s) (simp_all add: loader_ports o)
  then show "halted (ay_registers writePort128 file s) = halted s"
    "abs_mem r b (ay_registers writePort128 file s) = abs_mem r b s"
    by (simp_all add: ay_registers_def loader_ports o)
qed

text \<open>The header of the written file.\<close>

lemma v3_parts:
  assumes "length (ay_regs s) = 16"
  shows "length (v3_header m s) = 86" "file16 (save_v3 m s) 6 = 0" "take 30 (save_v3 m s) = cpu_block 0 s"
    "file16 (save_v3 m s) 30 = 54" "file16 (save_v3 m s) 32 = reg_pc s" "save_v3 m s ! 34 = 4"
    "save_v3 m s ! 35 = m_port m" "save_v3 m s ! 38 = ay_selected (ctx s)"
    "map (\<lambda>i. save_v3 m s ! (39 + i)) [0..<16] = ay_regs s"
proof -
  note d = save_v3_def v3_header_def file16_def u16_bytes_def nth_append
  show "length (v3_header m s) = 86" using assms by (simp add: v3_header_def u16_bytes_def ay_regs_def)
  show "file16 (save_v3 m s) 6 = 0" using cpu_block_file16(1) [of 0 s] by (simp add: save_v3_def v3_header_def)
  show "take 30 (save_v3 m s) = cpu_block 0 s" by (simp add: save_v3_def v3_header_def)
  show "file16 (save_v3 m s) 30 = 54" "file16 (save_v3 m s) 32 = reg_pc s" "save_v3 m s ! 34 = 4"
    "save_v3 m s ! 35 = m_port m" "save_v3 m s ! 38 = ay_selected (ctx s)" by (simp_all add: d)
  have "save_v3 m s ! (39 + i) = ay_regs s ! i" if "i < 16" for i
    using that assms by (simp add: d ay_regs_def)
  then show "map (\<lambda>i. save_v3 m s ! (39 + i)) [0..<16] = ay_regs s"
    using assms by (intro nth_equalityI) simp_all
qed

lemma v3_hardware:
  assumes "length (ay_regs s) = 16" "length (ay_regs t) = 16" "unat (ay_selected (ctx s)) < 16"
  obtains u where "hardware_state loader128 54 (save_v3 m s) t = Some u" "halted u = halted t"
    "abs_mem r b u = out_mem (abs_mem r b t) 0x7FFD (m_port m)" "ay_regs u = ay_regs s" "ay_selected (ctx u) = ay_selected (ctx s)"
proof -
  note p = v3_parts [OF assms(1), of m]
  define t1 where "t1 = writePort128 t 0x7FFD (m_port m)"
  have l: "length (save_v3 m s) \<ge> 86" using p(1) by (simp add: save_v3_def)
  have h: "hardware_state loader128 54 (save_v3 m s) t = Some (ay_registers writePort128 (save_v3 m s) t1)"
    using l p(7) by (simp add: hardware_state_def loader128_def Let_def t1_def)
  have s: "ay_selected (ctx s) AND 0x0F = ay_selected (ctx s)"
    using select_small [OF assms(3)] by (simp add: word_unat_eq_iff)
  have t1: "ay_regs t1 = ay_regs t" "halted t1 = halted t" "abs_mem r b t1 = out_mem (abs_mem r b t) 0x7FFD (m_port m)"
    using abs_out [of r b t "0x7FFD" "m_port m"]
    by (simp_all add: t1_def loader_ports OUT_def bus128_def)
      (simp add: writePort128_def ay_regs_def updatePaging_def updateMap_def Let_def)
  let ?u = "ay_registers writePort128 (save_v3 m s) t1"
  have "ay_regs ?u = ay_regs s" "ay_selected (ctx ?u) = ay_selected (ctx s)"
    using ay_fold [of t1 16 "\<lambda>i. save_v3 m s ! (39 + i)"] assms(2) p(9)
    by (simp_all add: ay_registers_def t1(1) p(8) port_select_ay s)
  then show thesis using that [OF h] t1 by (simp add: ay_registers_keeps)
qed

lemma v3_load:
  assumes "full_inv (wired128 r b R) t" "savable s" "length (ay_regs s) = 16" "unat (ay_selected (ctx s)) < 16"
    "length (save_v3 m s) \<noteq> 49152" "\<forall>i<8. \<forall>k\<ge>0x4000. m_banks m i k = 0"
  obtains u t' where "snapshot_load loader128 True tmp (Some (save_v3 m s)) t = Some (True, t')" "loaded_cpu s u t'" "halted u = halted t"
    "abs_mem r b u = (out_mem (abs_mem r b t) 0x7FFD (m_port m))\<lparr>m_banks := (\<lambda>i. if i < 8 then m_banks m i else m_banks (abs_mem r b t) i)\<rparr>"
    "ay_regs u = ay_regs s" "ay_selected (ctx u) = ay_selected (ctx s)"
proof -
  note p = v3_parts [OF assms(3), of m]
  let ?f = "save_v3 m s" and ?h = "\<lparr>hdr = cpu_block 0 s, extra_len = 54, ext_pc = reg_pc s, have_header = True\<rparr>"
  have w: "wired128 r b R t" using assms(1) by (simp add: full_inv_def)
  have "length (ay_regs t) = 16" using wired128_parts(6) [OF w] by (simp add: ay_ok_def psg_ok_def ay_regs_def)
  then obtain u where u: "hardware_state loader128 54 ?f t = Some u" "halted u = halted t"
    "abs_mem r b u = out_mem (abs_mem r b t) 0x7FFD (m_port m)" "ay_regs u = ay_regs s" "ay_selected (ctx u) = ay_selected (ctx s)"
    using v3_hardware [OF assms(3) _ assms(4)] by metis
  have wu: "wired128 r b R u" using snap128.I_hardware [OF u(1) assms(1)] by (simp add: full_inv_def)
  obtain v where v: "pages_loop loader128 ?f 86 True False (u, None) = (True, True, v, None)" "ctx v = ctx u" "halted v = halted u"
    "abs_mem r b v = (abs_mem r b u)\<lparr>m_banks := (\<lambda>i. if 0 \<le> i \<and> i < 8 then m_banks m i else m_banks (abs_mem r b u) i)\<rparr>"
    using pages_loop_all [OF wu _ p(6), of 0 "v3_header m s" m False] p(1) assms(6) by (auto simp: save_v3_def)
  have l: "load_v23 loader128 tmp ?f 54 t = Some (True, v)"
    using u(1) v(1) p(6) by (simp add: load_v23_def Let_def) (simp add: loader128_def)
  have len: "86 \<le> length ?f" using p(1) by (simp add: save_v3_def)
  then have rh: "read_header ?f = (?h, 0)"
    using p by (simp add: read_header_def Let_def)
  have "snapshot_load loader128 True tmp (Some ?f) t = Some (True, restoreCPUFromSnapshot v ?h ?f)"
    using l assms(5) by (simp add: snapshot_load_def rh) (simp add: loader128_def applySnapshotData128_def)
  moreover have "loaded_cpu s v (restoreCPUFromSnapshot v ?h ?f)"
    using restore_block [OF assms(2), of ?h 0 ?f v] by (simp add: loaded_cpu_def)
  moreover have "abs_mem r b v = (out_mem (abs_mem r b t) 0x7FFD (m_port m))\<lparr>m_banks := (\<lambda>i. if i < 8 then m_banks m i else m_banks (abs_mem r b t) i)\<rparr>"
  proof -
    have "m_banks (abs_mem r b u) = m_banks (abs_mem r b t)" unfolding u(3) by (simp add: out_mem_def)
    then show ?thesis unfolding v(4) by (simp only: u(3) le0 simp_thms)
  qed
  ultimately show thesis
    using u v by (intro that [of _ v]) (simp_all add: ay_regs_def)
qed

lemma more128_ay:
  fixes c c' :: spectrum128
  shows "spectrum.more c' = spectrum.more c \<Longrightarrow> ay_chip c' = ay_chip c \<and> ay_selected c' = ay_selected c"
  by (cases c; cases c') simp

text \<open>C7 (snapshot128_round_trip): A version 3 snapshot written from a 128K machine and loaded into any
128K machine gives back the CPU registers, the border, the eight banks, the sound registers and,
unless the machine was locked, the paging; the ROM and the invariant are kept. The conditions:
both machines satisfy their invariant, the values saved fit their fields of the format (flip-flops
0 or 1, an interrupt mode below 4, a border below 8), the file is not exactly 49152 bytes long (it
would be taken for a raw image), and the temporary buffer of the loader can be allocated.\<close>

theorem snapshot128_round_trip:
  assumes "full_inv (wired128 r b R) s" "full_inv (wired128 r' b' R') t"
    and "savable s" "length (save_v3 (abs_mem r b s) s) \<noteq> 49152"
  shows "\<exists>t'. snapshot_load loader128 True tmp (Some (save_v3 (abs_mem r b s) s)) t = Some (True, t')
    \<and> registers t' = registers s \<and> border_color (ctx t') = border_color (ctx s)
    \<and> m_banks (abs_mem r' b' t') = m_banks (abs_mem r b s) \<and> m_rom (abs_mem r' b' t') = m_rom (abs_mem r' b' t)
    \<and> (port7FFD (ctx t'), paging_locked (ctx t'))
        = (if paging_locked (ctx t) then (port7FFD (ctx t), True) else (port7FFD (ctx s), paging_locked (ctx s)))
    \<and> regs (ay_chip (ctx t')) = regs (ay_chip (ctx s)) \<and> ay_selected (ctx t') = ay_selected (ctx s)
    \<and> full_inv (wired128 r' b' R') t'"
proof -
  let ?m = "abs_mem r b s" and ?n = "abs_mem r' b' t"
  have "wired128 r b R s" using assms(1) by (simp add: full_inv_def)
  then have ok: "paging_ok (ctx s)" "length (ay_regs s) = 16" "unat (ay_selected (ctx s)) < 16"
    using wired128_parts(5,6) by (auto simp: ay_ok_def psg_ok_def ay_regs_def)
  obtain u t' where t': "snapshot_load loader128 True tmp (Some (save_v3 ?m s)) t = Some (True, t')" "loaded_cpu s u t'"
    and u: "abs_mem r' b' u = (out_mem ?n 0x7FFD (m_port ?m))\<lparr>m_banks := (\<lambda>i. if i < 8 then m_banks ?m i else m_banks ?n i)\<rparr>"
      "ay_regs u = ay_regs s" "ay_selected (ctx u) = ay_selected (ctx s)"
    by (rule v3_load [OF assms(2,3) ok(2,3) assms(4)]) auto
  have l: "heap t' = heap u" "spectrum.more (ctx t') = spectrum.more (ctx u)" using t'(2) by (simp_all add: loaded_cpu_def)
  have m: "abs_mem r' b' t' = abs_mem r' b' u" by (rule mem128_eqI) (simp_all add: l(1) more128(2) [OF l(2)] more128_lock [OF l(2)])
  have banks: "m_banks (abs_mem r' b' t') = m_banks ?m" by (simp add: m u(1)) (auto simp: abs_mem_def fun_eq_iff)
  have rom: "m_rom (abs_mem r' b' t') = m_rom ?n" by (simp add: m u(1) out_mem_def)
  have port: "m_port (abs_mem r' b' t') = m_port (out_mem ?n 0x7FFD (m_port ?m))" "m_lock (abs_mem r' b' t') = m_lock (out_mem ?n 0x7FFD (m_port ?m))"
    by (simp_all add: m u(1) del: abs_fields)
  have "bit (port7FFD (ctx s)) 5 = paging_locked (ctx s)"
    using ok(1) and_exp_eq_0_iff_not_bit [of "port7FFD (ctx s)" 5] by (simp add: paging_ok_def)
  then have "(port7FFD (ctx t'), paging_locked (ctx t'))
        = (if paging_locked (ctx t) then (port7FFD (ctx t), True) else (port7FFD (ctx s), paging_locked (ctx s)))"
    using port ok(1) by (simp add: out_mem_def paging_ok_def split: if_splits)
  then show ?thesis
    using t' banks rom u(2,3) more128_ay [OF l(2)] snap128.I_load [OF t'(1) assms(2)]
    by (auto simp: loaded_cpu_def ay_regs_def)
qed

section \<open>Concrete snapshots\<close>

text \<open>Two fresh machines, saved and loaded; a page of zeros is 65 runs.\<close>

lemma takeWhile_replicate_same: "takeWhile ((=) v) (replicate n v) = replicate n v"
  by (induction n) simp_all

lemma run_length_replicate: "run_length v (replicate n v) = Suc (min 254 n)"
  by (simp add: run_length_def takeWhile_replicate_same)

lemma encode_zeros:
  assumes "5 \<le> n" "n \<le> 255"
  shows "length (stream (encode (replicate (255 * j + n) 0))) = 4 * (j + 1)"
proof (induction j)
  case 0
  obtain k where "n = Suc k" using assms by (cases n) auto
  then show ?case using assms by (simp add: Let_def run_length_replicate)
next
  case (Suc j)
  have "replicate (255 * Suc j + n) (0 :: u8) = 0 # replicate (254 + (255 * j + n)) 0"
    by (simp flip: replicate_Suc)
  then have "encode (replicate (255 * Suc j + n) 0) = Run 255 0 # encode (replicate (255 * j + n) 0)"
    by (simp add: Let_def run_length_replicate drop_replicate)
  then show ?case using Suc by simp
qed

lemma fill_zero: "heap s = (\<lambda>_. 0) \<Longrightarrow> heap (fill_opt p n 0 s) = (\<lambda>_. 0)"
  by (simp add: fill_opt_def mem_fill_def fun_eq_iff split: option.split)

lemma sample128_banks: "i < 8 \<Longrightarrow> bank_bytes (abs_mem (0, 0) (\<lambda>i. (i + 1, 0)) sample128) i = replicate 0x4000 0"
proof -
  have "heap (fill_banks s) = (\<lambda>_. 0)" if "heap s = (\<lambda>_. 0)" for s
  proof -
    have "heap (fold (\<lambda>i s. fill_opt (ram_banks (ctx s) i) BANK_SIZE 0 s) js s) = (\<lambda>_. 0)" for js
      using that by (induction js arbitrary: s) (simp_all add: fill_zero)
    then show ?thesis by (simp add: fill_banks_def)
  qed
  then have "heap sample128 = mem_fill (\<lambda>_. 0) (0, 0) ROM_SIZE_128 0xFF"
    by (simp add: sample128_def spectrum128_new_def Let_def fill_opt_def z80_init_def z80_zero_def)
  then have "m_banks (abs_mem (0, 0) (\<lambda>i. (i + 1, 0)) sample128) i = (\<lambda>_. 0)"
    by (simp add: mem_fill_def ptr_add_def fun_eq_iff)
  then show "bank_bytes (abs_mem (0, 0) (\<lambda>i. (i + 1, 0)) sample128) i = replicate 0x4000 0"
    unfolding bank_bytes_def by (simp only: map_replicate_const length_upt diff_zero)
qed

lemma setup_frame [simp]:
  "iff2 (upd_ctx f s) = iff2 s" "imode (upd_ctx f s) = imode s"
  "iff1 (updateMap s i q w) = iff1 s" "iff2 (updateMap s i q w) = iff2 s" "imode (updateMap s i q w) = imode s"
  "iff1 (fill_opt p n v s) = iff1 s" "iff2 (fill_opt p n v s) = iff2 s" "imode (fill_opt p n v s) = imode s"
  "border_color (ctx (updateMap s i q w)) = border_color (ctx s)" "border_color (ctx (fill_opt p n v s)) = border_color (ctx s)"
  by (simp_all add: updateMap_def fill_opt_def upd_ctx_def Let_def split: option.split)

lemma fill_banks_frame [simp]:
  "iff1 (fill_banks s) = iff1 s" "iff2 (fill_banks s) = iff2 s" "imode (fill_banks s) = imode s"
proof -
  have "iff1 (fold (\<lambda>i s. fill_opt (ram_banks (ctx s) i) BANK_SIZE 0 s) js s) = iff1 s
    \<and> iff2 (fold (\<lambda>i s. fill_opt (ram_banks (ctx s) i) BANK_SIZE 0 s) js s) = iff2 s
    \<and> imode (fold (\<lambda>i s. fill_opt (ram_banks (ctx s) i) BANK_SIZE 0 s) js s) = imode s" for js
    by (induction js arbitrary: s) simp_all
  then show "iff1 (fill_banks s) = iff1 s" "iff2 (fill_banks s) = iff2 s" "imode (fill_banks s) = imode s"
    by (simp_all add: fill_banks_def)
qed

lemma sample128_savable: "savable sample128" "length (ay_regs sample128) = 16"
proof -
  have "wired128 (0, 0) (\<lambda>i. (i + 1, 0)) (\<lambda>_. 0xFF) sample128" using sample_ok(1) by (simp add: full_inv_def)
  then show "length (ay_regs sample128) = 16" using wired128_parts(6) by (auto simp: ay_ok_def psg_ok_def ay_regs_def)
  show "savable sample128"
    by (simp add: savable_def sample128_def spectrum128_new_def Let_def z80_init_def z80_zero_def spectrum.defs
        spectrum128.defs base_new_def updatePaging_def)
qed

lemma page_block_zeros: "length (page_block i (replicate 0x4000 0)) = 263"
  using encode_zeros [of 64 64] by (simp add: page_block_def u16_bytes_def Let_def)

theorem snapshot128_round_trip_witness:
  "\<exists>t'. snapshot_load loader128 True None (Some (save_v3 (abs_mem (0, 0) (\<lambda>i. (i + 1, 0)) sample128) sample128)) sample128 = Some (True, t')
    \<and> registers t' = registers sample128"
proof -
  let ?m = "abs_mem (0, 0) (\<lambda>i. (i + 1, 0)) sample128"
  have "map (\<lambda>i. page_block i (bank_bytes ?m i)) [0..<8] = map (\<lambda>i. page_block i (replicate 0x4000 0)) [0..<8]"
    by (rule map_cong) (simp_all only: sample128_banks set_upt atLeastLessThan_iff)
  then have "length (concat (map (\<lambda>i. page_block i (bank_bytes ?m i)) [0..<8])) = 8 * 263"
    by (simp add: length_concat comp_def page_block_zeros sum_list_triv del: map_eq_conv)
  then have "length (save_v3 ?m sample128) = 86 + 8 * 263"
    using v3_parts(1) [OF sample128_savable(2), of ?m] unfolding save_v3_def length_append by simp
  then have n: "length (save_v3 ?m sample128) \<noteq> 49152" by simp
  show ?thesis
    using snapshot128_round_trip [OF sample_ok(1) sample_ok(1) sample128_savable(1) n, of None] by blast
qed

text \<open>The 48K machine starts at \<open>0x8000\<close>, since a saved program counter of 0 marks a later version.\<close>

definition saved48 :: machine48 where
  "saved48 = sample48\<lparr>reg_pc := 0x8000\<rparr>"

lemma saved48_ok: "full_inv (wired48 (0, 0) (1, 0) (\<lambda>_. 0xFF)) saved48" "savable saved48" "reg_pc saved48 \<noteq> 0"
proof -
  show "full_inv (wired48 (0, 0) (1, 0) (\<lambda>_. 0xFF)) saved48"
    using sample_ok(2) full_inv_regs [OF w48.wired_machine_axioms, of saved48] by (simp add: saved48_def host_view_def)
  show "savable saved48" "reg_pc saved48 \<noteq> 0"
    by (simp_all add: saved48_def savable_def sample48_def spectrum48_new_def Let_def z80_init_def z80_zero_def spectrum.defs
        spectrum48.defs base_new_def map48_def map_ram48_def)
qed

lemma saved48_length: "length (save_v1 saved48) = 806"
proof -
  have h: "heap saved48 = mem_fill (\<lambda>_. 0) (0, 0) ROM_SIZE_48 0xFF"
    by (simp add: saved48_def sample48_def spectrum48_new_def Let_def fill_opt_def z80_init_def z80_zero_def map48_def map_ram48_def
        updateMap_def mem_fill_def fun_eq_iff)
  have w: "wired (page48 (0, 0) (1, 0)) saved48" using saved48_ok(1) by (simp add: full_inv_def wired48_def)
  have z: "RB bus48 saved48 (of_nat (0x4000 + k)) = 0" if "k < 49152" for k
  proof -
    have "unat (of_nat (0x4000 + k) :: u16) = 0x4000 + k"
      using that by (simp add: unsigned_of_nat take_bit_nat_eq_self del: of_nat_add)
    then have "(0x4000 :: u16) \<le> of_nat (0x4000 + k)" by (simp add: word_le_nat_alt)
    note a = page48_ram [OF this, of "(0, 0)" "(1, 0)"]
    show ?thesis unfolding wired_RB [OF w] a h by (simp add: mem_fill_def ptr_add_def)
  qed
  have "ram_image (RB bus48 saved48) = replicate 49152 0"
    unfolding ram_image_def by (rule nth_equalityI) (simp_all add: z del: of_nat_add)
  then show ?thesis using encode_zeros [of 192 192] by (simp add: save_v1_def)
qed

theorem snapshot48_round_trip_witness:
  "\<exists>t'. snapshot_load loader48 True None (Some (save_v1 saved48)) sample48 = Some (True, t') \<and> registers t' = registers saved48"
  using snapshot48_round_trip [OF saved48_ok(1) sample_ok(2) saved48_ok(2,3), of None] saved48_length by auto

theorem snapshot48_on_128_witness:
  "\<exists>t'. snapshot_load loader128 True None (Some (save_v1 saved48)) sample128 = Some (True, t') \<and> registers t' = registers saved48"
  using snapshot48_on_128 [OF saved48_ok(1) sample_ok(1) saved48_ok(2,3), of None] saved48_length by auto

end
