(* ===== verification/Emulator_Props.thy ===== *)
theory Emulator_Props
  imports Emulator_Inv
begin

text \<open>
  Properties of the program as a whole: the invariant of every reachable state, and the loop of a frame.
\<close>

section \<open>Reachable states\<close>

definition sys_start :: "mach \<Rightarrow> display \<Rightarrow> sys" where
  "sys_start m d =
     \<lparr>phase = Commands, queue = [],
      em = \<lparr>machine_ptr = m, disp = d, display_ready = True, last_tape_text = [], attr_luts = (\<lambda>_. None)\<rparr>,
      drawing = False, pushed = [], handled = [], freed = False\<rparr>"

lemma boot_machine_ok: "boot_machine h mem i ro_ok get_ok store = Some m \<Longrightarrow> host_ok h \<Longrightarrow> mach_inv m"
  using mach_reset_ok [OF mach_loadROM_ok [OF create_ok]]
  by (auto simp: boot_machine_def case_prod_beta Let_def split: if_splits)


text \<open>A platform with a 48K ROM of no-operations, for the witnesses.\<close>

definition sample_host :: host where
  "sample_host =
     \<lparr>h_files = (\<lambda>_. Some (replicate 16384 0)), h_rom = Some (0, 0), h_ram = Some (1, 0),
      h_banks = (\<lambda>i. Some (i + 1, 0)), h_buffer = replicate SAMPLES_PER_FRAME 0, h_tape_alloc = True,
      h_tape_read = 0, h_snap_alloc = True, h_tmp48 = None\<rparr>"

definition sample_display :: display where
  "sample_display =
     \<lparr>frame_buffers = (\<lambda>_. None), draw_buffer = 0, overlay_text = [], overlay_color = 0xFFFF,
      overlay_clear_frames = 0, pause_video = False, video_task = True, s_trans_count = 0\<rparr>"

lemma sample_host_ok: "host_ok sample_host"
  unfolding host_ok_def
  by (intro exI [of _ "(0, 0)"] exI [of _ "(1, 0)"] exI [of _ "\<lambda>i. (i + 1, 0)"])
    (simp add: sample_host_def banks_apart_def)

lemma sample_boot: "\<exists>m. boot_machine sample_host (\<lambda>_. 0) input_new False False Map.empty = Some m"
proof -
  have "rom (ctx (spectrum48_new (\<lambda>_. 0) input_new (Some (0, 0)) (Some (1, 0)))) = Some (0, 0)
      \<and> rom_size (ctx (spectrum48_new (\<lambda>_. 0) input_new (Some (0, 0)) (Some (1, 0)))) = 16384"
    by (simp add: spectrum48_new_def Let_def fill_opt_def map48_def map_ram48_def updateMap_def ROM_SIZE_48_def)
  then show ?thesis
    by (simp add: boot_machine_def getStoredModelPreference_def sample_host_def createSpectrumInstance_def
        loadROM_def Let_def)
qed


section \<open>The frame loop\<close>

primrec mach_steps :: "nat \<Rightarrow> mach \<Rightarrow> (int \<times> mach) option" where
  "mach_steps 0 m = Some (0, m)"
| "mach_steps (Suc n) m = Option.bind (mach_step m) (\<lambda>(t, m). map_option (\<lambda>(T, m). (t + T, m)) (mach_steps n m))"

text \<open>The instructions of a frame return, and none takes longer than the frame's slack.\<close>

definition frame_live :: "int \<Rightarrow> mach \<Rightarrow> bool" where
  "frame_live T m \<longleftrightarrow> (\<forall>n U m'. mach_steps n m = Some (U, m') \<longrightarrow> T + U < T_STATES_PER_FRAME
     \<longrightarrow> (\<exists>t m''. mach_step m' = Some (t, m'') \<and> t \<le> 65311))"

lemma frame_live_step:
  assumes "frame_live T m" "mach_step m = Some (t, m')"
  shows "frame_live (T + t) m'"
  unfolding frame_live_def
proof (intro allI impI)
  fix n U m''
  assume n: "mach_steps n m' = Some (U, m'')" "T + t + U < T_STATES_PER_FRAME"
  then have "mach_steps (Suc n) m = Some (t + U, m'')" using assms(2) by simp
  then show "\<exists>t m'. mach_step m'' = Some (t, m') \<and> t \<le> 65311"
    using assms(1) n(2) unfolding frame_live_def by (metis add.assoc)
qed

lemma run_frame_returns:
  assumes "mach_inv m" "frame_live T m" "T < T_STATES_PER_FRAME + 65311"
  shows "\<exists>T' m'. run_frame T m = Some (T', m') \<and> T \<le> T' \<and> T_STATES_PER_FRAME \<le> T'
    \<and> T' < T_STATES_PER_FRAME + 65311 \<and> mach_inv m' \<and> mach_clock m' = (mach_clock m + nat (T' - T)) mod FRAME_T_STATES"
  using assms
proof (induction "nat (T_STATES_PER_FRAME - T)" arbitrary: T m rule: less_induct)
  case less
  have clk: "mach_clock m < FRAME_T_STATES"
    using less.prems(1) by (cases rule: mach_invE) (auto simp: mach_clock_def full_inv_def core_ok_def)
  show ?case
  proof (cases "T < T_STATES_PER_FRAME")
    case False
    then show ?thesis using less.prems clk by (subst run_frame.simps) auto
  next
    case True
    have "mach_steps 0 m = Some (0, m)" by simp
    then obtain t u where u: "mach_step m = Some (t, u)" "t \<le> 65311"
      using less.prems(2) True unfolding frame_live_def by (metis add_0_right)
    note k = mach_step_ok [OF u(1) less.prems(1) u(2)]
    have "\<exists>T' m'. run_frame (T + t) u = Some (T', m') \<and> T + t \<le> T' \<and> T_STATES_PER_FRAME \<le> T'
        \<and> T' < T_STATES_PER_FRAME + 65311 \<and> mach_inv m' \<and> mach_clock m' = (mach_clock u + nat (T' - (T + t))) mod FRAME_T_STATES"
      using less.hyps [of "T + t" u] k True frame_live_step [OF less.prems(2) u(1)] u(2) by simp
    then obtain T' m' where r: "run_frame (T + t) u = Some (T', m')" "T + t \<le> T'" "T_STATES_PER_FRAME \<le> T'"
      "T' < T_STATES_PER_FRAME + 65311" "mach_inv m'" "mach_clock m' = (mach_clock u + nat (T' - (T + t))) mod FRAME_T_STATES"
      by blast
    have "nat (T' - T) = nat t + nat (T' - (T + t))" using r(2) k(3) by linarith
    then have "mach_clock m' = (mach_clock m + nat (T' - T)) mod FRAME_T_STATES"
      unfolding r(6) k(2) by (simp add: mod_add_left_eq add.assoc)
    then show ?thesis using r u True k(3) by (subst run_frame.simps) auto
  qed
qed

text \<open>C13 (frame_runs): If its instructions return within 65311 T-states each, the loop of a frame ends
after at least 69888 T-states with the machine's invariant kept and its clock moved by what has
run, modulo a frame.\<close>

theorem frame_runs:
  assumes "mach_inv m" "frame_live 0 m"
  shows "\<exists>T m'. run_frame 0 m = Some (T, m') \<and> T_STATES_PER_FRAME \<le> T \<and> T < T_STATES_PER_FRAME + 65311
    \<and> mach_inv m' \<and> mach_clock m' = (mach_clock m + nat T) mod FRAME_T_STATES"
  using run_frame_returns [OF assms] by (auto simp: T_STATES_PER_FRAME_def)

text \<open>A halted machine with interrupts off and no tape: every step takes four T-states.\<close>

definition quiet :: "'m machine \<Rightarrow> bool" where
  "quiet s \<longleftrightarrow> halted s \<noteq> 0 \<and> iff1 s = 0 \<and> \<not> isLoaded (sp_tape (ctx s))"

lemma quiet_flush: "quiet s \<Longrightarrow> quiet (flushTape ra s)"
proof -
  have "isLoaded (sp_tape (ctx (flushTape ra s))) = isLoaded (sp_tape (ctx s))"
    using flushTape_form [of ra s] by (auto simp: isLoaded_def fixed_part_def)
  moreover have "halted (flushTape ra s) = halted s" "iff1 (flushTape ra s) = iff1 s"
    by (simp_all add: flushTape_def Let_def case_prod_beta)
  ultimately show "quiet s \<Longrightarrow> quiet (flushTape ra s)" by (simp add: quiet_def)
qed

lemma quiet_upd:
  "quiet s \<Longrightarrow> sp_tape (f (ctx s)) = sp_tape (ctx s) \<Longrightarrow> quiet (upd_ctx f s)"
  by (simp add: quiet_def)

lemma quiet_ula:
  assumes "quiet s"
  shows "\<exists>s'. advanceULA ra B s t = Some s' \<and> quiet s'"
proof -
  have i: "z80_interrupt B u d = Some (0, u)" if "quiet u" for u d
    using that by (simp add: z80_interrupt_def quiet_def)
  define s1 where "s1 = upd_ctx (\<lambda>c. c\<lparr>ula_clocks := u32_of (ula_clocks c + nat (t mod 2 ^ 32))\<rparr>) s"
  define s2 where "s2 = upd_ctx publish_frame (upd_ctx (\<lambda>c. c\<lparr>ula_clocks := ula_clocks c - FRAME_T_STATES\<rparr>) (flushTape ra s1))"
  have q1: "quiet s1" unfolding s1_def by (rule quiet_upd [OF assms]) simp
  have q2: "quiet s2" unfolding s2_def
    by (intro quiet_upd quiet_flush q1) (simp_all add: publish_frame_def Let_def)
  have q: "quiet (upd_ctx (\<lambda>c. let (cycle, scanline) = ula_lines ((ula_cycle c + nat (t mod 2 ^ 16)) mod 2 ^ 16) (ula_scanline c)
      in c\<lparr>ula_cycle := cycle, ula_scanline := scanline\<rparr>) u)" if "quiet u" for u
    by (rule quiet_upd [OF that]) (simp add: case_prod_beta)
  show ?thesis
    using i [OF q2] q [OF q1] q [OF q2]
    unfolding advanceULA_def Let_def s1_def [symmetric] s2_def [symmetric] by auto
qed

lemma quiet_step:
  assumes "quiet s"
  shows "\<exists>s'. spec_step ra B s = Some (4, s') \<and> quiet s'"
proof -
  have "\<exists>u. z80_step B s = Some (4, u) \<and> halted u \<noteq> 0 \<and> iff1 u = 0 \<and> ctx u = ctx s"
    using assms by (simp add: z80_step_def Let_def INC_R_def quiet_def)
  then obtain u where "z80_step B s = Some (4, u)" "quiet u" using assms by (auto simp: quiet_def)
  then have u: "step_cpu ra B s = Some (4, u)" "quiet u"
    using assms by (simp_all add: step_cpu_def quiet_def)
  obtain v where v: "advanceULA ra B (upd_ctx (\<lambda>c. c\<lparr>pending_tape := pending_tape c + 4\<rparr>) u) 4 = Some v" "quiet v"
    using quiet_ula [OF quiet_upd [OF u(2), of "\<lambda>c. c\<lparr>pending_tape := pending_tape c + 4\<rparr>"], of ra B 4] by auto
  have "quiet (auto_play mode v)" for mode
    using v(2) by (auto simp: auto_play_def quiet_def)
  then show ?thesis using u v by (simp add: spec_step_def)
qed

lemma quiet_steps:
  assumes "quiet s" "mach_steps n (M48 s) = Some (U, m')"
  shows "\<exists>s'. m' = M48 s' \<and> quiet s'"
  using assms
proof (induction n arbitrary: s U)
  case (Suc n)
  obtain s' where "step48 s = Some (4, s')" "quiet s'" using quiet_step [OF Suc.prems(1)] unfolding step48_def by blast
  then show ?case using Suc.IH [of s'] Suc.prems(2) by auto
next
  case 0
  then show ?case by auto
qed

lemma quiet_live: "quiet s \<Longrightarrow> frame_live T (M48 s)"
  unfolding frame_live_def
proof (intro allI impI)
  fix n U m'
  assume q: "quiet s" and n: "mach_steps n (M48 s) = Some (U, m')"
  obtain s' where "m' = M48 s'" "quiet s'" using quiet_steps [OF q n] by blast
  then show "\<exists>t m''. mach_step m' = Some (t, m'') \<and> t \<le> 65311"
    using quiet_step [of s' rom_active48 bus48] by (auto simp: step48_def)
qed

lemma quiet48: "quiet sample48"
proof -
  have "iff1 sample48 = 0"
    by (simp add: sample48_def spectrum48_new_def Let_def map48_def map_ram48_def updateMap_def fill_opt_def z80_init_def z80_zero_def)
  then show ?thesis using sample_fields48 by (simp add: quiet_def)
qed

theorem frame_runs_witness:
  "\<exists>T m'. run_frame 0 (M48 sample48) = Some (T, m') \<and> T_STATES_PER_FRAME \<le> T \<and> mach_inv m'"
  using frame_runs [OF mach_invI(1) [OF sample_ok(2)] quiet_live [OF quiet48]] by blast

section \<open>Input\<close>

lemma mach_input_set [simp]: "mach_input (set_input i m) = i"
  by (cases m) simp_all

text \<open>A key event arrives at the matrix, and only there.\<close>

lemma ws_key_event:
  assumes "mach_inv (machine_ptr e)" "unat row < 8" "unat n < 5"
  shows "\<exists>cmd e'. ws_handler False True True Binary [row, n, pressed] q = (True, q @ [cmd])
    \<and> process_command h cmd e = Some e' \<and> disp e' = disp e \<and> mach_tape (machine_ptr e') = mach_tape (machine_ptr e)
    \<and> (\<forall>r<8. \<forall>k. key_down (mach_input (machine_ptr e')) r k =
         (if r = unat row \<and> k = unat n then pressed \<noteq> 0 else key_down (mach_input (machine_ptr e)) r k))"
proof -
  let ?cmd = "key_command row n pressed" and ?i = "mach_input (machine_ptr e)"
  let ?e' = "on_mach (set_input (input_update_key ?i (unat row) (unat n) (pressed \<noteq> 0))) e"
  have ints: "nat (uint row mod 2 ^ 8) = unat row" "nat (uint n) = unat n"
    using uint_bounded [of row] by simp_all
  have p: "uint pressed \<noteq> 0 \<longleftrightarrow> pressed \<noteq> 0" by (simp add: unsigned_eq_0_iff)
  have row: "unat row \<noteq> 0xFF" using assms(2) by simp
  have kb: "keyboard_input (uint row) b e = ?e'" if "b AND 0xFF = uint n" "drop_bit 8 b AND 0xFF = uint pressed" for b
    using that ints row by (simp add: keyboard_input_def Let_def p on_mach_def)
  have "process_command h ?cmd e = Some (keyboard_input (int_arg1 ?cmd) (int_arg2 ?cmd) e)"
    by (simp add: process_command_def key_command_def)
  moreover have "int_arg1 ?cmd = uint row"
    "int_arg2 ?cmd = (uint n AND 0xFF) OR push_bit 8 (uint pressed AND 0xFF)"
    by (simp_all add: key_command_def)
  ultimately have "process_command h ?cmd e = Some ?e'"
    using kb [OF key_unpack] by (simp only:)
  moreover have "ws_handler False True True Binary [row, n, pressed] q = (True, q @ [?cmd])"
    by (simp add: ws_handler_def queue_push_def)
  moreover have "mach_tape (set_input i m) = mach_tape m" for i m by (cases m) simp_all
  ultimately show ?thesis
    using key_update [OF mach_input_ok [OF assms(1)] assms(2,3)]
    by (intro exI [of _ ?cmd] exI [of _ ?e']) (simp add: on_mach_def)
qed

end
