(* ===== verification/Machine_Ports.thy ===== *)
theory Machine_Ports
  imports Machine_Props
begin

text \<open>
  What a program sees at the shared port \<open>0xFE\<close> and on the floating bus.
\<close>

section \<open>The keyboard\<close>

lemma bit_keyboard_fold:
  "bit (fold (\<lambda>r kbd. if P r then kbd AND f r else kbd) rs acc) n \<longleftrightarrow>
     bit (acc :: u8) n \<and> (\<forall>r\<in>set rs. P r \<longrightarrow> bit (f r) n)"
  by (induction rs arbitrary: acc) (auto simp: bit_and_iff)

lemma row_selected: "r < 8 \<Longrightarrow> bit (c_uint8 (NOT (drop_bit 8 port))) r \<longleftrightarrow> \<not> bit (port :: u16) (8 + r)"
  by (simp add: bit_ucast_iff bit_not_iff bit_drop_bit_eq)

lemma keyboard_read_bit:
  assumes "n < 8"
  shows "bit (keyboard_read i port) n \<longleftrightarrow> (\<forall>r<8. \<not> bit port (8 + r) \<longrightarrow> \<not> key_down i r n)"
proof -
  have "(0xFF :: u8) = NOT 0" by simp
  then have f: "bit (0xFF :: u8) n" using assms by (simp only: bit_not_iff) simp
  have s: "set [0, 1, 2, 3, 4, 5, 6, 7] = {..<8::nat}" by auto
  have "bit (keyboard_read i port) n \<longleftrightarrow> (\<forall>r\<in>{..<8}. bit (c_uint8 (NOT (drop_bit 8 port))) r \<longrightarrow> bit (input_getKeyboardRow i r) n)"
    unfolding keyboard_read_def Let_def bit_keyboard_fold s using f by simp
  then show ?thesis by (auto simp: row_selected key_down_def input_getKeyboardRow_def)
qed

lemma port_bits:
  fixes k :: u8
  shows "n < 5 \<Longrightarrow> bit (((if e then (0xBF AND k) OR 0x40 else (0xBF AND k) AND NOT 0x40) :: u8) OR 0xA0) n = bit k n"
    "bit (((if e then (0xBF AND k) OR 0x40 else (0xBF AND k) AND NOT 0x40) :: u8) OR 0xA0) 6 = e"
    "bit (((if e then (0xBF AND k) OR 0x40 else (0xBF AND k) AND NOT 0x40) :: u8) OR 0xA0) 5"
    "bit (((if e then (0xBF AND k) OR 0x40 else (0xBF AND k) AND NOT 0x40) :: u8) OR 0xA0) 7"
proof -
  have n: "n = 0 \<or> n = 1 \<or> n = 2 \<or> n = 3 \<or> n = 4" if "n < 5" using that by arith
  show "n < 5 \<Longrightarrow> bit (((if e then (0xBF AND k) OR 0x40 else (0xBF AND k) AND NOT 0x40) :: u8) OR 0xA0) n = bit k n"
    by (drule n, elim disjE) (auto simp: bit_and_iff bit_or_iff bit_not_iff)
  show "bit (((if e then (0xBF AND k) OR 0x40 else (0xBF AND k) AND NOT 0x40) :: u8) OR 0xA0) 6 = e"
    "bit (((if e then (0xBF AND k) OR 0x40 else (0xBF AND k) AND NOT 0x40) :: u8) OR 0xA0) 5"
    "bit (((if e then (0xBF AND k) OR 0x40 else (0xBF AND k) AND NOT 0x40) :: u8) OR 0xA0) 7"
    by (auto simp: bit_and_iff bit_or_iff bit_not_iff)
qed

lemma flushTape_input: "sp_input (ctx (flushTape ra s)) = sp_input (ctx s)"
  using flushTape_form [of ra s] by auto

lemma port_FE_form:
  "fst (readPortFE ra s port) =
      ((if ear (sp_tape (ctx (flushTape ra s))) then (0xBF AND keyboard_read (sp_input (ctx s)) port) OR 0x40
        else (0xBF AND keyboard_read (sp_input (ctx s)) port) AND NOT 0x40) OR 0xA0)"
  by (simp add: readPortFE_def Let_def flushTape_input)

lemma port_FE_keys:
  "n < 5 \<Longrightarrow> bit (fst (readPortFE ra s port)) n \<longleftrightarrow> (\<forall>r<8. \<not> bit port (8 + r) \<longrightarrow> \<not> key_down (sp_input (ctx s)) r n)"
  unfolding port_FE_form using port_bits(1) keyboard_read_bit by auto

text \<open>
  The byte a program reads at an even port: the keys of the rows whose address lines are low, the
  level of the tape at the present T-state in bit 6, and ones in bits 5 and 7.
\<close>

theorem port_FE_read:
  "(\<forall>n<5. bit (fst (readPortFE ra s port)) n \<longleftrightarrow> \<not> (\<exists>r<8. \<not> bit port (8 + r) \<and> key_down (sp_input (ctx s)) r n))
   \<and> (bit (fst (readPortFE ra s port)) 6 \<longleftrightarrow>
        ear (if pending_tape (ctx s) \<le> 0 then sp_tape (ctx s)
             else fst (tape_advance (sp_tape (ctx s)) (nat (pending_tape (ctx s))))))
   \<and> bit (fst (readPortFE ra s port)) 5 \<and> bit (fst (readPortFE ra s port)) 7
   \<and> (0 \<le> pending_tape (ctx s) \<longrightarrow> pending_tape (ctx (snd (readPortFE ra s port))) = 0)"
proof -
  let ?u = "flushTape ra s"
  have t: "sp_tape (ctx ?u) = (if pending_tape (ctx s) \<le> 0 then sp_tape (ctx s)
      else fst (tape_advance (sp_tape (ctx s)) (nat (pending_tape (ctx s)))))"
  proof -
    have "sp_tape (fold (tape_toggle a k) evs c) = sp_tape c" for a k evs and c :: "'a spectrum_scheme"
      by (induction evs arbitrary: c) (simp_all add: tape_toggle_def Let_def case_prod_beta)
    then show ?thesis by (simp add: flushTape_def Let_def case_prod_beta flush_monitor_def)
  qed
  have p: "0 \<le> pending_tape (ctx s) \<Longrightarrow> pending_tape (ctx ?u) = 0" using flushTape_form [of ra s] by auto
  show ?thesis
    unfolding port_FE_form t [symmetric] using port_bits keyboard_read_bit p by (auto simp: readPortFE_def Let_def)
qed

theorem port_FE_read_witness:
  "bit (fst (readPortFE rom_active48 sample48 0xFEFE)) 3"
proof -
  have "\<not> key_down (sp_input (ctx sample48)) r 3" if "r < 8" for r
    using that by (simp add: sample48_def spectrum48_new_def Let_def map48_def map_ram48_def updateMap_def fill_opt_def
        z80_init_def z80_zero_def base_new_def spectrum.defs input_resetKeyboardRows_def key_down_def)
  then show ?thesis using port_FE_read [of rom_active48 sample48 "0xFEFE"] by auto
qed

section \<open>The floating bus\<close>

text \<open>
  Between its own fetches the ULA leaves the last byte it read on the bus.  The attribute address of
  \<open>getFloatingBusValue\<close> is the renderer's; its bitmap address is only on three lines of the screen.
\<close>

lemma screen_address_eq:
  assumes "y < 192"
  shows "unat (screenMemoryAddress y 0) = 0x4000 + (y mod 8) * 2048 + ((y div 8 mod 8) OR (y div 64)) * 256"
proof -
  let ?X = "0x4000 OR push_bit 11 (y AND 0x07) OR push_bit 5 (y AND 0x38) OR push_bit 2 (y AND 0xC0) OR (0 :: nat)"
  have f: "y AND 0xC0 = (y div 64) * 64" "y AND 0x07 = y mod 8" "y AND 0x38 = (y div 8 mod 8) * 8"
    using and_field [of y 6 2] and_field [of y 0 3] and_field [of y 3 3] assms
    by (simp_all add: mask_eq_exp_minus_1 push_bit_eq_mult)
  let ?B = "(y div 8 mod 8) OR (y div 64)"
  have "?B = take_bit 3 ?B"
    using assms by (simp add: take_bit_or take_bit_nat_eq_self less_mult_imp_div_less)
  then have b: "?B < 8" using take_bit_nat_less_exp [of 3 ?B] by simp
  have o: "((y div 8 mod 8) * 2 ^ 8) OR ((y div 64) * 2 ^ 8) = ?B * 2 ^ 8"
    by (simp only: push_bit_eq_mult [symmetric] push_bit_or)
  have "?X = (1 * 2 ^ 14) OR (((y mod 8) * 2 ^ 11) OR (((y div 8 mod 8) * 2 ^ 8) OR ((y div 64) * 2 ^ 8)))"
    unfolding f by (simp add: push_bit_eq_mult or.assoc mult.assoc)
  also have "\<dots> = (1 * 2 ^ 14) OR (((y mod 8) * 2 ^ 11) OR (?B * 2 ^ 8))" unfolding o ..
  also have "\<dots> = 0x4000 + (y mod 8) * 2048 + ?B * 256"
  proof -
    have l: "?B * 2 ^ 8 < 2 ^ 11" using b by simp
    have "(y mod 8) * 2 ^ 11 + ?B * 2 ^ 8 < 2 ^ 14"
    proof -
      have "a * 2048 + q * 256 < 16384" if "a < 8" "q < 8" for a q :: nat using that by linarith
      from this [OF _ b, of "y mod 8"] show ?thesis by simp
    qed
    then show ?thesis by (simp only: or_below [OF l] or_below) simp
  qed
  finally have X: "?X = 0x4000 + (y mod 8) * 2048 + ?B * 256" .
  have w: "screenMemoryAddress y 0 = of_nat ?X"
    by (simp add: screenMemoryAddress_def of_nat_or_eq of_nat_and_eq flip: push_bit_of_nat)
  have "0x4000 + (y mod 8) * 2048 + ?B * 256 < 65536"
  proof -
    have "y mod 8 < 8" by simp
    then show ?thesis using b by linarith
  qed
  then show ?thesis unfolding w X by (simp only: unsigned_of_nat) (simp add: take_bit_nat_eq_self)
qed

theorem floating_bus_addresses:
  assumes "line < 192" "x < 32"
  shows "attributeMemoryAddress line x = of_nat (0x4000 + attr_offset line x)
    \<and> (screenMemoryAddress line 0 = of_nat (0x4000 + bitmap_offset line 0) \<longleftrightarrow> line \<in> {0, 65, 130})"
proof
  show "attributeMemoryAddress line x = of_nat (0x4000 + attr_offset line x)"
    using assms by (simp add: attr_offset_eq attributeMemoryAddress_def)
  let ?a = "line mod 8" and ?b = "line div 8 mod 8" and ?c = "line div 64"
  have v: "0x4000 + bitmap_offset line 0 < 65536" "bitmap_offset line 0 = ?c * 2048 + ?a * 256 + ?b * 32"
    using assms by (simp_all add: bitmap_offset_eq less_mult_imp_div_less)
  have "unat (of_nat (0x4000 + bitmap_offset line 0) :: u16) = 0x4000 + bitmap_offset line 0"
    using v(1) by (simp only: unsigned_of_nat) (simp add: take_bit_nat_eq_self)
  then have "screenMemoryAddress line 0 = of_nat (0x4000 + bitmap_offset line 0)
      \<longleftrightarrow> ?a * 2048 + (?b OR ?c) * 256 = ?c * 2048 + ?a * 256 + ?b * 32"
    using screen_address_eq [OF assms(1)] by (simp only: word_unat_eq_iff v(2)) simp
  also have "\<dots> \<longleftrightarrow> ?b = 0 \<and> ?a = ?c"
  proof
    assume e: "?a * 2048 + (?b OR ?c) * 256 = ?c * 2048 + ?a * 256 + ?b * 32"
    have "b = 0" if "a * 2048 + q * 256 = c * 2048 + a * 256 + b * 32" "b < 8" for a b c q :: nat
    proof -
      have "int (a * 2048 + q * 256) = int (c * 2048 + a * 256 + b * 32)" unfolding that(1) ..
      then have "int b = 8 * (7 * int a + int q - 8 * int c)" by simp
      then show ?thesis using that(2) by presburger
    qed
    from this [OF e] have b: "?b = 0" by simp
    then have "?a * 2048 + ?c * 256 = ?c * 2048 + ?a * 256" using e by simp
    then show "?b = 0 \<and> ?a = ?c" using b by simp
  next
    assume "?b = 0 \<and> ?a = ?c"
    then show "?a * 2048 + (?b OR ?c) * 256 = ?c * 2048 + ?a * 256 + ?b * 32" by simp
  qed
  also have "\<dots> \<longleftrightarrow> line \<in> {0, 65, 130}"
  proof
    assume bc: "?b = 0 \<and> ?a = ?c"
    have "line = 8 * (line div 8) + ?a" "line div 8 = 8 * (line div 8 div 8) + ?b" by simp_all
    moreover have "line div 8 div 8 = ?c" by (simp flip: div_mult2_eq)
    ultimately have "line = 65 * ?c" using bc by linarith
    moreover have "?c = 0 \<or> ?c = 1 \<or> ?c = 2" using assms(1) by auto
    ultimately show "line \<in> {0, 65, 130}" by auto
  qed auto
  finally show "screenMemoryAddress line 0 = of_nat (0x4000 + bitmap_offset line 0) \<longleftrightarrow> line \<in> {0, 65, 130}" .
qed

theorem floating_bus_addresses_witness:
  "attributeMemoryAddress 1 2 = of_nat (0x4000 + attr_offset 1 2)
     \<and> screenMemoryAddress 1 0 \<noteq> of_nat (0x4000 + bitmap_offset 1 0)"
  using floating_bus_addresses [of 1 2] by simp

end
