(* ===== verification/System_Props.thy ===== *)
theory System_Props
  imports Emulator_Props Machine_Ports Machine_Memory
begin

text \<open>
  Properties that span the tasks: a key event from the browser to the byte a program reads, a frame of
  the emulator task as steps of the tasks' step relation, and the choice of the model from the web page
  through the storage to the next boot.
\<close>

section \<open>From the browser to the port\<close>

definition mach_in :: "mach \<Rightarrow> u16 \<Rightarrow> u8" where
  "mach_in m port = (case m of M48 s \<Rightarrow> fst (IN bus48 s port) | M128 s \<Rightarrow> fst (IN bus128 s port))"

lemma mach_in_keys:
  assumes "port AND 0x0001 = 0" "n < 5"
  shows "bit (mach_in m port) n \<longleftrightarrow> (\<forall>r<8. \<not> bit port (8 + r) \<longrightarrow> \<not> key_down (mach_input m) r n)"
  using assms by (cases m) (simp_all add: mach_in_def IN_def bus48_def bus128_def readPort48_def readPort128_def port_FE_keys)

text \<open>C11 (web_key_reaches_port): A key event sent over the WebSocket is queued, and once the emulator
task has taken it, a program that reads an even port finds each of the five key bits clear exactly
when a key of that column is down in a selected row: the sent key as the event says, every other
key as before.\<close>

theorem web_key_reaches_port:
  assumes "mach_inv (machine_ptr e)" "unat row < 8" "unat n < 5" "port AND 0x0001 = 0"
  shows "\<exists>cmd e'. ws_handler False True True Binary [row, n, pressed] q = (True, q @ [cmd])
    \<and> process_command h cmd e = Some e' \<and> mach_tape (machine_ptr e') = mach_tape (machine_ptr e)
    \<and> (\<forall>k<5. bit (mach_in (machine_ptr e') port) k \<longleftrightarrow>
         (\<forall>r<8. \<not> bit port (8 + r) \<longrightarrow>
            \<not> (if r = unat row \<and> k = unat n then pressed \<noteq> 0 else key_down (mach_input (machine_ptr e)) r k)))"
proof -
  have "\<exists>cmd e'. ws_handler False True True Binary [row, n, pressed] q = (True, q @ [cmd])
    \<and> process_command h cmd e = Some e' \<and> disp e' = disp e \<and> mach_tape (machine_ptr e') = mach_tape (machine_ptr e)
    \<and> (\<forall>r<8. \<forall>k. key_down (mach_input (machine_ptr e')) r k =
         (if r = unat row \<and> k = unat n then pressed \<noteq> 0 else key_down (mach_input (machine_ptr e)) r k))"
    by (rule ws_key_event [OF assms(1-3)])
  then show ?thesis using mach_in_keys [OF assms(4)] by (elim exE conjE) (intro exI conjI, assumption+, simp)
qed

definition sample_emu :: emu where
  "sample_emu = \<lparr>machine_ptr = M48 sample48, disp = sample_display, display_ready = True, last_tape_text = [], attr_luts = (\<lambda>_. None)\<rparr>"

text \<open>Caps shift pressed: the program that reads port \<open>0xFEFE\<close> finds bit 0 clear.\<close>

theorem web_key_reaches_port_witness:
  "\<exists>cmd e'. ws_handler False True True Binary [0, 0, 1] [] = (True, [cmd])
     \<and> process_command sample_host cmd sample_emu = Some e' \<and> \<not> bit (mach_in (machine_ptr e') 0xFEFE) 0"
proof -
  have m: "mach_inv (machine_ptr sample_emu)" using mach_invI(1) [OF sample_ok(2)] by (simp add: sample_emu_def)
  have p: "\<not> bit (0xFEFE :: u16) 8" by simp
  show ?thesis
    using web_key_reaches_port [OF m, of 0 0 "0xFEFE" 1 "[]" sample_host] p by fastforce
qed

section \<open>The emulator task as steps\<close>

text \<open>
  A command returns when the file it names, if any, can be read: a tape image whose block lengths do not
  wrap, a snapshot that holds the fields the loader reads without a check.
\<close>

definition is_tape_path :: "string \<Rightarrow> bool" where
  "is_tape_path path = (case strrchr path (CHR ''.'') of Some ext \<Rightarrow> tape_ext ext | None \<Rightarrow> False)"

definition readable :: "host \<Rightarrow> web_command \<Rightarrow> bool" where
  "readable h c \<longleftrightarrow>
     (case cmd_type c of
        LoadFile \<Rightarrow> (\<forall>d. h_files h (arg1 c) = Some d \<longrightarrow> (if is_tape_path (arg1 c) then tape_safe d else 55 \<le> length d))
      | TapeCmd \<Rightarrow> arg1 c = ''load'' \<longrightarrow> (\<forall>d. h_files h (arg2 c) = Some d \<longrightarrow> tape_safe d)
      | _ \<Rightarrow> True)"

lemma load_tape_returns:
  assumes "\<And>d. h_files h path = Some d \<Longrightarrow> tape_safe d"
  shows "\<exists>e'. load_tape h path e = Some e'"
proof -
  obtain ok t where "tape_load (mach_tape (machine_ptr e)) (h_files h path) (h_tape_alloc h) (h_tape_read h) = Some (ok, t)"
    using tape_load_returns assms by blast
  then show ?thesis by (simp add: load_tape_def)
qed

lemma snapshot_returns:
  assumes "\<And>d. content = Some d \<Longrightarrow> 55 \<le> length d"
  shows "snapshot_load L ok tmp content s \<noteq> None"
proof (cases content)
  case (Some d)
  have "hardware_state L n d u \<noteq> None" for n u
    using assms [OF Some] by (simp add: hardware_state_def Let_def split: option.split)
  then have "load_v23 L tmp d n u \<noteq> None" for n u
    by (simp add: load_v23_def Let_def case_prod_beta bind_eq_None_conv split: option.split del: not_None_eq)
  then show ?thesis by (simp add: snapshot_load_def Some Let_def case_prod_beta bind_eq_None_conv del: not_None_eq)
qed (simp add: snapshot_load_def)

lemma load_snapshot_returns:
  assumes "\<And>d. h_files h path = Some d \<Longrightarrow> 55 \<le> length d"
  shows "\<exists>e'. load_snapshot h path e = Some e'"
proof -
  have "mach_snapshot h (h_files h path) m \<noteq> None" for m
    using snapshot_returns [of "h_files h path" loader48] snapshot_returns [of "h_files h path" loader128] assms
    by (cases m) simp_all
  then have "load_snapshot h path e \<noteq> None" by (simp add: load_snapshot_def Let_def)
  then show ?thesis by blast
qed

lemma command_returns:
  assumes "readable h c"
  shows "\<exists>e'. process_command h c e = Some e'"
proof (cases "cmd_type c")
  case LoadFile
  let ?path = "arg1 c" and ?e = "show_text ''LOADING...'' 0xFFFF e"
  have r: "\<And>d. h_files h ?path = Some d \<Longrightarrow> if is_tape_path ?path then tape_safe d else 55 \<le> length d"
    using assms LoadFile by (simp add: readable_def)
  have "\<exists>e'. load_file h ?path e = Some e'"
  proof (cases "is_tape_path ?path")
    case True
    then have "\<exists>e'. load_tape h ?path ?e = Some e'" using r by (intro load_tape_returns) simp
    then show ?thesis using True by (auto simp: load_file_def is_tape_path_def Let_def split: option.splits)
  next
    case False
    then have "\<exists>e'. load_snapshot h ?path ?e = Some e'" using r by (intro load_snapshot_returns) simp
    then show ?thesis using False by (auto simp: load_file_def is_tape_path_def Let_def split: option.splits)
  qed
  then show ?thesis using LoadFile by (simp add: process_command_def)
next
  case TapeCmd
  have "\<exists>e'. tape_command h (arg1 c) (arg2 c) e = Some e'"
  proof (cases "arg1 c = ''load''")
    case True
    then show ?thesis using load_tape_returns [of h "arg2 c" e] assms TapeCmd by (simp add: readable_def tape_command_def)
  qed (simp add: tape_command_def)
  then show ?thesis using TapeCmd by (simp add: process_command_def)
qed (simp_all add: process_command_def)

lemma drain_returns:
  assumes "\<forall>c\<in>set q. readable h c"
  shows "\<exists>e'. drain_queue h q e = Some e'"
  using assms
proof (induction q arbitrary: e)
  case (Cons c q)
  obtain e1 where "process_command h c e = Some e1" using command_returns [of h c e] Cons.prems by auto
  then show ?case using Cons.IH [of e1] Cons.prems by simp
qed simp

text \<open>Draining the queue is one step of the relation for each command, in the order of the queue.\<close>

lemma run_trans: "sys_run u fs v \<Longrightarrow> sys_run s es u \<Longrightarrow> sys_run s (es @ fs) v"
proof (induction rule: sys_run.induct)
  case (run_more s' fs u x v)
  then show ?case using sys_run.run_more by (metis append.assoc)
qed simp

lemma run_one: "sys_step s x u \<Longrightarrow> sys_run s [x] u"
  using sys_run.run_more [OF sys_run.run_none] by fastforce

lemma drain_steps:
  assumes "drain_queue h q e = Some e'" "host_ok h" "phase s = Commands" "queue s = q" "em s = e" "\<not> drawing s"
  shows "sys_run s (map Take q) (s\<lparr>queue := [], em := e', handled := handled s @ q\<rparr>)"
  using assms
proof (induction q arbitrary: e s)
  case Nil
  then have "s\<lparr>queue := [], em := e', handled := handled s @ []\<rparr> = s" by (cases s) simp
  then show ?case using sys_run.run_none [of s] by simp
next
  case (Cons c q)
  then obtain e1 where e1: "process_command h c e = Some e1" "drain_queue h q e1 = Some e'"
    by (auto simp: bind_eq_Some_conv)
  let ?s = "s\<lparr>queue := q, em := e1, handled := handled s @ [c]\<rparr>"
  have "sys_step s (Take c) (s\<lparr>queue := q, em := e1, handled := handled s @ [c],
      freed := freed s \<or> drawing s \<and> replaces_machine h c (em s)\<rparr>)"
    using Cons.prems e1(1) by (intro sys_step.pop) (simp_all add: queue_pop_def)
  moreover have "s\<lparr>queue := q, em := e1, handled := handled s @ [c],
      freed := freed s \<or> drawing s \<and> replaces_machine h c (em s)\<rparr> = ?s" using Cons.prems(6) by (cases s) simp
  ultimately have s: "sys_run s [Take c] ?s" by (metis run_one)
  have "sys_run ?s (map Take q) (?s\<lparr>queue := [], em := e', handled := handled ?s @ q\<rparr>)"
    by (rule Cons.IH [OF e1(2)]) (use Cons.prems in simp_all)
  then show ?case using run_trans [OF _ s] by fastforce
qed

lemma frame_steps:
  assumes "mach_inv m" "frame_live T m" "T < T_STATES_PER_FRAME + 65311" "phase s = Running T" "machine_ptr (em s) = m"
  shows "\<exists>ts m'. run_frame T m = Some (T + sum_list ts, m') \<and> \<not> T + sum_list ts < T_STATES_PER_FRAME
    \<and> (\<forall>t\<in>set ts. 4 \<le> t \<and> t \<le> 65311)
    \<and> sys_run s (map Instr ts) (s\<lparr>phase := Running (T + sum_list ts), em := (em s)\<lparr>machine_ptr := m'\<rparr>\<rparr>)"
  using assms
proof (induction "nat (T_STATES_PER_FRAME - T)" arbitrary: T m s rule: less_induct)
  case less
  show ?case
  proof (cases "T < T_STATES_PER_FRAME")
    case False
    have "s\<lparr>phase := Running T, em := (em s)\<lparr>machine_ptr := m\<rparr>\<rparr> = s" using less.prems(4,5) by simp
    then show ?thesis
      using False sys_run.run_none [of s] by (intro exI [of _ "[]"] exI [of _ m]) (simp add: run_frame.simps)
  next
    case True
    have "mach_steps 0 m = Some (0, m)" by simp
    then obtain t u where u: "mach_step m = Some (t, u)" "t \<le> 65311"
      using less.prems(2) True unfolding frame_live_def by (metis add_0_right)
    note k = mach_step_ok [OF u(1) less.prems(1) u(2)]
    let ?s = "s\<lparr>phase := Running (T + t), em := (em s)\<lparr>machine_ptr := u\<rparr>\<rparr>"
    have st: "sys_run s [Instr t] ?s"
      using less.prems(4,5) True u by (intro run_one sys_step.instr) simp_all
    have "\<exists>ts m'. run_frame (T + t) u = Some (T + t + sum_list ts, m') \<and> \<not> T + t + sum_list ts < T_STATES_PER_FRAME
        \<and> (\<forall>t\<in>set ts. 4 \<le> t \<and> t \<le> 65311)
        \<and> sys_run ?s (map Instr ts) (?s\<lparr>phase := Running (T + t + sum_list ts), em := (em ?s)\<lparr>machine_ptr := m'\<rparr>\<rparr>)"
      by (rule less.hyps) (use k True frame_live_step [OF less.prems(2) u(1)] u(2) in simp_all)
    then obtain ts m' where r: "run_frame (T + t) u = Some (T + t + sum_list ts, m')" "\<not> T + t + sum_list ts < T_STATES_PER_FRAME"
      "\<forall>t\<in>set ts. 4 \<le> t \<and> t \<le> 65311"
      "sys_run ?s (map Instr ts) (?s\<lparr>phase := Running (T + t + sum_list ts), em := (em ?s)\<lparr>machine_ptr := m'\<rparr>\<rparr>)"
      by blast
    have "run_frame T m = Some (T + sum_list (t # ts), m')" using True u(1) r(1) by (subst run_frame.simps) (simp add: add.assoc)
    then show ?thesis
      using r(2,3) run_trans [OF r(4) st] k(3) u(2) by (intro exI [of _ "t # ts"] exI [of _ m']) (simp add: add.assoc)
  qed
qed

text \<open>C1 (frame_refines_steps): A pass of the emulator task - every queued command in order, then
instructions until a frame is over, then the overlay and the sound - is a run of the step relation
of the tasks, one step a command and one an instruction, from an idle state to an idle state with
the queue empty and the commands handled in order. It returns, on a machine in its invariant, on a
platform whose memory allocations succeed and with no picture being drawn, when the files the
commands name can be loaded (a tape whose length fields do not wrap, a snapshot of at least 55
bytes) and when every instruction of the frame returns within 65311 T-states.\<close>

theorem frame_refines_steps:
  assumes "host_ok h" "mach_inv (machine_ptr e)" "\<forall>c\<in>set q. readable h c"
    and "\<And>e1. drain_queue h q e = Some e1 \<Longrightarrow> frame_live 0 (machine_ptr e1)"
    and "phase s = Commands" "queue s = q" "em s = e" "\<not> drawing s"
  shows "\<exists>e' ts. emulator_frame h q e = Some e'
    \<and> sys_run s (map Take q @ [FrameStart] @ map Instr ts @ [FrameEnd]) (s\<lparr>queue := [], em := e', handled := handled s @ q\<rparr>)
    \<and> (\<forall>t\<in>set ts. 4 \<le> t \<and> t \<le> 65311) \<and> T_STATES_PER_FRAME \<le> sum_list ts"
proof -
  obtain e1 where e1: "drain_queue h q e = Some e1" using drain_returns [OF assms(3)] by blast
  let ?s1 = "s\<lparr>queue := [], em := e1, handled := handled s @ q\<rparr>"
  have s1: "sys_run s (map Take q) ?s1" by (rule drain_steps [OF e1 assms(1,5-8)])
  have "mach_inv (machine_ptr e')" if "drain_queue h cs e0 = Some e'" "mach_inv (machine_ptr e0)" for cs e0 e'
    using that by (induction cs arbitrary: e0) (auto simp: bind_eq_Some_conv dest: process_command_ok [OF _ assms(1)])
  then have m1: "mach_inv (machine_ptr e1)" using assms(2) e1 by blast
  let ?s2 = "?s1\<lparr>phase := Running 0\<rparr>"
  have s2: "sys_step ?s1 FrameStart ?s2" by (rule sys_step.start) (simp_all add: assms(5) queue_pop_def)
  obtain ts m' where r: "run_frame 0 (machine_ptr e1) = Some (sum_list ts, m')" "\<not> sum_list ts < T_STATES_PER_FRAME"
    "\<forall>t\<in>set ts. 4 \<le> t \<and> t \<le> 65311"
    "sys_run ?s2 (map Instr ts) (?s2\<lparr>phase := Running (sum_list ts), em := (em ?s2)\<lparr>machine_ptr := m'\<rparr>\<rparr>)"
    using frame_steps [OF m1 assms(4) [OF e1], of ?s2] by (auto simp: T_STATES_PER_FRAME_def)
  let ?s3 = "?s2\<lparr>phase := Running (sum_list ts), em := (em ?s2)\<lparr>machine_ptr := m'\<rparr>\<rparr>"
  let ?s4 = "?s3\<lparr>phase := Commands, em := end_of_frame (machine_ptr (em ?s3)) (em ?s3)\<rparr>"
  have "sys_step ?s3 FrameEnd ?s4" by (rule sys_step.finish [of _ "sum_list ts"]) (use r(2) in simp_all)
  then have "sys_run ?s2 (map Instr ts @ [FrameEnd]) ?s4" by (rule sys_run.run_more [OF r(4)])
  then have "sys_run s (map Take q @ [FrameStart] @ map Instr ts @ [FrameEnd]) ?s4"
    using run_trans [OF _ run_trans [OF run_one [OF s2] s1]] by fastforce
  moreover have "emulator_frame h q e = Some (end_of_frame m' e1)" using r(1) e1 by (simp add: emulator_frame_def)
  moreover have "end_of_frame m' (e1\<lparr>machine_ptr := m'\<rparr>) = end_of_frame m' e1" by (simp add: end_of_frame_def)
  moreover have "?s4 = s\<lparr>queue := [], em := end_of_frame m' (e1\<lparr>machine_ptr := m'\<rparr>), handled := handled s @ q\<rparr>"
    using assms(5) by (cases s) simp
  ultimately show ?thesis using r(2,3) by (intro exI [of _ "end_of_frame m' e1"] exI [of _ ts]) simp
qed

definition sample_sys :: "web_command list \<Rightarrow> sys" where
  "sample_sys q = \<lparr>phase = Commands, queue = q, em = sample_emu, drawing = False, pushed = q, handled = [], freed = False\<rparr>"

text \<open>A pass that switches the tape monitor off and then runs a frame.\<close>

theorem frame_refines_steps_witness:
  "\<exists>e' ts. emulator_frame sample_host [web_command_new\<lparr>cmd_type := TapeSetMonitor\<rparr>] sample_emu = Some e'
     \<and> sys_run (sample_sys [web_command_new\<lparr>cmd_type := TapeSetMonitor\<rparr>])
         (Take (web_command_new\<lparr>cmd_type := TapeSetMonitor\<rparr>) # FrameStart # map Instr ts @ [FrameEnd])
         ((sample_sys [web_command_new\<lparr>cmd_type := TapeSetMonitor\<rparr>])\<lparr>queue := [], em := e',
            handled := [web_command_new\<lparr>cmd_type := TapeSetMonitor\<rparr>]\<rparr>)"
proof -
  let ?c = "web_command_new\<lparr>cmd_type := TapeSetMonitor\<rparr>"
  have m: "mach_inv (machine_ptr sample_emu)" using mach_invI(1) [OF sample_ok(2)] by (simp add: sample_emu_def)
  have f: "\<forall>c\<in>set [?c]. readable sample_host c" by (simp add: readable_def)
  have "quiet (upd_ctx (\<lambda>c. c\<lparr>tape_monitor := False\<rparr>) sample48)" by (rule quiet_upd [OF quiet48]) simp
  then have l: "frame_live 0 (machine_ptr e1)" if "drain_queue sample_host [?c] sample_emu = Some e1" for e1
    using that by (auto simp: process_command_def on_mach_def sample_emu_def web_command_new_def intro: quiet_live)
  show ?thesis
    using frame_refines_steps [OF sample_host_ok m f l, of "sample_sys [?c]"] by (simp add: sample_sys_def) blast
qed

section \<open>The choice of the model\<close>

fun is128k :: "mach \<Rightarrow> bool" where
  "is128k (M48 s) = False"
| "is128k (M128 s) = True"

lemma is128k_ops [simp]:
  "is128k (mach_reset m) = is128k m" "is128k (snd (mach_loadROM c m)) = is128k m" "is128k (createSpectrumInstance h b mem i) = b"
  by (cases m; simp add: createSpectrumInstance_def)+

text \<open>The ROM files of the two machines are there and fit.\<close>

definition roms_there :: "host \<Rightarrow> bool" where
  "roms_there h \<longleftrightarrow> host_ok h \<and> (\<exists>d. h_files h ''/spiffs/48k.rom'' = Some d \<and> ROM_SIZE_48 \<le> length d)
     \<and> (\<exists>d. h_files h ''/spiffs/128k.rom'' = Some d \<and> ROM_SIZE_128 \<le> length d)"

lemma new_rom:
  "rom (ctx (spectrum48_new mem i (Some r) (Some p))) = Some r \<and> rom_size (ctx (spectrum48_new mem i (Some r) (Some p))) = ROM_SIZE_48"
  "rom (ctx (spectrum128_new mem i (Some r) banks buf)) = Some r \<and> rom_size (ctx (spectrum128_new mem i (Some r) banks buf)) = ROM_SIZE_128"
  by (simp_all add: spectrum48_new_def spectrum128_new_def Let_def fill_opt_def map48_wired)

lemma loads:
  assumes "roms_there h"
  shows "fst (mach_loadROM (h_files h (if b then ''/spiffs/128k.rom'' else ''/spiffs/48k.rom'')) (createSpectrumInstance h b mem i))"
proof -
  obtain r p where h: "h_rom h = Some r" "h_ram h = Some p" using assms by (auto simp: roms_there_def host_ok_def)
  then show ?thesis
    using assms by (auto simp: roms_there_def createSpectrumInstance_def loadROM_def new_rom Let_def)
qed

text \<open>
  What keeps a model change apart from a picture is timing alone: from every idle state with a change in
  the queue there is a run in which the machine is deleted while the video task draws it.
\<close>

lemma model_change_under_picture:
  assumes "roms_there h" "phase s = Commands" "\<not> drawing s" "queue s = c # q" "cmd_type c = ChangeModel"
  shows "\<exists>u. sys_run s [PictureStart, Take c, PictureEnd] u \<and> freed u"
proof -
  let ?s = "s\<lparr>drawing := True\<rparr>"
  have h: "host_ok h" using assms(1) by (simp add: roms_there_def)
  have "replaces_machine h c (em ?s)"
    using loads [OF assms(1), of "arg1 c = ''128k''"] assms(5) by (simp add: replaces_machine_def)
  moreover obtain e where e: "process_command h c (em ?s) = Some e" using assms(5) by (simp add: process_command_def)
  ultimately have "sys_step ?s (Take c) (?s\<lparr>queue := q, em := e, handled := handled s @ [c], freed := True\<rparr>)"
    using sys_step.pop [of ?s c q h e] assms(2,4) h by (simp add: queue_pop_def)
  moreover have "sys_step s PictureStart ?s" by (rule sys_step.video_start [OF assms(3)])
  moreover define u where "u = ?s\<lparr>queue := q, em := e, handled := handled s @ [c], freed := True\<rparr>"
  moreover have "sys_step u PictureEnd (u\<lparr>drawing := False, em := video_frame (\<lambda>_. True) (em u)\<rparr>)"
    by (rule sys_step.video_end) (simp add: u_def)
  ultimately have "sys_run s ([PictureStart] @ [Take c] @ [PictureEnd]) (u\<lparr>drawing := False, em := video_frame (\<lambda>_. True) (em u)\<rparr>)"
    by (intro run_trans [OF run_trans [OF run_one run_one] run_one]) auto
  then show ?thesis by (intro exI [of _ "u\<lparr>drawing := False, em := video_frame (\<lambda>_. True) (em u)\<rparr>"]) (simp add: u_def)
qed

text \<open>C12 (model_choice_persists): A model chosen on the web page is queued and stored in non-volatile
storage under the name space and key spectrum_config/model, and under no other; the emulator task
then runs a machine of that model, the next boot, which reads that entry, does too, and the page
is told it when it asks. Both ROM files have to be there and the calls of the storage to succeed.\<close>

theorem model_choice_persists:
  assumes "roms_there h" "kv ''model'' 32 = Some m" "m = ''48k'' \<or> m = ''128k''"
  shows "\<exists>cmd e' store'. model_handler True kv ro_ok get_ok True True True store q = (SentModel m, store', q @ [cmd])
    \<and> process_command h cmd e = Some e' \<and> is128k (machine_ptr e') = (m = ''128k'')
    \<and> (\<exists>m'. boot_machine h mem i True True store' = Some m' \<and> is128k m' = (m = ''128k''))
    \<and> model_handler False kv' True True rw set_ok commit store' q' = (SentModel m, store', q')
    \<and> (\<forall>k. k \<noteq> (''spectrum_config'', ''model'') \<longrightarrow> store' k = store k)"
proof -
  let ?b = "m = ''128k''" and ?cmd = "web_command_new\<lparr>cmd_type := ChangeModel, arg1 := m\<rparr>"
    and ?store = "store((''spectrum_config'', ''model'') \<mapsto> m)"
  have f: "h_files h (if ?b then ''/spiffs/128k.rom'' else ''/spiffs/48k.rom'') \<noteq> None"
    using assms(1) by (auto simp: roms_there_def)
  have boot: "\<exists>m'. boot_machine h mem i True True ?store = Some m' \<and> is128k m' = ?b"
    using f loads [OF assms(1), of ?b mem i] by (auto simp: boot_machine_def getStoredModelPreference_def case_prod_beta Let_def)
  have "is128k (machine_ptr (change_model h m e)) = ?b"
    using loads [OF assms(1), of ?b "mach_heap (machine_ptr e)" "mach_input (machine_ptr e)"]
    by (simp add: change_model_def case_prod_beta Let_def)
  moreover have "model_handler True kv ro_ok get_ok True True True store q = (SentModel m, ?store, q @ [?cmd])"
    using assms(2,3) by (auto simp: model_handler_def queue_push_def)
  moreover have "process_command h ?cmd e = Some (change_model h m e)" by (simp add: process_command_def)
  moreover have "model_handler False kv' True True rw set_ok commit ?store q' = (SentModel m, ?store, q')"
    by (simp add: model_handler_def)
  ultimately show ?thesis
    using boot by (intro exI [of _ ?cmd] exI [of _ "change_model h m e"] exI [of _ ?store]) simp
qed

text \<open>A platform with both ROM files.\<close>

definition sample_host2 :: host where
  "sample_host2 = sample_host\<lparr>h_files := (\<lambda>_. Some (replicate 0x8000 0))\<rparr>"

lemma sample_roms: "roms_there sample_host2"
  using sample_host_ok by (simp add: roms_there_def sample_host2_def host_ok_def ROM_SIZE_48_def ROM_SIZE_128_def)

theorem model_choice_persists_witness:
  "\<exists>cmd e' store'. model_handler True (\<lambda>_ _. Some ''128k'') True True True True True Map.empty []
       = (SentModel ''128k'', store', [cmd])
     \<and> process_command sample_host2 cmd sample_emu = Some e' \<and> is128k (machine_ptr e')
     \<and> (\<exists>m'. boot_machine sample_host2 (\<lambda>_. 0) input_new True True store' = Some m' \<and> is128k m')"
proof -
  have "\<exists>cmd e' store'. model_handler True (\<lambda>_ _. Some ''128k'') True True True True True Map.empty []
       = (SentModel ''128k'', store', [] @ [cmd])
     \<and> process_command sample_host2 cmd sample_emu = Some e' \<and> is128k (machine_ptr e') = (''128k'' = ''128k'')
     \<and> (\<exists>m'. boot_machine sample_host2 (\<lambda>_. 0) input_new True True store' = Some m' \<and> is128k m' = (''128k'' = ''128k''))
     \<and> model_handler False (\<lambda>_ _. None) True True True True True store' [] = (SentModel ''128k'', store', [])
     \<and> (\<forall>k. k \<noteq> (''spectrum_config'', ''model'') \<longrightarrow> store' k = Map.empty k)"
    by (rule model_choice_persists [OF sample_roms]) simp_all
  then show ?thesis by (simp only: append_Nil simp_thms) blast
qed

end
