(* ===== verification/Audio.thy ===== *)
theory Audio
  imports Emulator
begin

text \<open>
  The sound output of \<open>src/src/audio/Audio.cpp\<close>: the mixer, the master filter, the volume and mute
  controls, the loop that hands a frame to the I2S driver, and the boot tone.

  \<^item> The functions of the ESP-DSP library are the parameter \<open>dsp\<close>; what the mixer relies on of them is
    \<open>dsp_ok\<close>.  The driver's calls are parameters too: which calls of \<open>audio_init\<close> succeed, and for
    each call of \<open>i2s_channel_write\<close> its result and the bytes it took.
  \<^item> The scratch arrays are written before they are read in every call, so they are local here.
  \<^item> \<open>float\<close> values are rounded as in theory \<open>IEEE\<close>.
\<close>

section \<open>State\<close>

record dsp =
  dsps_mulc :: "rat list \<Rightarrow> rat \<Rightarrow> rat list"
  dsps_add :: "rat list \<Rightarrow> rat list \<Rightarrow> rat list"
  dsps_biquad :: "rat list \<Rightarrow> rat list \<Rightarrow> rat list \<Rightarrow> rat list \<times> rat list"
  dsps_gen_hpf :: "rat \<Rightarrow> rat \<Rightarrow> rat list"
  dsps_gen_lpf :: "rat \<Rightarrow> rat \<Rightarrow> rat list"

record audio_stats =
  successful_writes :: u32
  timeout_writes :: u32
  error_writes :: u32
  bytes_written :: u32
  max_peak_sample :: u32
  near_clip_frames :: u32

record audio =
  stats :: audio_stats
  tx_handle :: bool
  initialized :: bool
  volume_gain :: rat
  muted :: bool
  frame_buffer :: "int list"
  consecutive_failures :: int
  bq_coeffs_dc :: "rat list"
  bq_coeffs_lpf :: "rat list"
  bq_state_dc :: "rat list"
  bq_state_lpf :: "rat list"

definition NEAR_CLIP_THRESHOLD :: u32 where "NEAR_CLIP_THRESHOLD = 30000"
definition SAMPLE_RATE :: int where "SAMPLE_RATE = 44100"
definition BEEPER_MIX_GAIN :: rat where "BEEPER_MIX_GAIN = f32 (7 / 10)"
definition PSG_MIX_GAIN :: rat where "PSG_MIX_GAIN = f32 (6 / 10)"

definition audio_start :: audio where
  "audio_start =
     \<lparr>stats = \<lparr>successful_writes = 0, timeout_writes = 0, error_writes = 0, bytes_written = 0,
              max_peak_sample = 0, near_clip_frames = 0\<rparr>,
      tx_handle = False, initialized = False, volume_gain = f32 (40 / 100), muted = False,
      frame_buffer = replicate (2 * SAMPLES_PER_FRAME) 0, consecutive_failures = 0,
      bq_coeffs_dc = replicate 5 0, bq_coeffs_lpf = replicate 5 0,
      bq_state_dc = replicate 4 0, bq_state_lpf = replicate 4 0\<rparr>"

definition reset_master_filter :: "audio \<Rightarrow> audio" where
  "reset_master_filter a = a\<lparr>bq_state_dc := replicate 4 0, bq_state_lpf := replicate 4 0\<rparr>"

text \<open>The conversion back to a sample, with saturation.\<close>

definition to_sample :: "rat \<Rightarrow> int" where
  "to_sample y =
     (let y = (if y > 32767 then 32767 else if y < - 32768 then - 32768 else y) in int16 (trunc y))"

section \<open>Processing\<close>

definition apply_master_filter :: "dsp \<Rightarrow> int list \<Rightarrow> nat \<Rightarrow> audio \<Rightarrow> int list \<times> audio" where
  "apply_master_filter D stereo_buf samples a =
     (let count = samples * 2
      in if count > 2 * 1024 then (stereo_buf, a)
         else let buf = map of_int (take count stereo_buf);
                  (buf, st_dc) = dsps_biquad D buf (bq_coeffs_dc a) (bq_state_dc a);
                  (buf, st_lpf) = dsps_biquad D buf (bq_coeffs_lpf a) (bq_state_lpf a)
              in (map to_sample buf @ drop count stereo_buf, a\<lparr>bq_state_dc := st_dc, bq_state_lpf := st_lpf\<rparr>))"

definition mix_audio :: "dsp \<Rightarrow> int list \<Rightarrow> int list \<Rightarrow> nat \<Rightarrow> int list" where
  "mix_audio D beeper psg samples =
     (let beeper_float = map of_int (take samples beeper);
          psg_float = map of_int (take samples psg);
          beeper_float = dsps_mulc D beeper_float BEEPER_MIX_GAIN;
          psg_float = dsps_mulc D psg_float PSG_MIX_GAIN;
          mixed_float = dsps_add D beeper_float psg_float
      in map to_sample mixed_float)"

definition apply_volume_gain :: "dsp \<Rightarrow> int list \<Rightarrow> nat \<Rightarrow> rat \<Rightarrow> int list" where
  "apply_volume_gain D stereo_buf samples gain =
     (if gain \<ge> f32 (99 / 100) then stereo_buf
      else let count = samples * 2
           in if count > 2 * 1024 then stereo_buf
              else map to_sample (dsps_mulc D (map of_int (take count stereo_buf)) gain) @ drop count stereo_buf)"

definition stereo :: "int list \<Rightarrow> int list" where
  "stereo mono_buf = concat (map (\<lambda>x. [x, x]) mono_buf)"

text \<open>The peak of the frame, with the 32-bit absolute value.\<close>

definition frame_peak :: "int list \<Rightarrow> u32" where
  "frame_peak buf = fold (\<lambda>s frame_max. let abs_s = of_int \<bar>s\<bar> in if abs_s > frame_max then abs_s else frame_max) buf 0"

definition track_peak :: "audio \<Rightarrow> audio" where
  "track_peak a =
     (let frame_max = frame_peak (frame_buffer a);
          st = stats a;
          st = (if frame_max > max_peak_sample st then st\<lparr>max_peak_sample := frame_max\<rparr> else st);
          st = (if frame_max > NEAR_CLIP_THRESHOLD then st\<lparr>near_clip_frames := near_clip_frames st + 1\<rparr> else st)
      in a\<lparr>stats := st\<rparr>)"

definition audio_render_frame :: "dsp \<Rightarrow> mach \<Rightarrow> audio \<Rightarrow> mach \<times> audio" where
  "audio_render_frame D m a =
     (let (beeper_buf, psg_buf, m) = mach_audio SAMPLES_PER_FRAME m;
          mono_buf = mix_audio D beeper_buf psg_buf SAMPLES_PER_FRAME;
          (stereo_buf, a) = apply_master_filter D (stereo mono_buf) SAMPLES_PER_FRAME a;
          stereo_buf = (if muted a then replicate (SAMPLES_PER_FRAME * 2) 0
                        else apply_volume_gain D stereo_buf SAMPLES_PER_FRAME (volume_gain a))
      in (m, track_peak (a\<lparr>frame_buffer := stereo_buf\<rparr>)))"

section \<open>Output\<close>

datatype i2s_result = I2S_OK | I2S_TIMEOUT | I2S_ERROR

text \<open>
  The write loop: the driver gets the number of the call, the offset and the bytes left, and returns its
  result and how many bytes it took.  The value is the offset reached and the two failure flags.
\<close>

function write_loop :: "(nat \<Rightarrow> nat \<Rightarrow> nat \<Rightarrow> i2s_result \<times> nat) \<Rightarrow> nat \<Rightarrow> nat \<Rightarrow> nat \<Rightarrow> nat \<times> bool \<times> bool" where
  "write_loop drv call total_bytes offset =
     (if offset < total_bytes
      then let (ret, chunk_written) = drv call offset (total_bytes - offset)
           in if ret = I2S_OK \<and> chunk_written > 0 then write_loop drv (Suc call) total_bytes (offset + chunk_written)
              else if ret = I2S_TIMEOUT \<or> chunk_written = 0 then (offset, True, False)
              else (offset, False, True)
      else (offset, False, False))"
  by pat_completeness auto
termination
  by (relation "measure (\<lambda>(_, _, total, offset). total - offset)") auto

declare write_loop.simps [simp del]

definition audio_write_frame :: "(nat \<Rightarrow> nat \<Rightarrow> nat \<Rightarrow> i2s_result \<times> nat) \<Rightarrow> audio \<Rightarrow> audio" where
  "audio_write_frame drv a =
     (if \<not> tx_handle a then a
      else let total_bytes = SAMPLES_PER_FRAME * 2 * 2;
               (offset, timed_out, had_error) = write_loop drv 0 total_bytes 0;
               st = stats a
           in if offset = total_bytes
              then a\<lparr>stats := st\<lparr>successful_writes := successful_writes st + 1,
                      bytes_written := bytes_written st + of_nat total_bytes\<rparr>, consecutive_failures := 0\<rparr>
              else a\<lparr>stats := st\<lparr>timeout_writes := timeout_writes st + (if timed_out then 1 else 0),
                      error_writes := error_writes st + (if had_error then 1 else 0)\<rparr>,
                    consecutive_failures := consecutive_failures a + 1\<rparr>)"

definition audio_play_frame ::
  "dsp \<Rightarrow> (nat \<Rightarrow> nat \<Rightarrow> nat \<Rightarrow> i2s_result \<times> nat) \<Rightarrow> mach \<Rightarrow> audio \<Rightarrow> mach \<times> audio" where
  "audio_play_frame D drv m a = apsnd (audio_write_frame drv) (audio_render_frame D m a)"

text \<open>\<open>audio_init\<close>, with what the four driver calls that can fail return.\<close>

definition audio_init :: "dsp \<Rightarrow> rat \<Rightarrow> bool \<Rightarrow> bool \<Rightarrow> bool \<Rightarrow> bool \<Rightarrow> audio \<Rightarrow> bool \<times> audio" where
  "audio_init D root_half new_ok pins_ok init_ok enable_ok a =
     (if initialized a then (True, a)
      else if \<not> new_ok then (False, a)
      else let a = a\<lparr>tx_handle := True\<rparr>;
               a = a\<lparr>bq_coeffs_dc := dsps_gen_hpf D (f32 (15 / 44100)) root_half,
                     bq_coeffs_lpf := dsps_gen_lpf D (f32 (8000 / 44100)) root_half\<rparr>;
               a = reset_master_filter a
           in if \<not> pins_ok then (False, a\<lparr>tx_handle := False\<rparr>)
              else if \<not> init_ok then (False, a\<lparr>tx_handle := False\<rparr>)
              else if \<not> enable_ok then (False, a\<lparr>tx_handle := False\<rparr>)
              else (True, a\<lparr>initialized := True\<rparr>))"

section \<open>The boot tone\<close>

definition TONE_CHUNK :: nat where "TONE_CHUNK = 256"
definition peak_amp :: int where "peak_amp = 3276"

text \<open>The amplitude of a sample inside the fades.\<close>

definition tone_amp :: "nat \<Rightarrow> nat \<Rightarrow> nat \<Rightarrow> int" where
  "tone_amp total_target fade_samples sample_idx =
     (if fade_samples > 0
      then let from_end = int total_target - 1 - int sample_idx
           in if sample_idx < fade_samples then peak_amp * int sample_idx div int fade_samples
              else if from_end < int fade_samples
              then peak_amp * (if from_end < 0 then 0 else from_end) div int fade_samples
              else peak_amp
      else peak_amp)"

text \<open>The loop over the samples of a chunk; the state is \<open>state\<close>, \<open>period_cnt\<close> and \<open>sample_idx\<close>.\<close>

fun tone_samples :: "nat \<Rightarrow> nat \<Rightarrow> nat \<Rightarrow> nat \<Rightarrow> nat \<times> nat \<times> nat \<Rightarrow> int list \<times> nat \<times> nat \<times> nat" where
  "tone_samples target fade toggle_period 0 st = ([], st)"
| "tone_samples target fade toggle_period (Suc n) (state, period_cnt, sample_idx) =
     (let (state, period_cnt) = (if period_cnt \<ge> toggle_period then (1 - state, 0) else (state, period_cnt));
          period_cnt = period_cnt + 1;
          amp = tone_amp target fade sample_idx;
          s16 = int16 (if state \<noteq> 0 then amp else - amp);
          (rest, st) = tone_samples target fade toggle_period n (state, period_cnt, sample_idx + 1)
      in (s16 # rest, st))"

definition overwrite_ints :: "int list \<Rightarrow> int list \<Rightarrow> int list" where
  "overwrite_ints buf xs = xs @ drop (length xs) buf"

text \<open>
  The loop over the chunks: the buffers handed to the driver, whose result the code ignores, and the
  state of the filter.
\<close>

function tone_loop :: "dsp \<Rightarrow> nat \<Rightarrow> nat \<Rightarrow> nat \<Rightarrow> nat \<Rightarrow> nat \<times> nat \<times> nat \<Rightarrow> audio \<Rightarrow> int list list \<times> audio" where
  "tone_loop D target fade toggle_period left st a =
     (if left > 0
      then let n = (if left > TONE_CHUNK then TONE_CHUNK else left);
               (mono_buf, st) = tone_samples target fade toggle_period n st;
               buf = overwrite_ints (frame_buffer a) (stereo mono_buf @ replicate ((TONE_CHUNK - n) * 2) 0);
               (buf, a) = apply_master_filter D buf n a;
               buf = apply_volume_gain D buf n (volume_gain a);
               (out, a) = tone_loop D target fade toggle_period (left - n) st (a\<lparr>frame_buffer := buf\<rparr>)
           in (take (n * 2) buf # out, a)
      else ([], a))"
  by pat_completeness auto
termination
  by (relation "measure (\<lambda>(_, _, _, _, left, _). left)") (auto simp: TONE_CHUNK_def)

definition audio_play_tone :: "dsp \<Rightarrow> int \<Rightarrow> int \<Rightarrow> audio \<Rightarrow> int list list \<times> audio" where
  "audio_play_tone D freq_hz duration_ms a =
     (if freq_hz \<le> 0 \<or> duration_ms \<le> 0 \<or> \<not> tx_handle a then ([], a)
      else let total_target = nat (duration_ms * SAMPLE_RATE div 1000);
               toggle_period = nat (SAMPLE_RATE div (freq_hz * 2));
               fade_samples = nat (SAMPLE_RATE * 8 div 1000);
               fade_samples = (if fade_samples * 2 > total_target then total_target div 2 else fade_samples);
               (out, a) = tone_loop D total_target fade_samples toggle_period total_target (0, 0, 0) a
           in (out, reset_master_filter a))"

section \<open>Volume and mute\<close>

definition audio_set_volume :: "int \<Rightarrow> audio \<Rightarrow> audio" where
  "audio_set_volume vol a =
     (let vol = (if vol < 0 then 0 else vol);
          vol = (if vol > 100 then 100 else vol)
      in a\<lparr>volume_gain := f32 (of_int vol / 100)\<rparr>)"

definition audio_get_volume :: "audio \<Rightarrow> int" where
  "audio_get_volume a = trunc (f32 (volume_gain a * 100))"

definition audio_set_mute :: "bool \<Rightarrow> audio \<Rightarrow> audio" where
  "audio_set_mute mute a = a\<lparr>muted := mute\<rparr>"

definition audio_get_mute :: "audio \<Rightarrow> bool" where
  "audio_get_mute a = muted a"

section \<open>The buttons\<close>

text \<open>
  \<open>input_task\<close> of \<open>src/src/input/Input.cpp\<close>: each poll of the expander's two ports is one step, \<open>None\<close>
  when a read failed.  \<open>now\<close> is the tick count and \<open>ticks_to_ms\<close> the kernel's conversion; \<open>waiting\<close>
  is the inner loop that waits for the release of both buttons.
\<close>

record buttons =
  lastA :: bool
  lastB :: bool
  bothPressedStart :: u32
  bt_muted :: bool
  waiting :: bool

definition buttons_start :: buttons where
  "buttons_start = \<lparr>lastA = False, lastB = False, bothPressedStart = 0, bt_muted = False, waiting = False\<rparr>"

definition input_poll :: "(u32 \<Rightarrow> u32) \<Rightarrow> u32 \<Rightarrow> (u8 \<times> u8) option \<Rightarrow> buttons \<times> audio \<Rightarrow> buttons \<times> audio" where
  "input_poll ticks_to_ms now ports st =
     (let (bt, a) = st
      in case ports of
           None \<Rightarrow> (bt, a)
         | Some (p0, p1) \<Rightarrow>
             if waiting bt
             then if p1 AND 0x10 \<noteq> 0 \<and> p0 AND 0x04 \<noteq> 0
                  then (bt\<lparr>bothPressedStart := 0, lastA := False, lastB := False, waiting := False\<rparr>, a)
                  else (bt, a)
             else let pressedA = (p1 AND 0x10 = 0);
                      pressedB = (p0 AND 0x04 = 0)
                  in if pressedA \<and> pressedB
                     then if bothPressedStart bt = 0
                          then (bt\<lparr>bothPressedStart := now, lastA := pressedA, lastB := pressedB\<rparr>, a)
                          else if ticks_to_ms (now - bothPressedStart bt) > 500
                          then (bt\<lparr>bt_muted := \<not> bt_muted bt, waiting := True\<rparr>, audio_set_mute (\<not> bt_muted bt) a)
                          else (bt\<lparr>lastA := pressedA, lastB := pressedB\<rparr>, a)
                     else let bt = bt\<lparr>bothPressedStart := 0\<rparr>;
                              a = (if pressedA \<and> \<not> lastA bt then audio_set_volume (audio_get_volume a + 10) a else a);
                              a = (if pressedB \<and> \<not> lastB bt then audio_set_volume (audio_get_volume a - 10) a else a)
                          in (bt\<lparr>lastA := pressedA, lastB := pressedB\<rparr>, a))"

end
