(* ===== verification/Audio_Props.thy ===== *)
theory Audio_Props
  imports Audio Emulator_Inv
begin

text \<open>
  Properties of the sound output: which volumes the control keeps, the buttons as a counter of ten
  steps, what a frame of sound looks like, the accounting of the driver's failures, and the boot tone.
\<close>

section \<open>Evaluating a rounding\<close>

lemma pow2_powi: "pow2 e = 2 powi e"
  by (simp add: pow2_def power_int_def inverse_eq_divide power_one_over)

lemma pow2_add: "pow2 (a + b) = pow2 a * pow2 b"
  by (simp add: pow2_powi power_int_add)

lemma pow2_nz [simp]: "pow2 e \<noteq> 0"
  by (simp add: pow2_def)

lemma pow2_less: "pow2 a < pow2 b \<longleftrightarrow> a < b"
proof
  show "a < b" if "pow2 a < pow2 b"
    using that power_int_increasing [of b a "2 :: rat"] by (cases "a < b") (simp_all add: pow2_powi)
  show "pow2 a < pow2 b" if "a < b" using power_int_strict_increasing [OF that, of "2 :: rat"] by (simp add: pow2_powi)
qed

lemma pow2_le: "pow2 a \<le> pow2 b \<longleftrightarrow> a \<le> b"
  using pow2_less [of b a] by (simp add: not_less [symmetric])

lemma bitlen_between:
  assumes "0 < n"
  shows "pow2 (bitlen n - 1) \<le> of_int n" "of_int n < pow2 (bitlen n)"
proof -
  have b: "2 ^ nat (bitlen n - 1) \<le> n" "n < 2 ^ nat (bitlen n)" using bitlen_bounds [OF assms] by simp_all
  have "bitlen n \<noteq> 0" using b assms by (intro notI) simp
  then have p: "0 \<le> bitlen n - 1" "0 \<le> bitlen n" using bitlen_nonneg [of n] by linarith+
  have "of_int (2 ^ nat (bitlen n - 1)) \<le> (of_int n :: rat)" "(of_int n :: rat) < of_int (2 ^ nat (bitlen n))"
    using b by (simp_all only: of_int_le_iff of_int_less_iff)
  then show "pow2 (bitlen n - 1) \<le> of_int n" "of_int n < pow2 (bitlen n)" using p by (simp_all add: pow2_def)
qed

lemma ilog2_unique:
  assumes "pow2 e \<le> x" "x < pow2 (e + 1)"
  shows "ilog2 x = e"
proof -
  obtain p q where pq: "quotient_of x = (p, q)" by fastforce
  have q: "0 < q" "x = of_int p / of_int q" using quotient_of_denom_pos [OF pq] quotient_of_div [OF pq] by simp_all
  have "0 < x" using assms(1) pow2_pos [of e] by (rule order_less_le_trans [rotated])
  then have p: "0 < p" using q by (simp add: zero_less_divide_iff)
  let ?d = "bitlen p - bitlen q"
  note bp = bitlen_between [OF p] and bq = bitlen_between [OF q(1)]
  have "x < pow2 (bitlen p) / pow2 (bitlen q - 1)"
    unfolding q(2) by (rule frac_less) (use bp bq p in simp_all)
  also have "\<dots> = pow2 (?d + 1)"
    using pow2_add [of "?d + 1" "bitlen q - 1"] by (simp add: field_simps)
  finally have hi: "x < pow2 (?d + 1)" .
  have "pow2 (bitlen p - 1) / pow2 (bitlen q) < x"
    unfolding q(2) by (rule frac_less2) (use bp bq q in simp_all)
  moreover have "pow2 (bitlen p - 1) / pow2 (bitlen q) = pow2 (?d - 1)"
    using pow2_add [of "?d - 1" "bitlen q"] by (simp add: field_simps)
  ultimately have lo: "pow2 (?d - 1) < x" by simp
  have "pow2 e < pow2 (?d + 1)" "pow2 (?d - 1) < pow2 (e + 1)"
    using assms hi lo by (auto intro: order_le_less_trans order_less_trans)
  then have e: "e = ?d \<or> e = ?d - 1" unfolding pow2_less by linarith
  have "pow2 ?d \<le> x \<longleftrightarrow> e = ?d"
  proof
    assume "pow2 ?d \<le> x"
    then have "pow2 ?d < pow2 (e + 1)" using assms(2) by (rule order_le_less_trans)
    then show "e = ?d" using e unfolding pow2_less by linarith
  qed (use assms(1) in simp)
  then show ?thesis using e by (auto simp: ilog2_def pq Let_def)
qed

text \<open>
  The rounding of a positive fraction in integers: s is the shift that brings it into the range of the
  24-bit significands.
\<close>

definition int_round :: "int \<Rightarrow> int \<Rightarrow> int" where
  "int_round p q =
     (let n = p div q; r = p mod q
      in if 2 * r < q then n else if q < 2 * r then n + 1 else if even n then n else n + 1)"

lemma round_even_frac:
  assumes "0 < q"
  shows "round_even (of_int p / of_int q) = int_round p q"
proof -
  have n: "\<lfloor>of_int p / of_int q :: rat\<rfloor> = p div q" by (rule floor_divide_of_int_eq)
  have "p = (p div q) * q + p mod q" by simp
  then have "(of_int p :: rat) = of_int (p div q) * of_int q + of_int (p mod q)" by (metis of_int_add of_int_mult)
  then have d: "of_int p / of_int q - of_int (p div q) = (of_int (p mod q) / of_int q :: rat)"
    using assms by (simp add: field_simps)
  have "(of_int (p mod q) / of_int q < (1 / 2 :: rat)) = (2 * (p mod q) < q)"
    "((1 / 2 :: rat) < of_int (p mod q) / of_int q) = (q < 2 * (p mod q))"
  proof -
    have "(of_int (p mod q) / of_int q < (1 / 2 :: rat)) = (of_int (2 * (p mod q)) < (of_int q :: rat))"
      "((1 / 2 :: rat) < of_int (p mod q) / of_int q) = ((of_int q :: rat) < of_int (2 * (p mod q)))"
      using assms by (simp_all add: field_simps)
    then show "(of_int (p mod q) / of_int q < (1 / 2 :: rat)) = (2 * (p mod q) < q)"
      "((1 / 2 :: rat) < of_int (p mod q) / of_int q) = (q < 2 * (p mod q))"
      by (simp_all only: of_int_less_iff)
  qed
  then show ?thesis unfolding round_even_def n Let_def d int_round_def by simp
qed

lemma f32_shift:
  assumes "0 < q" "0 < p" "2 ^ 23 * q \<le> p * 2 ^ s" "p * 2 ^ s < 2 ^ 24 * q" "s \<le> 149"
  shows "f32 (of_int p / of_int q) = of_int (int_round (p * 2 ^ s) q) / 2 ^ s"
proof -
  let ?x = "of_int p / of_int q :: rat"
  have x: "0 < ?x" using assms(1,2) by simp
  have ps: "pow2 (- int s) = 1 / 2 ^ s" by (cases "s = 0") (simp_all add: pow2_def)
  have p2: "pow2 (23 - int s) = 2 ^ 23 / 2 ^ s" "pow2 (24 - int s) = 2 ^ 24 / 2 ^ s"
    using pow2_add [of 23 "- int s"] pow2_add [of 24 "- int s"] by (simp_all add: ps) (simp_all add: pow2_def)
  have "(of_int (2 ^ 23 * q) :: rat) \<le> of_int (p * 2 ^ s)" "(of_int (p * 2 ^ s) :: rat) < of_int (2 ^ 24 * q)"
    using assms(3,4) by (simp_all only: of_int_le_iff of_int_less_iff)
  then have "pow2 (23 - int s) \<le> ?x" "?x < pow2 (23 - int s + 1)"
    using assms(1) by (simp_all add: p2 field_simps)
  then have l: "ilog2 ?x = 23 - int s" by (rule ilog2_unique)
  have u: "pow2 (max (ilog2 \<bar>?x\<bar> - (24 - 1)) (- 149)) = 1 / 2 ^ s"
    unfolding abs_of_pos [OF x] l using assms(5) by (simp add: ps)
  have e: "?x / (1 / 2 ^ s) = of_int (p * 2 ^ s) / of_int q" by simp
  have "round_even (?x / (1 / 2 ^ s)) = int_round (p * 2 ^ s) q" unfolding e by (rule round_even_frac [OF assms(1)])
  then show ?thesis using x unfolding f32_def round_to_def Let_def u by (simp only: less_imp_neq [symmetric] if_False) simp
qed

section \<open>The volume\<close>

text \<open>The shift of a fraction, found by doubling; 60 doublings are more than the volumes need.\<close>

fun find_shift :: "nat \<Rightarrow> int \<Rightarrow> int \<Rightarrow> nat" where
  "find_shift 0 p q = 0"
| "find_shift (Suc n) p q = (if 2 ^ 23 * q \<le> p then 0 else Suc (find_shift n (2 * p) q))"

definition in_range :: "int \<Rightarrow> int \<Rightarrow> nat \<Rightarrow> bool" where
  "in_range p q s \<longleftrightarrow> 0 < p \<and> 2 ^ 23 * q \<le> p * 2 ^ s \<and> p * 2 ^ s < 2 ^ 24 * q \<and> s \<le> 149"

definition kept_volume :: "int \<Rightarrow> int" where
  "kept_volume v = (if v = 53 then 52 else if v = 59 then 58 else v)"

definition volume_check :: "int \<Rightarrow> bool" where
  "volume_check v =
     (let s = find_shift 60 v 100;
          a = int_round (v * 2 ^ s) 100;
          t = find_shift 60 (a * 100) (2 ^ s);
          b = int_round (a * 100 * 2 ^ t) (2 ^ s)
      in in_range v 100 s \<and> in_range (a * 100) (2 ^ s) t \<and> 0 \<le> b \<and> b div 2 ^ t = kept_volume v)"

lemma all_volumes: "list_all volume_check [1..100]"
  by code_simp

lemma volume_back:
  assumes "volume_check v"
  shows "trunc (f32 (f32 (of_int v / 100) * 100)) = kept_volume v"
proof -
  define s where "s = find_shift 60 v 100"
  define a where "a = int_round (v * 2 ^ s) 100"
  define t where "t = find_shift 60 (a * 100) (2 ^ s)"
  define b where "b = int_round (a * 100 * 2 ^ t) (2 ^ s)"
  have c: "in_range v 100 s" "in_range (a * 100) (2 ^ s) t" "0 \<le> b" "b div 2 ^ t = kept_volume v"
    using assms by (simp_all add: volume_check_def Let_def s_def a_def t_def b_def)
  have g: "f32 (of_int v / of_int 100) = of_int a / 2 ^ s"
    unfolding a_def by (rule f32_shift) (use c(1) in \<open>simp_all add: in_range_def\<close>)
  have "f32 (of_int (a * 100) / of_int (2 ^ s)) = of_int b / 2 ^ t"
    unfolding b_def by (rule f32_shift) (use c(2) in \<open>simp_all add: in_range_def\<close>)
  moreover have "f32 (of_int v / 100) * 100 = of_int (a * 100) / of_int (2 ^ s)" using g by simp
  moreover have "trunc (of_int b / 2 ^ t) = b div 2 ^ t"
  proof -
    have "\<lfloor>of_int b / of_int (2 ^ t) :: rat\<rfloor> = b div 2 ^ t" by (rule floor_divide_of_int_eq)
    then show ?thesis using c(3) by (simp add: trunc_def)
  qed
  ultimately show ?thesis using c(4) by simp
qed

text \<open>
  Of the 101 volumes two are not read back as they were set: \<open>53 / 100.0f * 100\<close> and
  \<open>59 / 100.0f * 100\<close> are just below the whole number, and the conversion to \<open>int\<close> cuts it off.
\<close>

lemma clamp_volume: "audio_set_volume v a = a\<lparr>volume_gain := f32 (of_int (max 0 (min 100 v)) / 100)\<rparr>"
  by (simp add: audio_set_volume_def Let_def)

lemma volume_kept:
  "audio_get_volume (audio_set_volume v a) = kept_volume (max 0 (min 100 v))"
proof (cases "max 0 (min 100 v) = 0")
  case True
  then show ?thesis by (simp add: audio_get_volume_def clamp_volume kept_volume_def trunc_def)
next
  case False
  then have "max 0 (min 100 v) \<in> set [1..100]" by auto
  then have "volume_check (max 0 (min 100 v))" using all_volumes by (simp only: list_all_iff)
  then show ?thesis using volume_back by (simp add: audio_get_volume_def clamp_volume)
qed

theorem volume_read_back:
  "audio_get_volume (audio_set_volume v a) = (if v = 53 then 52 else if v = 59 then 58 else max 0 (min 100 v))"
  unfolding volume_kept by (simp add: kept_volume_def max_def min_def)

section \<open>The buttons\<close>

text \<open>
  What the two buttons mean, over the samples of the ports alone and with nothing of the task's state:
  between two samples the panel watches the buttons (and remembers which of them the last sample saw
  pressed), times the press of both since a tick, or waits for the release of both after the sound has
  been switched.  The level counts the presses of one button alone that are new in a sample.  A press of both that was first
  seen at tick 0 is timed from the next sample on (the code's 0 is also its "not pressed").
\<close>

datatype gesture = Watching bool bool | Both_since u32 | Release_both

record panel =
  gest :: gesture
  level :: int
  silent :: bool

fun seen :: "gesture \<Rightarrow> bool \<times> bool" where
  "seen (Watching A B) = (A, B)"
| "seen g = (True, True)"

definition clip10 :: "int \<Rightarrow> int" where
  "clip10 k = max 0 (min 10 k)"

fun panel_sample :: "(u32 \<Rightarrow> u32) \<Rightarrow> u32 \<Rightarrow> bool \<Rightarrow> bool \<Rightarrow> panel \<Rightarrow> panel" where
  "panel_sample ms now True True p =
     (case gest p of
        Watching _ _ \<Rightarrow> p\<lparr>gest := Both_since now\<rparr>
      | Both_since t \<Rightarrow>
          if t = 0 then p\<lparr>gest := Both_since now\<rparr>
          else if ms (now - t) > 500 then p\<lparr>gest := Release_both, silent := \<not> silent p\<rparr>
          else p
      | Release_both \<Rightarrow> p)"
| "panel_sample ms now A B p =
     (if gest p = Release_both then (if A \<or> B then p else p\<lparr>gest := Watching False False\<rparr>)
      else p\<lparr>gest := Watching A B,
             level := clip10 (level p + of_bool (A \<and> \<not> fst (seen (gest p))) - of_bool (B \<and> \<not> snd (seen (gest p))))\<rparr>)"

definition panel_poll :: "(u32 \<Rightarrow> u32) \<Rightarrow> u32 \<times> (u8 \<times> u8) option \<Rightarrow> panel \<Rightarrow> panel" where
  "panel_poll ms q p =
     (case snd q of None \<Rightarrow> p | Some (p0, p1) \<Rightarrow> panel_sample ms (fst q) (\<not> bit p1 4) (\<not> bit p0 2) p)"

text \<open>However many samples see a button pressed alone, the press counts once.\<close>

lemma press_counts_once:
  assumes "gest p = Watching False False" "0 \<le> level p" "level p \<le> 10"
  shows "level ((panel_sample ms now True False ^^ Suc n) p) = clip10 (level p + 1)
    \<and> gest ((panel_sample ms now True False ^^ Suc n) p) = Watching True False"
  by (induction n) (use assms in \<open>auto simp: clip10_def\<close>)

definition at_level :: "int \<Rightarrow> audio \<Rightarrow> bool" where
  "at_level k a \<longleftrightarrow> 0 \<le> k \<and> k \<le> 10 \<and> volume_gain a = f32 (of_int (10 * k) / 100)"

lemma kept_tens [simp]: "kept_volume (10 * k) = 10 * k"
proof -
  have "10 * k \<noteq> 53" "10 * k \<noteq> 59" by presburger+
  then show ?thesis by (simp add: kept_volume_def)
qed

lemma at_level_set: "at_level (max 0 (min 10 k)) (audio_set_volume (10 * k) a)"
proof -
  have "max 0 (min 100 (10 * k)) = 10 * max 0 (min 10 k)" by (simp add: max_def min_def)
  then show ?thesis by (simp add: at_level_def clamp_volume)
qed

lemma at_level_get:
  assumes "at_level k a"
  shows "audio_get_volume a = 10 * k"
proof -
  have "audio_get_volume a = audio_get_volume (audio_set_volume (10 * k) a)"
    using assms by (simp add: audio_get_volume_def clamp_volume at_level_def)
  also have "\<dots> = 10 * k"
  proof -
    have "max 0 (min 100 (10 * k)) = 10 * k" using assms by (simp add: at_level_def)
    then show ?thesis by (simp only: volume_kept kept_tens)
  qed
  finally show ?thesis .
qed

lemma at_level_change:
  assumes "at_level k a"
  shows "at_level (clip10 (k + d)) (audio_set_volume (audio_get_volume a + 10 * d) a)"
  using at_level_set [of "k + d" a] by (simp add: at_level_get [OF assms] algebra_simps clip10_def)

lemma volume_frame [simp]:
  "muted (audio_set_volume v a) = muted a" "at_level k (audio_set_mute b a) = at_level k a" "muted (audio_set_mute b a) = b"
  by (simp_all add: clamp_volume at_level_def audio_set_mute_def)

text \<open>The task's state and the panel's.\<close>

definition panel_of :: "buttons \<Rightarrow> gesture" where
  "panel_of bt = (if waiting bt then Release_both else if lastA bt \<and> lastB bt then Both_since (bothPressedStart bt)
                  else Watching (lastA bt) (lastB bt))"

definition follows :: "panel \<Rightarrow> buttons \<times> audio \<Rightarrow> bool" where
  "follows p st \<longleftrightarrow> gest p = panel_of (fst st) \<and> at_level (level p) (snd st)
     \<and> muted (snd st) = silent p \<and> bt_muted (fst st) = silent p
     \<and> (waiting (fst st) \<or> lastA (fst st) \<and> lastB (fst st) \<or> bothPressedStart (fst st) = 0)"

lemma button_bits: "(p1 AND 0x10 = 0) = (\<not> bit p1 4)" "(p0 AND 0x04 = 0) = (\<not> bit p0 2)" for p0 p1 :: u8
  using and_exp_eq_0_iff_not_bit [of p1 4] and_exp_eq_0_iff_not_bit [of p0 2] by simp_all

lemma poll_follows:
  assumes "follows p st"
  shows "follows (panel_poll ms q p) (input_poll ms (fst q) (snd q) st)"
proof (cases "snd q")
  case None
  then show ?thesis using assms by (simp add: panel_poll_def input_poll_def case_prod_beta)
next
  case (Some pp)
  obtain bt a where st: "st = (bt, a)" by fastforce
  obtain p0 p1 where pp: "snd q = Some (p0, p1)" using Some by (cases pp) simp
  have f: "gest p = panel_of bt" "at_level (level p) a" "muted a = silent p" "bt_muted bt = silent p"
    "waiting bt \<or> lastA bt \<and> lastB bt \<or> bothPressedStart bt = 0"
    using assms by (simp_all add: follows_def st)
  have k: "clip10 (level p) = level p" using f(2) by (simp add: at_level_def clip10_def)
  note up = at_level_change [OF f(2), of 1] and down = at_level_change [OF f(2), of "- 1"]
  show ?thesis
  proof (cases "bit p1 4"; cases "bit p0 2")
    assume "\<not> bit p1 4" "bit p0 2"
    then show ?thesis using f up k
      by (auto simp: follows_def st pp panel_poll_def input_poll_def button_bits panel_of_def Let_def)
  next
    assume "bit p1 4" "\<not> bit p0 2"
    then show ?thesis using f down k
      by (auto simp: follows_def st pp panel_poll_def input_poll_def button_bits panel_of_def Let_def)
  next
    assume "\<not> bit p1 4" "\<not> bit p0 2"
    then show ?thesis using f
      by (auto simp: follows_def st pp panel_poll_def input_poll_def button_bits panel_of_def Let_def)
  next
    assume "bit p1 4" "bit p0 2"
    then show ?thesis using f k
      by (auto simp: follows_def st pp panel_poll_def input_poll_def button_bits panel_of_def Let_def)
  qed
qed

text \<open>C25 (buttons_count): The two buttons act as a panel of gestures: from a volume of 10 k percent
that is not muted and for any sequence of polls, a press of A or B moves the volume by one step of
ten, kept between 0 and 100, once however long it is held, and both together held long enough mute
the sound or bring it back; the volume and the mute flag read back are the panel's.\<close>

theorem buttons_count:
  assumes "at_level k a" "\<not> muted a"
  shows "case fold (\<lambda>q. input_poll ms (fst q) (snd q)) polls (buttons_start, a) of (bt', a') \<Rightarrow>
     let p = fold (panel_poll ms) polls \<lparr>gest = Watching False False, level = k, silent = False\<rparr>
     in audio_get_volume a' = 10 * level p \<and> 0 \<le> level p \<and> level p \<le> 10 \<and> audio_get_mute a' = silent p"
proof -
  have "follows (fold (panel_poll ms) polls p) (fold (\<lambda>q. input_poll ms (fst q) (snd q)) polls st)" if "follows p st" for p st
    using that by (induction polls arbitrary: p st) (simp_all add: poll_follows)
  moreover have "follows \<lparr>gest = Watching False False, level = k, silent = False\<rparr> (buttons_start, a)"
    using assms by (simp add: follows_def panel_of_def buttons_start_def)
  ultimately have "follows (fold (panel_poll ms) polls \<lparr>gest = Watching False False, level = k, silent = False\<rparr>)
      (fold (\<lambda>q. input_poll ms (fst q) (snd q)) polls (buttons_start, a))" by blast
  then show ?thesis
    by (auto simp: follows_def Let_def at_level_get audio_get_mute_def case_prod_beta) (simp_all add: at_level_def)
qed

text \<open>
  From the start, the first button is pressed three times, each press seen by two samples, and then both
  are held for a second: the volume is 70 and the sound is off.
\<close>

theorem buttons_count_witness:
  "case fold (\<lambda>q. input_poll id (fst q) (snd q))
     (concat (replicate 3 [(1, Some (0x04, 0x00)), (2, Some (0x04, 0x00)), (3, Some (0x04, 0x10))])
      @ [(10, Some (0, 0)), (1010, Some (0, 0)), (1020, None)]) (buttons_start, audio_start) of
   (bt', a') \<Rightarrow> audio_get_volume a' = 70 \<and> audio_get_mute a'"
proof -
  let ?ps = "concat (replicate 3 [(1 :: u32, Some (0x04 :: u8, 0x00 :: u8)), (2, Some (0x04, 0x00)), (3, Some (0x04, 0x10))])
      @ [(10, Some (0, 0)), (1010, Some (0, 0)), (1020, None)]"
  have l: "at_level 4 audio_start" by (simp add: at_level_def audio_start_def)
  have m: "\<not> muted audio_start" by (simp add: audio_start_def)
  have "fold (panel_poll id) ?ps \<lparr>gest = Watching False False, level = 4, silent = False\<rparr>
      = \<lparr>gest = Release_both, level = 7, silent = True\<rparr>"
    by (simp add: numeral_3_eq_3 panel_poll_def clip10_def)
  then show ?thesis
    using buttons_count [OF l m, of id ?ps] by (simp add: Let_def case_prod_beta del: concat.simps replicate.simps)
qed

section \<open>A frame of sound\<close>

text \<open>What the mixer relies on: the library's functions return as many values as they are given.\<close>

definition dsp_ok :: "dsp \<Rightarrow> bool" where
  "dsp_ok D \<longleftrightarrow> (\<forall>xs c. length (dsps_mulc D xs c) = length xs)
     \<and> (\<forall>xs ys. length xs = length ys \<longrightarrow> length (dsps_add D xs ys) = length xs)
     \<and> (\<forall>xs co st. length (fst (dsps_biquad D xs co st)) = length xs)"

definition samples_ok :: "nat \<Rightarrow> int list \<Rightarrow> bool" where
  "samples_ok n xs \<longleftrightarrow> length xs = n \<and> (\<forall>x\<in>set xs. - 32768 \<le> x \<and> x \<le> 32767)"

lemma to_sample_bounds: "- 32768 \<le> to_sample y" "to_sample y \<le> 32767"
  using int16_bounds by (simp_all add: to_sample_def Let_def)

text \<open>The saturation leaves nothing for the conversion to wrap.\<close>

lemma to_sample_clamp: "to_sample y = max (- 32768) (min 32767 (trunc y))"
proof -
  consider "y > 32767" | "y < - 32768" | "- 32768 \<le> y" "y \<le> 32767" by linarith
  then show ?thesis
  proof cases
    case 1
    then have "32767 \<le> \<lfloor>y\<rfloor>" by (simp add: le_floor_iff)
    then show ?thesis using 1 by (simp add: to_sample_def trunc_def int16_def)
  next
    case 2
    then have "\<lceil>y\<rceil> \<le> - 32768" by (simp add: ceiling_le_iff)
    then show ?thesis using 2 by (simp add: to_sample_def trunc_def int16_def)
  next
    case 3
    then have "- 32768 \<le> trunc y" "trunc y \<le> 32767"
      by (auto simp: trunc_def le_floor_iff floor_le_iff ceiling_le_iff le_ceiling_iff)
    then show ?thesis using 3 by (simp add: to_sample_def int16_small)
  qed
qed

lemma samples_map [simp]: "samples_ok n (map to_sample ys) \<longleftrightarrow> length ys = n"
  using to_sample_bounds by (auto simp: samples_ok_def)

lemma length_stereo [simp]: "length (stereo xs) = length xs * 2"
  by (induction xs) (simp_all add: stereo_def)

lemma mix_ok:
  assumes "dsp_ok D" "length xs = n" "length ys = n"
  shows "samples_ok n (mix_audio D xs ys n)"
  using assms by (simp add: mix_audio_def dsp_ok_def)

lemma filter_ok:
  assumes "dsp_ok D" "length buf = 2 * n" "n \<le> 1024"
  shows "samples_ok (2 * n) (fst (apply_master_filter D buf n a))"
proof -
  have "length (fst (dsps_biquad D xs co st)) = length xs" for xs co st using assms(1) by (simp add: dsp_ok_def)
  then show ?thesis using assms(2,3) by (simp add: apply_master_filter_def Let_def case_prod_beta)
qed

lemma gain_ok:
  assumes "dsp_ok D" "samples_ok (2 * n) buf" "n \<le> 1024"
  shows "samples_ok (2 * n) (apply_volume_gain D buf n g)"
  using assms by (auto simp: apply_volume_gain_def dsp_ok_def samples_ok_def to_sample_bounds)

lemma filter_keeps: "muted (snd (apply_master_filter D buf n a)) = muted a"
  "volume_gain (snd (apply_master_filter D buf n a)) = volume_gain a"
  by (simp_all add: apply_master_filter_def Let_def case_prod_beta)

lemma getFrameBuffer_length: "beeper_ok b \<Longrightarrow> length (getFrameBuffer b k) = k"
  by (simp add: getFrameBuffer_def beeper_ok_def)

lemma mach_audio_lengths:
  assumes "mach_inv m" "mach_audio n m = (xs, ys, m')"
  shows "length xs = n" "length ys = n"
proof -
  have "length xs = n \<and> length ys = n"
    using assms(1)
  proof (cases rule: mach_invE)
    case (1 s r p R)
    then show ?thesis using assms(2) by (auto simp: full_inv_def core_ok_def getFrameBuffer_length)
  next
    case (2 u r b R)
    then show ?thesis
      using assms(2) renderPSGAudio_ok(2) [OF 2(2), of n]
      by (auto simp: full_inv_def core_ok_def getFrameBuffer_length case_prod_beta Let_def)
  qed
  then show "length xs = n" "length ys = n" by simp_all
qed

theorem audio_frame_ok:
  assumes "dsp_ok D" "mach_inv m"
  shows "case audio_render_frame D m a of (m', a') \<Rightarrow> mach_inv m' \<and> samples_ok 1764 (frame_buffer a')
    \<and> (muted a \<longrightarrow> frame_buffer a' = replicate 1764 0) \<and> volume_gain a' = volume_gain a \<and> muted a' = muted a"
proof -
  obtain xs ys m' where f: "mach_audio SAMPLES_PER_FRAME m = (xs, ys, m')" by (metis prod_cases3)
  have m': "mach_inv m'" using mach_audio_ok [OF assms(2), of SAMPLES_PER_FRAME] by (simp add: f)
  have l: "length xs = SAMPLES_PER_FRAME" "length ys = SAMPLES_PER_FRAME"
    by (rule mach_audio_lengths [OF assms(2) f])+
  note mx = mix_ok [OF assms(1) l]
  then have s: "length (stereo (mix_audio D xs ys SAMPLES_PER_FRAME)) = 2 * SAMPLES_PER_FRAME" by (simp add: samples_ok_def)
  have n: "SAMPLES_PER_FRAME \<le> 1024" "2 * SAMPLES_PER_FRAME = 1764" "SAMPLES_PER_FRAME * 2 = 1764" by (simp_all add: SAMPLES_PER_FRAME_def)
  note fl = filter_ok [OF assms(1) s n(1), of a]
  note g = gain_ok [OF assms(1) fl n(1), of "volume_gain a"]
  show ?thesis
    using fl g m' n
    by (auto simp: audio_render_frame_def f Let_def case_prod_beta track_peak_def filter_keeps samples_ok_def)
qed

section \<open>The driver\<close>

text \<open>
  Every frame is counted once: as written when the driver took it all, however many calls that took,
  and otherwise as a timeout or an error by its last call.
\<close>

lemma write_loop_ends:
  assumes "\<And>k off r. snd (drv k off r) \<le> r" "offset \<le> n"
  shows "case write_loop drv call n offset of (off, timed_out, had_error) \<Rightarrow>
    off \<le> n \<and> (off = n \<longleftrightarrow> \<not> timed_out \<and> \<not> had_error) \<and> \<not> (timed_out \<and> had_error)"
  using assms
proof (induction drv call n offset rule: write_loop.induct)
  case (1 drv call n offset)
  obtain ret chunk where d: "drv call offset (n - offset) = (ret, chunk)" by fastforce
  have c: "offset < n \<Longrightarrow> offset + chunk \<le> n" using "1.prems"(1) [of call offset "n - offset"] by (simp add: d)
  show ?case
  proof (cases "offset < n \<and> ret = I2S_OK \<and> chunk > 0")
    case True
    then show ?thesis
      using "1.IH" [OF _ HOL.refl d [symmetric] _ "1.prems"(1)] c by (subst write_loop.simps) (simp add: d)
  next
    case False
    then show ?thesis using "1.prems"(2) by (subst write_loop.simps) (auto simp: d)
  qed
qed

definition counts :: "audio \<Rightarrow> u32 \<times> u32 \<times> u32" where
  "counts a = (successful_writes (stats a), timeout_writes (stats a), error_writes (stats a))"

theorem write_frame_accounts:
  assumes "tx_handle a" "\<And>k off r. snd (drv k off r) \<le> r"
  shows "case (counts a, write_loop drv 0 3528 0) of ((ok, to, er), (off, timed_out, had_error)) \<Rightarrow>
    off \<le> 3528 \<and> bytes_written (stats (audio_write_frame drv a)) = bytes_written (stats a) + (if off = 3528 then 3528 else 0)
    \<and> counts (audio_write_frame drv a) = (if off = 3528 then (ok + 1, to, er) else if timed_out then (ok, to + 1, er) else (ok, to, er + 1))
    \<and> consecutive_failures (audio_write_frame drv a) = (if off = 3528 then 0 else consecutive_failures a + 1)"
proof -
  obtain off t e where w: "write_loop drv 0 3528 0 = (off, t, e)" by (metis prod_cases3)
  have "case write_loop drv 0 3528 0 of (off, timed_out, had_error) \<Rightarrow>
    off \<le> 3528 \<and> (off = 3528 \<longleftrightarrow> \<not> timed_out \<and> \<not> had_error) \<and> \<not> (timed_out \<and> had_error)"
    by (rule write_loop_ends) (simp_all add: assms(2))
  then have "off \<le> 3528" "off = 3528 \<longleftrightarrow> \<not> t \<and> \<not> e" "\<not> (t \<and> e)" by (simp_all add: w)
  then show ?thesis
    using assms(1) by (auto simp: audio_write_frame_def counts_def SAMPLES_PER_FRAME_def w Let_def)
qed

text \<open>A driver that takes 1024 bytes a call and then times out.\<close>

theorem write_frame_accounts_witness:
  defines "drv \<equiv> \<lambda>k off r. if k < 2 then (I2S_OK, min r 1024) else (I2S_TIMEOUT, 0)"
  shows "counts (audio_write_frame drv (audio_start\<lparr>tx_handle := True\<rparr>)) = (0, 1, 0)"
proof -
  have d: "snd (drv k off r) \<le> r" for k off r by (simp add: drv_def)
  have "write_loop drv 0 3528 0 = (2048, True, False)"
    by (simp add: write_loop.simps drv_def)
  then show ?thesis
    using write_frame_accounts [of "audio_start\<lparr>tx_handle := True\<rparr>" drv, OF _ d] by (simp add: counts_def audio_start_def)
qed

section \<open>The boot tone\<close>

text \<open>A square wave inside a trapezoid: sample k is in half-period k div toggle_period.\<close>

definition tone_at :: "nat \<Rightarrow> nat \<Rightarrow> nat \<Rightarrow> nat \<Rightarrow> int" where
  "tone_at target fade toggle_period k =
     (if odd (k div toggle_period) then tone_amp target fade k else - tone_amp target fade k)"

lemma tone_amp_bounds: "0 \<le> tone_amp target fade k" "k < target \<Longrightarrow> tone_amp target fade k \<le> 3276"
proof -
  have d: "3276 * x div f \<le> 3276" if "0 < f" "x \<le> f" "0 \<le> x" for x f :: int
  proof -
    have "3276 * x div f \<le> 3276 * f div f" using that by (intro zdiv_mono1) simp_all
    then show ?thesis using that by simp
  qed
  show "0 \<le> tone_amp target fade k" by (auto simp: tone_amp_def peak_amp_def Let_def intro!: pos_imp_zdiv_nonneg_iff [THEN iffD2])
  show "k < target \<Longrightarrow> tone_amp target fade k \<le> 3276"
    using d [of "int fade" "int k"] d [of "int fade" "int target - 1 - int k"] by (auto simp: tone_amp_def peak_amp_def Let_def)
qed

definition tone_state :: "nat \<Rightarrow> nat \<Rightarrow> nat \<times> nat \<times> nat" where
  "tone_state tp k = (if k = 0 then (0, 0, 0) else ((k - 1) div tp mod 2, (k - 1) mod tp + 1, k))"

lemma tone_samples_form:
  assumes "0 < tp" "k + n \<le> target"
  shows "tone_samples target fade tp n (tone_state tp k) = (map (tone_at target fade tp) [k..<k + n], tone_state tp (k + n))"
  using assms(2)
proof (induction n arbitrary: k)
  case 0
  then show ?case by simp
next
  case (Suc n)
  let ?st = "k div tp mod 2"
  obtain s c where sc: "tone_state tp k = (s, c, k)" by (cases "k = 0") (simp_all add: tone_state_def)
  have t: "(if c \<ge> tp then (1 - s, 0) else (s, c)) = (?st, k mod tp)"
  proof (cases k)
    case 0
    then show ?thesis using sc assms(1) by (simp add: tone_state_def)
  next
    case (Suc j)
    then have "s = j div tp mod 2" "c = j mod tp + 1" using sc by (simp_all add: tone_state_def)
    then show ?thesis using assms(1) Suc mod_less_divisor [OF assms(1), of j] by (auto simp: div_Suc mod_Suc mod2_eq_if)
  qed
  have n: "(?st, k mod tp + 1, k + 1) = tone_state tp (k + 1)" by (simp add: tone_state_def)
  have "int16 (if ?st \<noteq> 0 then tone_amp target fade k else - tone_amp target fade k) = tone_at target fade tp k"
    using tone_amp_bounds [of target fade k] tone_amp_bounds(2) [of k target fade] Suc.prems
    by (auto simp: tone_at_def int16_small mod2_eq_if)
  moreover have "tone_samples target fade tp n (tone_state tp (k + 1))
      = (map (tone_at target fade tp) [k + 1..<k + 1 + n], tone_state tp (k + 1 + n))"
    by (rule Suc.IH) (use Suc.prems in simp)
  ultimately show ?case
    unfolding sc tone_samples.simps Let_def t prod.case n
    using Suc.prems by (simp add: upt_conv_Cons del: upt_Suc)
qed

text \<open>The samples of a tone, whatever the chunks they are cut into.\<close>

theorem tone_wave:
  assumes "0 < tp" "j + n \<le> target"
  shows "fst (tone_samples target fade tp (j + n) (0, 0, 0)) = map (tone_at target fade tp) [0..<j + n]
    \<and> (case tone_samples target fade tp j (0, 0, 0) of (xs, st) \<Rightarrow>
         xs @ fst (tone_samples target fade tp n st) = fst (tone_samples target fade tp (j + n) (0, 0, 0)))
    \<and> (\<forall>x\<in>set (fst (tone_samples target fade tp (j + n) (0, 0, 0))). \<bar>x\<bar> \<le> 3276)"
proof -
  have z: "(0, 0, 0) = tone_state tp 0" by (simp add: tone_state_def)
  have w: "tone_samples target fade tp i (0, 0, 0) = (map (tone_at target fade tp) [0..<i], tone_state tp i)" if "i \<le> target" for i
    unfolding z using tone_samples_form [OF assms(1), of 0 i target fade] that by simp
  have "\<bar>tone_at target fade tp k\<bar> \<le> 3276" if "k < target" for k
    using tone_amp_bounds(1) [of target fade k] tone_amp_bounds(2) [OF that, of fade] by (simp add: tone_at_def)
  then have b: "\<forall>x\<in>set (map (tone_at target fade tp) [0..<j + n]). \<bar>x\<bar> \<le> 3276" using assms(2) by auto
  have m: "map (tone_at target fade tp) [0..<j + n] = map (tone_at target fade tp) [0..<j] @ map (tone_at target fade tp) [j..<j + n]"
    by (simp only: upt_add_eq_append [of 0 j n] le0 map_append)
  have j: "j \<le> target" using assms(2) by simp
  show ?thesis
    unfolding w [OF j] w [OF assms(2)] prod.case tone_samples_form [OF assms] fst_conv
    by (intro conjI HOL.refl m [symmetric] b)
qed

theorem tone_wave_witness:
  "map abs (fst (tone_samples 100 10 5 3 (0, 0, 0))) = [0, 327, 655]"
proof -
  have "fst (tone_samples 100 10 5 3 (0, 0, 0)) = map (tone_at 100 10 5) [0..<3]"
    using tone_wave [of 5 1 2 100 10] by (simp del: tone_samples.simps upt_rec add: numeral_eq_Suc)
  then show ?thesis by (simp add: upt_rec tone_at_def tone_amp_def peak_amp_def)
qed

end
