(* ===== verification/Web_Files.thy ===== *)
theory Web_Files
  imports Web_Command "HOL-Library.Sublist"
begin

text \<open>
  The handlers of \<open>src/src/webserver/Webserver.cpp\<close> that serve files and lists of files:
  \<open>mime_for\<close>, \<open>file_get_handler\<close>, \<open>files_list_handler\<close> and \<open>health_handler\<close>.

  \<^item> The file system is a parameter: the content of a regular file by its path, and the names in a
    directory in the order \<open>readdir\<close> returns them.  \<open>fopen_ok\<close> says whether a file opens.
  \<^item> A file is sent in chunks; \<open>rd k\<close> is how many bytes the file system delivers at most to the k-th
    \<open>fread\<close> (fewer than asked for when the read fails), \<open>chunk_ok\<close> says which chunks the connection takes.
\<close>

section \<open>Files\<close>

definition WWW_ROOT :: string where "WWW_ROOT = ''/spiffs/www''"

definition mime_for :: "string \<Rightarrow> string" where
  "mime_for path =
     (case strrchr path (CHR ''.'') of
        None \<Rightarrow> ''application/octet-stream''
      | Some ext \<Rightarrow>
          if strcasecmp_eq ext ''.html'' then ''text/html''
          else if strcasecmp_eq ext ''.js'' then ''application/javascript''
          else if strcasecmp_eq ext ''.css'' then ''text/css''
          else if strcasecmp_eq ext ''.png'' then ''image/png''
          else if strcasecmp_eq ext ''.svg'' then ''image/svg+xml''
          else if strcasecmp_eq ext ''.json'' then ''application/json''
          else ''application/octet-stream'')"

datatype file_response =
  NoContent
| InvalidPath
| DefaultPage
| FileNotFound
| OpenFailed
| SentFile string string "string option" "u8 list list" bool

text \<open>
  The loop over the file in pieces of 4096 bytes: the pieces sent and whether the handler returns
  \<open>ESP_OK\<close>.  A read that delivers nothing ends the file, whatever the reason.
\<close>

function send_chunks :: "(nat \<Rightarrow> nat) \<Rightarrow> (nat \<Rightarrow> bool) \<Rightarrow> nat \<Rightarrow> u8 list \<Rightarrow> u8 list list \<times> bool" where
  "send_chunks rd chunk_ok k bytes =
     (let r = min (rd k) (min 4096 (length bytes))
      in if r = 0 then ([], True)
         else if \<not> chunk_ok k then ([], False)
         else let (rest, ok) = send_chunks rd chunk_ok (Suc k) (drop r bytes) in (take r bytes # rest, ok))"
  by pat_completeness auto
termination
  by (relation "measure (\<lambda>(_, _, _, bytes). length bytes)") auto

declare send_chunks.simps [simp del]

definition cache_control :: "string \<Rightarrow> string option" where
  "cache_control path =
     (if strstr path ''.js'' \<noteq> None \<or> strstr path ''.css'' \<noteq> None \<or> strstr path ''.png'' \<noteq> None
         \<or> strstr path ''.svg'' \<noteq> None then Some ''public, max-age=31536000''
      else if strstr path ''.html'' \<noteq> None then Some ''no-cache''
      else None)"

definition file_path :: "string \<Rightarrow> string" where
  "file_path uri =
     (let path = snprintf_to 1024 (if uri = ''/'' then WWW_ROOT @ ''/index.html'' else WWW_ROOT @ uri)
      in takeWhile (\<lambda>c. c \<noteq> CHR ''?'') path)"

definition file_get_handler ::
  "(string \<Rightarrow> u8 list option) \<Rightarrow> (string \<Rightarrow> bool) \<Rightarrow> (nat \<Rightarrow> nat) \<Rightarrow> (nat \<Rightarrow> bool) \<Rightarrow> string \<Rightarrow> file_response" where
  "file_get_handler file_at fopen_ok rd chunk_ok uri =
     (if uri = ''/favicon.ico'' then NoContent
      else if strstr uri ''..'' \<noteq> None then InvalidPath
      else let path = file_path uri
           in case file_at path of
                None \<Rightarrow> if uri = ''/'' then DefaultPage else FileNotFound
              | Some bytes \<Rightarrow>
                  if \<not> fopen_ok path then OpenFailed
                  else let (chunks, ok) = send_chunks rd chunk_ok 0 bytes
                       in SentFile path (mime_for path) (cache_control path) chunks ok)"

section \<open>Lists\<close>

definition include_file :: "bool \<Rightarrow> bool \<Rightarrow> string \<Rightarrow> bool" where
  "include_file wantSnapshots wantTapes name =
     (case strrchr name (CHR ''.'') of
        None \<Rightarrow> False
      | Some ext \<Rightarrow> wantSnapshots \<and> snapshot_ext ext \<or> wantTapes \<and> tape_ext ext)"

text \<open>The chunks between the brackets; the flag is \<open>first\<close>.\<close>

fun list_entries :: "(string \<Rightarrow> bool) \<Rightarrow> bool \<Rightarrow> string list \<Rightarrow> string list" where
  "list_entries incl first [] = []"
| "list_entries incl first (name # names) =
     (if incl name
      then snprintf_to 512 ((if first then '''' else '','') @ quoted name) # list_entries incl False names
      else list_entries incl first names)"

definition list_dir :: "bool \<Rightarrow> bool \<Rightarrow> string" where
  "list_dir wantSnapshots wantTapes =
     (if wantTapes then ''/spiffs/tapes'' else if wantSnapshots then ''/spiffs/snapshots'' else ''/spiffs'')"

definition files_list_handler :: "(string \<Rightarrow> string list option) \<Rightarrow> string \<Rightarrow> string list option" where
  "files_list_handler dir uri =
     (let wantSnapshots = (strstr uri ''/api/snapshots'' \<noteq> None);
          wantTapes = (strstr uri ''/api/tapes'' \<noteq> None);
          (wantSnapshots, wantTapes) =
            (if \<not> wantSnapshots \<and> \<not> wantTapes then (True, True) else (wantSnapshots, wantTapes))
      in map_option (\<lambda>names. [''[''] @ list_entries (include_file wantSnapshots wantTapes) True names @ ['']''])
           (dir (list_dir wantSnapshots wantTapes)))"

definition health_handler :: string where
  "health_handler = ''{'' @ quoted ''status'' @ '':'' @ quoted ''ok'' @ '','' @ quoted ''server'' @ '':'' @ quoted ''running'' @ ''}''"

section \<open>Properties\<close>

lemma strstr_None: "strstr xs needle = None \<longleftrightarrow> (\<forall>us vs. xs \<noteq> us @ needle @ vs)"
proof (induction xs needle rule: strstr.induct)
  case (1 xs needle)
  show ?case
  proof (cases "take (length needle) xs = needle")
    case True
    then have "xs = [] @ needle @ drop (length needle) xs" by (metis append_Nil append_take_drop_id)
    then show ?thesis using True by (subst strstr.simps) fastforce
  next
    case False
    then have n: "xs \<noteq> needle @ vs" for vs by auto
    show ?thesis
    proof (cases xs)
      case Nil
      then show ?thesis using False by (subst strstr.simps) auto
    next
      case (Cons y ys)
      have "(\<forall>us vs. xs \<noteq> us @ needle @ vs) \<longleftrightarrow> (\<forall>us vs. ys \<noteq> us @ needle @ vs)"
      proof
        assume a: "\<forall>us vs. xs \<noteq> us @ needle @ vs"
        show "\<forall>us vs. ys \<noteq> us @ needle @ vs"
        proof (intro allI notI)
          fix us vs assume "ys = us @ needle @ vs"
          then have "xs = (y # us) @ needle @ vs" using Cons by simp
          then show False using a by blast
        qed
      next
        assume a: "\<forall>us vs. ys \<noteq> us @ needle @ vs"
        show "\<forall>us vs. xs \<noteq> us @ needle @ vs"
        proof (intro allI notI)
          fix us vs assume e: "xs = us @ needle @ vs"
          then have "us \<noteq> []" using n by auto
          then show False using e Cons a by (cases us) auto
        qed
      qed
      then show ?thesis using "1.IH" [OF False Cons] False Cons by (subst strstr.simps) simp
    qed
  qed
qed

lemma no_dots_append:
  assumes a: "CHR ''.'' \<notin> set xs" and b: "\<And>us vs. ys \<noteq> us @ ''..'' @ vs"
  shows "xs @ ys \<noteq> us @ ''..'' @ vs"
proof
  assume e: "xs @ ys = us @ ''..'' @ vs"
  then obtain zs where "xs = us @ zs \<and> zs @ ys = ''..'' @ vs \<or> xs @ zs = us \<and> ys = zs @ ''..'' @ vs"
    by (auto simp: append_eq_append_conv2)
  then show False
  proof
    assume z: "xs = us @ zs \<and> zs @ ys = ''..'' @ vs"
    then show False using a b [of "[]" vs] by (cases zs) auto
  next
    assume "xs @ zs = us \<and> ys = zs @ ''..'' @ vs"
    then show False using b by blast
  qed
qed

lemma send_chunks_content:
  "send_chunks rd chunk_ok k bytes = (chunks, ok) \<Longrightarrow>
     prefix (concat chunks) bytes \<and> (ok \<and> (\<forall>k. 4096 \<le> rd k) \<longrightarrow> concat chunks = bytes)"
proof (induction rd chunk_ok k bytes arbitrary: chunks ok rule: send_chunks.induct)
  case (1 rd chunk_ok k bytes)
  define r where "r = min (rd k) (min 4096 (length bytes))"
  show ?case
  proof (cases "r = 0 \<or> \<not> chunk_ok k")
    case True
    then have c: "chunks = []" "ok = (r = 0)"
      using "1.prems" unfolding send_chunks.simps [of rd chunk_ok k bytes] Let_def r_def [symmetric] by (auto split: if_splits)
    have "bytes = []" if "r = 0" "4096 \<le> rd k" using that by (simp add: r_def min_def split: if_splits)
    then show ?thesis using c by auto
  next
    case False
    from False have nb: "r \<noteq> 0" "\<not> \<not> chunk_ok k" by auto
    obtain rest ok' where s: "send_chunks rd chunk_ok (Suc k) (drop r bytes) = (rest, ok')" by fastforce
    have c: "chunks = take r bytes # rest" "ok = ok'"
      using "1.prems" nb s unfolding send_chunks.simps [of rd chunk_ok k bytes] Let_def r_def [symmetric] by simp_all
    have ih: "prefix (concat rest) (drop r bytes)" "ok' \<and> (\<forall>k. 4096 \<le> rd k) \<longrightarrow> concat rest = drop r bytes"
      using "1.IH" [OF r_def nb s] by blast+
    from ih(1) have "prefix (take r bytes @ concat rest) (take r bytes @ drop r bytes)" unfolding same_prefix_prefix .
    then show ?thesis using ih(2) by (simp add: c)
  qed
qed

lemma strstr_char: "strstr xs [c] = None \<longleftrightarrow> c \<notin> set xs"
  by (simp add: strstr_None in_set_conv_decomp)

lemma if_cases_pred: "\<lbrakk>f a = c; f b = c\<rbrakk> \<Longrightarrow> f (if P then a else b) = c"
  by simp

lemma file_path_shape:
  assumes "strstr uri ''..'' = None" "take 1 uri = ''/''"
  shows "\<exists>rest. file_path uri = WWW_ROOT @ ''/'' @ rest" "file_path uri \<noteq> us @ ''..'' @ vs" "CHR ''?'' \<notin> set (file_path uri)"
proof -
  obtain u where u: "uri = CHR ''/'' # u" using assms(2) by (cases uri) auto
  define full where "full = (if uri = ''/'' then WWW_ROOT @ ''/index.html'' else WWW_ROOT @ uri)"
  have "\<exists>t. full = WWW_ROOT @ ''/'' @ t" by (simp add: full_def u)
  then obtain t where t: "full = WWW_ROOT @ ''/'' @ t" by blast
  have p: "file_path uri = takeWhile (\<lambda>c. c \<noteq> CHR ''?'') (take 1023 full)"
    by (simp add: file_path_def full_def snprintf_to_def)
  show "\<exists>rest. file_path uri = WWW_ROOT @ ''/'' @ rest"
    unfolding p t by (simp add: WWW_ROOT_def)
  show "CHR ''?'' \<notin> set (file_path uri)" unfolding p by (blast dest: set_takeWhileD)
  have nd: "us @ ''..'' @ vs \<noteq> full" for us vs
  proof -
    have r: "CHR ''.'' \<notin> set WWW_ROOT" by (simp add: WWW_ROOT_def)
    have i: "strstr ''/index.html'' ''..'' = None" by code_simp
    define t0 where "t0 = (if uri = ''/'' then ''/index.html'' else uri)"
    have f0: "full = WWW_ROOT @ t0" unfolding full_def t0_def by (rule if_distrib [symmetric])
    have "strstr t0 ''..'' = None" unfolding t0_def by (rule if_cases_pred [where f = "\<lambda>t. strstr t ''..''", OF i assms(1)])
    then have "t0 \<noteq> us @ ''..'' @ vs" for us vs unfolding strstr_None by blast
    from no_dots_append [OF r this, THEN not_sym] show ?thesis unfolding f0 .
  qed
  obtain q where q: "full = file_path uri @ q"
    unfolding p by (metis append_assoc append_take_drop_id takeWhile_dropWhile_id)
  show "file_path uri \<noteq> us @ ''..'' @ vs"
  proof
    assume "file_path uri = us @ ''..'' @ vs"
    then have "us @ ''..'' @ (vs @ q) = full" using q by simp
    then show False using nd by blast
  qed
qed

text \<open>
  A file the server sends is one below the web root: its path starts with the root, has no \<open>..\<close> and
  no query in it, and what is sent is the content of that file from its start, all of it when neither
  the connection nor a read fails.
\<close>

theorem files_stay_inside:
  assumes "file_get_handler file_at fopen_ok rd chunk_ok uri = SentFile path mime cache chunks ok" "take 1 uri = ''/''"
  shows "prefix (WWW_ROOT @ ''/'') path \<and> \<not> sublist ''..'' path \<and> CHR ''?'' \<notin> set path
    \<and> (\<exists>bytes. file_at path = Some bytes \<and> prefix (concat chunks) bytes
         \<and> (ok \<and> (\<forall>k. 4096 \<le> rd k) \<longrightarrow> concat chunks = bytes))"
proof -
  have d: "strstr uri ''..'' = None" and p: "path = file_path uri"
    and "\<exists>bytes. file_at path = Some bytes \<and> send_chunks rd chunk_ok 0 bytes = (chunks, ok)"
    using assms(1) unfolding file_get_handler_def Let_def
    by (auto split: if_splits option.splits prod.splits)
  then obtain bytes where b: "file_at path = Some bytes" "send_chunks rd chunk_ok 0 bytes = (chunks, ok)" by blast
  have "prefix (WWW_ROOT @ ''/'') path" "\<not> sublist ''..'' path"
    using file_path_shape(1,2) [OF d assms(2)] by (auto simp: p prefix_def sublist_def)
  then show ?thesis using file_path_shape(3) [OF d assms(2)] b(1) send_chunks_content [OF b(2)] unfolding p by blast
qed

theorem files_stay_inside_witness:
  "\<exists>path mime cache chunks ok.
     file_get_handler (\<lambda>p. if p = ''/spiffs/www/app.js'' then Some (replicate 5000 7) else None) (\<lambda>_. True) (\<lambda>_. 4096) (\<lambda>_. True)
       ''/app.js?v=2'' = SentFile path mime cache chunks ok
     \<and> path = ''/spiffs/www/app.js'' \<and> mime = ''application/javascript''
     \<and> map length chunks = [4096, 904] \<and> (ok \<longrightarrow> concat chunks = replicate 5000 7)"
proof -
  let ?f = "\<lambda>p. if p = ''/spiffs/www/app.js'' then Some (replicate 5000 (7 :: u8)) else None"
  have c: "send_chunks (\<lambda>_. 4096) (\<lambda>_. True) 0 (replicate 5000 (7 :: u8)) = ([replicate 4096 7, replicate 904 7], True)"
    by (subst send_chunks.simps, simp, subst send_chunks.simps, simp, subst send_chunks.simps, simp)
  have p: "file_path ''/app.js?v=2'' = ''/spiffs/www/app.js''" by code_simp
  have m: "mime_for ''/spiffs/www/app.js'' = ''application/javascript''" by code_simp
  have d: "strstr ''/app.js?v=2'' ''..'' = None" by code_simp
  have h: "file_get_handler ?f (\<lambda>_. True) (\<lambda>_. 4096) (\<lambda>_. True) ''/app.js?v=2''
     = SentFile ''/spiffs/www/app.js'' ''application/javascript'' (cache_control ''/spiffs/www/app.js'')
         [replicate 4096 7, replicate 904 7] True"
    by (simp add: file_get_handler_def p m d c Let_def)
  show ?thesis using h files_stay_inside [OF h] by auto
qed

text \<open>A read that fails after the first piece: the browser gets a complete answer with a part of the file.\<close>

lemma failed_read_truncates:
  "send_chunks (\<lambda>k. if k = 0 then 4096 else 0) (\<lambda>_. True) 0 (replicate 5000 x) = ([replicate 4096 x], True)"
  by (subst send_chunks.simps, simp, subst send_chunks.simps, simp)

end
