(* ===== verification/Wifi.thy ===== *)
theory Wifi
  imports Emulator "HOL-Library.State_Monad"
begin

text \<open>
  Wi-Fi and its provisioning over Bluetooth: \<open>src/src/wifi_prov/wifi_prov.cpp\<close> and
  \<open>wifi_reconnect_task.inc\<close>, as built with Bluetooth enabled (\<open>sdkconfig.unihiker_k10\<close>).

  \<^item> The module's statics are the record \<open>wifi\<close>.  Its functions are programs of the state monad of
    the library, written as the code has them, early returns as nested conditionals.
  \<^item> ESP-IDF is a parameter, the record \<open>idf\<close>: the result of every call is an arbitrary function of the
    calls made before it.  The calls made are kept, latest first, in \<open>trace\<close>, so that properties
    can say what the module did to the radio and to the provisioning manager.
  \<^item> Taking the state mutex waits 100 ms at most; whether it is granted is also up to \<open>idf\<close>.
  \<^item> \<open>ESP_ERROR_CHECK\<close> stops the program when its call fails: from then on the primitives leave the
    state alone, and the field \<open>aborted\<close> is set.
  \<^item> The credentials of the name space \<open>wifi_prov\<close> in non-volatile storage are the field \<open>nvs\<close>; opening
    and committing it may fail as any other call.  Log output is not modelled.
\<close>

section \<open>ESP-IDF\<close>

datatype esp_err =
  ESP_OK | ESP_FAIL | ESP_ERR_INVALID_STATE | ESP_ERR_NVS_NO_FREE_PAGES | ESP_ERR_NVS_NEW_VERSION_FOUND
| ESP_ERR_WIFI_CONN

datatype event_base = WIFI_EVENT | IP_EVENT | WIFI_PROV_EVENT

datatype wifi_call =
  MutexTake | MutexCreate | QueueCreate | SemaphoreCreate | TaskCreate string | DelayMs u32
| NvsFlashInit | NvsFlashErase | NvsOpen | NvsCommit
| NetifInit | EventLoopCreate | NetifCreateSta
| HandlerRegister event_base | HandlerUnregister event_base
| WifiInit | WifiSetProtocol | WifiGetConfig | WifiSetConfig string string | WifiSetMode | WifiSetPs
| WifiStart | WifiStop | WifiConnect | WifiDisconnect
| ProvInit | ProvDeinit | ProvIsProvisioned | ProvReset | ProvResetSm | ProvStartBle string string | ProvStopBle
| OverlayText string u16

record idf =
  esp :: "wifi_call list \<Rightarrow> wifi_call \<Rightarrow> esp_err"
  sta_config :: "wifi_call list \<Rightarrow> string \<times> string"
  is_provisioned :: "wifi_call list \<Rightarrow> bool"
  mutex_free :: "wifi_call list \<Rightarrow> bool"

record wifi_nvs =
  nvs_ssid :: "string option"
  nvs_pass :: "string option"
  nvs_applied :: "int option"

record wifi =
  s_reconnect_queue :: "int list option"
  s_state_mutex :: bool
  s_provisioning_started :: bool
  s_watcher_started :: bool
  s_wifi_init_done :: bool
  s_sta_started :: bool
  s_ble_fallback_mode :: bool
  s_prov_handler :: bool
  s_wifi_connected_sem :: "bool option"
  s_last_ip_str :: string
  s_last_ip_addr :: string
  s_reconnect_retries :: int
  wifi_nvs :: wifi_nvs
  aborted :: bool
  trace :: "wifi_call list"

type_synonym 'a wifi_prog = "(wifi, 'a) state"

definition wifi_boot :: "wifi_nvs \<Rightarrow> wifi" where
  "wifi_boot nvs =
     \<lparr>s_reconnect_queue = None, s_state_mutex = False, s_provisioning_started = False, s_watcher_started = False,
      s_wifi_init_done = False, s_sta_started = False, s_ble_fallback_mode = False, s_prov_handler = False,
      s_wifi_connected_sem = None, s_last_ip_str = [], s_last_ip_addr = [], s_reconnect_retries = 0,
      wifi_nvs = nvs, aborted = False, trace = []\<rparr>"

section \<open>Primitives\<close>

definition gets :: "(wifi \<Rightarrow> 'a) \<Rightarrow> 'a wifi_prog" where
  "gets f = State (\<lambda>s. (f s, s))"

definition modify :: "(wifi \<Rightarrow> wifi) \<Rightarrow> unit wifi_prog" where
  "modify f = State (\<lambda>s. ((), if aborted s then s else f s))"

definition call :: "idf \<Rightarrow> wifi_call \<Rightarrow> esp_err wifi_prog" where
  "call e c = State (\<lambda>s. if aborted s then (ESP_FAIL, s) else (esp e (trace s) c, s\<lparr>trace := c # trace s\<rparr>))"

text \<open>A call whose result the code ignores.\<close>

definition issue :: "wifi_call \<Rightarrow> unit wifi_prog" where
  "issue c = modify (\<lambda>s. s\<lparr>trace := c # trace s\<rparr>)"

definition take_mutex :: "idf \<Rightarrow> bool wifi_prog" where
  "take_mutex e = State (\<lambda>s. if aborted s then (False, s) else (mutex_free e (trace s), s\<lparr>trace := MutexTake # trace s\<rparr>))"

definition do_if :: "bool \<Rightarrow> unit wifi_prog \<Rightarrow> unit wifi_prog" where
  "do_if c m = (if c then m else State_Monad.return ())"

text \<open>The pattern that guards every access to the statics: what runs under the mutex, if it is granted.\<close>

definition with_mutex :: "idf \<Rightarrow> (wifi \<Rightarrow> wifi) \<Rightarrow> unit wifi_prog" where
  "with_mutex e f = do { got \<leftarrow> take_mutex e; do_if got (modify f) }"

text \<open>A read under the mutex of a local that starts as \<open>init\<close>.\<close>

definition read_under_mutex :: "idf \<Rightarrow> 'a \<Rightarrow> (wifi \<Rightarrow> 'a) \<Rightarrow> 'a wifi_prog" where
  "read_under_mutex e init f = do { got \<leftarrow> take_mutex e; if got then gets f else State_Monad.return init }"

definition error_check :: "idf \<Rightarrow> wifi_call \<Rightarrow> unit wifi_prog" where
  "error_check e c = do {
     err \<leftarrow> call e c;
     if err = ESP_OK then State_Monad.return () else modify (\<lambda>s. s\<lparr>aborted := True\<rparr>) }"

text \<open>\<open>nvs_get_str\<close> fails when the value and its terminator do not fit the buffer.\<close>

definition nvs_get_str :: "nat \<Rightarrow> string option \<Rightarrow> string option" where
  "nvs_get_str n v = (case v of None \<Rightarrow> None | Some str \<Rightarrow> if length str < n then Some str else None)"

section \<open>Setting up the radio\<close>

definition ensure_wifi_initialized :: "idf \<Rightarrow> esp_err wifi_prog" where
  "ensure_wifi_initialized e = do {
     already_init \<leftarrow> read_under_mutex e False s_wifi_init_done;
     if already_init then State_Monad.return ESP_OK else do {
     err \<leftarrow> call e NvsFlashInit;
     err \<leftarrow> (if err = ESP_ERR_NVS_NO_FREE_PAGES \<or> err = ESP_ERR_NVS_NEW_VERSION_FOUND
            then do { error_check e NvsFlashErase; call e NvsFlashInit }
            else State_Monad.return err);
     if err \<noteq> ESP_OK then State_Monad.return err else do {
     err \<leftarrow> call e NetifInit;
     if err \<noteq> ESP_OK \<and> err \<noteq> ESP_ERR_INVALID_STATE then State_Monad.return err else do {
     err \<leftarrow> call e EventLoopCreate;
     if err \<noteq> ESP_OK \<and> err \<noteq> ESP_ERR_INVALID_STATE then State_Monad.return err else do {
     issue NetifCreateSta;
     err \<leftarrow> call e WifiInit;
     if err \<noteq> ESP_OK then State_Monad.return err else do {
     issue (HandlerRegister WIFI_EVENT);
     issue (HandlerRegister IP_EVENT);
     with_mutex e (\<lambda>s. s\<lparr>s_wifi_init_done := True\<rparr>);
     State_Monad.return ESP_OK }}}}}}"

section \<open>Starting and stopping the provisioning\<close>

text \<open>The two tasks, the mutex and the semaphore, each created the first time.\<close>

definition start_tasks :: "idf \<Rightarrow> bool wifi_prog" where
  "start_tasks e = do {
     q \<leftarrow> gets s_reconnect_queue;
     do_if (q = None) (do {
       err \<leftarrow> call e QueueCreate;
       do_if (err = ESP_OK) (do {
         modify (\<lambda>s. s\<lparr>s_reconnect_queue := Some []\<rparr>);
         issue (TaskCreate ''wifi_reconnect'') }) });
     m \<leftarrow> gets s_state_mutex;
     made \<leftarrow> (if m then State_Monad.return True else do {
       err \<leftarrow> call e MutexCreate;
       if err = ESP_OK then do { modify (\<lambda>s. s\<lparr>s_state_mutex := True\<rparr>); State_Monad.return True }
       else State_Monad.return False });
     if \<not> made then State_Monad.return False else do {
     sem \<leftarrow> gets s_wifi_connected_sem;
     do_if (sem = None) (do {
       err \<leftarrow> call e SemaphoreCreate;
       do_if (err = ESP_OK) (modify (\<lambda>s. s\<lparr>s_wifi_connected_sem := Some False\<rparr>)) });
     w \<leftarrow> gets s_watcher_started;
     do_if (\<not> w) (do {
       issue (TaskCreate ''prov_watcher'');
       modify (\<lambda>s. s\<lparr>s_watcher_started := True\<rparr>) });
     State_Monad.return True }}"

definition prov_over :: "wifi \<Rightarrow> wifi" where
  "prov_over s = s\<lparr>s_provisioning_started := False\<rparr>"

definition register_prov_handler :: "idf \<Rightarrow> unit wifi_prog" where
  "register_prov_handler e = do {
     err \<leftarrow> call e (HandlerRegister WIFI_PROV_EVENT);
     do_if (err = ESP_OK) (modify (\<lambda>s. s\<lparr>s_prov_handler := True\<rparr>)) }"

definition unregister_prov_handler :: "unit wifi_prog" where
  "unregister_prov_handler = do {
     h \<leftarrow> gets s_prov_handler;
     do_if h (do {
       issue (HandlerUnregister WIFI_PROV_EVENT);
       modify (\<lambda>s. s\<lparr>s_prov_handler := False\<rparr>) }) }"

text \<open>The branch without credentials, and after a fallback: BLE provisioning.\<close>

definition start_ble :: "idf \<Rightarrow> bool wifi_prog" where
  "start_ble e = do {
     issue ProvDeinit;
     register_prov_handler e;
     err \<leftarrow> call e ProvInit;
     if err \<noteq> ESP_OK then do { with_mutex e prov_over; State_Monad.return False } else do {
     err \<leftarrow> call e (ProvStartBle ''abcd1234'' ''PROV_speck10'');
     if err \<noteq> ESP_OK then do { issue ProvDeinit; with_mutex e prov_over; State_Monad.return False }
     else State_Monad.return True }}"

text \<open>The branch with credentials: the manager is released and the station connects.\<close>

definition connect_saved :: "idf \<Rightarrow> bool wifi_prog" where
  "connect_saved e = do {
     issue ProvDeinit;
     with_mutex e prov_over;
     m_err \<leftarrow> call e WifiSetMode;
     if m_err \<noteq> ESP_OK then State_Monad.return False else do {
     s_err \<leftarrow> call e WifiStart;
     if s_err \<noteq> ESP_OK \<and> s_err \<noteq> ESP_ERR_WIFI_CONN then State_Monad.return False else do {
     with_mutex e (\<lambda>s. s\<lparr>s_sta_started := True\<rparr>);
     issue WifiSetPs;
     issue WifiConnect;
     State_Monad.return True }}}"

text \<open>The manager is up: which of the two branches is taken.\<close>

definition choose_branch :: "idf \<Rightarrow> bool wifi_prog" where
  "choose_branch e = do {
     issue ProvIsProvisioned;
     provisioned \<leftarrow> gets (\<lambda>s. is_provisioned e (trace s));
     issue WifiGetConfig;
     has_credentials \<leftarrow> gets (\<lambda>s. 0 < length (fst (sta_config e (trace s))));
     provisioned \<leftarrow> (if provisioned \<and> \<not> has_credentials
                    then do { issue ProvReset; State_Monad.return False } else State_Monad.return provisioned);
     in_ble_fallback \<leftarrow> read_under_mutex e False s_ble_fallback_mode;
     if \<not> has_credentials \<or> in_ble_fallback then start_ble e
     else if provisioned \<and> has_credentials then connect_saved e
     else State_Monad.return False }"

definition start_manager :: "idf \<Rightarrow> bool wifi_prog" where
  "start_manager e = do {
     unregister_prov_handler;
     register_prov_handler e;
     err \<leftarrow> call e ProvInit;
     if err = ESP_ERR_INVALID_STATE then State_Monad.return True
     else if err \<noteq> ESP_OK then do { with_mutex e prov_over; State_Monad.return False }
     else choose_branch e }"

definition wifi_prov_start :: "idf \<Rightarrow> bool wifi_prog" where
  "wifi_prov_start e = do {
     made \<leftarrow> start_tasks e;
     if \<not> made then State_Monad.return False else do {
     got \<leftarrow> take_mutex e;
     active \<leftarrow> gets (\<lambda>s. got \<and> s_provisioning_started s);
     if active then State_Monad.return True else do {
     do_if got (modify (\<lambda>s. s\<lparr>s_provisioning_started := True\<rparr>));
     err \<leftarrow> ensure_wifi_initialized e;
     if err \<noteq> ESP_OK then do { with_mutex e prov_over; State_Monad.return False }
     else start_manager e }}}"

definition stop_manager :: "unit wifi_prog" where
  "stop_manager = do { unregister_prov_handler; issue ProvStopBle; issue ProvDeinit }"

definition wifi_prov_stop :: "idf \<Rightarrow> unit wifi_prog" where
  "wifi_prov_stop e = do {
     got \<leftarrow> take_mutex e;
     active \<leftarrow> gets s_provisioning_started;
     if got \<and> \<not> active then State_Monad.return () else do {
     do_if got (modify (\<lambda>s. s\<lparr>s_provisioning_started := False, s_ble_fallback_mode := False\<rparr>));
     stop_manager }}"

definition wifi_prov_start_ble_fallback :: "idf \<Rightarrow> bool wifi_prog" where
  "wifi_prov_start_ble_fallback e = do {
     got \<leftarrow> take_mutex e;
     already_provisioning \<leftarrow> gets (\<lambda>s. got \<and> s_provisioning_started s);
     do_if (got \<and> \<not> already_provisioning) (modify (\<lambda>s. s\<lparr>s_reconnect_retries := 0, s_ble_fallback_mode := True\<rparr>));
     if already_provisioning then State_Monad.return True else do {
     issue WifiStop;
     wifi_prov_start e }}"

definition wifi_prov_clear_and_stop :: "idf \<Rightarrow> bool \<Rightarrow> unit wifi_prog" where
  "wifi_prov_clear_and_stop e clear_saved_creds = do {
     got \<leftarrow> take_mutex e;
     active \<leftarrow> gets s_provisioning_started;
     do_if (got \<and> active) (do { modify prov_over; stop_manager });
     do_if clear_saved_creds (do {
       err \<leftarrow> call e NvsOpen;
       do_if (err = ESP_OK) (do {
         modify (\<lambda>s. s\<lparr>wifi_nvs := \<lparr>nvs_ssid = None, nvs_pass = None, nvs_applied = None\<rparr>\<rparr>);
         issue NvsCommit });
       err \<leftarrow> call e ProvInit;
       do_if (err = ESP_OK) (do { issue ProvReset; issue ProvDeinit }) }) }"

section \<open>Credentials\<close>

text \<open>\<open>wifi_config\<close> holds 32 bytes of name and 64 of password; \<open>strncpy\<close> leaves the last one zero.\<close>

definition wifi_prov_apply_credentials :: "idf \<Rightarrow> string \<Rightarrow> string option \<Rightarrow> bool wifi_prog" where
  "wifi_prov_apply_credentials e ssid password = do {
     err \<leftarrow> ensure_wifi_initialized e;
     if err \<noteq> ESP_OK then State_Monad.return False else do {
     err \<leftarrow> call e NvsOpen;
     do_if (err = ESP_OK) (do {
       modify (\<lambda>s. s\<lparr>wifi_nvs := \<lparr>nvs_ssid = Some ssid, nvs_pass = password, nvs_applied = Some 1\<rparr>\<rparr>);
       issue NvsCommit });
     err \<leftarrow> call e WifiSetMode;
     if err \<noteq> ESP_OK then State_Monad.return False else do {
     err \<leftarrow> call e (WifiSetConfig (take 31 ssid) (case password of None \<Rightarrow> [] | Some p \<Rightarrow> take 63 p));
     if err \<noteq> ESP_OK then State_Monad.return False else do {
     sta_started \<leftarrow> read_under_mutex e False s_sta_started;
     if \<not> sta_started then do {
       err \<leftarrow> call e WifiStart;
       State_Monad.return (err = ESP_OK) }
     else do { issue WifiDisconnect; issue WifiConnect; State_Monad.return True }}}}}"

text \<open>One turn of the watcher task: it sleeps ten seconds and then looks for credentials not yet applied.\<close>

definition nvs_watcher :: "idf \<Rightarrow> unit wifi_prog" where
  "nvs_watcher e = do {
     issue (DelayMs 10000);
     prov_active \<leftarrow> read_under_mutex e False s_provisioning_started;
     if prov_active then State_Monad.return () else do {
     err \<leftarrow> call e NvsOpen;
     if err \<noteq> ESP_OK then State_Monad.return () else do {
     nvs \<leftarrow> gets wifi_nvs;
     do_if (nvs_applied nvs = None \<or> nvs_applied nvs = Some 0) (case nvs_get_str 33 (nvs_ssid nvs) of
            None \<Rightarrow> State_Monad.return ()
          | Some ssid \<Rightarrow>
              let pass = (case nvs_get_str 65 (nvs_pass nvs) of None \<Rightarrow> [] | Some p \<Rightarrow> p)
              in do { wifi_prov_apply_credentials e ssid (if pass \<noteq> [] then Some pass else None); State_Monad.return () }) }}}"

section \<open>Events\<close>

datatype wifi_event =
  STA_START | STA_CONNECTED | STA_DISCONNECTED | STA_GOT_IP u8 u8 u8 u8 | OTHER_WIFI_EVENT

datatype prov_event =
  PROV_START | PROV_CRED_RECV "(string \<times> string) option" | PROV_CRED_FAIL | PROV_CRED_SUCCESS | PROV_END

definition QUEUE_LENGTH :: nat where "QUEUE_LENGTH = 2"
definition MAX_RECONNECT_RETRIES :: int where "MAX_RECONNECT_RETRIES = 10"

definition ip_string :: "u8 \<Rightarrow> u8 \<Rightarrow> u8 \<Rightarrow> u8 \<Rightarrow> string" where
  "ip_string a b c d = dec_digits (unat a) @ ''.'' @ dec_digits (unat b) @ ''.'' @ dec_digits (unat c) @ ''.'' @ dec_digits (unat d)"

definition sta_start :: "idf \<Rightarrow> unit wifi_prog" where
  "sta_start e = do {
     issue WifiSetProtocol;
     conf_err \<leftarrow> call e WifiGetConfig;
     no_ssid \<leftarrow> gets (\<lambda>s. fst (sta_config e (trace s)) = []);
     if conf_err = ESP_OK \<and> no_ssid then do {
       issue (OverlayText ''No Wi-Fi creds. Start BLE prov.'' 0xF800);
       got \<leftarrow> take_mutex e;
       prov_active \<leftarrow> gets s_provisioning_started;
       do_if (got \<and> \<not> prov_active) (do { wifi_prov_start e; State_Monad.return () }) }
     else do {
       with_mutex e (\<lambda>s. s\<lparr>s_sta_started := True\<rparr>);
       issue WifiConnect }}"

text \<open>\<open>xQueueSend\<close> with no time-out drops the value when the queue is full.\<close>

definition queue_send :: "int \<Rightarrow> wifi \<Rightarrow> wifi" where
  "queue_send v s =
     (case s_reconnect_queue s of
        None \<Rightarrow> s
      | Some q \<Rightarrow> s\<lparr>s_reconnect_queue := Some (if length q < QUEUE_LENGTH then q @ [v] else q)\<rparr>)"

definition sta_disconnected :: "wifi \<Rightarrow> wifi" where
  "sta_disconnected s =
     (let s = s\<lparr>s_last_ip_str := [], s_reconnect_retries := s_reconnect_retries s + 1\<rparr>
      in queue_send (s_reconnect_retries s) s)"

definition got_ip :: "u8 \<Rightarrow> u8 \<Rightarrow> u8 \<Rightarrow> u8 \<Rightarrow> wifi \<Rightarrow> wifi" where
  "got_ip a b c d s =
     s\<lparr>s_last_ip_addr := snprintf_to 16 (ip_string a b c d),
       s_last_ip_str := snprintf_to 32 (''IP: '' @ ip_string a b c d)\<rparr>"

definition wifi_event_cb :: "idf \<Rightarrow> wifi_event \<Rightarrow> unit wifi_prog" where
  "wifi_event_cb e event =
     (case event of
        STA_START \<Rightarrow> sta_start e
      | STA_CONNECTED \<Rightarrow> do {
          issue WifiGetConfig;
          issue WifiSetPs;
          with_mutex e (\<lambda>s. s\<lparr>s_reconnect_retries := 0\<rparr>) }
      | STA_DISCONNECTED \<Rightarrow> with_mutex e sta_disconnected
      | STA_GOT_IP a b c d \<Rightarrow> do {
          issue WifiSetPs;
          with_mutex e (got_ip a b c d);
          text \<leftarrow> gets s_last_ip_str;
          issue (OverlayText text 0xFFFF);
          modify (\<lambda>s. s\<lparr>s_wifi_connected_sem := map_option (\<lambda>_. True) (s_wifi_connected_sem s)\<rparr>) }
      | OTHER_WIFI_EVENT \<Rightarrow> State_Monad.return ())"

definition prov_event_cb :: "idf \<Rightarrow> prov_event \<Rightarrow> unit wifi_prog" where
  "prov_event_cb e event =
     (case event of
        PROV_START \<Rightarrow> State_Monad.return ()
      | PROV_CRED_RECV None \<Rightarrow> State_Monad.return ()
      | PROV_CRED_RECV (Some (ssid, password)) \<Rightarrow> do {
          err \<leftarrow> call e NvsOpen;
          do_if (err = ESP_OK) (do {
            modify (\<lambda>s. s\<lparr>wifi_nvs := \<lparr>nvs_ssid = Some ssid, nvs_pass = Some password, nvs_applied = Some 1\<rparr>\<rparr>);
            issue NvsCommit }) }
      | PROV_CRED_FAIL \<Rightarrow> issue ProvResetSm
      | PROV_CRED_SUCCESS \<Rightarrow> State_Monad.return ()
      | PROV_END \<Rightarrow> do {
          issue ProvDeinit;
          with_mutex e (\<lambda>s. s\<lparr>s_provisioning_started := False, s_ble_fallback_mode := False\<rparr>) })"

section \<open>Reconnecting\<close>

definition get_reconnect_backoff_ms :: "int \<Rightarrow> u32" where
  "get_reconnect_backoff_ms retry_count =
     (if retry_count \<le> 0 then 0
      else let delay_s = word_of_int (2 ^ nat (retry_count - 1))
           in (if delay_s > 30 then 30 else delay_s) * 1000)"

definition retry_text :: "int \<Rightarrow> u32 \<Rightarrow> string" where
  "retry_text retry_count backoff_ms =
     snprintf_to 64 (''Wi-Fi Drop. Retry '' @ dec_digits (nat retry_count) @ ''/'' @ dec_digits (nat MAX_RECONNECT_RETRIES)
       @ '' ('' @ dec_digits (unat (backoff_ms div 1000)) @ ''s)'')"

text \<open>One turn of the reconnect task, once a count has come out of the queue.\<close>

definition reconnect_turn :: "idf \<Rightarrow> int \<Rightarrow> unit wifi_prog" where
  "reconnect_turn e retry_count =
     (if retry_count > MAX_RECONNECT_RETRIES then do {
        issue (OverlayText ''Wi-Fi Failed. Start BLE prov.'' 0xF800);
        wifi_prov_stop e;
        wifi_prov_start e;
        State_Monad.return () }
      else do {
        let backoff_ms = get_reconnect_backoff_ms retry_count;
        do_if (backoff_ms > 0) (do {
          issue (OverlayText (retry_text retry_count backoff_ms) 0xFFE0);
          issue (DelayMs backoff_ms) });
        issue WifiConnect })"

definition wifi_reconnect_task :: "idf \<Rightarrow> unit wifi_prog" where
  "wifi_reconnect_task e = do {
     q \<leftarrow> gets s_reconnect_queue;
     case q of
       Some (retry_count # rest) \<Rightarrow> do {
         modify (\<lambda>s. s\<lparr>s_reconnect_queue := Some rest\<rparr>);
         reconnect_turn e retry_count }
     | _ \<Rightarrow> State_Monad.return () }"

section \<open>Waiting for an address\<close>

text \<open>
  The semaphore counts as given when an address came before the time-out; an event that arrives while
  the caller waits is an event before the wait.
\<close>

definition wifi_prov_wait_for_ip :: "idf \<Rightarrow> bool wifi_prog" where
  "wifi_prov_wait_for_ip e = do {
     sem \<leftarrow> gets s_wifi_connected_sem;
     do_if (sem = None) (do {
       err \<leftarrow> call e SemaphoreCreate;
       do_if (err = ESP_OK) (modify (\<lambda>s. s\<lparr>s_wifi_connected_sem := Some False\<rparr>)) });
     got \<leftarrow> take_mutex e;
     last \<leftarrow> gets s_last_ip_str;
     if got \<and> last \<noteq> [] then do { issue (OverlayText last 0xFFFF); State_Monad.return True } else do {
     sem \<leftarrow> gets s_wifi_connected_sem;
     if sem = Some True then do {
       modify (\<lambda>s. s\<lparr>s_wifi_connected_sem := Some False\<rparr>);
       got \<leftarrow> take_mutex e;
       last \<leftarrow> gets s_last_ip_str;
       do_if got (issue (OverlayText last 0xFFFF));
       State_Monad.return True }
     else State_Monad.return False }}"

text \<open>\<open>wifi_prov_get_last_ip\<close> writes the buffer of \<open>buf_len\<close> bytes; \<open>None\<close> leaves it alone.\<close>

definition wifi_prov_get_last_ip :: "idf \<Rightarrow> nat \<Rightarrow> (bool \<times> string option) wifi_prog" where
  "wifi_prov_get_last_ip e buf_len =
     (if buf_len = 0 then State_Monad.return (False, None) else do {
      got \<leftarrow> take_mutex e;
      addr \<leftarrow> gets s_last_ip_addr;
      State_Monad.return
        (if \<not> got then (False, None)
         else if addr \<noteq> [] then (True, Some (take (buf_len - 1) addr)) else (False, Some [])) })"

section \<open>Boot\<close>

text \<open>
  What the other tasks may do in between: the event loop runs a handler, the reconnect task or the
  watcher takes a turn.
\<close>

datatype wifi_step = WifiEvent wifi_event | ProvEvent prov_event | ReconnectTurn | WatcherTurn

fun wifi_do :: "idf \<Rightarrow> wifi_step \<Rightarrow> unit wifi_prog" where
  "wifi_do e (WifiEvent event) = wifi_event_cb e event"
| "wifi_do e (ProvEvent event) = prov_event_cb e event"
| "wifi_do e ReconnectTurn = wifi_reconnect_task e"
| "wifi_do e WatcherTurn = nvs_watcher e"

primrec wifi_run :: "idf \<Rightarrow> wifi_step list \<Rightarrow> unit wifi_prog" where
  "wifi_run e [] = State_Monad.return ()"
| "wifi_run e (x # xs) = do { wifi_do e x; wifi_run e xs }"

definition boot_status :: "bool \<Rightarrow> string \<Rightarrow> u16 \<Rightarrow> unit wifi_prog" where
  "boot_status screen_on msg color = do_if screen_on (issue (OverlayText msg color))"

text \<open>One turn of the loop that waits for an address: the wait of half a second, the fallback after thirty seconds.\<close>

definition boot_wait_turn :: "idf \<Rightarrow> bool \<Rightarrow> u32 \<Rightarrow> bool \<Rightarrow> (bool \<times> u32 \<times> bool) wifi_prog" where
  "boot_wait_turn e screen_on elapsed ble_fallback_started = do {
     wifi_connected \<leftarrow> wifi_prov_wait_for_ip e;
     if wifi_connected then State_Monad.return (True, elapsed, ble_fallback_started) else do {
     let elapsed = elapsed + 500;
     if elapsed \<ge> 30000 \<and> \<not> ble_fallback_started then do {
       boot_status screen_on ''BLE Provisioning'' 0xFFE0;
       wifi_prov_start_ble_fallback e;
       State_Monad.return (False, elapsed, True) }
     else State_Monad.return (False, elapsed, ble_fallback_started) }}"

text \<open>The loop, for as many half seconds as the list is long: each element is what the other tasks do in one of them.\<close>

primrec boot_wait :: "idf \<Rightarrow> bool \<Rightarrow> wifi_step list list \<Rightarrow> u32 \<Rightarrow> bool \<Rightarrow> (bool \<times> u32 \<times> bool) wifi_prog" where
  "boot_wait e screen_on [] elapsed ble = State_Monad.return (False, elapsed, ble)"
| "boot_wait e screen_on (steps # rest) elapsed ble = do {
     wifi_run e steps;
     (wifi_connected, elapsed, ble) \<leftarrow> boot_wait_turn e screen_on elapsed ble;
     if wifi_connected then State_Monad.return (True, elapsed, ble) else boot_wait e screen_on rest elapsed ble }"

datatype boot_wifi_result = InitFailed | StillWaiting bool | Connected

definition boot_wifi :: "idf \<Rightarrow> bool \<Rightarrow> wifi_step list list \<Rightarrow> boot_wifi_result wifi_prog" where
  "boot_wifi e screen_on steps = do {
     ok \<leftarrow> wifi_prov_start e;
     if \<not> ok then do {
       boot_status screen_on ''Wi-Fi Init Failed!'' 0xF800;
       State_Monad.return InitFailed }
     else do {
       boot_status screen_on ''Wi-Fi Connect'' 0xFFFF;
       (wifi_connected, elapsed, ble) \<leftarrow> boot_wait e screen_on steps 0 False;
       if wifi_connected then do {
         boot_status screen_on (''Wi-Fi '' @ map char_of [0xE2, 0x9C, 0x93 :: nat]) 0x07E0;
         issue (DelayMs 1000);
         State_Monad.return Connected }
       else State_Monad.return (StillWaiting ble) }}"

end
