(* ===== verification/Wifi_Props.thy ===== *)
theory Wifi_Props
  imports Wifi
begin

text \<open>
  Properties of the Wi-Fi module.  A program is reasoned about by its weakest precondition, computed
  by rewriting; what every program keeps is shown once per primitive and lifted through the monad.
\<close>

section \<open>Weakest preconditions\<close>

definition wp :: "'a wifi_prog \<Rightarrow> ('a \<Rightarrow> wifi \<Rightarrow> bool) \<Rightarrow> wifi \<Rightarrow> bool" where
  "wp m Q s = (case run_state m s of (a, s') \<Rightarrow> Q a s')"

named_theorems wp_simps \<open>the weakest precondition of every primitive\<close>

lemma wp_return [wp_simps]: "wp (State_Monad.return a) Q s = Q a s"
  by (simp add: wp_def)

lemma wp_bind [wp_simps]: "wp (State_Monad.bind m f) Q s = wp m (\<lambda>a s'. wp (f a) Q s') s"
  by (simp add: wp_def split: prod.splits)

lemma wp_gets [wp_simps]: "wp (gets f) Q s = Q (f s) s"
  by (simp add: wp_def gets_def)

lemma wp_modify [wp_simps]: "wp (modify f) Q s = Q () (if aborted s then s else f s)"
  by (simp add: wp_def modify_def)

lemma wp_issue [wp_simps]: "wp (issue c) Q s = Q () (if aborted s then s else s\<lparr>trace := c # trace s\<rparr>)"
  by (simp add: issue_def wp_modify)

lemma wp_call [wp_simps]:
  "wp (call e c) Q s = (if aborted s then Q ESP_FAIL s else Q (esp e (trace s) c) (s\<lparr>trace := c # trace s\<rparr>))"
  by (simp add: wp_def call_def)

lemma wp_take_mutex [wp_simps]:
  "wp (take_mutex e) Q s = (if aborted s then Q False s else Q (mutex_free e (trace s)) (s\<lparr>trace := MutexTake # trace s\<rparr>))"
  by (simp add: wp_def take_mutex_def)

lemma wp_do_if [wp_simps]: "wp (do_if c m) Q s = (if c then wp m Q s else Q () s)"
  by (simp add: do_if_def wp_return)

lemma wp_if [wp_simps]: "wp (if c then m else n) Q s = (if c then wp m Q s else wp n Q s)"
  by simp

lemma wp_mono: "wp m Q s \<Longrightarrow> (\<And>a s'. Q a s' \<Longrightarrow> R a s') \<Longrightarrow> wp m R s"
  by (auto simp: wp_def split: prod.splits)

lemma wp_run: "run_state m s = (a, s') \<Longrightarrow> wp m Q s = Q a s'"
  by (simp add: wp_def)

section \<open>What a program keeps\<close>

definition keeps :: "(wifi \<Rightarrow> bool) \<Rightarrow> 'a wifi_prog \<Rightarrow> bool" where
  "keeps P m \<longleftrightarrow> (\<forall>s. P s \<longrightarrow> P (snd (run_state m s)))"

named_theorems keeps_intros \<open>the programs that keep a predicate\<close>

lemma keeps_return [keeps_intros]: "keeps P (State_Monad.return a)"
  by (simp add: keeps_def)

lemma keeps_bind [keeps_intros]: "keeps P m \<Longrightarrow> (\<And>a. keeps P (f a)) \<Longrightarrow> keeps P (State_Monad.bind m f)"
  by (simp add: keeps_def split: prod.splits) (metis snd_conv)

lemma keeps_gets [keeps_intros]: "keeps P (gets f)"
  by (simp add: keeps_def gets_def)

lemma keeps_if [keeps_intros]: "keeps P m \<Longrightarrow> keeps P n \<Longrightarrow> keeps P (if c then m else n)"
  by simp

lemma keeps_do_if [keeps_intros]: "keeps P m \<Longrightarrow> keeps P (do_if c m)"
  by (simp add: do_if_def keeps_return)

lemma keeps_modify: "(\<And>s. P s \<Longrightarrow> P (f s)) \<Longrightarrow> keeps P (modify f)"
  by (simp add: keeps_def modify_def)

lemma keepsD: "keeps P m \<Longrightarrow> run_state m s = (a, s') \<Longrightarrow> P s \<Longrightarrow> P s'"
  by (metis keeps_def snd_conv)

lemma keeps_call [keeps_intros]:
  assumes "\<And>s. P s \<Longrightarrow> P (s\<lparr>trace := c # trace s\<rparr>)"
  shows "keeps P (call e c)" "keeps P (issue c)"
  using assms by (simp_all add: keeps_def call_def issue_def modify_def)

lemma keeps_take_mutex [keeps_intros]:
  "(\<And>s. P s \<Longrightarrow> P (s\<lparr>trace := MutexTake # trace s\<rparr>)) \<Longrightarrow> keeps P (take_mutex e)"
  by (simp add: keeps_def take_mutex_def)

lemma keeps_with_mutex [keeps_intros]:
  assumes "\<And>s. P s \<Longrightarrow> P (s\<lparr>trace := MutexTake # trace s\<rparr>)" "\<And>s. P s \<Longrightarrow> P (f s)"
  shows "keeps P (with_mutex e f)"
  unfolding with_mutex_def by (intro keeps_intros keeps_modify assms)

lemma keeps_read_under_mutex [keeps_intros]:
  "(\<And>s. P s \<Longrightarrow> P (s\<lparr>trace := MutexTake # trace s\<rparr>)) \<Longrightarrow> keeps P (read_under_mutex e init f)"
  unfolding read_under_mutex_def by (intro keeps_intros)

section \<open>Drops of the connection\<close>

definition working :: "idf \<Rightarrow> bool" where
  "working e \<longleftrightarrow> (\<forall>t c. esp e t c = ESP_OK) \<and> (\<forall>t. mutex_free e t)"

definition has_credentials :: "idf \<Rightarrow> bool" where
  "has_credentials e \<longleftrightarrow> (\<forall>t. fst (sta_config e t) \<noteq> [] \<and> is_provisioned e t)"

definition idle_station :: "wifi \<Rightarrow> bool" where
  "idle_station s \<longleftrightarrow> \<not> aborted s \<and> \<not> s_provisioning_started s \<and> \<not> s_ble_fallback_mode s
     \<and> s_reconnect_queue s = Some [] \<and> s_state_mutex s \<and> s_wifi_connected_sem s \<noteq> None \<and> s_watcher_started s
     \<and> s_wifi_init_done s"

definition drop_round :: "idf \<Rightarrow> unit wifi_prog" where
  "drop_round e = do { wifi_event_cb e STA_DISCONNECTED; wifi_reconnect_task e }"

lemma working_wp:
  assumes "working e" "\<not> aborted s"
  shows "wp (call e c) Q s = Q ESP_OK (s\<lparr>trace := c # trace s\<rparr>)"
    "wp (issue c) U s = U () (s\<lparr>trace := c # trace s\<rparr>)"
    "wp (take_mutex e) B s = B True (s\<lparr>trace := MutexTake # trace s\<rparr>)"
    "wp (modify f) U s = U () (f s)"
    "wp (with_mutex e f) U s = U () (f (s\<lparr>trace := MutexTake # trace s\<rparr>))"
    "wp (read_under_mutex e init g) R s = R (g (s\<lparr>trace := MutexTake # trace s\<rparr>)) (s\<lparr>trace := MutexTake # trace s\<rparr>)"
  using assms by (simp_all add: working_def with_mutex_def read_under_mutex_def wp_simps)

lemmas pure_wp = wp_return wp_bind wp_gets wp_do_if wp_if

lemma wp_connect_saved:
  assumes "working e" "\<not> aborted s"
  shows "wp (connect_saved e) Q s = Q True (s\<lparr>s_provisioning_started := False, s_sta_started := True,
     trace := [WifiConnect, WifiSetPs, MutexTake, WifiStart, WifiSetMode, MutexTake, ProvDeinit] @ trace s\<rparr>)"
  using assms by (simp add: connect_saved_def prov_over_def pure_wp working_wp)

lemma wp_choose_branch:
  assumes "working e" "\<not> aborted s" "has_credentials e" "\<not> s_ble_fallback_mode s"
  shows "wp (choose_branch e) Q s = wp (connect_saved e) Q (s\<lparr>trace := [MutexTake, WifiGetConfig, ProvIsProvisioned] @ trace s\<rparr>)"
proof -
  have c: "fst (sta_config e t) \<noteq> []" "is_provisioned e t" for t using assms(3) by (simp_all add: has_credentials_def)
  show ?thesis using assms(1,2,4) by (simp add: choose_branch_def pure_wp working_wp c)
qed

lemma wp_start_manager:
  assumes "working e" "\<not> aborted s"
  shows "wp (start_manager e) Q s = wp (choose_branch e) Q (s\<lparr>s_prov_handler := True,
     trace := [ProvInit, HandlerRegister WIFI_PROV_EVENT] @ (if s_prov_handler s then [HandlerUnregister WIFI_PROV_EVENT] else []) @ trace s\<rparr>)"
proof -
  have u: "wp unregister_prov_handler U s = U () (s\<lparr>s_prov_handler := False,
     trace := (if s_prov_handler s then [HandlerUnregister WIFI_PROV_EVENT] else []) @ trace s\<rparr>)" for U
    using assms by (cases s; cases "s_prov_handler s") (simp_all add: unregister_prov_handler_def pure_wp working_wp)
  show ?thesis using assms by (simp add: start_manager_def register_prov_handler_def pure_wp working_wp u)
qed

lemma wp_start_tasks:
  assumes "s_reconnect_queue s \<noteq> None" "s_state_mutex s" "s_wifi_connected_sem s \<noteq> None" "s_watcher_started s"
  shows "wp (start_tasks e) Q s = Q True s"
  unfolding start_tasks_def by (simp only: wp_bind wp_gets wp_do_if wp_return if_False if_True assms simp_thms)

lemma wp_ensure_done:
  assumes "working e" "\<not> aborted s" "s_wifi_init_done s"
  shows "wp (ensure_wifi_initialized e) Q s = Q ESP_OK (s\<lparr>trace := MutexTake # trace s\<rparr>)"
  using assms by (simp add: ensure_wifi_initialized_def pure_wp working_wp)

definition idle_start_calls :: "bool \<Rightarrow> wifi_call list" where
  "idle_start_calls h =
     [WifiConnect, WifiSetPs, MutexTake, WifiStart, WifiSetMode, MutexTake, ProvDeinit, MutexTake, WifiGetConfig, ProvIsProvisioned,
      ProvInit, HandlerRegister WIFI_PROV_EVENT] @ (if h then [HandlerUnregister WIFI_PROV_EVENT] else []) @ [MutexTake, MutexTake]"

lemma wp_start_idle:
  assumes "working e" "has_credentials e" "idle_station (s\<lparr>s_reconnect_queue := Some []\<rparr>)" "s_reconnect_queue s \<noteq> None"
  shows "wp (wifi_prov_start e) Q s = Q True (s\<lparr>s_prov_handler := True, s_provisioning_started := False, s_sta_started := True,
     trace := idle_start_calls (s_prov_handler s) @ trace s\<rparr>)"
  using assms unfolding idle_station_def idle_start_calls_def
  by (cases s) (simp add: wifi_prov_start_def pure_wp working_wp wp_start_tasks wp_ensure_done wp_start_manager wp_choose_branch wp_connect_saved)

lemma wp_stop_idle:
  assumes "working e" "\<not> aborted s" "\<not> s_provisioning_started s"
  shows "wp (wifi_prov_stop e) Q s = Q () (s\<lparr>trace := MutexTake # trace s\<rparr>)"
  using assms by (simp add: wifi_prov_stop_def pure_wp working_wp)

definition retry_calls :: "int \<Rightarrow> bool \<Rightarrow> wifi_call list" where
  "retry_calls n h =
     (if n > MAX_RECONNECT_RETRIES
      then idle_start_calls h @ [MutexTake, OverlayText ''Wi-Fi Failed. Start BLE prov.'' 0xF800]
      else [WifiConnect, DelayMs (get_reconnect_backoff_ms n), OverlayText (retry_text n (get_reconnect_backoff_ms n)) 0xFFE0])"

lemma backoff_values:
  assumes "1 \<le> n" "n \<le> MAX_RECONNECT_RETRIES"
  shows "unat (get_reconnect_backoff_ms n) = 1000 * min 30 (2 ^ nat (n - 1))"
proof -
  have "n = 1 \<or> n = 2 \<or> n = 3 \<or> n = 4 \<or> n = 5 \<or> n = 6 \<or> n = 7 \<or> n = 8 \<or> n = 9 \<or> n = 10"
    using assms unfolding MAX_RECONNECT_RETRIES_def by arith
  then show ?thesis by (elim disjE) (simp_all add: get_reconnect_backoff_ms_def)
qed

lemma backoff_positive:
  assumes "1 \<le> n" "n \<le> MAX_RECONNECT_RETRIES"
  shows "get_reconnect_backoff_ms n > 0"
  using backoff_values [OF assms] by (simp add: word_less_nat_alt)

lemma wp_reconnect_turn:
  assumes "working e" "has_credentials e" "idle_station s" "1 \<le> n"
  shows "wp (reconnect_turn e n) (\<lambda>_ s'. idle_station s' \<and> s_reconnect_retries s' = s_reconnect_retries s
     \<and> trace s' = retry_calls n (s_prov_handler s) @ trace s) s"
proof (cases "n > MAX_RECONNECT_RETRIES")
  case True
  let ?o = "s\<lparr>trace := MutexTake # OverlayText ''Wi-Fi Failed. Start BLE prov.'' 0xF800 # trace s\<rparr>"
  have i: "idle_station (?o\<lparr>s_reconnect_queue := Some []\<rparr>)" "s_reconnect_queue ?o \<noteq> None" "\<not> aborted s"
    "\<not> s_provisioning_started s" using assms(3) by (simp_all add: idle_station_def)
  have w: "wp (reconnect_turn e n) Q s = wp (wifi_prov_start e) (\<lambda>_. Q ()) ?o" for Q
    using assms(1) i(3,4) True by (simp add: reconnect_turn_def pure_wp working_wp wp_stop_idle)
  show ?thesis unfolding w wp_start_idle [OF assms(1,2) i(1,2)]
    using True assms(3) by (simp add: retry_calls_def idle_station_def)
next
  case False
  then have n: "n \<le> MAX_RECONNECT_RETRIES" by simp
  have "\<not> aborted s" using assms(3) by (simp add: idle_station_def)
  then have "wp (reconnect_turn e n) Q s = Q () (s\<lparr>trace := WifiConnect # DelayMs (get_reconnect_backoff_ms n)
      # OverlayText (retry_text n (get_reconnect_backoff_ms n)) 0xFFE0 # trace s\<rparr>)" for Q
    using assms(1) n backoff_positive [OF assms(4) n] by (simp add: reconnect_turn_def Let_def pure_wp working_wp)
  then show ?thesis using n assms(3) by (simp add: retry_calls_def idle_station_def)
qed

lemma wp_drop_round:
  assumes "working e" "has_credentials e" "idle_station s" "0 \<le> s_reconnect_retries s"
  shows "wp (drop_round e) (\<lambda>_ s'. idle_station s' \<and> s_reconnect_retries s' = s_reconnect_retries s + 1
     \<and> trace s' = retry_calls (s_reconnect_retries s + 1) (s_prov_handler s) @ MutexTake # trace s) s"
proof -
  let ?n = "s_reconnect_retries s + 1"
  let ?s = "s\<lparr>trace := MutexTake # trace s, s_last_ip_str := [], s_reconnect_retries := ?n, s_reconnect_queue := Some []\<rparr>"
  have i: "idle_station ?s" "\<not> aborted s" "s_reconnect_queue s = Some []" using assms(3) by (simp_all add: idle_station_def)
  have "wp (drop_round e) Q s = wp (reconnect_turn e ?n) Q ?s" for Q
    using assms(1) i(2,3)
    by (simp add: drop_round_def wifi_event_cb_def wifi_reconnect_task_def sta_disconnected_def queue_send_def QUEUE_LENGTH_def
        pure_wp working_wp)
  then show ?thesis using wp_reconnect_turn [OF assms(1,2) i(1), of ?n] assms(4) by simp
qed

primrec drop_rounds :: "idf \<Rightarrow> nat \<Rightarrow> unit wifi_prog" where
  "drop_rounds e 0 = State_Monad.return ()"
| "drop_rounds e (Suc n) = do { drop_round e; drop_rounds e n }"

lemma retry_calls_connect:
  "count_list (retry_calls n h) WifiConnect = 1" "ProvStartBle pop name \<notin> set (retry_calls n h)"
  by (simp_all add: retry_calls_def idle_start_calls_def)

definition dropped :: "nat \<Rightarrow> wifi \<Rightarrow> wifi \<Rightarrow> bool" where
  "dropped n s s' \<longleftrightarrow> idle_station s' \<and> s_reconnect_retries s' = s_reconnect_retries s + int n
     \<and> (\<exists>new. trace s' = new @ trace s \<and> count_list new WifiConnect = n \<and> (\<forall>pop name. ProvStartBle pop name \<notin> set new)
          \<and> (0 < n \<and> MAX_RECONNECT_RETRIES < s_reconnect_retries s + int n
               \<longrightarrow> OverlayText ''Wi-Fi Failed. Start BLE prov.'' 0xF800 \<in> set new))"

lemma dropped_step:
  assumes "s_reconnect_retries s1 = s_reconnect_retries s + 1"
    "trace s1 = retry_calls (s_reconnect_retries s + 1) h @ MutexTake # trace s" "dropped n s1 s2"
  shows "dropped (Suc n) s s2"
proof -
  obtain new where new: "trace s2 = new @ trace s1" "count_list new WifiConnect = n" "\<forall>pop name. ProvStartBle pop name \<notin> set new"
    "0 < n \<and> MAX_RECONNECT_RETRIES < s_reconnect_retries s1 + int n \<longrightarrow> OverlayText ''Wi-Fi Failed. Start BLE prov.'' 0xF800 \<in> set new"
    using assms(3) unfolding dropped_def by blast
  let ?new = "new @ retry_calls (s_reconnect_retries s + 1) h @ [MutexTake]"
  have "OverlayText ''Wi-Fi Failed. Start BLE prov.'' 0xF800 \<in> set ?new"
    if "MAX_RECONNECT_RETRIES < s_reconnect_retries s + int (Suc n)"
  proof (cases n)
    case 0
    then show ?thesis using that by (simp add: retry_calls_def)
  next
    case (Suc m)
    then show ?thesis using that new(4) assms(1) by simp
  qed
  moreover have "trace s2 = ?new @ trace s" "count_list ?new WifiConnect = Suc n" "\<forall>pop name. ProvStartBle pop name \<notin> set ?new"
    using new(1,2,3) assms(2) retry_calls_connect by simp_all
  ultimately show ?thesis using assms(1,3) unfolding dropped_def by (intro conjI exI [of _ ?new]) simp_all
qed

lemma wp_drop_rounds:
  assumes "working e" "has_credentials e"
  shows "idle_station s \<Longrightarrow> 0 \<le> s_reconnect_retries s \<Longrightarrow> wp (drop_rounds e n) (\<lambda>_. dropped n s) s"
proof (induction n arbitrary: s)
  case 0
  then show ?case by (simp add: wp_return dropped_def)
next
  case (Suc n)
  show ?case unfolding drop_rounds.simps wp_bind
  proof (rule wp_mono [OF wp_drop_round [OF assms Suc.prems]], elim conjE)
    fix a s1
    assume s1: "idle_station s1" "s_reconnect_retries s1 = s_reconnect_retries s + 1"
      "trace s1 = retry_calls (s_reconnect_retries s + 1) (s_prov_handler s) @ MutexTake # trace s"
    then have "0 \<le> s_reconnect_retries s1" using Suc.prems by simp
    from wp_mono [OF Suc.IH [OF s1(1) this] dropped_step [OF s1(2,3)]]
    show "wp (drop_rounds e n) (\<lambda>_. dropped (Suc n) s) s1" .
  qed
qed

lemma wp_ensure_first:
  assumes "working e" "\<not> aborted s" "\<not> s_wifi_init_done s"
  shows "wp (ensure_wifi_initialized e) Q s = Q ESP_OK (s\<lparr>s_wifi_init_done := True,
     trace := [MutexTake, HandlerRegister IP_EVENT, HandlerRegister WIFI_EVENT, WifiInit, NetifCreateSta, EventLoopCreate, NetifInit,
       NvsFlashInit, MutexTake] @ trace s\<rparr>)"
  using assms by (cases s) (simp add: ensure_wifi_initialized_def pure_wp working_wp)

lemma wp_start_tasks_first:
  assumes "working e"
  shows "wp (start_tasks e) Q (wifi_boot nvs) = Q True ((wifi_boot nvs)\<lparr>s_reconnect_queue := Some [], s_state_mutex := True,
     s_wifi_connected_sem := Some False, s_watcher_started := True,
     trace := [TaskCreate ''prov_watcher'', SemaphoreCreate, MutexCreate, TaskCreate ''wifi_reconnect'', QueueCreate]\<rparr>)"
  using assms by (simp add: start_tasks_def wifi_boot_def pure_wp working_wp)

text \<open>The boot with saved credentials: the station starts and connects.\<close>

lemma wp_first_start:
  assumes "working e" "has_credentials e"
  shows "wp (wifi_prov_start e) (\<lambda>ok s'. ok \<and> idle_station s' \<and> count_list (trace s') WifiConnect = 1
     \<and> (\<forall>pop name. ProvStartBle pop name \<notin> set (trace s'))) (wifi_boot nvs)"
proof -
  have b: "\<not> aborted (wifi_boot nvs)" "\<not> s_provisioning_started (wifi_boot nvs)" "\<not> s_wifi_init_done (wifi_boot nvs)"
    "\<not> s_ble_fallback_mode (wifi_boot nvs)" "\<not> s_prov_handler (wifi_boot nvs)" by (simp_all add: wifi_boot_def)
  show ?thesis using assms
    by (simp add: wifi_prov_start_def wp_start_tasks_first pure_wp working_wp wp_ensure_first wp_start_manager wp_choose_branch
        wp_connect_saved idle_station_def b) blast
qed

text \<open>A connection, then drops of it, each followed by a turn of the reconnect task.\<close>

definition connect_and_drop :: "idf \<Rightarrow> nat \<Rightarrow> unit wifi_prog" where
  "connect_and_drop e n = do { wifi_prov_start e; wifi_event_cb e STA_CONNECTED; drop_rounds e n }"

text \<open>C26 (drops_only_reconnect): With saved credentials, every driver call succeeding and the mutex
free, n drops of the connection in a row, each followed by a turn of the reconnect task and with
no connection in between, lead to exactly n further connection attempts, and BLE provisioning is
never started, although after the tenth drop the screen says that it is.\<close>

theorem drops_only_reconnect:
  assumes "working e" "has_credentials e" "run_state (connect_and_drop e n) (wifi_boot nvs) = (u, s')"
  shows "count_list (trace s') WifiConnect = n + 1 \<and> (\<forall>pop name. ProvStartBle pop name \<notin> set (trace s'))
     \<and> (10 < n \<longrightarrow> OverlayText ''Wi-Fi Failed. Start BLE prov.'' 0xF800 \<in> set (trace s'))"
proof -
  have "wp (connect_and_drop e n) (\<lambda>_ s'. count_list (trace s') WifiConnect = n + 1 \<and> (\<forall>pop name. ProvStartBle pop name \<notin> set (trace s'))
     \<and> (10 < n \<longrightarrow> OverlayText ''Wi-Fi Failed. Start BLE prov.'' 0xF800 \<in> set (trace s'))) (wifi_boot nvs)"
    unfolding connect_and_drop_def wp_bind
  proof (rule wp_mono [OF wp_first_start [OF assms(1,2)]], elim conjE)
    fix ok s
    assume s: "idle_station s" "count_list (trace s) WifiConnect = 1" "\<forall>pop name. ProvStartBle pop name \<notin> set (trace s)"
    let ?s = "s\<lparr>s_reconnect_retries := 0, trace := MutexTake # WifiSetPs # WifiGetConfig # trace s\<rparr>"
    have i: "idle_station ?s" "0 \<le> s_reconnect_retries ?s" using s(1) by (simp_all add: idle_station_def)
    have w: "wp (wifi_event_cb e STA_CONNECTED) Q s = Q () ?s" for Q
      using assms(1) s(1) by (cases s) (simp add: wifi_event_cb_def pure_wp working_wp idle_station_def)
    show "wp (wifi_event_cb e STA_CONNECTED) (\<lambda>a. wp (drop_rounds e n) (\<lambda>_ s'. count_list (trace s') WifiConnect = n + 1
       \<and> (\<forall>pop name. ProvStartBle pop name \<notin> set (trace s'))
       \<and> (10 < n \<longrightarrow> OverlayText ''Wi-Fi Failed. Start BLE prov.'' 0xF800 \<in> set (trace s')))) s"
      unfolding w
    proof (rule wp_mono [OF wp_drop_rounds [OF assms(1,2) i]])
      fix b s' assume "dropped n ?s s'"
      then obtain new where "trace s' = new @ trace ?s" "count_list new WifiConnect = n" "\<forall>pop name. ProvStartBle pop name \<notin> set new"
        "0 < n \<and> MAX_RECONNECT_RETRIES < int n \<longrightarrow> OverlayText ''Wi-Fi Failed. Start BLE prov.'' 0xF800 \<in> set new"
        unfolding dropped_def by auto
      then show "count_list (trace s') WifiConnect = n + 1 \<and> (\<forall>pop name. ProvStartBle pop name \<notin> set (trace s'))
        \<and> (10 < n \<longrightarrow> OverlayText ''Wi-Fi Failed. Start BLE prov.'' 0xF800 \<in> set (trace s'))"
        using s(2,3) by (simp add: MAX_RECONNECT_RETRIES_def)
    qed
  qed
  then show ?thesis using assms(3) by (simp add: wp_run)
qed

definition sample_idf :: "string \<Rightarrow> idf" where
  "sample_idf ssid =
     \<lparr>esp = \<lambda>_ _. ESP_OK, sta_config = \<lambda>_. (ssid, ''secret''), is_provisioned = \<lambda>_. ssid \<noteq> [], mutex_free = \<lambda>_. True\<rparr>"

theorem drops_only_reconnect_witness:
  "\<exists>s'. run_state (connect_and_drop (sample_idf ''home'') 12) (wifi_boot \<lparr>nvs_ssid = None, nvs_pass = None, nvs_applied = None\<rparr>) = ((), s')
     \<and> count_list (trace s') WifiConnect = 13 \<and> ProvStartBle ''abcd1234'' ''PROV_speck10'' \<notin> set (trace s')
     \<and> OverlayText ''Wi-Fi Failed. Start BLE prov.'' 0xF800 \<in> set (trace s')"
proof -
  let ?b = "wifi_boot \<lparr>nvs_ssid = None, nvs_pass = None, nvs_applied = None\<rparr>"
  obtain u s' where r: "run_state (connect_and_drop (sample_idf ''home'') 12) ?b = (u, s')" by (rule prod.exhaust)
  have w: "working (sample_idf ''home'')" "has_credentials (sample_idf ''home'')"
    by (simp_all add: sample_idf_def working_def has_credentials_def)
  show ?thesis using drops_only_reconnect [OF w r] r by (intro exI [of _ s']) simp
qed

section \<open>Starting\<close>

text \<open>What a return of \<open>wifi_prov_start\<close> means: the flag, and the last thing asked of the drivers.\<close>

definition start_outcome :: "bool \<Rightarrow> wifi \<Rightarrow> bool" where
  "start_outcome ok s \<longleftrightarrow> aborted s \<or>
     (if ok
      then s_provisioning_started s \<and> hd (trace s) = ProvStartBle ''abcd1234'' ''PROV_speck10''
           \<or> s_provisioning_started s \<and> hd (trace s) = ProvInit
           \<or> \<not> s_provisioning_started s \<and> s_sta_started s \<and> hd (trace s) = WifiConnect
      else \<not> s_provisioning_started s)"

definition always_free :: "idf \<Rightarrow> bool" where
  "always_free e \<longleftrightarrow> (\<forall>t. mutex_free e t)"

text \<open>The provisioning manager says provisioned exactly when a network name is configured.\<close>

definition coherent :: "idf \<Rightarrow> bool" where
  "coherent e \<longleftrightarrow> (\<forall>t. is_provisioned e (ProvIsProvisioned # t) = (fst (sta_config e (WifiGetConfig # ProvIsProvisioned # t)) \<noteq> []))"

lemma free_with_mutex:
  "always_free e \<Longrightarrow> wp (with_mutex e f) Q s = Q () (if aborted s then s else f (s\<lparr>trace := MutexTake # trace s\<rparr>))"
  by (simp add: with_mutex_def wp_simps always_free_def)

lemma free_read_under_mutex:
  "always_free e \<Longrightarrow> wp (read_under_mutex e init f) Q s =
     (if aborted s then Q init s else Q (f (s\<lparr>trace := MutexTake # trace s\<rparr>)) (s\<lparr>trace := MutexTake # trace s\<rparr>))"
  by (simp add: read_under_mutex_def wp_simps always_free_def)

lemma start_ble_outcome:
  assumes "always_free e" "aborted s \<or> s_provisioning_started s"
  shows "wp (start_ble e) start_outcome s"
  using assms
  by (auto simp: start_ble_def register_prov_handler_def prov_over_def wp_simps free_with_mutex start_outcome_def)

lemma connect_saved_outcome: "always_free e \<Longrightarrow> wp (connect_saved e) start_outcome s"
  by (auto simp: connect_saved_def prov_over_def wp_simps free_with_mutex start_outcome_def)

lemma choose_branch_outcome:
  assumes "always_free e" "coherent e" "aborted s \<or> s_provisioning_started s"
  shows "wp (choose_branch e) start_outcome s"
proof (cases "aborted s")
  case True
  then have "start_outcome False s" by (simp add: start_outcome_def)
  then show ?thesis using True
    by (simp add: choose_branch_def wp_simps free_read_under_mutex [OF assms(1)] start_ble_outcome [OF assms(1)]
        connect_saved_outcome [OF assms(1)])
next
  case False
  have c: "is_provisioned e (ProvIsProvisioned # trace s) = (fst (sta_config e (WifiGetConfig # ProvIsProvisioned # trace s)) \<noteq> [])"
    using assms(2) by (simp add: coherent_def)
  show ?thesis using False assms(3)
    by (simp add: choose_branch_def wp_simps free_read_under_mutex [OF assms(1)] start_ble_outcome [OF assms(1)]
        connect_saved_outcome [OF assms(1)] c)
qed

lemma start_manager_outcome:
  assumes "always_free e" "coherent e" "aborted s \<or> s_provisioning_started s"
  shows "wp (start_manager e) start_outcome s"
  using assms(3)
  by (auto simp: start_manager_def unregister_prov_handler_def register_prov_handler_def wp_simps free_with_mutex [OF assms(1)]
      choose_branch_outcome [OF assms(1,2)] prov_over_def) (auto simp: start_outcome_def)

lemma wp_any: "(\<And>a s'. Q a s') \<Longrightarrow> wp m Q s"
  by (simp add: wp_def split: prod.splits)

lemma wp_keeps: "keeps P m \<Longrightarrow> P s \<Longrightarrow> (\<And>a s'. P s' \<Longrightarrow> Q a s') \<Longrightarrow> wp m Q s"
  by (simp add: wp_def keeps_def split: prod.splits) (metis snd_conv)

lemma keeps_start_tasks [keeps_intros]:
  assumes "\<And>s c. P s \<Longrightarrow> P (s\<lparr>trace := c # trace s\<rparr>)" "\<And>s. P s \<Longrightarrow> P (s\<lparr>s_reconnect_queue := Some []\<rparr>)"
    "\<And>s. P s \<Longrightarrow> P (s\<lparr>s_state_mutex := True\<rparr>)" "\<And>s. P s \<Longrightarrow> P (s\<lparr>s_wifi_connected_sem := Some False\<rparr>)"
    "\<And>s. P s \<Longrightarrow> P (s\<lparr>s_watcher_started := True\<rparr>)"
  shows "keeps P (start_tasks e)"
  unfolding start_tasks_def by (intro keeps_intros keeps_modify assms)

lemma keeps_error_check [keeps_intros]:
  assumes "\<And>s c. P s \<Longrightarrow> P (s\<lparr>trace := c # trace s\<rparr>)" "\<And>s. P s \<Longrightarrow> P (s\<lparr>aborted := True\<rparr>)"
  shows "keeps P (error_check e c)"
  unfolding error_check_def by (intro keeps_intros keeps_modify assms)

lemma keeps_ensure [keeps_intros]:
  assumes "\<And>s c. P s \<Longrightarrow> P (s\<lparr>trace := c # trace s\<rparr>)" "\<And>s. P s \<Longrightarrow> P (s\<lparr>aborted := True\<rparr>)"
    "\<And>s. P s \<Longrightarrow> P (s\<lparr>s_wifi_init_done := True\<rparr>)"
  shows "keeps P (ensure_wifi_initialized e)"
  unfolding ensure_wifi_initialized_def by (intro keeps_intros keeps_modify assms)

text \<open>
  When starting the provisioning is over, the return value and the flag tell what happened: BLE
  provisioning is running (or the manager was already), or the station connects with the saved
  credentials and the flag is clear; a failure leaves the flag clear, so that it can be tried again.
\<close>

text \<open>C17 (start_outcome_holds): With the state mutex free and a manager that calls the device
provisioned exactly when a network name is saved, and for any results of the other driver calls,
starting the provisioning tells what happened by its value and the flag: true with the flag set
means the manager runs, true with the flag clear that the station connects, and false leaves the
flag clear so that a later start is not refused.\<close>

theorem start_outcome_holds:
  assumes "always_free e" "coherent e" "\<not> s_provisioning_started s" "run_state (wifi_prov_start e) s = (ok, s')"
  shows "start_outcome ok s'"
proof -
  have "wp (wifi_prov_start e) start_outcome s"
    unfolding wifi_prov_start_def wp_bind
  proof (rule wp_keeps [where P = "\<lambda>s. \<not> s_provisioning_started s"])
    show "keeps (\<lambda>s. \<not> s_provisioning_started s) (start_tasks e)" by (intro keeps_intros) simp_all
    show "\<not> s_provisioning_started s" by (rule assms(3))
    fix made and s1 :: wifi
    assume s1: "\<not> s_provisioning_started s1"
    have f: "mutex_free e t" for t using assms(1) by (simp add: always_free_def)
    have e: "wp (ensure_wifi_initialized e) (\<lambda>err s'. (err \<noteq> ESP_OK \<longrightarrow> wp (with_mutex e prov_over) (\<lambda>a. start_outcome False) s')
        \<and> (err = ESP_OK \<longrightarrow> wp (start_manager e) start_outcome s')) s2"
      if "aborted s2 \<or> s_provisioning_started s2" for s2 :: wifi
    proof (rule wp_keeps [where P = "\<lambda>s. aborted s \<or> s_provisioning_started s"])
      show "keeps (\<lambda>s. aborted s \<or> s_provisioning_started s) (ensure_wifi_initialized e)" by (intro keeps_intros) auto
      show "aborted s2 \<or> s_provisioning_started s2" by (rule that)
      fix err and s3 :: wifi
      assume "aborted s3 \<or> s_provisioning_started s3"
      then show "(err \<noteq> ESP_OK \<longrightarrow> wp (with_mutex e prov_over) (\<lambda>a. start_outcome False) s3)
          \<and> (err = ESP_OK \<longrightarrow> wp (start_manager e) start_outcome s3)"
        by (auto simp: free_with_mutex [OF assms(1)] start_manager_outcome [OF assms(1,2)] start_outcome_def prov_over_def)
    qed
    show "wp (if \<not> made then State_Monad.return False else do {
        got \<leftarrow> take_mutex e;
        active \<leftarrow> gets (\<lambda>s. got \<and> s_provisioning_started s);
        if active then State_Monad.return True else do {
        do_if got (modify (\<lambda>s. s\<lparr>s_provisioning_started := True\<rparr>));
        err \<leftarrow> ensure_wifi_initialized e;
        if err \<noteq> ESP_OK then do { with_mutex e prov_over; State_Monad.return False } else start_manager e }}) start_outcome s1"
    proof (cases "made")
      case False
      then show ?thesis using s1 by (simp add: wp_return start_outcome_def)
    next
      case True
      then show ?thesis using s1 f by (cases "aborted s1") (simp_all add: wp_simps e)
    qed
  qed
  then show ?thesis by (simp add: wp_run [OF assms(4)])
qed

theorem start_outcome_holds_witness:
  "\<exists>ok s'. run_state (wifi_prov_start (sample_idf [])) (wifi_boot \<lparr>nvs_ssid = None, nvs_pass = None, nvs_applied = None\<rparr>) = (ok, s')
     \<and> ok \<and> s_provisioning_started s' \<and> (hd (trace s') = ProvStartBle ''abcd1234'' ''PROV_speck10'' \<or> hd (trace s') = ProvInit)"
proof -
  let ?b = "wifi_boot \<lparr>nvs_ssid = None, nvs_pass = None, nvs_applied = None\<rparr>"
  obtain ok s' where r: "run_state (wifi_prov_start (sample_idf [])) ?b = (ok, s')" by (rule prod.exhaust)
  have a: "always_free (sample_idf [])" "coherent (sample_idf [])" "\<not> s_provisioning_started ?b"
    by (simp_all add: sample_idf_def always_free_def coherent_def wifi_boot_def)
  have w: "working (sample_idf [])" by (simp add: sample_idf_def working_def)
  have b: "\<not> aborted ?b" "\<not> s_provisioning_started ?b" "\<not> s_wifi_init_done ?b" "\<not> s_prov_handler ?b"
    by (simp_all add: wifi_boot_def)
  have f: "fst (sta_config (sample_idf []) t) = []" "\<not> is_provisioned (sample_idf []) t" for t by (simp_all add: sample_idf_def)
  have "wp (wifi_prov_start (sample_idf [])) (\<lambda>ok s'. ok \<and> \<not> aborted s' \<and> s_provisioning_started s') ?b"
    by (simp add: wifi_prov_start_def wp_start_tasks_first [OF w] pure_wp working_wp [OF w] wp_ensure_first [OF w] wp_start_manager [OF w]
        choose_branch_def f start_ble_def register_prov_handler_def b)
  then have "ok" "\<not> aborted s'" "s_provisioning_started s'" by (simp_all add: wp_run [OF r])
  moreover from this have "hd (trace s') = ProvStartBle ''abcd1234'' ''PROV_speck10'' \<or> hd (trace s') = ProvInit"
    using start_outcome_holds [OF a r] by (simp add: start_outcome_def)
  ultimately show ?thesis using r by blast
qed

text \<open>Without credentials the handler of the provisioning events ends up registered twice.\<close>

lemma start_ble_registers_again:
  assumes "working e" "\<not> aborted s" "\<not> s_prov_handler s" "\<not> s_ble_fallback_mode s"
    "\<And>t. \<not> is_provisioned e t" "\<And>t. fst (sta_config e t) = []"
  shows "wp (start_manager e) (\<lambda>ok s'. ok \<and> (\<exists>new. trace s' = new @ trace s
     \<and> count_list new (HandlerRegister WIFI_PROV_EVENT) = 2 \<and> HandlerUnregister WIFI_PROV_EVENT \<notin> set new)) s"
  using assms(1-4)
  by (simp add: wp_start_manager choose_branch_def start_ble_def register_prov_handler_def pure_wp working_wp assms(5,6))

section \<open>The watcher\<close>

fun sets_config :: "wifi_call \<Rightarrow> bool" where
  "sets_config (WifiSetConfig _ _) = True"
| "sets_config _ = False"

text \<open>
  Credentials left in storage with no \<open>applied\<close> mark are configured by the next turn of the watcher, cut
  to 31 and 63 characters, and marked; the turn after does nothing.
\<close>

definition configured :: "string \<Rightarrow> string \<Rightarrow> wifi \<Rightarrow> wifi \<Rightarrow> bool" where
  "configured ssid pass s s' \<longleftrightarrow> \<not> aborted s' \<and> \<not> s_provisioning_started s'
     \<and> wifi_nvs s' = \<lparr>nvs_ssid = Some ssid, nvs_pass = Some pass, nvs_applied = Some 1\<rparr>
     \<and> (\<exists>new. trace s' = new @ trace s \<and> filter sets_config new = [WifiSetConfig (take 31 ssid) (take 63 pass)]
          \<and> hd new = (if s_sta_started s then WifiConnect else WifiStart))"

lemma wp_apply:
  assumes "working e" "\<not> aborted s" "\<not> s_provisioning_started s" "filter sets_config old = []" "trace s = old @ trace s0"
    "s_sta_started s0 = s_sta_started s"
  shows "wp (wifi_prov_apply_credentials e ssid (Some pass)) (\<lambda>_. configured ssid pass s0) s"
proof -
  let ?c = "WifiSetConfig (take 31 ssid) (take 63 pass)"
  have fin: "configured ssid pass s0 s'" if "\<not> aborted s'" "\<not> s_provisioning_started s'"
    "wifi_nvs s' = \<lparr>nvs_ssid = Some ssid, nvs_pass = Some pass, nvs_applied = Some 1\<rparr>"
    "trace s' = (x # xs @ ?c # ys) @ trace s" "x = (if s_sta_started s then WifiConnect else WifiStart)"
    "filter sets_config xs = []" "filter sets_config ys = []" for s' x xs ys
    using that assms(4,5,6) unfolding configured_def by (intro conjI exI [of _ "x # xs @ ?c # ys @ old"]) simp_all
  show ?thesis
  proof (cases "s_wifi_init_done s")
    case True
    show ?thesis
    proof (cases "s_sta_started s")
      case st: True
      show ?thesis using assms(1,2,3) True st
        by (simp add: wifi_prov_apply_credentials_def pure_wp working_wp wp_ensure_done)
          (rule fin [where xs = "[WifiDisconnect, MutexTake]" and ys = "[WifiSetMode, NvsCommit, NvsOpen, MutexTake]"]; simp)
    next
      case st: False
      show ?thesis using assms(1,2,3) True st
        by (simp add: wifi_prov_apply_credentials_def pure_wp working_wp wp_ensure_done)
          (rule fin [where xs = "[MutexTake]" and ys = "[WifiSetMode, NvsCommit, NvsOpen, MutexTake]"]; simp)
    qed
  next
    case False
    let ?y = "[WifiSetMode, NvsCommit, NvsOpen, MutexTake, HandlerRegister IP_EVENT, HandlerRegister WIFI_EVENT, WifiInit, NetifCreateSta,
      EventLoopCreate, NetifInit, NvsFlashInit, MutexTake]"
    show ?thesis
    proof (cases "s_sta_started s")
      case st: True
      show ?thesis using assms(1,2,3) False st
        by (simp add: wifi_prov_apply_credentials_def pure_wp working_wp wp_ensure_first)
          (rule fin [where xs = "[WifiDisconnect, MutexTake]" and ys = ?y]; simp)
    next
      case st: False
      show ?thesis using assms(1,2,3) False st
        by (simp add: wifi_prov_apply_credentials_def pure_wp working_wp wp_ensure_first)
          (rule fin [where xs = "[MutexTake]" and ys = ?y]; simp)
    qed
  qed
qed

text \<open>C23 (watcher_applies_once): With no provisioning under way, when every driver call succeeds and
the mutex is free, a network name of at most 32 and a non-empty password of at most 64 characters
left in storage without the applied mark are configured by the next turn of the watcher task, cut
to 31 and 63 characters, and marked; the turn after looks into the storage and changes nothing.\<close>

theorem watcher_applies_once:
  assumes "working e" "\<not> aborted s" "\<not> s_provisioning_started s"
    "wifi_nvs s = \<lparr>nvs_ssid = Some ssid, nvs_pass = Some pass, nvs_applied = applied\<rparr>" "applied = None \<or> applied = Some 0"
    "length ssid \<le> 32" "pass \<noteq> []" "length pass \<le> 64"
    "run_state (nvs_watcher e) s = (u, s1)" "run_state (nvs_watcher e) s1 = (v, s2)"
  shows "wifi_nvs s1 = \<lparr>nvs_ssid = Some ssid, nvs_pass = Some pass, nvs_applied = Some 1\<rparr>
    \<and> (\<exists>new. trace s1 = new @ trace s \<and> filter sets_config new = [WifiSetConfig (take 31 ssid) (take 63 pass)]
          \<and> hd new = (if s_sta_started s then WifiConnect else WifiStart))
    \<and> trace s2 = [NvsOpen, MutexTake, DelayMs 10000] @ trace s1 \<and> wifi_nvs s2 = wifi_nvs s1"
proof -
  have g: "nvs_get_str 33 (Some ssid) = Some ssid" "nvs_get_str 65 (Some pass) = Some pass"
    using assms(6,8) by (simp_all add: nvs_get_str_def)
  have "wp (nvs_watcher e) (\<lambda>_. configured ssid pass s) s"
    using assms(1-5,7)
    by (simp add: nvs_watcher_def pure_wp working_wp g Let_def)
      (rule wp_apply [where old = "[NvsOpen, MutexTake, DelayMs 10000]"]; simp)
  then have c: "configured ssid pass s s1" by (simp add: wp_run [OF assms(9)])
  then have "wp (nvs_watcher e) (\<lambda>_ s2. trace s2 = [NvsOpen, MutexTake, DelayMs 10000] @ trace s1 \<and> wifi_nvs s2 = wifi_nvs s1) s1"
    using assms(1) by (simp add: nvs_watcher_def pure_wp working_wp configured_def)
  then show ?thesis using c unfolding configured_def by (simp add: wp_run [OF assms(10)])
qed

theorem watcher_applies_once_witness:
  "\<exists>s1 s2. run_state (nvs_watcher (sample_idf ''home'')) (wifi_boot \<lparr>nvs_ssid = Some ''barn'', nvs_pass = Some ''hay'', nvs_applied = None\<rparr>) = ((), s1)
     \<and> run_state (nvs_watcher (sample_idf ''home'')) s1 = ((), s2)
     \<and> filter sets_config (trace s2) = [WifiSetConfig ''barn'' ''hay''] \<and> hd (trace s1) = WifiStart"
proof -
  let ?e = "sample_idf ''home''"
  let ?s = "wifi_boot \<lparr>nvs_ssid = Some ''barn'', nvs_pass = Some ''hay'', nvs_applied = None\<rparr>"
  obtain u s1 where r1: "run_state (nvs_watcher ?e) ?s = (u, s1)" by (rule prod.exhaust)
  obtain v s2 where r2: "run_state (nvs_watcher ?e) s1 = (v, s2)" by (rule prod.exhaust)
  have h: "working ?e" "\<not> aborted ?s" "\<not> s_provisioning_started ?s"
    "wifi_nvs ?s = \<lparr>nvs_ssid = Some ''barn'', nvs_pass = Some ''hay'', nvs_applied = None\<rparr>" "\<not> s_sta_started ?s" "trace ?s = []"
    by (simp_all add: sample_idf_def working_def wifi_boot_def)
  obtain new where n: "trace s1 = new" "filter sets_config new = [WifiSetConfig ''barn'' ''hay'']" "hd new = WifiStart"
    "trace s2 = [NvsOpen, MutexTake, DelayMs 10000] @ trace s1"
    using watcher_applies_once [OF h(1-4) _ _ _ _ r1 r2] h(5,6) by auto
  then show ?thesis using r1 r2 by (intro exI [of _ s1] exI [of _ s2]) simp
qed

end
