(* ===== verification/Wifi_Boot.thy ===== *)
theory Wifi_Boot
  imports Wifi_Props
begin

text \<open>
  The wait for an address at boot: which steps of the other tasks can end it, and when the fallback
  to BLE provisioning starts.  What all programs of the module keep is stated as a locale.
\<close>

fun gives_address :: "wifi_step \<Rightarrow> bool" where
  "gives_address (WifiEvent (STA_GOT_IP _ _ _ _)) = True"
| "gives_address _ = False"

section \<open>A predicate that all but two programs keep\<close>

lemma keeps_wp: "(\<And>s. P s \<Longrightarrow> wp m (\<lambda>_. P) s) \<Longrightarrow> keeps P m"
  by (simp add: keeps_def wp_def case_prod_beta)

text \<open>
  \<open>P\<close> survives every call but \<open>esp_wifi_stop\<close>, and every change of the statics but a new address and what comes
  with it; the semaphore is set to empty only where there was none.
\<close>

locale radio_invariant =
  fixes P :: "wifi \<Rightarrow> bool"
  assumes P_call: "P s \<Longrightarrow> c \<noteq> WifiStop \<Longrightarrow> P (s\<lparr>trace := c # trace s\<rparr>)"
    and P_queue: "P s \<Longrightarrow> P (s\<lparr>s_reconnect_queue := q\<rparr>)"
    and P_mutex: "P s \<Longrightarrow> P (s\<lparr>s_state_mutex := b\<rparr>)"
    and P_started: "P s \<Longrightarrow> P (s\<lparr>s_provisioning_started := b\<rparr>)"
    and P_watcher: "P s \<Longrightarrow> P (s\<lparr>s_watcher_started := b\<rparr>)"
    and P_init: "P s \<Longrightarrow> P (s\<lparr>s_wifi_init_done := b\<rparr>)"
    and P_sta: "P s \<Longrightarrow> P (s\<lparr>s_sta_started := b\<rparr>)"
    and P_fallback: "P s \<Longrightarrow> P (s\<lparr>s_ble_fallback_mode := b\<rparr>)"
    and P_handler: "P s \<Longrightarrow> P (s\<lparr>s_prov_handler := b\<rparr>)"
    and P_sem: "P s \<Longrightarrow> s_wifi_connected_sem s = None \<Longrightarrow> P (s\<lparr>s_wifi_connected_sem := Some False\<rparr>)"
    and P_no_ip: "P s \<Longrightarrow> P (s\<lparr>s_last_ip_str := []\<rparr>)"
    and P_retries: "P s \<Longrightarrow> P (s\<lparr>s_reconnect_retries := n\<rparr>)"
    and P_nvs: "P s \<Longrightarrow> P (s\<lparr>wifi_nvs := v\<rparr>)"
    and P_aborted: "P s \<Longrightarrow> P (s\<lparr>aborted := True\<rparr>)"
begin

lemmas P_intros = P_call P_queue P_mutex P_started P_watcher P_init P_sta P_fallback P_handler P_sem P_no_ip P_retries P_nvs P_aborted

lemma P_mutex_call: "P s \<Longrightarrow> P (s\<lparr>trace := MutexTake # trace s\<rparr>)"
  by (simp add: P_call)

lemma P_over: "P s \<Longrightarrow> P (prov_over s)"
  by (simp add: prov_over_def P_started)

lemma P_send: "P s \<Longrightarrow> P (queue_send v s)"
  by (simp add: queue_send_def P_queue split: option.split)

lemma P_disconnected: "P s \<Longrightarrow> P (sta_disconnected s)"
  by (simp add: sta_disconnected_def P_send P_retries P_no_ip)

lemma P_two:
  "P s \<Longrightarrow> P (s\<lparr>s_provisioning_started := b, s_ble_fallback_mode := c\<rparr>)"
  "P s \<Longrightarrow> P (s\<lparr>s_reconnect_retries := n, s_ble_fallback_mode := c\<rparr>)"
  by (simp_all add: P_fallback P_started P_retries)

lemmas P_rules = P_intros P_mutex_call P_over P_send P_disconnected P_two

lemma keeps_ensure_wifi: "keeps P (ensure_wifi_initialized e)"
  unfolding ensure_wifi_initialized_def error_check_def
  by (intro keeps_intros keeps_modify) (simp_all add: P_rules)

lemma keeps_make_sem:
  assumes "keeps P rest"
  shows "keeps P (do {
     sem \<leftarrow> gets s_wifi_connected_sem;
     do_if (sem = None) (do {
       err \<leftarrow> call e SemaphoreCreate;
       do_if (err = ESP_OK) (modify (\<lambda>s. s\<lparr>s_wifi_connected_sem := Some False\<rparr>)) });
     rest })"
proof (rule keeps_wp)
  fix s assume "P s"
  moreover have "wp rest (\<lambda>_. P) s'" if "P s'" for s' by (rule wp_keeps [OF assms that])
  ultimately show "wp (do {
     sem \<leftarrow> gets s_wifi_connected_sem;
     do_if (sem = None) (do {
       err \<leftarrow> call e SemaphoreCreate;
       do_if (err = ESP_OK) (modify (\<lambda>s. s\<lparr>s_wifi_connected_sem := Some False\<rparr>)) });
     rest }) (\<lambda>_. P) s" by (simp add: wp_simps P_call P_sem)
qed

lemma keeps_tasks: "keeps P (start_tasks e)"
  unfolding start_tasks_def by (intro keeps_intros keeps_modify keeps_make_sem) (simp_all add: P_rules)

lemma keeps_handlers: "keeps P unregister_prov_handler" "keeps P (register_prov_handler e)"
  unfolding unregister_prov_handler_def register_prov_handler_def
  by (intro keeps_intros keeps_modify; simp add: P_rules)+

lemma keeps_start_ble: "keeps P (start_ble e)"
  unfolding start_ble_def by (intro keeps_intros keeps_modify keeps_handlers) (simp_all add: P_rules)

lemma keeps_connect_saved: "keeps P (connect_saved e)"
  unfolding connect_saved_def by (intro keeps_intros keeps_modify) (simp_all add: P_rules)

lemma keeps_choose_branch: "keeps P (choose_branch e)"
  unfolding choose_branch_def by (intro keeps_intros keeps_modify keeps_start_ble keeps_connect_saved) (simp_all add: P_rules)

lemma keeps_start_manager: "keeps P (start_manager e)"
  unfolding start_manager_def by (intro keeps_intros keeps_modify keeps_handlers keeps_choose_branch) (simp_all add: P_rules)

lemma keeps_start: "keeps P (wifi_prov_start e)"
  unfolding wifi_prov_start_def
  by (intro keeps_intros keeps_modify keeps_tasks keeps_ensure_wifi keeps_start_manager) (simp_all add: P_rules)

lemma keeps_stop: "keeps P (wifi_prov_stop e)"
  unfolding wifi_prov_stop_def stop_manager_def
  by (intro keeps_intros keeps_modify keeps_handlers) (simp_all add: P_rules)

lemma keeps_apply: "keeps P (wifi_prov_apply_credentials e ssid password)"
  unfolding wifi_prov_apply_credentials_def
  by (intro keeps_intros keeps_modify keeps_ensure_wifi) (simp_all add: P_rules)

lemma keeps_watcher: "keeps P (nvs_watcher e)"
  unfolding nvs_watcher_def Let_def
  by (intro keeps_intros keeps_modify) (auto simp: P_rules split: option.split intro!: keeps_intros keeps_apply)

lemma keeps_sta_start: "keeps P (sta_start e)"
  unfolding sta_start_def by (intro keeps_intros keeps_modify keeps_start) (simp_all add: P_rules)

lemma keeps_wifi_event: "\<not> gives_address (WifiEvent event) \<Longrightarrow> keeps P (wifi_event_cb e event)"
  unfolding wifi_event_cb_def
  by (cases event) (auto intro!: keeps_intros keeps_sta_start simp: P_rules)

lemma keeps_prov_event: "keeps P (prov_event_cb e event)"
  unfolding prov_event_cb_def
  by (auto intro!: keeps_intros keeps_modify simp: P_rules split: prov_event.split option.split)

lemma keeps_reconnect: "keeps P (wifi_reconnect_task e)"
  unfolding wifi_reconnect_task_def reconnect_turn_def Let_def
  by (auto intro!: keeps_intros keeps_modify keeps_stop keeps_start simp: P_rules split: option.split list.split)

lemma keeps_step: "\<not> gives_address x \<Longrightarrow> keeps P (wifi_do e x)"
  by (cases x) (simp_all add: keeps_wifi_event keeps_prov_event keeps_reconnect keeps_watcher)

lemma keeps_run: "\<forall>x \<in> set xs. \<not> gives_address x \<Longrightarrow> keeps P (wifi_run e xs)"
  by (induction xs) (auto intro!: keeps_intros keeps_step)

end

section \<open>No address yet\<close>

definition no_address :: "nat \<Rightarrow> wifi \<Rightarrow> bool" where
  "no_address k s \<longleftrightarrow> s_last_ip_str s = [] \<and> s_wifi_connected_sem s \<noteq> Some True \<and> count_list (trace s) WifiStop \<le> k"

interpretation no_address_radio: radio_invariant "no_address k" for k
  by unfold_locales (simp_all add: no_address_def)

lemma keeps_status: "keeps (no_address k) (boot_status on msg c)"
  unfolding boot_status_def by (intro keeps_intros) (simp add: no_address_def)

lemma no_address_fallback:
  assumes "no_address k s"
  shows "wp (wifi_prov_start_ble_fallback e) (\<lambda>_. no_address (Suc k)) s"
proof -
  have s: "wp (wifi_prov_start e) (\<lambda>_. no_address (Suc k)) s'" if "no_address (Suc k) s'" for s'
    by (rule wp_keeps [OF no_address_radio.keeps_start that])
  show ?thesis using assms
    by (auto simp: wifi_prov_start_ble_fallback_def wp_simps no_address_def intro!: s)
qed

lemma no_address_wait:
  assumes "no_address k s"
  shows "wp (wifi_prov_wait_for_ip e) (\<lambda>c s'. \<not> c \<and> no_address k s') s"
  using assms by (auto simp: wifi_prov_wait_for_ip_def wp_simps no_address_def)

text \<open>A turn of the loop with no address: the time goes on, and after thirty seconds the fallback has started.\<close>

lemma no_address_turn:
  assumes "no_address k s"
  shows "wp (boot_wait_turn e on elapsed ble) (\<lambda>r s'. r = (False, elapsed + 500, ble \<or> elapsed + 500 \<ge> 30000)
     \<and> no_address (if elapsed + 500 \<ge> 30000 \<and> \<not> ble then Suc k else k) s') s"
proof -
  have f: "wp (boot_status on msg c) (\<lambda>_. wp (wifi_prov_start_ble_fallback e) (\<lambda>_. no_address (Suc k))) s'" if "no_address k s'" for s' msg c
    by (rule wp_keeps [OF keeps_status that no_address_fallback])
  show ?thesis unfolding boot_wait_turn_def wp_bind
  proof (rule wp_mono [OF no_address_wait [OF assms]])
    fix c and s' :: wifi
    assume q: "\<not> c \<and> no_address k s'"
    then show "wp (if c then State_Monad.return (True, elapsed, ble) else let elapsed = elapsed + 500 in
        if elapsed \<ge> 30000 \<and> \<not> ble then do {
          boot_status on ''BLE Provisioning'' 0xFFE0;
          wifi_prov_start_ble_fallback e;
          State_Monad.return (False, elapsed, True) }
        else State_Monad.return (False, elapsed, ble))
      (\<lambda>r s'. r = (False, elapsed + 500, ble \<or> elapsed + 500 \<ge> 30000)
         \<and> no_address (if elapsed + 500 \<ge> 30000 \<and> \<not> ble then Suc k else k) s') s'"
      using f [of s'] by (auto simp: Let_def wp_bind wp_return)
  qed
qed

definition waited :: "nat \<Rightarrow> u32 \<Rightarrow> bool \<Rightarrow> bool" where
  "waited k elapsed ble \<longleftrightarrow> ble = (60 \<le> k) \<and> (k < 60 \<longrightarrow> unat elapsed = 500 * k)"

lemma waited_step:
  assumes "waited k elapsed ble"
  shows "waited (Suc k) (elapsed + 500) (ble \<or> elapsed + 500 \<ge> 30000)"
    "elapsed + 500 \<ge> 30000 \<and> \<not> ble \<longleftrightarrow> Suc k = 60"
proof -
  have u: "unat (elapsed + 500) = 500 * Suc k" if "k < 60"
    using assms that unat_add_lem [of elapsed 500] by (simp add: waited_def)
  show "waited (Suc k) (elapsed + 500) (ble \<or> elapsed + 500 \<ge> 30000)"
    using assms u by (auto simp: waited_def word_le_nat_alt)
  show "elapsed + 500 \<ge> 30000 \<and> \<not> ble \<longleftrightarrow> Suc k = 60"
    using assms u by (auto simp: waited_def word_le_nat_alt)
qed

lemma no_address_loop:
  assumes "\<forall>steps \<in> set batches. \<forall>x \<in> set steps. \<not> gives_address x"
  shows "waited k elapsed ble \<Longrightarrow> no_address (if 60 \<le> k then 1 else 0) s \<Longrightarrow>
    wp (boot_wait e on batches elapsed ble) (\<lambda>(c, elapsed', ble') s'. \<not> c \<and> waited (k + length batches) elapsed' ble'
      \<and> no_address (if 60 \<le> k + length batches then 1 else 0) s') s"
  using assms
proof (induction batches arbitrary: k elapsed ble s)
  case Nil
  then show ?case by (simp add: wp_return)
next
  case (Cons steps rest)
  let ?Q = "\<lambda>(c, elapsed', ble') s'. \<not> c \<and> waited (k + length (steps # rest)) elapsed' ble'
      \<and> no_address (if 60 \<le> k + length (steps # rest) then 1 else 0) s'"
  have ih: "wp (boot_wait e on rest (elapsed + 500) (ble \<or> elapsed + 500 \<ge> 30000)) ?Q s2"
    if "no_address (if 60 \<le> Suc k then 1 else 0) s2" for s2
    using Cons.IH [OF waited_step(1) [OF Cons.prems(1)] that] Cons.prems(3) by simp
  show ?case unfolding boot_wait.simps wp_bind
  proof (rule wp_keeps [OF no_address_radio.keeps_run Cons.prems(2)])
    show "\<forall>x\<in>set steps. \<not> gives_address x" using Cons.prems(3) by simp
  next
    fix u and s1 :: wifi
    assume q: "no_address (if 60 \<le> k then 1 else 0) s1"
    show "wp (boot_wait_turn e on elapsed ble) (\<lambda>r. wp (case r of (c, elapsed, ble) \<Rightarrow>
        if c then State_Monad.return (True, elapsed, ble) else boot_wait e on rest elapsed ble) ?Q) s1"
    proof (rule wp_mono [OF no_address_turn [OF q]])
      fix r and s2 :: wifi
      assume r: "r = (False, elapsed + 500, ble \<or> elapsed + 500 \<ge> 30000)
        \<and> no_address (if elapsed + 500 \<ge> 30000 \<and> \<not> ble then Suc (if 60 \<le> k then 1 else 0) else if 60 \<le> k then 1 else 0) s2"
      then have "no_address (if 60 \<le> Suc k then 1 else 0) s2"
        unfolding waited_step(2) [OF Cons.prems(1)] by (auto split: if_splits)
      from ih [OF this] r show "wp (case r of (c, elapsed, ble) \<Rightarrow>
        if c then State_Monad.return (True, elapsed, ble) else boot_wait e on rest elapsed ble) ?Q s2" by simp
    qed
  qed
qed

section \<open>The address\<close>

lemma wp_run_append: "wp (wifi_run e (xs @ ys)) Q s = wp (wifi_run e xs) (\<lambda>_. wp (wifi_run e ys) Q) s"
  by (induction xs arbitrary: s) (simp_all add: wp_return wp_bind)

text \<open>The semaphore is there; it is given.  A program that has stopped stays stopped.\<close>

definition sem_made :: "wifi \<Rightarrow> bool" where
  "sem_made s \<longleftrightarrow> aborted s \<or> s_wifi_connected_sem s \<noteq> None"

definition sem_given :: "wifi \<Rightarrow> bool" where
  "sem_given s \<longleftrightarrow> aborted s \<or> s_wifi_connected_sem s = Some True"

interpretation stopped: radio_invariant aborted
  by unfold_locales simp_all

interpretation made: radio_invariant sem_made
  by unfold_locales (simp_all add: sem_made_def)

interpretation given: radio_invariant sem_given
  by unfold_locales (auto simp: sem_given_def)

text \<open>An address gives the semaphore, and no other step takes it back.\<close>

lemma address_gives: "sem_made s \<Longrightarrow> wp (wifi_event_cb e (STA_GOT_IP a b c d)) (\<lambda>_. sem_given) s"
  by (auto simp: wifi_event_cb_def wp_simps with_mutex_def sem_made_def sem_given_def got_ip_def)

lemma given_made: "sem_given s \<Longrightarrow> sem_made s"
  by (auto simp: sem_given_def sem_made_def)

lemma step_keeps:
  assumes "\<not> gives_address x \<Longrightarrow> keeps P (wifi_do e x)" "\<And>s. sem_given s \<Longrightarrow> P s" "\<And>s. P s \<Longrightarrow> sem_made s"
  shows "keeps P (wifi_do e x)"
proof (cases "gives_address x")
  case True
  then obtain a b c d where "x = WifiEvent (STA_GOT_IP a b c d)" by (cases x rule: gives_address.cases) simp_all
  then show ?thesis by (simp only: wifi_do.simps) (rule keeps_wp, rule wp_mono [OF address_gives [OF assms(3)] assms(2)])
qed (rule assms(1))

lemma keeps_run_of: "(\<And>x. keeps P (wifi_do e x)) \<Longrightarrow> keeps P (wifi_run e xs)"
  by (induction xs) (simp_all add: keeps_return keeps_bind)

lemma made_run: "keeps sem_made (wifi_run e xs)"
  by (rule keeps_run_of, rule step_keeps, rule made.keeps_step) (simp_all add: given_made)

lemma given_run: "keeps sem_given (wifi_run e xs)"
  by (rule keeps_run_of, rule step_keeps, rule given.keeps_step) (simp_all add: given_made)

lemma address_arrives:
  assumes "\<exists>x \<in> set xs. gives_address x" "sem_made s"
  shows "wp (wifi_run e xs) (\<lambda>_. sem_given) s"
proof -
  obtain pre x post where x: "xs = pre @ x # post" "gives_address x" using assms(1) by (auto dest: split_list)
  obtain a b c d where "x = WifiEvent (STA_GOT_IP a b c d)" using x(2) by (cases x rule: gives_address.cases) simp_all
  then have "wp (wifi_run e (x # post)) (\<lambda>_. sem_given) s'" if "sem_made s'" for s'
    using wp_mono [OF address_gives [OF that]] wp_keeps [OF given_run] by (simp add: wp_bind)
  then show ?thesis unfolding x(1) wp_run_append by (rule wp_keeps [OF made_run assms(2)])
qed

lemma stopped_run: "keeps aborted (wifi_run e xs)"
proof (rule keeps_run_of)
  fix x show "keeps aborted (wifi_do e x)"
  proof (cases "gives_address x")
    case True
    then obtain a b c d where "x = WifiEvent (STA_GOT_IP a b c d)" by (cases x rule: gives_address.cases) simp_all
    then show ?thesis by (auto simp: wifi_event_cb_def got_ip_def intro!: keeps_intros keeps_modify)
  qed (rule stopped.keeps_step)
qed

lemma stopped_turn: "keeps aborted (boot_wait_turn e on elapsed ble)"
  unfolding boot_wait_turn_def wifi_prov_wait_for_ip_def wifi_prov_start_ble_fallback_def boot_status_def Let_def
  by (intro keeps_intros keeps_modify stopped.keeps_start) simp_all

lemma stopped_loop: "keeps aborted (boot_wait e on batches elapsed ble)"
proof (induction batches arbitrary: elapsed ble)
  case Nil
  then show ?case by (simp add: keeps_return)
next
  case (Cons steps rest)
  show ?case unfolding boot_wait.simps
    by (intro keeps_bind stopped_run stopped_turn) (auto intro!: keeps_intros Cons.IH split: prod.split)
qed

text \<open>A turn of the wait ends it when the semaphore is given; otherwise the semaphore is still there.\<close>

lemma made_turn:
  assumes "sem_made s"
  shows "wp (boot_wait_turn e on elapsed ble) (\<lambda>_. sem_made) s"
proof -
  have f: "keeps sem_made (wifi_prov_start_ble_fallback e)"
    unfolding wifi_prov_start_ble_fallback_def
    by (intro keeps_intros keeps_modify made.keeps_start) (simp_all add: sem_made_def)
  have "keeps sem_made (wifi_prov_wait_for_ip e)"
    unfolding wifi_prov_wait_for_ip_def by (intro keeps_intros keeps_modify) (simp_all add: sem_made_def)
  moreover have "keeps sem_made (boot_status on msg c)" for msg c
    unfolding boot_status_def by (intro keeps_intros) (simp add: sem_made_def)
  ultimately have k: "keeps sem_made (boot_wait_turn e on elapsed ble)"
    unfolding boot_wait_turn_def Let_def by (intro keeps_intros f)
  show ?thesis by (rule wp_keeps [OF k assms])
qed

lemma given_ends_wait:
  assumes "sem_given s"
  shows "wp (boot_wait_turn e on elapsed ble) (\<lambda>r s'. aborted s' \<or> fst r) s"
proof (cases "aborted s")
  case True
  then show ?thesis by (rule wp_keeps [OF stopped_turn]) simp
next
  case False
  then have "s_wifi_connected_sem s = Some True" using assms by (simp add: sem_given_def)
  then have "wp (wifi_prov_wait_for_ip e) (\<lambda>c s'. c) s"
    using False by (auto simp: wifi_prov_wait_for_ip_def wp_simps)
  then show ?thesis unfolding boot_wait_turn_def wp_bind by (rule wp_mono) (simp add: wp_return)
qed

lemma address_ends_loop:
  assumes "\<exists>steps \<in> set batches. \<exists>x \<in> set steps. gives_address x"
  shows "sem_made s \<Longrightarrow> wp (boot_wait e on batches elapsed ble) (\<lambda>r s'. aborted s' \<or> fst r) s"
  using assms
proof (induction batches arbitrary: elapsed ble s)
  case (Cons steps rest)
  let ?Q = "\<lambda>r s'. aborted s' \<or> fst r"
  let ?then = "\<lambda>(c, elapsed, ble). if c then State_Monad.return (True, elapsed, ble) else boot_wait e on rest elapsed ble"
  show ?case
  proof (cases "\<exists>x \<in> set steps. gives_address x")
    case True
    have t: "wp (?then r) ?Q s2" if "aborted s2 \<or> fst r" for r :: "bool \<times> u32 \<times> bool" and s2
    proof (cases "fst r")
      case False
      then have "aborted s2" using that by simp
      then show ?thesis using False by (cases r) (simp add: wp_keeps [OF stopped_loop])
    qed (cases r, simp add: wp_return)
    show ?thesis unfolding boot_wait.simps wp_bind
      by (rule wp_mono [OF address_arrives [OF True Cons.prems(1)]], rule wp_mono [OF given_ends_wait], assumption)
        (use t in \<open>simp add: case_prod_beta\<close>)
  next
    case False
    then have r: "\<exists>steps \<in> set rest. \<exists>x \<in> set steps. gives_address x" using Cons.prems(2) by simp
    have t: "wp (?then r) ?Q s2" if "sem_made s2" for r :: "bool \<times> u32 \<times> bool" and s2
      using Cons.IH [OF that r] by (cases r) (simp add: wp_return)
    show ?thesis unfolding boot_wait.simps wp_bind
      by (rule wp_keeps [OF made_run Cons.prems(1)], rule wp_mono [OF made_turn], assumption)
        (use t in \<open>simp add: case_prod_beta\<close>)
  qed
qed simp

section \<open>The boot\<close>

lemma no_address_boot: "no_address 0 (wifi_boot nvs)"
  by (simp add: no_address_def wifi_boot_def)

text \<open>What the boot does once the waiting is over.\<close>

definition after_wait :: "bool \<Rightarrow> bool \<times> u32 \<times> bool \<Rightarrow> boot_wifi_result wifi_prog" where
  "after_wait on r = (case r of (wifi_connected, elapsed, ble) \<Rightarrow>
     if wifi_connected then do {
       boot_status on (''Wi-Fi '' @ map char_of [0xE2, 0x9C, 0x93 :: nat]) 0x07E0;
       issue (DelayMs 1000);
       State_Monad.return Connected }
     else State_Monad.return (StillWaiting ble))"

lemma boot_wifi_ends: "boot_wifi e on batches = do {
     ok \<leftarrow> wifi_prov_start e;
     if \<not> ok then do { boot_status on ''Wi-Fi Init Failed!'' 0xF800; State_Monad.return InitFailed }
     else do {
       boot_status on ''Wi-Fi Connect'' 0xFFFF;
       r \<leftarrow> boot_wait e on batches 0 False;
       after_wait on r }}"
  unfolding boot_wifi_def after_wait_def ..

lemma boot_wifi_wp:
  assumes "wp (wifi_prov_start e) (\<lambda>ok s1. ok \<longrightarrow> (\<forall>s2. P s2 \<longrightarrow> wp (boot_wait e on batches 0 False) (\<lambda>r. wp (after_wait on r) Q) s2) \<and> P s1) s"
    "\<And>s'. Q InitFailed s'" "\<And>s' c. P s' \<Longrightarrow> P (if aborted s' then s' else s'\<lparr>trace := OverlayText ''Wi-Fi Connect'' 0xFFFF # trace s'\<rparr>)"
  shows "wp (boot_wifi e on batches) Q s"
  unfolding boot_wifi_ends wp_bind
proof (rule wp_mono [OF assms(1)])
  fix ok s1
  assume a: "ok \<longrightarrow> (\<forall>s2. P s2 \<longrightarrow> wp (boot_wait e on batches 0 False) (\<lambda>r. wp (after_wait on r) Q) s2) \<and> P s1"
  show "wp (if \<not> ok then do { boot_status on ''Wi-Fi Init Failed!'' 0xF800; State_Monad.return InitFailed }
     else do {
       boot_status on ''Wi-Fi Connect'' 0xFFFF;
       r \<leftarrow> boot_wait e on batches 0 False;
       after_wait on r }) Q s1"
    using a assms(2) assms(3) [of s1] by (cases "aborted s1"; cases on) (simp_all add: wp_bind wp_return wp_any boot_status_def wp_do_if wp_issue)
qed

lemma boot_without_address:
  assumes "\<forall>steps \<in> set batches. \<forall>x \<in> set steps. \<not> gives_address x"
  shows "wp (boot_wifi e on batches) (\<lambda>r s'. r = InitFailed
     \<or> r = StillWaiting (60 \<le> length batches) \<and> count_list (trace s') WifiStop \<le> (if 60 \<le> length batches then 1 else 0)) (wifi_boot nvs)"
  (is "wp _ ?Q _")
proof (rule boot_wifi_wp [where P = "no_address 0"])
  have f: "wp (after_wait on r) ?Q s2" if "(case r of (c, elapsed', ble') \<Rightarrow> \<lambda>s'. \<not> c \<and> waited (length batches) elapsed' ble'
      \<and> no_address (if 60 \<le> length batches then 1 else 0) s') s2" for r :: "bool \<times> u32 \<times> bool" and s2
    using that by (cases r) (auto simp: after_wait_def wp_return waited_def no_address_def)
  have l: "wp (boot_wait e on batches 0 False) (\<lambda>r. wp (after_wait on r) ?Q) s2" if "no_address 0 s2" for s2
    by (rule wp_mono [OF no_address_loop [OF assms, of 0 0 False s2 e on]])
      (use that f in \<open>simp_all add: waited_def case_prod_unfold\<close>)
  show "wp (wifi_prov_start e) (\<lambda>ok s1. ok \<longrightarrow> (\<forall>s2. no_address 0 s2 \<longrightarrow>
      wp (boot_wait e on batches 0 False) (\<lambda>r. wp (after_wait on r) ?Q) s2) \<and> no_address 0 s1) (wifi_boot nvs)"
    by (rule wp_keeps [OF no_address_radio.keeps_start no_address_boot]) (use l in blast)
qed (simp_all add: no_address_def)

text \<open>The semaphore is made before the station starts.\<close>

lemma start_makes_sem:
  assumes "\<forall>t. esp e t SemaphoreCreate = ESP_OK"
  shows "wp (wifi_prov_start e) (\<lambda>ok s'. ok \<longrightarrow> sem_made s') s"
proof -
  have t: "wp (start_tasks e) (\<lambda>made s'. made \<longrightarrow> sem_made s') s"
    using assms by (simp add: start_tasks_def wp_simps sem_made_def del: not_None_eq)
  have m: "keeps sem_made (do {
     got \<leftarrow> take_mutex e;
     active \<leftarrow> gets (\<lambda>s. got \<and> s_provisioning_started s);
     if active then State_Monad.return True else do {
     do_if got (modify (\<lambda>s. s\<lparr>s_provisioning_started := True\<rparr>));
     err \<leftarrow> ensure_wifi_initialized e;
     if err \<noteq> ESP_OK then do { with_mutex e prov_over; State_Monad.return False }
     else start_manager e }})"
    by (intro keeps_intros keeps_modify made.keeps_ensure_wifi made.keeps_start_manager) (simp_all add: made.P_rules)
  show ?thesis unfolding wifi_prov_start_def wp_bind
    by (rule wp_mono [OF t]) (simp add: wp_if wp_return wp_keeps [OF m])
qed

lemma boot_with_address:
  assumes "\<forall>t. esp e t SemaphoreCreate = ESP_OK" "\<exists>steps \<in> set batches. \<exists>x \<in> set steps. gives_address x"
  shows "wp (boot_wifi e on batches) (\<lambda>r s'. aborted s' \<or> r = InitFailed \<or> r = Connected) s"
proof (rule boot_wifi_wp [where P = sem_made])
  let ?Q = "\<lambda>r s'. aborted s' \<or> r = InitFailed \<or> r = Connected"
  have f: "wp (after_wait on r) ?Q s2" if "aborted s2 \<or> fst r" for r :: "bool \<times> u32 \<times> bool" and s2
    using that by (cases r) (auto simp: after_wait_def wp_bind wp_return intro!: wp_any)
  have "wp (boot_wait e on batches 0 False) (\<lambda>r. wp (after_wait on r) ?Q) s2" if "sem_made s2" for s2
    by (rule wp_mono [OF address_ends_loop [OF assms(2) that] f])
  then show "wp (wifi_prov_start e) (\<lambda>ok s1. ok \<longrightarrow> (\<forall>s2. sem_made s2 \<longrightarrow>
      wp (boot_wait e on batches 0 False) (\<lambda>r. wp (after_wait on r) ?Q) s2) \<and> sem_made s1) s"
    using wp_mono [OF start_makes_sem [OF assms(1)]] by auto
qed (auto simp: sem_made_def)

text \<open>The fallback stops the radio, unless a provisioning is on.\<close>

definition radio_stopped :: "wifi \<Rightarrow> bool" where
  "radio_stopped s \<longleftrightarrow> aborted s \<or> WifiStop \<in> set (trace s)"

interpretation radio_off: radio_invariant radio_stopped
  by unfold_locales (auto simp: radio_stopped_def)

lemma fallback_stops: "wp (wifi_prov_start_ble_fallback e) (\<lambda>_ s'. s_provisioning_started s' \<or> radio_stopped s') s"
proof -
  have w: "wp (wifi_prov_start e) (\<lambda>_ s'. s_provisioning_started s' \<or> radio_stopped s') s1" if "radio_stopped s1" for s1
    by (rule wp_keeps [OF radio_off.keeps_start that]) simp
  show ?thesis by (auto simp: wifi_prov_start_ble_fallback_def wp_simps radio_stopped_def intro!: w [unfolded radio_stopped_def])
qed

lemma wp_returned: "wp (State_Monad.return a) Q = Q a"
  by (simp add: fun_eq_iff wp_return)

lemma boot_wait_append:
  "wp (boot_wait e on (xs @ ys) elapsed ble) Q =
   wp (boot_wait e on xs elapsed ble) (\<lambda>(c, elapsed, ble). if c then Q (True, elapsed, ble) else wp (boot_wait e on ys elapsed ble) Q)"
proof (induction xs arbitrary: elapsed ble)
  case Nil
  then show ?case by (simp add: wp_returned)
next
  case (Cons x xs)
  show ?case
    by (rule ext) (simp add: wp_bind Cons.IH case_prod_beta if_distrib [of "\<lambda>m. wp m Q" for Q] wp_returned cong: if_cong)
qed

lemma fallback_turn:
  assumes "no_address k s" "waited 59 elapsed ble"
  shows "wp (boot_wait_turn e on elapsed ble) (\<lambda>r s'. s_provisioning_started s' \<or> radio_stopped s') s"
proof -
  have c: "elapsed + 500 \<ge> 30000" "\<not> ble" using waited_step(2) [OF assms(2)] by simp_all
  show ?thesis unfolding boot_wait_turn_def wp_bind
    by (rule wp_mono [OF no_address_wait [OF assms(1)]])
      (use c in \<open>auto simp: Let_def wp_bind wp_return intro!: wp_any [of _ "boot_status _ _ _"] wp_mono [OF fallback_stops]\<close>)
qed

lemma boot_falls_back:
  assumes "\<forall>steps \<in> set batches. \<forall>x \<in> set steps. \<not> gives_address x" "length batches = 60"
  shows "wp (boot_wifi e on batches) (\<lambda>r s'. r = InitFailed \<or> r = Connected \<or> s_provisioning_started s' \<or> radio_stopped s') (wifi_boot nvs)"
  (is "wp _ ?Q _")
proof (rule boot_wifi_wp [where P = "no_address 0"])
  obtain xs steps where b: "batches = xs @ [steps]" "length xs = 59"
    using assms(2) by (cases batches rule: rev_cases) simp_all
  let ?R = "\<lambda>r s'. fst r \<or> s_provisioning_started s' \<or> radio_stopped s'"
  have final: "wp (boot_wait e on [steps] el ble) ?R s2" if "waited 59 el ble" "no_address 0 s2" for el ble s2
    unfolding boot_wait.simps wp_bind
  proof (rule wp_keeps [OF no_address_radio.keeps_run that(2)])
    show "\<forall>x\<in>set steps. \<not> gives_address x" using assms(1) b(1) by simp
  next
    fix u and s3 :: wifi assume n: "no_address 0 s3"
    show "wp (boot_wait_turn e on el ble) (\<lambda>r. wp (case r of (c, elapsed, ble) \<Rightarrow>
        if c then State_Monad.return (True, elapsed, ble) else State_Monad.return (False, elapsed, ble)) ?R) s3"
      by (rule wp_mono [OF fallback_turn [OF n that(1)]]) (simp add: case_prod_beta wp_return wp_if)
  qed
  have xs: "\<forall>steps \<in> set xs. \<forall>x \<in> set steps. \<not> gives_address x" using assms(1) b(1) by simp
  have g: "case r of (c, elapsed, ble) \<Rightarrow> if c then ?R (True, elapsed, ble) s2 else wp (boot_wait e on [steps] elapsed ble) ?R s2"
    if "(case r of (c, elapsed', ble') \<Rightarrow> \<lambda>s'. \<not> c \<and> waited (0 + length xs) elapsed' ble'
      \<and> no_address (if 60 \<le> 0 + length xs then 1 else 0) s') s2" for r :: "bool \<times> u32 \<times> bool" and s2
    using that b(2) final by (cases r) simp
  have l: "wp (boot_wait e on batches 0 False) ?R s2" if "no_address 0 s2" for s2
    unfolding b(1) boot_wait_append
    by (rule wp_mono [OF no_address_loop [OF xs, of 0]])
      (use that g in \<open>simp_all add: waited_def case_prod_unfold\<close>)
  have f: "wp (after_wait on r) ?Q s2" if "?R r s2" for r :: "bool \<times> u32 \<times> bool" and s2
    using that by (cases r) (auto simp: after_wait_def wp_bind wp_return intro!: wp_any)
  have k: "wp (boot_wait e on batches 0 False) (\<lambda>r. wp (after_wait on r) ?Q) s2" if "no_address 0 s2" for s2
    by (rule wp_mono [OF l [OF that] f])
  show "wp (wifi_prov_start e) (\<lambda>ok s1. ok \<longrightarrow> (\<forall>s2. no_address 0 s2 \<longrightarrow>
      wp (boot_wait e on batches 0 False) (\<lambda>r. wp (after_wait on r) ?Q) s2) \<and> no_address 0 s1) (wifi_boot nvs)"
    by (rule wp_keeps [OF no_address_radio.keeps_start no_address_boot]) (use k in blast)
qed (simp_all add: no_address_def)

text \<open>
  The boot waits for an address.  When the address comes the wait ends, and it ends with nothing else; while
  none comes the wait goes on, and BLE provisioning is started as a fallback once, after thirty seconds.
\<close>

text \<open>C16 (boot_waits_for_address): The boot waits for an address: whether or not the state mutex is
granted, and whatever the event handlers, the reconnect task and the watcher do between two waits,
the wait is over exactly when an address event has come, in any half second and at any place among
the other turns. While none comes it goes on; nothing stops the radio for thirty seconds, then the
fallback to BLE provisioning stops it unless a provisioning is on, and later it is not stopped
again. The conditions: the semaphore was created, no call checked by ESP_ERROR_CHECK fails and the
Wi-Fi module starts. A turn of another task is taken as a whole, between two waits of the boot.\<close>

theorem boot_waits_for_address:
  assumes "run_state (boot_wifi e on batches) (wifi_boot nvs) = (r, s')" "\<forall>t. esp e t SemaphoreCreate = ESP_OK"
    "\<not> aborted s'" "r \<noteq> InitFailed"
  shows "(r = Connected \<longleftrightarrow> (\<exists>steps \<in> set batches. \<exists>x \<in> set steps. gives_address x))
    \<and> (r \<noteq> Connected \<longrightarrow> r = StillWaiting (60 \<le> length batches)
         \<and> count_list (trace s') WifiStop \<le> (if 60 \<le> length batches then 1 else 0)
         \<and> (length batches = 60 \<longrightarrow> s_provisioning_started s' \<or> WifiStop \<in> set (trace s')))"
proof (cases "\<exists>steps \<in> set batches. \<exists>x \<in> set steps. gives_address x")
  case True
  then have "r = Connected"
    using boot_with_address [OF assms(2) True, of on "wifi_boot nvs"] assms(3,4) by (simp add: wp_run [OF assms(1)])
  then show ?thesis using True by simp
next
  case False
  then have n: "\<forall>steps \<in> set batches. \<forall>x \<in> set steps. \<not> gives_address x" by blast
  have w: "r = StillWaiting (60 \<le> length batches)" "count_list (trace s') WifiStop \<le> (if 60 \<le> length batches then 1 else 0)"
    using boot_without_address [OF n, of e on nvs] assms(4) by (simp_all add: wp_run [OF assms(1)])
  moreover have "s_provisioning_started s' \<or> WifiStop \<in> set (trace s')" if "length batches = 60"
    using boot_falls_back [OF n that, of e on nvs] assms(3,4) w(1) by (simp add: wp_run [OF assms(1)] radio_stopped_def)
  ultimately show ?thesis using False by simp
qed

definition sample_nvs :: wifi_nvs where
  "sample_nvs = \<lparr>nvs_ssid = None, nvs_pass = None, nvs_applied = None\<rparr>"

definition sample_batches :: "wifi_step list list" where
  "sample_batches = [[], [WifiEvent STA_CONNECTED, WifiEvent (STA_GOT_IP 192 168 0 7), WatcherTurn], []]"

text \<open>An ESP-IDF whose state mutex is never free.\<close>

definition busy_idf :: idf where
  "busy_idf = \<lparr>esp = \<lambda>_ _. ESP_OK, sta_config = \<lambda>_. (''home'', ''secret''), is_provisioned = \<lambda>_. True, mutex_free = \<lambda>_. False\<rparr>"

lemma sample_wifi_boot:
  "fst (run_state (boot_wifi busy_idf True sample_batches) (wifi_boot sample_nvs)) \<noteq> InitFailed"
  "\<not> aborted (snd (run_state (boot_wifi busy_idf True sample_batches) (wifi_boot sample_nvs)))"
  "fst (run_state (boot_wifi busy_idf True [[], []]) (wifi_boot sample_nvs)) \<noteq> InitFailed"
  "\<not> aborted (snd (run_state (boot_wifi busy_idf True [[], []]) (wifi_boot sample_nvs)))"
  by code_simp+

theorem boot_waits_for_address_witness:
  "fst (run_state (boot_wifi busy_idf True sample_batches) (wifi_boot sample_nvs)) = Connected
   \<and> fst (run_state (boot_wifi busy_idf True [[], []]) (wifi_boot sample_nvs)) = StillWaiting False"
proof -
  have a: "\<forall>t. esp busy_idf t SemaphoreCreate = ESP_OK" by (simp add: busy_idf_def)
  note b = boot_waits_for_address [OF prod.collapse [symmetric] a]
  have "\<exists>steps \<in> set sample_batches. \<exists>x \<in> set steps. gives_address x" by (simp add: sample_batches_def)
  then show ?thesis using b [OF sample_wifi_boot(2,1)] b [OF sample_wifi_boot(4,3)] by simp
qed

end
