(* ===== verification/Display_Push.thy ===== *)
theory Display_Push
  imports Display "HOL-Library.Sublist"
begin

text \<open>
  The asynchronous transfer of a frame to the panel (\<open>lcd_push_frame_async_pingpong\<close> of
  \<open>src/src/display/Display.cpp\<close>): five strips, six SPI transactions each, two strip buffers used in turn.

  \<^item> A transaction of pixels refers to its strip buffer: the bus reads the buffer when it performs the
    transaction, not when it is queued.  \<open>wire\<close> is what the bus has put on the wire so far.
  \<^item> The driver keeps the transactions not yet performed in order (\<open>pending\<close>), and the number performed
    whose result was not collected (\<open>finished\<close>).
  \<^item> How fast the bus is, is a parameter: at its k-th call the driver finds \<open>bus_now k\<close> more transactions
    performed, and \<open>bus_later k\<close> more within the 200 ms it may wait.  \<open>bus_failed k\<close> is an error of that call.
  \<^item> \<open>stalls\<close> counts the calls that waited the 200 ms in vain.
\<close>

section \<open>The driver\<close>

datatype spi_trans = Command u8 | Params "u8 list" | Pixels nat

datatype spi_wire = WireCommand u8 | WireParams "u8 list" | WirePixels "u16 list"

record spi =
  pending :: "spi_trans list"
  finished :: nat
  strip_bufs :: "nat \<Rightarrow> u16 list"
  trans_count :: int
  wire :: "spi_wire list"
  calls :: nat
  stalls :: nat

record spi_bus =
  bus_now :: "nat \<Rightarrow> nat"
  bus_later :: "nat \<Rightarrow> nat"
  bus_failed :: "nat \<Rightarrow> bool"

datatype spi_result = SPI_OK | SPI_TIMEOUT | SPI_ERROR

fun on_wire :: "(nat \<Rightarrow> u16 list) \<Rightarrow> spi_trans \<Rightarrow> spi_wire" where
  "on_wire bufs (Command c) = WireCommand c"
| "on_wire bufs (Params ps) = WireParams ps"
| "on_wire bufs (Pixels b) = WirePixels (bufs b)"

primrec perform :: "nat \<Rightarrow> spi \<Rightarrow> spi" where
  "perform 0 s = s"
| "perform (Suc n) s =
     (case pending s of
        [] \<Rightarrow> s
      | t # ts \<Rightarrow> perform n (s\<lparr>pending := ts, finished := finished s + 1, wire := wire s @ [on_wire (strip_bufs s) t]\<rparr>))"

definition get_trans_result :: "spi_bus \<Rightarrow> bool \<Rightarrow> spi \<Rightarrow> spi_result \<times> spi" where
  "get_trans_result bus wait s =
     (let k = calls s; s = perform (bus_now bus k) (s\<lparr>calls := k + 1\<rparr>)
      in if bus_failed bus k then (SPI_ERROR, s)
         else if finished s > 0 then (SPI_OK, s\<lparr>finished := finished s - 1\<rparr>)
         else if \<not> wait then (SPI_TIMEOUT, s)
         else let s = perform (bus_later bus k) s
              in if finished s > 0 then (SPI_OK, s\<lparr>finished := finished s - 1\<rparr>)
                 else (SPI_TIMEOUT, s\<lparr>stalls := stalls s + 1\<rparr>))"

text \<open>What the driver has not given back, and what will be on the wire when all is performed.\<close>

definition outstanding :: "spi \<Rightarrow> nat" where
  "outstanding s = length (pending s) + finished s"

definition whole_wire :: "spi \<Rightarrow> spi_wire list" where
  "whole_wire s = wire s @ map (on_wire (strip_bufs s)) (pending s)"

lemma ghost_fields [simp]:
  "outstanding (s\<lparr>calls := k\<rparr>) = outstanding s" "whole_wire (s\<lparr>calls := k\<rparr>) = whole_wire s"
  "outstanding (s\<lparr>stalls := k\<rparr>) = outstanding s" "whole_wire (s\<lparr>stalls := k\<rparr>) = whole_wire s"
  "outstanding (s\<lparr>trans_count := c\<rparr>) = outstanding s" "whole_wire (s\<lparr>trans_count := c\<rparr>) = whole_wire s"
  "whole_wire (s\<lparr>finished := k\<rparr>) = whole_wire s"
  by (simp_all add: outstanding_def whole_wire_def)

lemma perform_keeps:
  "outstanding (perform n s) = outstanding s \<and> whole_wire (perform n s) = whole_wire s \<and> trans_count (perform n s) = trans_count s
     \<and> strip_bufs (perform n s) = strip_bufs s \<and> suffix (pending (perform n s)) (pending s) \<and> stalls (perform n s) = stalls s
     \<and> calls (perform n s) = calls s"
proof (induction n arbitrary: s)
  case (Suc n)
  show ?case
  proof (cases "pending s")
    case (Cons t ts)
    let ?s = "s\<lparr>pending := ts, finished := finished s + 1, wire := wire s @ [on_wire (strip_bufs s) t]\<rparr>"
    have "outstanding ?s = outstanding s" "whole_wire ?s = whole_wire s" using Cons by (simp_all add: outstanding_def whole_wire_def)
    moreover have "suffix (pending (perform n ?s)) (t # ts)" using Suc.IH [of ?s] by (simp add: suffix_Cons)
    ultimately show ?thesis using Suc.IH [of ?s] Cons by simp
  qed simp
qed simp

lemma perform_all: "n \<ge> length (pending s) \<Longrightarrow> pending (perform n s) = []"
  by (induction n arbitrary: s) (auto split: list.split)

lemma perform_some: "0 < n \<Longrightarrow> pending s \<noteq> [] \<Longrightarrow> 0 < finished (perform n s)"
proof -
  have f: "finished s \<le> finished (perform n s)" for n s
  proof (induction n arbitrary: s)
    case (Suc n)
    then show ?case by (auto split: list.split intro: Suc_leD order_trans [OF _ Suc.IH])
  qed simp
  assume "0 < n" "pending s \<noteq> []"
  then obtain m t ts where "n = Suc m" "pending s = t # ts" by (cases n; cases "pending s") auto
  then show ?thesis using f [of "s\<lparr>pending := ts, finished := finished s + 1, wire := wire s @ [on_wire (strip_bufs s) t]\<rparr>" m] by simp
qed

lemma get_trans_result_keeps:
  assumes "get_trans_result bus wait s = (r, s')"
  shows "whole_wire s' = whole_wire s" "trans_count s' = trans_count s" "strip_bufs s' = strip_bufs s" "suffix (pending s') (pending s)"
    "outstanding s = outstanding s' + (if r = SPI_OK then 1 else 0)"
proof -
  let ?a = "perform (bus_now bus (calls s)) (s\<lparr>calls := calls s + 1\<rparr>)"
  let ?b = "perform (bus_later bus (calls s)) ?a"
  have a: "outstanding ?a = outstanding s" "whole_wire ?a = whole_wire s" "trans_count ?a = trans_count s" "strip_bufs ?a = strip_bufs s"
    "suffix (pending ?a) (pending s)"
    using perform_keeps [of "bus_now bus (calls s)" "s\<lparr>calls := calls s + 1\<rparr>"] by simp_all
  have b: "outstanding ?b = outstanding s" "whole_wire ?b = whole_wire s" "trans_count ?b = trans_count s" "strip_bufs ?b = strip_bufs s"
    "suffix (pending ?b) (pending s)"
    using perform_keeps [of "bus_later bus (calls s)" ?a] a suffix_order.trans by auto
  note d = assms [unfolded get_trans_result_def Let_def]
  show "whole_wire s' = whole_wire s" "trans_count s' = trans_count s" "strip_bufs s' = strip_bufs s" "suffix (pending s') (pending s)"
    "outstanding s = outstanding s' + (if r = SPI_OK then 1 else 0)"
    using d a b by (auto simp: outstanding_def split: if_splits)
qed

section \<open>Pushing a frame\<close>

text \<open>The transactions of the frame before: at most three time-outs of 200 ms in a row.\<close>

function drain_frame :: "spi_bus \<Rightarrow> nat \<Rightarrow> spi \<Rightarrow> spi" where
  "drain_frame bus drain_timeout_count s =
     (if trans_count s > 0 \<and> drain_timeout_count < 3
      then case get_trans_result bus True s of
             (SPI_OK, s) \<Rightarrow> drain_frame bus 0 (s\<lparr>trans_count := trans_count s - 1\<rparr>)
           | (SPI_TIMEOUT, s) \<Rightarrow>
               if drain_timeout_count + 1 \<ge> 3 then s\<lparr>trans_count := 0\<rparr> else drain_frame bus (drain_timeout_count + 1) s
           | (SPI_ERROR, s) \<Rightarrow> s\<lparr>trans_count := 0\<rparr>
      else s)"
  by pat_completeness auto
termination
proof (relation "measure (\<lambda>(_, n, s). nat (trans_count s) * 4 + (3 - n))", goal_cases)
  case (2 bus n s r s')
  then show ?case using get_trans_result_keeps(2) [OF 2(2) [symmetric]] by (auto simp: algebra_simps nat_diff_distrib)
next
  case (3 bus n s r s')
  then show ?case using get_trans_result_keeps(2) [OF 3(2) [symmetric]] by auto
qed simp_all

declare drain_frame.simps [simp del]

text \<open>The results that are there at once.\<close>

function drain_done :: "spi_bus \<Rightarrow> spi \<Rightarrow> spi" where
  "drain_done bus s =
     (case get_trans_result bus False s of
        (SPI_OK, s) \<Rightarrow> drain_done bus (s\<lparr>trans_count := trans_count s - 1\<rparr>)
      | (_, s) \<Rightarrow> s)"
  by pat_completeness auto
termination
proof (relation "measure (\<lambda>(_, s). outstanding s)", goal_cases)
  case (2 bus s r s')
  then show ?case using get_trans_result_keeps(5) [OF 2(1) [symmetric]] by (simp add: outstanding_def)
qed simp_all

declare drain_done.simps [simp del]

text \<open>Six results for the buffer to be used again; two time-outs in a row give up.\<close>

primrec wait_strip :: "spi_bus \<Rightarrow> nat \<Rightarrow> nat \<Rightarrow> spi \<Rightarrow> spi" where
  "wait_strip bus 0 wait_count s = s"
| "wait_strip bus (Suc n) wait_count s =
     (case get_trans_result bus True s of
        (SPI_OK, s) \<Rightarrow> wait_strip bus n 0 (s\<lparr>trans_count := trans_count s - 1\<rparr>)
      | (SPI_TIMEOUT, s) \<Rightarrow> if wait_count + 1 \<ge> 2 then s\<lparr>trans_count := 0\<rparr> else wait_strip bus n (wait_count + 1) s
      | (SPI_ERROR, s) \<Rightarrow> s\<lparr>trans_count := 0\<rparr>)"

definition strip_trans :: "strip \<Rightarrow> nat \<Rightarrow> spi_trans list" where
  "strip_trans st i =
     [Command 0x2A, Params (strip_columns st), Command 0x2B, Params (strip_rows st), Command 0x2C, Pixels (i mod 2)]"

definition push_strip :: "spi_bus \<Rightarrow> u16 list \<Rightarrow> nat \<Rightarrow> spi \<Rightarrow> spi" where
  "push_strip bus buffer i s =
     (let s = drain_done bus s;
          s = (if i \<ge> 2 then wait_strip bus 6 0 s else s);
          st = lcd_strip buffer i
      in s\<lparr>strip_bufs := (strip_bufs s)(i mod 2 := strip_pixels st), pending := pending s @ strip_trans st i,
           trans_count := trans_count s + 6\<rparr>)"

definition push_frame :: "spi_bus \<Rightarrow> u16 list \<Rightarrow> spi \<Rightarrow> spi" where
  "push_frame bus buffer s =
     (let s = (drain_frame bus 0 s)\<lparr>trans_count := 0\<rparr>
      in fold (push_strip bus buffer) [0..<NUM_STRIPS] s)"

section \<open>A bus that works\<close>

text \<open>No call fails, and whatever is queued makes progress within 200 ms.\<close>

definition working_bus :: "spi_bus \<Rightarrow> bool" where
  "working_bus bus \<longleftrightarrow> (\<forall>k. \<not> bus_failed bus k \<and> 0 < bus_later bus k)"

text \<open>The count of the code is the number of transactions the driver has not given back.\<close>

definition settled :: "spi \<Rightarrow> bool" where
  "settled s \<longleftrightarrow> trans_count s = int (outstanding s)"

lemma working_result:
  assumes "working_bus bus" "get_trans_result bus wait s = (r, s')"
  shows "r = SPI_OK \<or> r = SPI_TIMEOUT" "wait \<Longrightarrow> r = SPI_TIMEOUT \<Longrightarrow> outstanding s = 0"
proof -
  let ?a = "perform (bus_now bus (calls s)) (s\<lparr>calls := calls s + 1\<rparr>)"
  let ?b = "perform (bus_later bus (calls s)) ?a"
  have f: "\<not> bus_failed bus k" "0 < bus_later bus k" for k using assms(1) by (simp_all add: working_bus_def)
  note d = assms(2) [unfolded get_trans_result_def Let_def]
  show "r = SPI_OK \<or> r = SPI_TIMEOUT" using d f by (auto split: if_splits)
  assume "wait" "r = SPI_TIMEOUT"
  then have z: "finished ?a = 0" "finished ?b = 0" using d f by (auto split: if_splits)
  then have "pending ?a = []" using perform_some [OF f(2) [of "calls s"], of ?a] by auto
  then have "outstanding ?a = 0" using z by (simp add: outstanding_def)
  then show "outstanding s = 0" using perform_keeps [of "bus_now bus (calls s)" "s\<lparr>calls := calls s + 1\<rparr>"] by simp
qed

lemma drain_frame_works:
  "working_bus bus \<Longrightarrow> settled s \<Longrightarrow> settled (drain_frame bus n s) \<and> (n < 3 \<longrightarrow> outstanding (drain_frame bus n s) = 0)
     \<and> whole_wire (drain_frame bus n s) = whole_wire s"
proof (induction bus n s rule: drain_frame.induct)
  case (1 bus n s)
  show ?case
  proof (cases "trans_count s > 0 \<and> n < 3")
    case False
    then have "drain_frame bus n s = s" unfolding drain_frame.simps [of bus n s] by (rule if_not_P)
    then show ?thesis using "1.prems" False by (auto simp: settled_def)
  next
    case True
    obtain r s' where r: "get_trans_result bus True s = (r, s')" by fastforce
    note k = get_trans_result_keeps [OF r] and w = working_result [OF "1.prems"(1) r]
    have "0 < outstanding s" using True "1.prems"(2) by (simp add: settled_def)
    then have ok: "r = SPI_OK" using w by auto
    let ?s = "s'\<lparr>trans_count := trans_count s' - 1\<rparr>"
    have d: "drain_frame bus n s = drain_frame bus 0 ?s" using True r ok by (subst drain_frame.simps) simp
    have "settled ?s" using k(2,5) ok "1.prems"(2) by (simp add: settled_def)
    from "1.IH"(1) [OF True r [symmetric] ok "1.prems"(1) this] show ?thesis unfolding d using k(1) by simp
  qed
qed

lemma drain_done_works:
  "working_bus bus \<Longrightarrow> settled s \<Longrightarrow> settled (drain_done bus s) \<and> outstanding (drain_done bus s) \<le> outstanding s
     \<and> whole_wire (drain_done bus s) = whole_wire s \<and> suffix (pending (drain_done bus s)) (pending s)
     \<and> strip_bufs (drain_done bus s) = strip_bufs s"
proof (induction bus s rule: drain_done.induct)
  case (1 bus s)
  obtain r s' where r: "get_trans_result bus False s = (r, s')" by fastforce
  note k = get_trans_result_keeps [OF r] and w = working_result [OF "1.prems"(1) r]
  show ?case
  proof (cases "r = SPI_OK")
    case True
    let ?s = "s'\<lparr>trans_count := trans_count s' - 1\<rparr>"
    have d: "drain_done bus s = drain_done bus ?s" using r True by (subst drain_done.simps) simp
    have "settled ?s" using k(2,5) True "1.prems"(2) by (simp add: settled_def)
    from "1.IH" [OF r [symmetric] True "1.prems"(1) this] show ?thesis
      unfolding d using k True by (auto intro: suffix_order.trans)
  next
    case False
    then have "drain_done bus s = s'" using r w(1) by (subst drain_done.simps) auto
    then show ?thesis using k False "1.prems"(2) by (simp add: settled_def)
  qed
qed

lemma wait_strip_works:
  assumes "working_bus bus"
  shows "settled s \<Longrightarrow> settled (wait_strip bus n wc s) \<and> outstanding (wait_strip bus n wc s) \<le> outstanding s - n
     \<and> whole_wire (wait_strip bus n wc s) = whole_wire s \<and> suffix (pending (wait_strip bus n wc s)) (pending s)
     \<and> strip_bufs (wait_strip bus n wc s) = strip_bufs s"
proof (induction n arbitrary: wc s)
  case (Suc n)
  obtain r s' where r: "get_trans_result bus True s = (r, s')" by fastforce
  note k = get_trans_result_keeps [OF r] and w = working_result [OF assms r]
  show ?case
  proof (cases "r = SPI_OK")
    case True
    let ?s = "s'\<lparr>trans_count := trans_count s' - 1\<rparr>"
    have d: "wait_strip bus (Suc n) wc s = wait_strip bus n 0 ?s" using r True by simp
    have "settled ?s" using k(2,5) True Suc.prems by (simp add: settled_def)
    from Suc.IH [OF this] show ?thesis unfolding d using k True by (auto intro: suffix_order.trans)
  next
    case False
    then have t: "r = SPI_TIMEOUT" "outstanding s = 0" "outstanding s' = 0" using w k(5) by auto
    have s0: "settled s'" "settled (s'\<lparr>trans_count := 0\<rparr>)" using t k(2) Suc.prems by (simp_all add: settled_def)
    show ?thesis
    proof (cases "wc + 1 \<ge> 2")
      case True
      then have "wait_strip bus (Suc n) wc s = s'\<lparr>trans_count := 0\<rparr>" using r t by simp
      then show ?thesis using s0 k t by simp
    next
      case False
      then have "wait_strip bus (Suc n) wc s = wait_strip bus n (wc + 1) s'" using r t by simp
      then show ?thesis using Suc.IH [OF s0(1), of "wc + 1"] k t by (auto intro: suffix_order.trans)
    qed
  qed
qed simp

section \<open>A frame on the wire\<close>

definition strip_wire :: "strip \<Rightarrow> spi_wire list" where
  "strip_wire st = [WireCommand 0x2A, WireParams (strip_columns st), WireCommand 0x2B, WireParams (strip_rows st), WireCommand 0x2C,
     WirePixels (strip_pixels st)]"

definition queued :: "u16 list \<Rightarrow> nat \<Rightarrow> spi_trans list" where
  "queued buffer i = concat (map (\<lambda>j. strip_trans (lcd_strip buffer j) j) [0..<i])"

definition pushed :: "u16 list \<Rightarrow> spi_wire list \<Rightarrow> nat \<Rightarrow> spi \<Rightarrow> bool" where
  "pushed buffer before i s \<longleftrightarrow> settled s \<and> outstanding s \<le> 6 * min i 2 \<and> suffix (pending s) (queued buffer i)
     \<and> whole_wire s = before @ concat (map (\<lambda>j. strip_wire (lcd_strip buffer j)) [0..<i])"

lemma queued_Suc: "queued buffer (Suc i) = queued buffer i @ strip_trans (lcd_strip buffer i) i"
  by (simp add: queued_def)

lemma only_last_strip:
  assumes "suffix xs (queued buffer i)" "length xs \<le> (if 0 < i then 6 else 0)"
  shows "Pixels (i mod 2) \<notin> set xs"
proof (cases i)
  case 0
  then show ?thesis using assms by simp
next
  case (Suc k)
  have "suffix (strip_trans (lcd_strip buffer k) k) (queued buffer i)" by (simp add: Suc queued_Suc suffix_def)
  moreover have "length xs \<le> length (strip_trans (lcd_strip buffer k) k)" using assms(2) Suc by (simp add: strip_trans_def)
  ultimately have "suffix xs (strip_trans (lcd_strip buffer k) k)" using assms(1) by (metis suffix_length_suffix)
  then have "set xs \<subseteq> set (strip_trans (lcd_strip buffer k) k)" by (rule set_mono_suffix)
  moreover have "Pixels (i mod 2) \<notin> set (strip_trans (lcd_strip buffer k) k)" using Suc by (simp add: strip_trans_def mod_Suc)
  ultimately show ?thesis by blast
qed

lemma on_wire_other: "t \<noteq> Pixels k \<Longrightarrow> on_wire (bufs(k := p)) t = on_wire bufs t"
  by (cases t) auto

lemma push_strip_step:
  assumes "working_bus bus" "pushed buffer before i s"
  shows "pushed buffer before (Suc i) (push_strip bus buffer i s)"
proof -
  have p: "settled s" "outstanding s \<le> 6 * min i 2" "suffix (pending s) (queued buffer i)"
    "whole_wire s = before @ concat (map (\<lambda>j. strip_wire (lcd_strip buffer j)) [0..<i])" using assms(2) by (simp_all add: pushed_def)
  define s1 where "s1 = drain_done bus s"
  define s2 where "s2 = (if i \<ge> 2 then wait_strip bus 6 0 s1 else s1)"
  let ?st = "lcd_strip buffer i"
  let ?s = "s2\<lparr>strip_bufs := (strip_bufs s2)(i mod 2 := strip_pixels ?st), pending := pending s2 @ strip_trans ?st i,
    trans_count := trans_count s2 + 6\<rparr>"
  have e: "push_strip bus buffer i s = ?s" by (simp add: push_strip_def s1_def s2_def Let_def)
  have s1: "settled s1" "outstanding s1 \<le> outstanding s" "whole_wire s1 = whole_wire s" "suffix (pending s1) (pending s)"
    using drain_done_works [OF assms(1) p(1)] by (simp_all add: s1_def)
  have s2: "settled s2" "outstanding s2 \<le> (if 0 < i then 6 else 0)" "whole_wire s2 = whole_wire s" "suffix (pending s2) (pending s)"
    using wait_strip_works [OF assms(1) s1(1), of 6 0] s1 p(2) by (auto simp: s2_def intro: suffix_order.trans)
  have q: "suffix (pending s2) (queued buffer i)" using s2(4) p(3) by (rule suffix_order.trans)
  have "length (pending s2) \<le> (if 0 < i then 6 else 0)" using s2(2) by (simp add: outstanding_def)
  then have "Pixels (i mod 2) \<notin> set (pending s2)" by (rule only_last_strip [OF q])
  then have "map (on_wire ((strip_bufs s2)(i mod 2 := strip_pixels ?st))) (pending s2) = map (on_wire (strip_bufs s2)) (pending s2)"
    by (intro map_cong HOL.refl on_wire_other) auto
  then have "whole_wire ?s = whole_wire s2 @ strip_wire ?st"
    by (simp add: whole_wire_def strip_wire_def strip_trans_def)
  moreover have "outstanding ?s = outstanding s2 + 6" by (simp add: outstanding_def strip_trans_def)
  moreover have "suffix (pending ?s) (queued buffer (Suc i))" using q by (simp add: queued_Suc)
  ultimately show ?thesis unfolding e pushed_def using s2 p(4) by (auto simp: settled_def split: if_splits)
qed

text \<open>
  Whatever the speed of a bus that works, what a frame puts on the wire, once the bus has performed all
  that was queued, is the rest of the frame before and then the five strips of this frame, each with
  its own pixels: no strip buffer is overwritten before the bus has read it.  The code's count stays
  the number of transactions not collected, at most twelve.
\<close>

lemma frame_pushed:
  assumes "working_bus bus" "settled s" "frame_ok b"
  shows "settled (push_frame bus b s) \<and> outstanding (push_frame bus b s) \<le> 12
    \<and> whole_wire (push_frame bus b s) = whole_wire s @ concat (map strip_wire (lcd_push b))
    \<and> concat (map strip_pixels (lcd_push b)) = b"
proof -
  let ?s = "(drain_frame bus 0 s)\<lparr>trans_count := 0\<rparr>"
  have d: "outstanding (drain_frame bus 0 s) = 0" "whole_wire (drain_frame bus 0 s) = whole_wire s"
    using drain_frame_works [OF assms(1,2), of 0] by simp_all
  then have "pushed b (whole_wire s) 0 ?s" by (simp add: pushed_def settled_def queued_def outstanding_def)
  then have "pushed b (whole_wire s) n (fold (push_strip bus b) [0..<n] ?s)" for n
    by (induction n) (simp_all add: push_strip_step [OF assms(1)])
  from this [of NUM_STRIPS] have "pushed b (whole_wire s) NUM_STRIPS (push_frame bus b s)" by (simp add: push_frame_def Let_def)
  then have p: "settled (push_frame bus b s)" "outstanding (push_frame bus b s) \<le> 6 * min NUM_STRIPS 2"
    "whole_wire (push_frame bus b s) = whole_wire s @ concat (map (\<lambda>j. strip_wire (lcd_strip b j)) [0..<NUM_STRIPS])"
    unfolding pushed_def by blast+
  have l: "map strip_wire (lcd_push b) = map (\<lambda>j. strip_wire (lcd_strip b j)) [0..<NUM_STRIPS]"
    by (simp add: lcd_push_def)
  have "outstanding (push_frame bus b s) \<le> 12" by (rule order.trans [OF p(2)]) (simp add: NUM_STRIPS_def)
  then show ?thesis using p(1) p(3) [folded l] lcd_push_whole [OF assms(3)] by blast
qed

text \<open>The driver before the first frame.\<close>

definition spi_start :: spi where
  "spi_start = \<lparr>pending = [], finished = 0, strip_bufs = \<lambda>_. [], trans_count = 0, wire = [], calls = 0, stalls = 0\<rparr>"

text \<open>C14 (frame_on_the_wire): From the set-up of the display on, and as long as the video is not
paused, any sequence of frames reaches the panel as their strips in order, each with the pixels of
its frame buffer: no strip buffer is overwritten before the bus has read it, whatever its speed,
provided that its calls succeed, and the count of open transactions stays exact and at most
twelve. A pause sets the count to zero with transactions open, and the next frame can tear (lemma
pause_tears_frame).\<close>

theorem frame_on_the_wire:
  assumes "working_bus bus" "\<forall>b\<in>set bs. frame_ok b"
  shows "whole_wire (fold (push_frame bus) bs spi_start) = concat (map (\<lambda>b. concat (map strip_wire (lcd_push b))) bs)
    \<and> trans_count (fold (push_frame bus) bs spi_start) = int (outstanding (fold (push_frame bus) bs spi_start))
    \<and> outstanding (fold (push_frame bus) bs spi_start) \<le> 12
    \<and> (\<forall>b\<in>set bs. concat (map strip_pixels (lcd_push b)) = b)"
proof -
  have "settled (fold (push_frame bus) bs s) \<and> outstanding (fold (push_frame bus) bs s) \<le> 12
      \<and> whole_wire (fold (push_frame bus) bs s) = whole_wire s @ concat (map (\<lambda>b. concat (map strip_wire (lcd_push b))) bs)"
    if "settled s" "outstanding s \<le> 12" for s
    using that assms(2)
  proof (induction bs arbitrary: s)
    case (Cons b bs)
    have f: "frame_ok b" using Cons.prems(3) by simp
    note p = frame_pushed [OF assms(1) Cons.prems(1) f]
    show ?case using Cons.IH [of "push_frame bus b s"] p Cons.prems(3) by simp
  qed simp
  moreover have "settled spi_start" "outstanding spi_start = 0" "whole_wire spi_start = []"
    by (simp_all add: spi_start_def settled_def outstanding_def whole_wire_def)
  moreover have "concat (map strip_pixels (lcd_push b)) = b" if "b \<in> set bs" for b
    using lcd_push_whole [of b] that assms(2) by blast
  ultimately show ?thesis by (simp add: settled_def)
qed

theorem frame_on_the_wire_witness:
  "whole_wire (fold (push_frame \<lparr>bus_now = \<lambda>k. k mod 3, bus_later = \<lambda>_. 1, bus_failed = \<lambda>_. False\<rparr>)
      [replicate (LCD_WIDTH * LCD_HEIGHT) 7, replicate (LCD_WIDTH * LCD_HEIGHT) 8] spi_start)
    = concat (map strip_wire (lcd_push (replicate (LCD_WIDTH * LCD_HEIGHT) 7)))
      @ concat (map strip_wire (lcd_push (replicate (LCD_WIDTH * LCD_HEIGHT) 8)))"
proof -
  let ?bus = "\<lparr>bus_now = \<lambda>k. k mod 3, bus_later = \<lambda>_. 1, bus_failed = \<lambda>_. False\<rparr>"
    and ?bs = "[replicate (LCD_WIDTH * LCD_HEIGHT) 7, replicate (LCD_WIDTH * LCD_HEIGHT) 8] :: u16 list list"
  have "working_bus ?bus" "\<forall>b\<in>set ?bs. frame_ok b"
    by (simp_all add: working_bus_def frame_ok_def)
  from frame_on_the_wire [OF this] show ?thesis by (simp only: list.map concat.simps append_Nil2)
qed

section \<open>A pause in the middle of a transfer\<close>

text \<open>
  \<open>display_pause_for_reset\<close> clears the count, which is \<open>trans_count\<close> here, whatever is still open.
\<close>

definition pause_lcd :: "display \<Rightarrow> spi \<Rightarrow> display \<times> spi" where
  "pause_lcd d s =
     (let d = display_pause_for_reset (d\<lparr>s_trans_count := trans_count s\<rparr>)
      in (d, s\<lparr>trans_count := s_trans_count d\<rparr>))"

text \<open>A bus that performs a transaction only while the driver waits for it.\<close>

definition slow_bus :: spi_bus where
  "slow_bus = \<lparr>bus_now = \<lambda>_. 0, bus_later = \<lambda>_. 1, bus_failed = \<lambda>_. False\<rparr>"

lemma slow_working: "working_bus slow_bus"
  by (simp add: working_bus_def slow_bus_def)

lemma slow_result:
  assumes "finished s = 0"
  shows "get_trans_result slow_bus False s = (SPI_TIMEOUT, s\<lparr>calls := calls s + 1\<rparr>)"
    and "pending s = t # ts \<Longrightarrow> get_trans_result slow_bus True s =
      (SPI_OK, s\<lparr>calls := calls s + 1, pending := ts, wire := wire s @ [on_wire (strip_bufs s) t]\<rparr>)"
  using assms by (cases s, simp add: get_trans_result_def slow_bus_def Let_def)+

lemma slow_wait:
  assumes "finished s = 0" "n \<le> length (pending s)"
  shows "finished (wait_strip slow_bus n wc s) = 0 \<and> pending (wait_strip slow_bus n wc s) = drop n (pending s)
    \<and> wire (wait_strip slow_bus n wc s) = wire s @ map (on_wire (strip_bufs s)) (take n (pending s))
    \<and> strip_bufs (wait_strip slow_bus n wc s) = strip_bufs s"
  using assms
proof (induction n arbitrary: wc s)
  case (Suc n)
  obtain t ts where p: "pending s = t # ts" using Suc.prems(2) by (cases "pending s") auto
  then show ?case using Suc by (simp add: slow_result)
qed simp

lemma slow_strip:
  fixes s :: spi and i :: nat
  assumes "finished s = 0" "2 \<le> i \<Longrightarrow> 6 \<le> length (pending s)"
  defines "n \<equiv> if 2 \<le> i then 6 else 0"
  shows "finished (push_strip slow_bus b i s) = 0"
    "pending (push_strip slow_bus b i s) = drop n (pending s) @ strip_trans (lcd_strip b i) i"
    "wire (push_strip slow_bus b i s) = wire s @ map (on_wire (strip_bufs s)) (take n (pending s))"
    "strip_bufs (push_strip slow_bus b i s) = (strip_bufs s)(i mod 2 := strip_pixels (lcd_strip b i))"
proof -
  have d: "drain_done slow_bus s = s\<lparr>calls := calls s + 1\<rparr>"
    by (subst drain_done.simps) (simp add: slow_result(1) [OF assms(1)])
  have w: "2 \<le> i \<Longrightarrow> finished (wait_strip slow_bus 6 0 (s\<lparr>calls := calls s + 1\<rparr>)) = 0
      \<and> pending (wait_strip slow_bus 6 0 (s\<lparr>calls := calls s + 1\<rparr>)) = drop 6 (pending s)
      \<and> wire (wait_strip slow_bus 6 0 (s\<lparr>calls := calls s + 1\<rparr>)) = wire s @ map (on_wire (strip_bufs s)) (take 6 (pending s))
      \<and> strip_bufs (wait_strip slow_bus 6 0 (s\<lparr>calls := calls s + 1\<rparr>)) = strip_bufs s"
    using slow_wait [of "s\<lparr>calls := calls s + 1\<rparr>" 6 0] assms(1,2) by simp
  show "finished (push_strip slow_bus b i s) = 0"
    "pending (push_strip slow_bus b i s) = drop n (pending s) @ strip_trans (lcd_strip b i) i"
    "wire (push_strip slow_bus b i s) = wire s @ map (on_wire (strip_bufs s)) (take n (pending s))"
    "strip_bufs (push_strip slow_bus b i s) = (strip_bufs s)(i mod 2 := strip_pixels (lcd_strip b i))"
    using w assms(1) by (simp_all add: push_strip_def d n_def Let_def)
qed

lemma slow_late:
  assumes "finished s = 0" "6 \<le> length (pending s)" "2 \<le> i"
  shows "finished (push_strip slow_bus b i s) = 0"
    "pending (push_strip slow_bus b i s) = drop 6 (pending s) @ strip_trans (lcd_strip b i) i"
    "wire (push_strip slow_bus b i s) = wire s @ map (on_wire (strip_bufs s)) (take 6 (pending s))"
  using slow_strip [of s i b] assms by simp_all

text \<open>What a frame leaves open when nothing was, and the first transactions of a frame that finds twelve open.\<close>

lemma slow_frame:
  assumes "finished s = 0" "trans_count s = 0"
  shows "pending s = [] \<Longrightarrow> finished (push_frame slow_bus b s) = 0
      \<and> pending (push_frame slow_bus b s) = strip_trans (lcd_strip b 3) 3 @ strip_trans (lcd_strip b 4) 4
      \<and> length (wire (push_frame slow_bus b s)) = length (wire s) + 18"
    and "length (pending s) = 12 \<Longrightarrow> \<exists>rest. wire (push_frame slow_bus b s) = wire s
      @ map (on_wire ((strip_bufs s)(0 := strip_pixels (lcd_strip b 0), 1 := strip_pixels (lcd_strip b 1)))) (take 6 (pending s)) @ rest"
proof -
  have d: "drain_frame slow_bus 0 s = s" unfolding drain_frame.simps [of slow_bus 0 s] by (rule if_not_P) (simp add: assms(2))
  define s0 where "s0 = s\<lparr>trans_count := 0\<rparr>"
  define s1 where "s1 = push_strip slow_bus b 0 s0"
  define s2 where "s2 = push_strip slow_bus b 1 s1"
  define s3 where "s3 = push_strip slow_bus b 2 s2"
  define s4 where "s4 = push_strip slow_bus b 3 s3"
  define s5 where "s5 = push_strip slow_bus b 4 s4"
  note st = s0_def s1_def s2_def s3_def s4_def s5_def
  have f: "push_frame slow_bus b s = s5" using d by (simp add: push_frame_def NUM_STRIPS_def upt_rec numeral_eq_Suc st)
  have l: "length (strip_trans st i) = 6" for st i by (simp add: strip_trans_def)
  have g0: "finished s0 = 0" "pending s0 = pending s" "wire s0 = wire s" "strip_bufs s0 = strip_bufs s" using assms(1) by (simp_all add: s0_def)
  note g1 = slow_strip [of s0 0 b, folded s1_def, unfolded g0, simplified]
  note g2 = slow_strip [of s1 1 b, folded s2_def, unfolded g1, simplified]
  have p2: "6 \<le> length (pending s2)" using g2(2) l by simp
  note g3 = slow_late [OF g2(1) p2, of 2 b, folded s3_def, simplified]
  have p3: "6 \<le> length (pending s3)" using p2 l by (simp add: g3(2))
  note g4 = slow_late [OF g3(1) p3, of 3 b, folded s4_def, simplified]
  have p4: "6 \<le> length (pending s4)" using p3 l by (simp add: g4(2))
  note g5 = slow_late [OF g4(1) p4, of 4 b, folded s5_def, simplified]
  show "finished (push_frame slow_bus b s) = 0
      \<and> pending (push_frame slow_bus b s) = strip_trans (lcd_strip b 3) 3 @ strip_trans (lcd_strip b 4) 4
      \<and> length (wire (push_frame slow_bus b s)) = length (wire s) + 18" if "pending s = []"
    using that g2 g3 g4 g5 l unfolding f by simp
  show "\<exists>rest. wire (push_frame slow_bus b s) = wire s
      @ map (on_wire ((strip_bufs s)(0 := strip_pixels (lcd_strip b 0), 1 := strip_pixels (lcd_strip b 1)))) (take 6 (pending s)) @ rest"
    if "length (pending s) = 12"
  proof (intro exI)
    have "take 6 (pending s2) = take 6 (pending s)" using that g2(2) by simp
    then show "wire (push_frame slow_bus b s) = wire s
        @ map (on_wire ((strip_bufs s)(0 := strip_pixels (lcd_strip b 0), 1 := strip_pixels (lcd_strip b 1)))) (take 6 (pending s))
        @ (map (on_wire (strip_bufs s3)) (take 6 (pending s3)) @ map (on_wire (strip_bufs s4)) (take 6 (pending s4)))"
      unfolding f g5(3) g4(3) g3(3) using g2(3,4) by simp
  qed
qed

text \<open>
  After a frame twelve transactions are open, those of its last two strips.  A pause then makes the next
  frame take both strip buffers at once: where the fourth strip of the first frame belongs, the panel is
  sent the second strip of the second.
\<close>

theorem pause_tears_frame:
  assumes "video_task d"
  shows "take 6 (drop 18 (wire (push_frame slow_bus b' (snd (pause_lcd d (push_frame slow_bus b spi_start))))))
    = butlast (strip_wire (lcd_strip b 3)) @ [WirePixels (strip_pixels (lcd_strip b' 1))]"
proof -
  define s where "s = push_frame slow_bus b spi_start"
  define u where "u = snd (pause_lcd d s)"
  have s: "finished s = 0" "pending s = strip_trans (lcd_strip b 3) 3 @ strip_trans (lcd_strip b 4) 4" "length (wire s) = 18"
    unfolding s_def using slow_frame(1) [of spi_start b] by (simp_all add: spi_start_def)
  have "u = s\<lparr>trans_count := 0\<rparr>" using assms by (simp add: u_def pause_lcd_def display_pause_for_reset_def Let_def)
  then have u: "finished u = 0" "trans_count u = 0" "length (pending u) = 12" "pending u = pending s" "wire u = wire s"
    using s by (simp_all add: strip_trans_def)
  obtain rest where "wire (push_frame slow_bus b' u) = wire u
      @ map (on_wire ((strip_bufs u)(0 := strip_pixels (lcd_strip b' 0), 1 := strip_pixels (lcd_strip b' 1)))) (take 6 (pending u)) @ rest"
    using slow_frame(2) [OF u(1-3), of b'] by blast
  then show ?thesis unfolding s_def [symmetric] u_def [symmetric] using s u(4,5) by (simp add: strip_trans_def strip_wire_def)
qed

section \<open>A fast bus\<close>

text \<open>A bus that has performed everything by the next call of the driver.\<close>

definition fast_bus :: spi_bus where
  "fast_bus = \<lparr>bus_now = \<lambda>_. 40, bus_later = \<lambda>_. 40, bus_failed = \<lambda>_. False\<rparr>"

lemma fast_working: "working_bus fast_bus"
  by (simp add: working_bus_def fast_bus_def)

lemma fast_result:
  assumes "outstanding s \<le> 40" "get_trans_result fast_bus wait s = (r, s')"
  shows "if outstanding s = 0 then r = SPI_TIMEOUT \<and> stalls s' = stalls s + (if wait then 1 else 0)
     else r = SPI_OK \<and> stalls s' = stalls s"
proof -
  define a where "a = perform 40 (s\<lparr>calls := calls s + 1\<rparr>)"
  have e: "pending a = []" unfolding a_def using assms(1) by (intro perform_all) (simp add: outstanding_def)
  have k: "outstanding a = outstanding s" "stalls a = stalls s"
    unfolding a_def using perform_keeps [of 40 "s\<lparr>calls := calls s + 1\<rparr>"] by simp_all
  have p: "perform 40 a = a" using e by (simp add: numeral_eq_Suc)
  have f: "finished a = outstanding s" using e k(1) by (simp add: outstanding_def)
  have d: "get_trans_result fast_bus wait s = (if finished a > 0 then (SPI_OK, a\<lparr>finished := finished a - 1\<rparr>)
      else if \<not> wait then (SPI_TIMEOUT, a) else (SPI_TIMEOUT, a\<lparr>stalls := stalls a + 1\<rparr>))"
    unfolding get_trans_result_def Let_def fast_bus_def spi_bus.simps a_def [symmetric] p by simp
  show ?thesis using assms(2) unfolding d using f k(2) by (auto split: if_splits)
qed

lemma drain_done_steps:
  "get_trans_result bus False s = (SPI_TIMEOUT, s') \<Longrightarrow> drain_done bus s = s'"
  "get_trans_result bus False s = (SPI_OK, s') \<Longrightarrow> drain_done bus s = drain_done bus (s'\<lparr>trans_count := trans_count s' - 1\<rparr>)"
  by (subst drain_done.simps, simp)+

lemma fast_drain:
  "outstanding s \<le> 40 \<Longrightarrow> outstanding (drain_done fast_bus s) = 0 \<and> stalls (drain_done fast_bus s) = stalls s"
proof (induction "outstanding s" arbitrary: s rule: less_induct)
  case less
  obtain r s' where r: "get_trans_result fast_bus False s = (r, s')" by fastforce
  note k = get_trans_result_keeps [OF r] and f = fast_result [OF less.prems r]
  show ?case
  proof (cases "outstanding s = 0")
    case True
    then have "r = SPI_TIMEOUT" using f by simp
    then have "drain_done fast_bus s = s'" using r by (intro drain_done_steps(1)) simp
    moreover have "outstanding s' = 0" using k(5) unfolding True by simp
    moreover have "stalls s' = stalls s" using f unfolding True by simp
    ultimately show ?thesis by simp
  next
    case False
    then have ok: "r = SPI_OK" "stalls s' = stalls s" using f by simp_all
    let ?s = "s'\<lparr>trans_count := trans_count s' - 1\<rparr>"
    have d: "drain_done fast_bus s = drain_done fast_bus ?s" using r ok by (intro drain_done_steps(2)) simp
    have "outstanding s = outstanding ?s + 1" using k(5) ok(1) by simp
    then have "outstanding ?s < outstanding s" "outstanding ?s \<le> 40" using less.prems by linarith+
    from less.hyps [OF this] show ?thesis unfolding d using ok(2) by simp
  qed
qed

lemma fast_wait:
  assumes "outstanding s = 0"
  shows "outstanding (wait_strip fast_bus 6 0 s) = 0 \<and> stalls (wait_strip fast_bus 6 0 s) = stalls s + 2"
proof -
  obtain r1 s1 where r1: "get_trans_result fast_bus True s = (r1, s1)" by fastforce
  obtain r2 s2 where r2: "get_trans_result fast_bus True s1 = (r2, s2)" by fastforce
  have t1: "r1 = SPI_TIMEOUT" "stalls s1 = stalls s + 1" "outstanding s1 = 0"
    using fast_result [OF _ r1] get_trans_result_keeps(5) [OF r1] assms by simp_all
  have t2: "r2 = SPI_TIMEOUT" "stalls s2 = stalls s1 + 1" "outstanding s2 = 0"
    using fast_result [OF _ r2] get_trans_result_keeps(5) [OF r2] t1 by simp_all
  show ?thesis using r1 r2 t1 t2 by (simp add: numeral_eq_Suc)
qed

lemma fast_strip:
  assumes "outstanding s \<le> 40"
  shows "outstanding (push_strip fast_bus b i s) = 6 \<and> stalls (push_strip fast_bus b i s) = stalls s + (if i \<ge> 2 then 2 else 0)"
proof -
  have d: "outstanding (drain_done fast_bus s) = 0" "stalls (drain_done fast_bus s) = stalls s" using fast_drain [OF assms] by simp_all
  define s2 where "s2 = (if i \<ge> 2 then wait_strip fast_bus 6 0 (drain_done fast_bus s) else drain_done fast_bus s)"
  have "outstanding s2 = 0" "stalls s2 = stalls s + (if i \<ge> 2 then 2 else 0)" using d fast_wait [OF d(1)] by (simp_all add: s2_def)
  moreover have "push_strip fast_bus b i s = s2\<lparr>strip_bufs := (strip_bufs s2)(i mod 2 := strip_pixels (lcd_strip b i)),
      pending := pending s2 @ strip_trans (lcd_strip b i) i, trans_count := trans_count s2 + 6\<rparr>"
    by (simp add: push_strip_def s2_def Let_def)
  ultimately show ?thesis by (simp add: outstanding_def strip_trans_def)
qed

text \<open>
  The wait for a strip buffer counts only results it collects itself: when the bus was fast enough that
  they have been collected before, each of the last three strips waits twice 200 ms for nothing.
\<close>

theorem fast_bus_stalls:
  assumes "outstanding s = 0" "trans_count s = 0"
  shows "stalls (push_frame fast_bus b s) = stalls s + 6"
proof -
  have "drain_frame fast_bus 0 s = s" unfolding drain_frame.simps [of fast_bus 0 s] by (rule if_not_P) (simp add: assms(2))
  then have p: "push_frame fast_bus b s = push_strip fast_bus b 4 (push_strip fast_bus b 3 (push_strip fast_bus b 2
      (push_strip fast_bus b 1 (push_strip fast_bus b 0 (s\<lparr>trans_count := 0\<rparr>)))))"
    by (simp add: push_frame_def NUM_STRIPS_def upt_rec numeral_eq_Suc)
  show ?thesis unfolding p by (simp add: fast_strip assms(1))
qed

theorem fast_bus_stalls_witness:
  "stalls (push_frame fast_bus b \<lparr>pending = [], finished = 0, strip_bufs = \<lambda>_. [], trans_count = 0, wire = [], calls = 0, stalls = 0\<rparr>) = 6"
  by (subst fast_bus_stalls) (simp_all add: outstanding_def)

end
