(* ===== verification/Board.thy ===== *)
theory Board
  imports Audio
begin

text \<open>
  The port expander of the board (\<open>src/src/expander/Expander.cpp\<close>) and the frame-time counters
  (\<open>src/src/instrumentation/Instrumentation.cpp\<close>).

  \<^item> The I2C driver is a parameter: \<open>ack\<close> says, from the log so far, whether a transfer is
    acknowledged.  A register of the chip holds the last value an acknowledged transfer wrote to it.
  \<^item> The two variables of the code that remember the output ports are fields; so is the log of the
    acknowledged writes and the delays, latest first.
  \<^item> The counters are words of the widths of the code; the clock is a parameter of each operation.
\<close>

section \<open>The port expander\<close>

definition REG_INPUT_PORT0 :: u8 where "REG_INPUT_PORT0 = 0x00"
definition REG_INPUT_PORT1 :: u8 where "REG_INPUT_PORT1 = 0x01"
definition REG_OUTPUT_PORT0 :: u8 where "REG_OUTPUT_PORT0 = 0x02"
definition REG_OUTPUT_PORT1 :: u8 where "REG_OUTPUT_PORT1 = 0x03"
definition REG_CONFIG_PORT0 :: u8 where "REG_CONFIG_PORT0 = 0x06"
definition REG_CONFIG_PORT1 :: u8 where "REG_CONFIG_PORT1 = 0x07"
definition XL9535_P00_BACKLIGHT :: u8 where "XL9535_P00_BACKLIGHT = 0x01"
definition XL9535_P17_USER_LED :: u8 where "XL9535_P17_USER_LED = 0x80"

lemmas expander_regs =
  REG_INPUT_PORT0_def REG_INPUT_PORT1_def REG_OUTPUT_PORT0_def REG_OUTPUT_PORT1_def REG_CONFIG_PORT0_def REG_CONFIG_PORT1_def

datatype i2c_event = Wrote u8 u8 | Waited nat

record expander =
  s_port0_output :: u8
  s_port1_output :: u8
  i2c_log :: "i2c_event list"

type_synonym i2c = "i2c_event list \<Rightarrow> bool"

definition expander_start :: expander where
  "expander_start = \<lparr>s_port0_output = 0, s_port1_output = 0, i2c_log = []\<rparr>"

text \<open>The value of a register, if anything was written to it.\<close>

fun chip_reg :: "i2c_event list \<Rightarrow> u8 \<Rightarrow> u8 option" where
  "chip_reg [] r = None"
| "chip_reg (Wrote r' v # lg) r = (if r' = r then Some v else chip_reg lg r)"
| "chip_reg (Waited _ # lg) r = chip_reg lg r"

definition write_reg :: "i2c \<Rightarrow> u8 \<Rightarrow> u8 \<Rightarrow> expander \<Rightarrow> bool \<times> expander" where
  "write_reg ack reg v ex =
     (if ack (i2c_log ex) then (True, ex\<lparr>i2c_log := Wrote reg v # i2c_log ex\<rparr>) else (False, ex))"

text \<open>A read gives the levels of the pins of the port, which are the board's.\<close>

definition read_reg :: "i2c \<Rightarrow> (u8 \<Rightarrow> u8) \<Rightarrow> u8 \<Rightarrow> expander \<Rightarrow> u8 option" where
  "read_reg ack pins reg ex = (if ack (i2c_log ex) then Some (pins reg) else None)"

definition expander_write_port0 :: "i2c \<Rightarrow> u8 \<Rightarrow> expander \<Rightarrow> bool \<times> expander" where
  "expander_write_port0 ack v ex = write_reg ack REG_OUTPUT_PORT0 v (ex\<lparr>s_port0_output := v\<rparr>)"

definition expander_write_port1 :: "i2c \<Rightarrow> u8 \<Rightarrow> expander \<Rightarrow> bool \<times> expander" where
  "expander_write_port1 ack v ex = write_reg ack REG_OUTPUT_PORT1 v (ex\<lparr>s_port1_output := v\<rparr>)"

definition expander_read_port0 :: "i2c \<Rightarrow> (u8 \<Rightarrow> u8) \<Rightarrow> expander \<Rightarrow> u8 option" where
  "expander_read_port0 ack pins ex = read_reg ack pins REG_INPUT_PORT0 ex"

definition expander_read_port1 :: "i2c \<Rightarrow> (u8 \<Rightarrow> u8) \<Rightarrow> expander \<Rightarrow> u8 option" where
  "expander_read_port1 ack pins ex = read_reg ack pins REG_INPUT_PORT1 ex"

definition expander_set_backlight :: "i2c \<Rightarrow> bool \<Rightarrow> expander \<Rightarrow> expander" where
  "expander_set_backlight ack on ex =
     (let ex = ex\<lparr>s_port0_output := (if on then s_port0_output ex OR XL9535_P00_BACKLIGHT
                                     else s_port0_output ex AND NOT XL9535_P00_BACKLIGHT)\<rparr>
      in snd (write_reg ack REG_OUTPUT_PORT0 (s_port0_output ex) ex))"

definition expander_set_led :: "i2c \<Rightarrow> bool \<Rightarrow> expander \<Rightarrow> expander" where
  "expander_set_led ack on ex =
     (let ex = ex\<lparr>s_port1_output := (if on then s_port1_output ex OR XL9535_P17_USER_LED
                                     else s_port1_output ex AND NOT XL9535_P17_USER_LED)\<rparr>
      in snd (write_reg ack REG_OUTPUT_PORT1 (s_port1_output ex) ex))"

definition expander_wait :: "nat \<Rightarrow> expander \<Rightarrow> expander" where
  "expander_wait ms ex = ex\<lparr>i2c_log := Waited ms # i2c_log ex\<rparr>"

text \<open>\<open>expander_blink_led\<close> for the turns that are left; the last has no pause after it.\<close>

primrec expander_blink_led :: "i2c \<Rightarrow> nat \<Rightarrow> nat \<Rightarrow> expander \<Rightarrow> expander" where
  "expander_blink_led ack 0 ms ex = ex"
| "expander_blink_led ack (Suc n) ms ex =
     (let ex = expander_set_led ack False (expander_wait ms (expander_set_led ack True ex));
          ex = (if n > 0 then expander_wait ms ex else ex)
      in expander_blink_led ack n ms ex)"

text \<open>Set-up: \<open>bus_ok\<close> and \<open>device_ok\<close> are the results of creating the bus and adding the device.\<close>

definition expander_init :: "i2c \<Rightarrow> bool \<Rightarrow> bool \<Rightarrow> expander \<Rightarrow> bool \<times> expander" where
  "expander_init ack bus_ok device_ok ex =
     (if \<not> bus_ok \<or> \<not> device_ok then (False, ex)
      else let (ok0, ex) = write_reg ack REG_CONFIG_PORT0 0xFE ex
           in if \<not> ok0 then (False, ex)
              else let (ok1, ex) = write_reg ack REG_CONFIG_PORT1 0x7F ex
                   in if \<not> ok1 then (False, ex)
                      else let ex = ex\<lparr>s_port0_output := 0, s_port1_output := 0\<rparr>;
                               ex = snd (write_reg ack REG_OUTPUT_PORT0 (s_port0_output ex) ex);
                               ex = snd (write_reg ack REG_OUTPUT_PORT1 (s_port1_output ex) ex)
                           in (True, expander_blink_led ack 2 100 ex))"

text \<open>What the rest of the program asks of the expander after the set-up.\<close>

datatype expander_op = WritePort0 u8 | WritePort1 u8 | SetBacklight bool | SetLed bool | BlinkLed nat nat

fun expander_do :: "i2c \<Rightarrow> expander \<Rightarrow> expander_op \<Rightarrow> expander" where
  "expander_do ack ex (WritePort0 v) = snd (expander_write_port0 ack v ex)"
| "expander_do ack ex (WritePort1 v) = snd (expander_write_port1 ack v ex)"
| "expander_do ack ex (SetBacklight on) = expander_set_backlight ack on ex"
| "expander_do ack ex (SetLed on) = expander_set_led ack on ex"
| "expander_do ack ex (BlinkLed n ms) = expander_blink_led ack n ms ex"

section \<open>The counters\<close>

record instr =
  s_cpu_accum_us :: u64
  s_cpu_frames :: u32
  s_video_accum_us :: u64
  s_video_frames :: u32
  s_cpu_start_us :: u64
  s_video_start_us :: u64

definition instr_start :: instr where
  "instr_start = \<lparr>s_cpu_accum_us = 0, s_cpu_frames = 0, s_video_accum_us = 0, s_video_frames = 0,
     s_cpu_start_us = 0, s_video_start_us = 0\<rparr>"

definition instr_cpu_start :: "u64 \<Rightarrow> instr \<Rightarrow> instr" where
  "instr_cpu_start now i = i\<lparr>s_cpu_start_us := now\<rparr>"

definition instr_cpu_end :: "u64 \<Rightarrow> instr \<Rightarrow> instr" where
  "instr_cpu_end now i =
     i\<lparr>s_cpu_accum_us := s_cpu_accum_us i + (now - s_cpu_start_us i), s_cpu_frames := s_cpu_frames i + 1\<rparr>"

definition instr_video_start :: "u64 \<Rightarrow> instr \<Rightarrow> instr" where
  "instr_video_start now i = i\<lparr>s_video_start_us := now\<rparr>"

definition instr_video_end :: "u64 \<Rightarrow> instr \<Rightarrow> instr" where
  "instr_video_end now i =
     i\<lparr>s_video_accum_us := s_video_accum_us i + (now - s_video_start_us i), s_video_frames := s_video_frames i + 1\<rparr>"

definition instr_snapshot_and_reset :: "instr \<Rightarrow> (u64 \<times> u32 \<times> u64 \<times> u32) \<times> instr" where
  "instr_snapshot_and_reset i =
     ((s_cpu_accum_us i, s_cpu_frames i, s_video_accum_us i, s_video_frames i),
      i\<lparr>s_cpu_accum_us := 0, s_cpu_frames := 0, s_video_accum_us := 0, s_video_frames := 0\<rparr>)"

section \<open>Properties of the expander\<close>

text \<open>The chip shows what the code remembers.\<close>

definition in_step :: "expander \<Rightarrow> bool" where
  "in_step ex \<longleftrightarrow> chip_reg (i2c_log ex) REG_OUTPUT_PORT0 = Some (s_port0_output ex)
     \<and> chip_reg (i2c_log ex) REG_OUTPUT_PORT1 = Some (s_port1_output ex)
     \<and> chip_reg (i2c_log ex) REG_CONFIG_PORT0 = Some 0xFE \<and> chip_reg (i2c_log ex) REG_CONFIG_PORT1 = Some 0x7F"

text \<open>The two output ports as the operations ask for them.\<close>

fun ports_after :: "u8 \<times> u8 \<Rightarrow> expander_op \<Rightarrow> u8 \<times> u8" where
  "ports_after (p0, p1) (WritePort0 v) = (v, p1)"
| "ports_after (p0, p1) (WritePort1 v) = (p0, v)"
| "ports_after (p0, p1) (SetBacklight on) = (if on then p0 OR 1 else p0 AND NOT 1, p1)"
| "ports_after (p0, p1) (SetLed on) = (p0, if on then p1 OR 0x80 else p1 AND NOT 0x80)"
| "ports_after (p0, p1) (BlinkLed n ms) = (p0, if n = 0 then p1 else p1 AND NOT 0x80)"

definition outputs :: "expander \<Rightarrow> u8 \<times> u8" where
  "outputs ex = (s_port0_output ex, s_port1_output ex)"

lemma led_off_again: "(p OR m) AND NOT m = p AND NOT (m :: u8)"
  by (rule bit_word_eqI) (auto simp: bit_simps)

lemma led_off_values: "(p OR 128) AND - 129 = p AND (- 129 :: u8)"
  using led_off_again [of p 128] by simp

lemma in_step_led:
  assumes "in_step ex"
  shows "in_step (expander_set_led (\<lambda>_. True) on ex)"
    "outputs (expander_set_led (\<lambda>_. True) on ex) = ports_after (outputs ex) (SetLed on)"
  using assms by (simp_all add: in_step_def outputs_def expander_set_led_def write_reg_def expander_regs Let_def XL9535_P17_USER_LED_def)

lemma in_step_wait: "in_step (expander_wait ms ex) = in_step ex" "outputs (expander_wait ms ex) = outputs ex"
  by (simp_all add: in_step_def outputs_def expander_wait_def)

lemma in_step_blink:
  "in_step ex \<Longrightarrow> in_step (expander_blink_led (\<lambda>_. True) n ms ex)
     \<and> outputs (expander_blink_led (\<lambda>_. True) n ms ex) = ports_after (outputs ex) (BlinkLed n ms)"
proof (induction n arbitrary: ex)
  case 0
  then show ?case by (simp add: outputs_def)
next
  case (Suc n)
  let ?on = "expander_wait ms (expander_set_led (\<lambda>_. True) True ex)"
  let ?off = "expander_set_led (\<lambda>_. True) False ?on"
  let ?ex = "if n > 0 then expander_wait ms ?off else ?off"
  have on: "in_step ?on" "outputs ?on = ports_after (outputs ex) (SetLed True)"
    by (simp_all add: in_step_wait in_step_led [OF Suc.prems])
  have "in_step ?ex" by (simp add: in_step_wait in_step_led [OF on(1)])
  moreover have "outputs ?ex = ports_after (ports_after (outputs ex) (SetLed True)) (SetLed False)"
    by (simp add: in_step_wait in_step_led(2) [OF on(1)] on(2) [simplified in_step_wait])
  ultimately show ?case using Suc.IH [of ?ex] by (cases "outputs ex") (simp add: Let_def led_off_again led_off_values)
qed

lemma in_step_do:
  assumes "in_step ex"
  shows "in_step (expander_do (\<lambda>_. True) ex op) \<and> outputs (expander_do (\<lambda>_. True) ex op) = ports_after (outputs ex) op"
proof (cases op)
  case (BlinkLed n ms)
  then show ?thesis using in_step_blink [OF assms] by simp
next
  case (SetLed on)
  then show ?thesis using in_step_led [OF assms] by simp
qed (use assms in \<open>simp_all add: in_step_def outputs_def expander_write_port0_def expander_write_port1_def expander_set_backlight_def
      write_reg_def expander_regs Let_def XL9535_P00_BACKLIGHT_def\<close>)

lemma in_step_init:
  "in_step (snd (expander_init (\<lambda>_. True) True True expander_start))"
  "outputs (snd (expander_init (\<lambda>_. True) True True expander_start)) = (0, 0)"
  "fst (expander_init (\<lambda>_. True) True True expander_start)"
proof -
  let ?s = "\<lparr>s_port0_output = 0, s_port1_output = 0, i2c_log =
      [Wrote REG_OUTPUT_PORT1 0, Wrote REG_OUTPUT_PORT0 0, Wrote REG_CONFIG_PORT1 0x7F, Wrote REG_CONFIG_PORT0 0xFE]\<rparr>"
  have s: "in_step ?s" by (simp add: in_step_def expander_regs)
  have e: "expander_init (\<lambda>_. True) True True expander_start = (True, expander_blink_led (\<lambda>_. True) 2 100 ?s)"
    by (simp add: expander_init_def write_reg_def expander_start_def)
  show "in_step (snd (expander_init (\<lambda>_. True) True True expander_start))"
    "outputs (snd (expander_init (\<lambda>_. True) True True expander_start)) = (0, 0)"
    "fst (expander_init (\<lambda>_. True) True True expander_start)"
    using in_step_blink [OF s, of 2 100] unfolding e by (simp_all add: outputs_def)
qed

lemma in_step_run:
  "in_step ex \<Longrightarrow> in_step (foldl (expander_do (\<lambda>_. True)) ex ops)
     \<and> outputs (foldl (expander_do (\<lambda>_. True)) ex ops) = foldl ports_after (outputs ex) ops"
proof (induction ops rule: rev_induct)
  case (snoc x xs)
  then show ?case using in_step_do [of "foldl (expander_do (\<lambda>_. True)) ex xs" x] by simp
qed simp

text \<open>
  With every transfer acknowledged, the chip's output ports are, after the set-up and any operations,
  what the operations ask for from ports of zeros, and the directions of the pins stay as set up: the
  back light and the LED are outputs, the buttons inputs.
\<close>

theorem expander_follows:
  "\<exists>ex. expander_init (\<lambda>_. True) True True expander_start = (True, ex)
     \<and> (let ex = foldl (expander_do (\<lambda>_. True)) ex ops; ports = foldl ports_after (0, 0) ops
        in chip_reg (i2c_log ex) REG_OUTPUT_PORT0 = Some (fst ports) \<and> chip_reg (i2c_log ex) REG_OUTPUT_PORT1 = Some (snd ports)
           \<and> chip_reg (i2c_log ex) REG_CONFIG_PORT0 = Some 0xFE \<and> chip_reg (i2c_log ex) REG_CONFIG_PORT1 = Some 0x7F)"
proof -
  let ?ex = "snd (expander_init (\<lambda>_. True) True True expander_start)"
  have "in_step (foldl (expander_do (\<lambda>_. True)) ?ex ops)"
    "foldl ports_after (0, 0) ops = outputs (foldl (expander_do (\<lambda>_. True)) ?ex ops)"
    using in_step_run [OF in_step_init(1), of ops] in_step_init(2) by simp_all
  then show ?thesis using in_step_init(3)
    by (intro exI [of _ ?ex]) (simp add: in_step_def outputs_def prod_eq_iff)
qed

section \<open>Properties of the counters\<close>

datatype instr_op = CpuFrame u64 u64 | VideoFrame u64 u64 | Snapshot

text \<open>A run of frames and snapshots: the values handed out, and the state left.\<close>

fun instr_run :: "instr_op list \<Rightarrow> instr \<Rightarrow> (u64 \<times> u32 \<times> u64 \<times> u32) list \<times> instr" where
  "instr_run [] i = ([], i)"
| "instr_run (CpuFrame t0 t1 # ops) i = instr_run ops (instr_cpu_end t1 (instr_cpu_start t0 i))"
| "instr_run (VideoFrame t0 t1 # ops) i = instr_run ops (instr_video_end t1 (instr_video_start t0 i))"
| "instr_run (Snapshot # ops) i =
     (let (out, i) = instr_snapshot_and_reset i; (outs, i) = instr_run ops i in (out # outs, i))"

definition cpu_time :: "instr_op list \<Rightarrow> u64" where
  "cpu_time ops = sum_list (map (\<lambda>op. case op of CpuFrame t0 t1 \<Rightarrow> t1 - t0 | _ \<Rightarrow> 0) ops)"

definition cpu_count :: "instr_op list \<Rightarrow> u32" where
  "cpu_count ops = sum_list (map (\<lambda>op. case op of CpuFrame _ _ \<Rightarrow> 1 | _ \<Rightarrow> 0) ops)"

text \<open>No frame is counted twice or lost: what the snapshots hand out and what is left make up all frames.\<close>

lemma instr_conserves:
  "instr_run ops i = (outs, i') \<Longrightarrow>
     sum_list (map fst outs) + s_cpu_accum_us i' = s_cpu_accum_us i + cpu_time ops
     \<and> sum_list (map (fst \<circ> snd) outs) + s_cpu_frames i' = s_cpu_frames i + cpu_count ops"
proof (induction ops i arbitrary: outs i' rule: instr_run.induct)
  case (2 t0 t1 ops i)
  then show ?case by (simp add: instr_cpu_end_def instr_cpu_start_def cpu_time_def cpu_count_def)
next
  case (3 t0 t1 ops i)
  then show ?case by (simp add: instr_video_end_def instr_video_start_def cpu_time_def cpu_count_def)
next
  case (4 ops i)
  obtain outs' where r: "instr_run ops (snd (instr_snapshot_and_reset i)) = (outs', i')" "outs = fst (instr_snapshot_and_reset i) # outs'"
    using "4.prems" by (auto split: prod.splits)
  show ?case using "4.IH" [OF HOL.refl prod.collapse r(1)] r(2)
    by (simp add: instr_snapshot_and_reset_def cpu_time_def cpu_count_def add.assoc)
qed (simp_all add: cpu_time_def cpu_count_def)

end
