(* ===== verification/Display_Init.thy ===== *)
theory Display_Init
  imports Display_Push Board
begin

text \<open>
  Setting up the screen (\<open>src/src/display/Display.cpp\<close>): the dimensions of the two orientations, the
  commands that start the panel, the allocation of the frame buffers, the splash screen and the steps
  of the boot log.

  \<^item> The panel sees the operations of \<open>panel_op\<close>, in order.
  \<^item> Allocation is a parameter: which requests of the external and of the internal memory succeed, and
    what the memory holds before it is cleared.
  \<^item> The picture of \<open>splash_image.h\<close> is a parameter: its width, its height and its pixels.
\<close>

section \<open>The panel\<close>

datatype panel_op = PanelCommand u8 | PanelData "u8 list" | PanelEnable bool | PanelWait nat

definition MADCTL_LANDSCAPE :: u8 where "MADCTL_LANDSCAPE = 0x28"
definition MADCTL_LANDSCAPE_FLIP :: u8 where "MADCTL_LANDSCAPE_FLIP = 0xE8"

definition display_dimensions :: "u8 \<Rightarrow> nat \<times> nat" where
  "display_dimensions orientation =
     (if orientation = MADCTL_LANDSCAPE \<or> orientation = MADCTL_LANDSCAPE_FLIP then (LCD_WIDTH, LCD_HEIGHT)
      else (LCD_HEIGHT, LCD_WIDTH))"

definition lcd_send_data :: "u8 list \<Rightarrow> panel_op list" where
  "lcd_send_data data = (if data = [] then [] else [PanelData data])"

definition panel_write :: "u8 \<Rightarrow> u8 list \<Rightarrow> panel_op list" where
  "panel_write command data = PanelCommand command # lcd_send_data data"

definition ili9341_init :: "u8 \<Rightarrow> panel_op list" where
  "ili9341_init orientation =
     [PanelEnable False, PanelWait 50, PanelEnable True, PanelWait 120,
      PanelCommand 0x01, PanelWait 10, PanelCommand 0x11, PanelWait 120]
     @ panel_write 0xCF [0x00, 0xC1, 0x30]
     @ panel_write 0xED [0x64, 0x03, 0x12, 0x81]
     @ panel_write 0xE8 [0x85, 0x00, 0x78]
     @ panel_write 0xCB [0x39, 0x2C, 0x00, 0x34, 0x02]
     @ panel_write 0xF7 [0x20]
     @ panel_write 0xEA [0x00, 0x00]
     @ panel_write 0xC0 [0x23]
     @ panel_write 0xC1 [0x10]
     @ panel_write 0xC5 [0x3E, 0x28]
     @ panel_write 0xC7 [0x86]
     @ panel_write 0x36 [orientation]
     @ panel_write 0x3A [0x55]
     @ panel_write 0xB1 [0x00, 18]
     @ panel_write 0xB6 [0x08, 0x82, 0x27]
     @ panel_write 0xF2 [0x00]
     @ panel_write 0x26 [0x01]
     @ panel_write 0xE0 [0x0F, 0x31, 0x2B, 0x0C, 0x0E, 0x08, 0x4E, 0xF1, 0x37, 0x07, 0x10, 0x03, 0x0E, 0x09, 0x00]
     @ panel_write 0xE1 [0x00, 0x0E, 0x14, 0x03, 0x11, 0x07, 0x31, 0xC1, 0x48, 0x08, 0x0F, 0x0C, 0x31, 0x36, 0x0F]
     @ [PanelCommand 0x11, PanelWait 120, PanelCommand 0x29, PanelWait 20]"

section \<open>Set-up\<close>

definition display_start :: display where
  "display_start = \<lparr>frame_buffers = \<lambda>_. None, draw_buffer = 0, overlay_text = [], overlay_color = 0xFFFF,
     overlay_clear_frames = 0, pause_video = False, video_task = False, s_trans_count = 0\<rparr>"

text \<open>A frame buffer: external memory first, then internal.\<close>

definition alloc_frame :: "(nat \<Rightarrow> bool) \<Rightarrow> (nat \<Rightarrow> bool) \<Rightarrow> (nat \<Rightarrow> u16 list) \<Rightarrow> nat \<Rightarrow> u16 list option" where
  "alloc_frame psram internal junk i = (if psram i \<or> internal i then Some (junk i) else None)"

text \<open>\<open>task_ok\<close> says whether the video task was created.\<close>

definition display_init ::
  "i2c \<Rightarrow> (nat \<Rightarrow> bool) \<Rightarrow> (nat \<Rightarrow> bool) \<Rightarrow> (nat \<Rightarrow> u16 list) \<Rightarrow> bool \<Rightarrow> display \<times> expander \<Rightarrow> bool \<times> panel_op list \<times> display \<times> expander" where
  "display_init ack psram internal junk task_ok st =
     (let (d, ex) = st in
      case alloc_frame psram internal junk 0 of
        None \<Rightarrow> (False, [], d, ex)
      | Some b0 \<Rightarrow>
          let d = d\<lparr>frame_buffers := (frame_buffers d)(0 := Some b0)\<rparr>
          in case alloc_frame psram internal junk 1 of
               None \<Rightarrow> (False, [], d, ex)
             | Some b1 \<Rightarrow>
                 let d = d\<lparr>frame_buffers := (frame_buffers d)(1 := Some b1)\<rparr>
                 in (True, ili9341_init MADCTL_LANDSCAPE, display_clear (d\<lparr>video_task := task_ok\<rparr>), expander_set_backlight ack True ex))"

text \<open>\<open>memcpy\<close> into a buffer at an offset.\<close>

definition put_row :: "nat \<Rightarrow> u16 list \<Rightarrow> u16 list \<Rightarrow> u16 list" where
  "put_row k xs buffer = take k buffer @ xs @ drop (k + length xs) buffer"

definition splash_rows :: "nat \<Rightarrow> nat \<Rightarrow> u16 list \<Rightarrow> nat \<Rightarrow> u16 list \<Rightarrow> u16 list" where
  "splash_rows splash_width drawW data drawH buffer =
     fold (\<lambda>y b. put_row (y * LCD_WIDTH) (take drawW (drop (y * splash_width) data)) b) [0..<drawH] buffer"

definition showSplashScreen :: "nat \<Rightarrow> nat \<Rightarrow> u16 list \<Rightarrow> display \<Rightarrow> display" where
  "showSplashScreen splash_width splash_height data d =
     (let drawW = (if splash_width > LCD_WIDTH then LCD_WIDTH else splash_width);
          drawH = (if splash_height > LCD_HEIGHT then LCD_HEIGHT else splash_height);
          buffer = splash_rows splash_width drawW data drawH (replicate (LCD_WIDTH * LCD_HEIGHT) 0);
          back = draw_buffer d; front = 1 - draw_buffer d
      in display_present (d\<lparr>frame_buffers := (frame_buffers d)(back := Some buffer, front := Some buffer)\<rparr>))"

definition display_boot_log_add_step :: "nat \<Rightarrow> nat \<Rightarrow> string option \<Rightarrow> display \<Rightarrow> display" where
  "display_boot_log_add_step step steps description d =
     (let head = ''Step '' @ dec_digits step @ ''/'' @ dec_digits steps;
          buffer = snprintf_to 128 (case description of Some t \<Rightarrow> head @ [CHR 0x0A] @ t | None \<Rightarrow> head)
      in display_setOverlayText d (Some buffer) 0xFFFF)"

text \<open>
  The end of \<open>display_present\<close>: the frames are counted, and every five seconds the counters are read
  and reset.  The log line is not modelled.
\<close>

definition count_frame :: "int \<Rightarrow> u32 \<times> int \<times> instr \<Rightarrow> u32 \<times> int \<times> instr" where
  "count_frame now st =
     (let (frame_count, last_time_us, i) = st;
          frame_count = frame_count + 1;
          last_time_us = (if last_time_us = 0 then now else last_time_us)
      in if now - last_time_us \<ge> 5000000 then (0, now, snd (instr_snapshot_and_reset i))
         else (frame_count, last_time_us, i))"

section \<open>Properties\<close>

lemma length_put_row: "k + length xs \<le> length buffer \<Longrightarrow> length (put_row k xs buffer) = length buffer"
  by (simp add: put_row_def)

lemma nth_put_row:
  assumes "k + length xs \<le> length buffer" "n < length buffer"
  shows "put_row k xs buffer ! n = (if k \<le> n \<and> n < k + length xs then xs ! (n - k) else buffer ! n)"
  using assms by (auto simp: put_row_def nth_append)

lemma splash_rows_pixels:
  assumes "drawW \<le> LCD_WIDTH" "drawW \<le> w" "length data = w * h" "frame_ok b"
  shows "k \<le> h \<Longrightarrow> k \<le> LCD_HEIGHT \<Longrightarrow> frame_ok (splash_rows w drawW data k b) \<and> (\<forall>py < LCD_HEIGHT. \<forall>px < LCD_WIDTH.
     pixel (splash_rows w drawW data k b) px py = (if py < k \<and> px < drawW then data ! (py * w + px) else pixel b px py))"
proof (induction k)
  case 0
  then show ?case using assms(4) by (simp add: splash_rows_def)
next
  case (Suc k)
  let ?b = "splash_rows w drawW data k b" and ?xs = "take drawW (drop (k * w) data)"
  have ih: "frame_ok ?b" "\<And>px py. px < LCD_WIDTH \<Longrightarrow> py < LCD_HEIGHT \<Longrightarrow>
      pixel ?b px py = (if py < k \<and> px < drawW then data ! (py * w + px) else pixel b px py)" using Suc by simp_all
  have "w * Suc k \<le> w * h" using Suc.prems by (intro mult_le_mono2) simp
  then have l: "length ?xs = drawW" "\<And>i. i < drawW \<Longrightarrow> k * w + i < length data" using assms(2,3) by (simp_all add: mult.commute)
  have "LCD_WIDTH * Suc k \<le> LCD_WIDTH * LCD_HEIGHT" using Suc.prems by (intro mult_le_mono2) simp
  then have fit: "k * LCD_WIDTH + length ?xs \<le> length ?b" using ih(1) assms(1) l(1) by (simp add: frame_ok_def mult.commute)
  have r: "splash_rows w drawW data (Suc k) b = put_row (k * LCD_WIDTH) ?xs ?b" by (simp add: splash_rows_def)
  show ?case
  proof (intro conjI allI impI)
    show "frame_ok (splash_rows w drawW data (Suc k) b)" using ih(1) unfolding r frame_ok_def length_put_row [OF fit] .
    fix py px assume p: "py < LCD_HEIGHT" "px < LCD_WIDTH"
    have n: "py * LCD_WIDTH + px < length ?b" using pixel_pos_less [OF p(2,1)] ih(1) by (simp add: frame_ok_def)
    have in_row: "k * LCD_WIDTH \<le> py * LCD_WIDTH + px \<and> py * LCD_WIDTH + px < k * LCD_WIDTH + drawW \<longleftrightarrow> py = k \<and> px < drawW"
    proof
      assume a: "k * LCD_WIDTH \<le> py * LCD_WIDTH + px \<and> py * LCD_WIDTH + px < k * LCD_WIDTH + drawW"
      then have "py * LCD_WIDTH + px = k * LCD_WIDTH + (py * LCD_WIDTH + px - k * LCD_WIDTH)"
        "py * LCD_WIDTH + px - k * LCD_WIDTH < LCD_WIDTH" using assms(1) by auto
      then have "py = k \<and> px = py * LCD_WIDTH + px - k * LCD_WIDTH" using pixel_pos_eq p(2) by metis
      then show "py = k \<and> px < drawW" using a by auto
    qed auto
    have "pixel (splash_rows w drawW data (Suc k) b) px py
        = (if py = k \<and> px < drawW then ?xs ! (py * LCD_WIDTH + px - k * LCD_WIDTH) else pixel ?b px py)"
      unfolding r pixel_def nth_put_row [OF fit n] l(1) in_row ..
    also have "\<dots> = (if py < Suc k \<and> px < drawW then data ! (py * w + px) else pixel b px py)"
      using ih(2) [OF p(2,1)] l(2) [of px] by (auto simp: less_Suc_eq)
    finally show "pixel (splash_rows w drawW data (Suc k) b) px py
        = (if py < Suc k \<and> px < drawW then data ! (py * w + px) else pixel b px py)" .
  qed
qed

definition shows_splash :: "nat \<Rightarrow> nat \<Rightarrow> u16 list \<Rightarrow> u16 list \<Rightarrow> bool" where
  "shows_splash w h data b \<longleftrightarrow> frame_ok b \<and> (\<forall>py < LCD_HEIGHT. \<forall>px < LCD_WIDTH.
     pixel b px py = (if py < h \<and> px < w then data ! (py * w + px) else 0))"

lemma splash_in_buffers:
  assumes "length data = w * h" "draw_buffer d < 2" "overlay_text d = []" "overlay_clear_frames d = 0"
  shows "\<exists>b. shows_splash w h data b \<and> frame_buffers (showSplashScreen w h data d) 0 = Some b
     \<and> frame_buffers (showSplashScreen w h data d) 1 = Some b"
proof -
  let ?W = "if w > LCD_WIDTH then LCD_WIDTH else w" and ?H = "if h > LCD_HEIGHT then LCD_HEIGHT else h"
  let ?b = "splash_rows w ?W data ?H (replicate (LCD_WIDTH * LCD_HEIGHT) 0)"
  have z: "frame_ok (replicate (LCD_WIDTH * LCD_HEIGHT) 0)" by (simp add: frame_ok_def)
  have "pixel (replicate (LCD_WIDTH * LCD_HEIGHT) 0) px py = 0" if "px < LCD_WIDTH" "py < LCD_HEIGHT" for px py
    using pixel_pos_less [OF that] by (simp add: pixel_def)
  then have "shows_splash w h data ?b"
    using splash_rows_pixels [OF _ _ assms(1) z, of ?W ?H] by (auto simp: shows_splash_def)
  moreover have "draw_buffer d = 0 \<or> draw_buffer d = 1" using assms(2) by auto
  then have "frame_buffers (showSplashScreen w h data d) 0 = Some ?b \<and> frame_buffers (showSplashScreen w h data d) 1 = Some ?b"
    using assms(3,4) by (auto simp: showSplashScreen_def display_present_def Let_def)
  ultimately show ?thesis by blast
qed

text \<open>
  After the set-up with enough memory both frame buffers are black and the back light is on; the splash
  screen then puts the picture in both buffers, cut or surrounded by black, whichever is drawn first.
\<close>

theorem splash_after_init:
  assumes "\<forall>i < 2. psram i \<or> internal i" "length data = w * h" "in_step ex"
  shows "\<exists>ops d ex' b. display_init (\<lambda>_. True) psram internal junk task_ok (display_start, ex) = (True, ops, d, ex')
     \<and> frame_buffers d 0 = Some (replicate (LCD_WIDTH * LCD_HEIGHT) 0) \<and> frame_buffers d 1 = Some (replicate (LCD_WIDTH * LCD_HEIGHT) 0)
     \<and> (\<exists>v. chip_reg (i2c_log ex') REG_OUTPUT_PORT0 = Some v \<and> bit v 0)
     \<and> shows_splash w h data b \<and> frame_buffers (showSplashScreen w h data d) 0 = Some b
     \<and> frame_buffers (showSplashScreen w h data d) 1 = Some b"
proof -
  have a: "alloc_frame psram internal junk 0 = Some (junk 0)" "alloc_frame psram internal junk 1 = Some (junk 1)"
    using assms(1) by (simp_all add: alloc_frame_def)
  define d where "d = display_clear (display_start\<lparr>frame_buffers := (\<lambda>_. None)(0 := Some (junk 0), 1 := Some (junk 1)), video_task := task_ok\<rparr>)"
  define ex' where "ex' = expander_set_backlight (\<lambda>_. True) True ex"
  have i: "display_init (\<lambda>_. True) psram internal junk task_ok (display_start, ex) = (True, ili9341_init MADCTL_LANDSCAPE, d, ex')"
    unfolding display_init_def prod.case a option.case Let_def by (simp add: d_def ex'_def display_start_def)
  have d: "frame_buffers d 0 = Some (replicate (LCD_WIDTH * LCD_HEIGHT) 0)" "frame_buffers d 1 = Some (replicate (LCD_WIDTH * LCD_HEIGHT) 0)"
    "draw_buffer d < 2" "overlay_text d = []" "overlay_clear_frames d = 0"
    by (simp_all add: d_def display_clear_def display_present_def display_start_def Let_def)
  have "in_step ex' \<and> outputs ex' = ports_after (outputs ex) (SetBacklight True)"
    using in_step_do [OF assms(3), of "SetBacklight True"] by (simp add: ex'_def)
  then have l: "chip_reg (i2c_log ex') REG_OUTPUT_PORT0 = Some (s_port0_output ex OR 1)" by (auto simp: in_step_def outputs_def)
  have "bit (s_port0_output ex OR 1) 0" by (simp add: bit_simps)
  then show ?thesis using i d(1,2) l splash_in_buffers [OF assms(2) d(3-5)] by blast
qed

theorem splash_after_init_witness:
  "\<exists>ops d ex' b. display_init (\<lambda>_. True) (\<lambda>i. i = 0) (\<lambda>i. i = 1) (\<lambda>_. []) True
       (display_start, snd (expander_init (\<lambda>_. True) True True expander_start)) = (True, ops, d, ex')
     \<and> shows_splash 2 1 [3, 4] b \<and> frame_buffers (showSplashScreen 2 1 [3, 4] d) 1 = Some b"
proof -
  have "in_step (snd (expander_init (\<lambda>_. True) True True expander_start))" by (rule in_step_init)
  moreover have "\<forall>i < 2. (i :: nat) = 0 \<or> i = 1" by auto
  ultimately show ?thesis
    using splash_after_init [of "\<lambda>i. i = 0" "\<lambda>i. i = 1" "[3, 4]" 2 1 "snd (expander_init (\<lambda>_. True) True True expander_start)" "\<lambda>_. []" True]
    by auto
qed

end
