(* ===== verification/Web_Server.thy ===== *)
theory Web_Server
  imports Web_Files
begin

text \<open>
  The life cycle of the web server and the way of a request to its handler
  (\<open>src/src/webserver/Webserver.cpp\<close>): \<open>webserver_start\<close>, \<open>webserver_stop\<close>, \<open>webserver_ensure_started\<close>,
  the queries for a browser on the WebSocket, and the keep-alive task.

  \<^item> \<open>esp_http_server\<close> is a parameter, the record \<open>httpd\<close>: its answers are functions of the calls made
    before, which are kept, latest first, in \<open>srv_log\<close>.
  \<^item> \<open>routes\<close> is what the running server has registered, in order.  How it compares a template with an
    address is the parameter \<open>match\<close>; \<open>wildcard_matcher\<close> states what its documentation promises.
  \<^item> A machine is referred to by its address, a number.
\<close>

section \<open>Starting and stopping\<close>

datatype web_handler =
  HealthHandler | WsHandler | FilesListHandler | FileLoadHandler | ResetHandler | TapeHandler | ModelHandler
| FileGetHandler

datatype http_method = HTTP_GET | HTTP_POST | OtherMethod

datatype srv_call =
  HttpdStart | HttpdStop | RegisterUri "string \<times> http_method \<times> web_handler" | CreateKeepalive
| GetClientList | SendPing int | WaitMs u32

record httpd =
  start_ok :: "srv_call list \<Rightarrow> bool"
  register_ok :: "srv_call list \<Rightarrow> bool"
  client_list :: "srv_call list \<Rightarrow> int list option"
  is_websocket :: "srv_call list \<Rightarrow> int \<Rightarrow> bool"

record web_server =
  s_server :: bool
  s_spectrum :: "nat option"
  keepalive_started :: bool
  routes :: "(string \<times> http_method \<times> web_handler) list"
  srv_log :: "srv_call list"

definition web_server_new :: web_server where
  "web_server_new = \<lparr>s_server = False, s_spectrum = None, keepalive_started = False, routes = [], srv_log = []\<rparr>"

definition srv_issue :: "srv_call \<Rightarrow> web_server \<Rightarrow> web_server" where
  "srv_issue c s = s\<lparr>srv_log := c # srv_log s\<rparr>"

definition uris :: "(string \<times> http_method \<times> web_handler) list" where
  "uris =
     [(''/api/health'', HTTP_GET, HealthHandler),
      (''/ws'', HTTP_GET, WsHandler),
      (''/api/files'', HTTP_GET, FilesListHandler),
      (''/api/tapes'', HTTP_GET, FilesListHandler),
      (''/api/snapshots'', HTTP_GET, FilesListHandler),
      (''/api/load'', HTTP_GET, FileLoadHandler),
      (''/api/reset'', HTTP_GET, ResetHandler),
      (''/api/tape'', HTTP_GET, TapeHandler),
      (''/api/model'', HTTP_GET, ModelHandler),
      (''/*'', HTTP_GET, FileGetHandler)]"

text \<open>A handler that cannot be registered is reported and left out.\<close>

definition register_uri :: "httpd \<Rightarrow> string \<times> http_method \<times> web_handler \<Rightarrow> web_server \<Rightarrow> web_server" where
  "register_uri d u s =
     (let ok = register_ok d (srv_log s); s = srv_issue (RegisterUri u) s
      in if ok then s\<lparr>routes := routes s @ [u]\<rparr> else s)"

definition start_keepalive :: "web_server \<Rightarrow> web_server" where
  "start_keepalive s =
     (if \<not> keepalive_started s then srv_issue CreateKeepalive (s\<lparr>keepalive_started := True\<rparr>) else s)"

definition webserver_start :: "httpd \<Rightarrow> nat \<Rightarrow> web_server \<Rightarrow> bool \<times> web_server" where
  "webserver_start d spectrum s =
     (let running = s_server s; s = s\<lparr>s_spectrum := Some spectrum\<rparr>
      in if running then (True, s)
         else let ok = start_ok d (srv_log s); s = srv_issue HttpdStart s
              in if \<not> ok then (False, s\<lparr>s_server := False\<rparr>)
                 else (True, fold (register_uri d) uris (start_keepalive (s\<lparr>s_server := True, routes := []\<rparr>))))"

definition webserver_stop :: "web_server \<Rightarrow> web_server" where
  "webserver_stop s = (let s = (if s_server s then srv_issue HttpdStop s else s) in s\<lparr>s_server := False, routes := []\<rparr>)"

definition webserver_is_running :: "web_server \<Rightarrow> bool" where
  "webserver_is_running s = s_server s"

definition webserver_ensure_started :: "httpd \<Rightarrow> nat \<Rightarrow> web_server \<Rightarrow> bool \<times> web_server" where
  "webserver_ensure_started d spectrum s =
     (if webserver_is_running s then (True, s) else webserver_start d spectrum s)"

section \<open>Browsers on the WebSocket\<close>

definition find_ws_client :: "httpd \<Rightarrow> web_server \<Rightarrow> bool \<times> web_server" where
  "find_ws_client d s =
     (let fds = client_list d (srv_log s); s = srv_issue GetClientList s
      in (case fds of None \<Rightarrow> False | Some fds \<Rightarrow> list_ex (is_websocket d (srv_log s)) fds, s))"

definition webserver_is_ws_client_connected :: "httpd \<Rightarrow> web_server \<Rightarrow> bool \<times> web_server" where
  "webserver_is_ws_client_connected d s = (if \<not> s_server s then (False, s) else find_ws_client d s)"

text \<open>The wait with a time limit: \<open>elapsed\<close> is a \<open>uint32_t\<close> and wraps.\<close>

partial_function (option) poll_ws_client :: "httpd \<Rightarrow> u32 \<Rightarrow> u32 \<Rightarrow> web_server \<Rightarrow> (bool \<times> web_server) option" where
  "poll_ws_client d timeout_ms elapsed s =
     (if elapsed < timeout_ms
      then let (found, s) = find_ws_client d s
           in if found then Some (True, s) else poll_ws_client d timeout_ms (elapsed + 200) (srv_issue (WaitMs 200) s)
      else Some (False, s))"

definition webserver_wait_for_ws_client :: "httpd \<Rightarrow> u32 \<Rightarrow> web_server \<Rightarrow> (bool \<times> web_server) option" where
  "webserver_wait_for_ws_client d timeout_ms s =
     (if \<not> s_server s then Some (False, s) else poll_ws_client d timeout_ms 0 s)"

text \<open>One turn of the keep-alive task.\<close>

definition ping_client :: "httpd \<Rightarrow> int \<Rightarrow> web_server \<Rightarrow> web_server" where
  "ping_client d fd s = (if is_websocket d (srv_log s) fd then srv_issue (SendPing fd) s else s)"

definition ws_keepalive :: "httpd \<Rightarrow> web_server \<Rightarrow> web_server" where
  "ws_keepalive d s =
     (let s = srv_issue (WaitMs 5000) s
      in if \<not> s_server s then s
         else let fds = client_list d (srv_log s); s = srv_issue GetClientList s
              in case fds of None \<Rightarrow> s | Some fds \<Rightarrow> fold (ping_client d) fds s)"

section \<open>A request\<close>

text \<open>What a request and the rest of the program hand to the handlers.\<close>

record web_env =
  e_has_query :: bool
  e_kv :: "string \<Rightarrow> nat \<Rightarrow> string option"
  e_frame :: "(bool \<times> bool \<times> frame_type \<times> u8 list) option"
  e_tape :: "tape option"
  e_ro :: bool
  e_get :: bool
  e_rw :: bool
  e_set :: bool
  e_commit :: bool
  e_file_at :: "string \<Rightarrow> u8 list option"
  e_fopen :: "string \<Rightarrow> bool"
  e_read :: "nat \<Rightarrow> nat"
  e_chunk :: "nat \<Rightarrow> bool"
  e_dir :: "string \<Rightarrow> string list option"

datatype web_reply =
  HealthReply string
| SocketReply bool
| ListReply "string list option"
| ApiReply response
| FileReply file_response
| NotRouted

text \<open>\<open>e_frame\<close> is the frame of an open WebSocket, \<open>None\<close> the request that opens it.\<close>

fun run_handler :: "web_env \<Rightarrow> string \<Rightarrow> web_handler \<Rightarrow> nvs_store \<times> web_queue \<Rightarrow> web_reply \<times> nvs_store \<times> web_queue" where
  "run_handler e uri HealthHandler (store, q) = (HealthReply health_handler, store, q)"
| "run_handler e uri WsHandler (store, q) =
     (let (ok, q) = (case e_frame e of None \<Rightarrow> ws_handler True True True OtherFrame [] q
                     | Some (recv1, recv2, ty, payload) \<Rightarrow> ws_handler False recv1 recv2 ty payload q)
      in (SocketReply ok, store, q))"
| "run_handler e uri FilesListHandler (store, q) = (ListReply (files_list_handler (e_dir e) uri), store, q)"
| "run_handler e uri FileLoadHandler (store, q) =
     (let (r, q) = file_load_handler (e_has_query e) (e_kv e) q in (ApiReply r, store, q))"
| "run_handler e uri ResetHandler (store, q) = (let (r, q) = reset_handler q in (ApiReply r, store, q))"
| "run_handler e uri TapeHandler (store, q) =
     (let (r, q) = tape_handler (e_has_query e) (e_kv e) (e_tape e) q in (ApiReply r, store, q))"
| "run_handler e uri ModelHandler (store, q) =
     (let (r, store, q) = model_handler (e_has_query e) (e_kv e) (e_ro e) (e_get e) (e_rw e) (e_set e) (e_commit e) store q
      in (ApiReply r, store, q))"
| "run_handler e uri FileGetHandler (store, q) =
     (FileReply (file_get_handler (e_file_at e) (e_fopen e) (e_read e) (e_chunk e) uri), store, q)"

text \<open>
  The first registered template that matches the address and was registered for the method of the
  request.  The frames of an open WebSocket are not routed again: they go to the handler of the request
  that opened it, and count here as requests with its address and method.
\<close>

definition route :: "(string \<Rightarrow> string \<Rightarrow> bool) \<Rightarrow> web_server \<Rightarrow> http_method \<Rightarrow> string \<Rightarrow> web_handler option" where
  "route match s meth uri = map_option (\<lambda>(_, _, h). h) (find (\<lambda>(t, m, _). match t uri \<and> m = meth) (routes s))"

definition serve ::
  "(string \<Rightarrow> string \<Rightarrow> bool) \<Rightarrow> web_env \<Rightarrow> web_server \<Rightarrow> http_method \<Rightarrow> string \<Rightarrow> nvs_store \<times> web_queue
     \<Rightarrow> web_reply \<times> nvs_store \<times> web_queue" where
  "serve match e s meth uri sq = (case route match s meth uri of None \<Rightarrow> (NotRouted, sq) | Some h \<Rightarrow> run_handler e uri h sq)"

text \<open>
  \<open>httpd_uri_match_wildcard\<close> as documented: a template that ends in a star matches every address that
  starts with the rest of it, any other template without a question mark only itself.  The query is cut off before.
\<close>

definition wildcard_matcher :: "(string \<Rightarrow> string \<Rightarrow> bool) \<Rightarrow> bool" where
  "wildcard_matcher match \<longleftrightarrow>
     (\<forall>t uri. CHR ''*'' \<notin> set t \<and> CHR ''?'' \<notin> set t \<longrightarrow>
        (match t uri \<longleftrightarrow> takeWhile (\<lambda>c. c \<noteq> CHR ''?'') uri = t)
        \<and> (match (t @ ''*'') uri \<longleftrightarrow> prefix t (takeWhile (\<lambda>c. c \<noteq> CHR ''?'') uri)))"

section \<open>What every operation keeps\<close>

text \<open>Every ping in the log went to a client that was a WebSocket then.\<close>

primrec pings_ok :: "httpd \<Rightarrow> srv_call list \<Rightarrow> bool" where
  "pings_ok d [] = True"
| "pings_ok d (c # cs) = ((case c of SendPing fd \<Rightarrow> is_websocket d cs fd | _ \<Rightarrow> True) \<and> pings_ok d cs)"

definition srv_inv :: "httpd \<Rightarrow> web_server \<Rightarrow> bool" where
  "srv_inv d s \<longleftrightarrow>
     count_list (srv_log s) CreateKeepalive = (if keepalive_started s then 1 else 0)
     \<and> (s_server s \<longrightarrow> keepalive_started s \<and> s_spectrum s \<noteq> None)
     \<and> subseq (routes s) uris \<and> (\<not> s_server s \<longrightarrow> routes s = []) \<and> pings_ok d (srv_log s)
     \<and> ((\<forall>t. register_ok d t) \<longrightarrow> s_server s \<longrightarrow> routes s = uris)"

text \<open>The calls that are neither the creation of the task nor a ping.\<close>

fun plain_call :: "srv_call \<Rightarrow> bool" where
  "plain_call CreateKeepalive = False"
| "plain_call (SendPing fd) = False"
| "plain_call c = True"

lemma srv_issue_fields [simp]:
  "s_server (srv_issue c s) = s_server s" "s_spectrum (srv_issue c s) = s_spectrum s" "routes (srv_issue c s) = routes s"
  "keepalive_started (srv_issue c s) = keepalive_started s" "srv_log (srv_issue c s) = c # srv_log s"
  by (simp_all add: srv_issue_def)

lemma inv_issue: "plain_call c \<Longrightarrow> srv_inv d (srv_issue c s) = srv_inv d s"
  by (cases c) (simp_all add: srv_inv_def)

lemma register_fields:
  "s_server (register_uri d u s) = s_server s" "s_spectrum (register_uri d u s) = s_spectrum s"
  "keepalive_started (register_uri d u s) = keepalive_started s"
  "srv_log (register_uri d u s) = RegisterUri u # srv_log s"
  "routes (register_uri d u s) = routes s @ (if register_ok d (srv_log s) then [u] else [])"
  by (simp_all add: register_uri_def Let_def)

text \<open>Registering a table: what is registered is a part of it in the same order, all of it if no call fails.\<close>

lemma register_all:
  "\<exists>us'. subseq us' us \<and> routes (fold (register_uri d) us s) = routes s @ us' \<and> ((\<forall>t. register_ok d t) \<longrightarrow> us' = us)
     \<and> s_server (fold (register_uri d) us s) = s_server s \<and> s_spectrum (fold (register_uri d) us s) = s_spectrum s
     \<and> keepalive_started (fold (register_uri d) us s) = keepalive_started s
     \<and> srv_log (fold (register_uri d) us s) = map RegisterUri (rev us) @ srv_log s"
proof (induction us arbitrary: s)
  case (Cons u us)
  let ?r = "register_uri d u s" and ?x = "if register_ok d (srv_log s) then [u] else []"
  obtain us' where ih: "subseq us' us" "routes (fold (register_uri d) us ?r) = routes ?r @ us'" "(\<forall>t. register_ok d t) \<longrightarrow> us' = us"
    "s_server (fold (register_uri d) us ?r) = s_server ?r" "s_spectrum (fold (register_uri d) us ?r) = s_spectrum ?r"
    "keepalive_started (fold (register_uri d) us ?r) = keepalive_started ?r"
    "srv_log (fold (register_uri d) us ?r) = map RegisterUri (rev us) @ srv_log ?r"
    using Cons.IH [of ?r] by blast
  have "subseq us' (u # us)" using ih(1) by (rule list_emb_Cons)
  then show ?case using ih by (intro exI [of _ "?x @ us'"]) (simp add: register_fields)
qed simp

lemma plain_log:
  "count_list (map RegisterUri us @ log) CreateKeepalive = count_list log CreateKeepalive"
  "pings_ok d (map RegisterUri us @ log) = pings_ok d log"
  by (induction us) simp_all

lemma start_keepalive_fields [simp]:
  "s_server (start_keepalive s) = s_server s" "s_spectrum (start_keepalive s) = s_spectrum s"
  "routes (start_keepalive s) = routes s" "keepalive_started (start_keepalive s)"
  by (simp_all add: start_keepalive_def)

lemma start_keepalive_log:
  "srv_log (start_keepalive s) = (if keepalive_started s then srv_log s else CreateKeepalive # srv_log s)"
  by (simp add: start_keepalive_def)

lemma start_inv:
  assumes "srv_inv d s"
  shows "srv_inv d (snd (webserver_start d sp s))"
proof (cases "s_server s \<or> \<not> start_ok d (srv_log s)")
  case True
  then show ?thesis using assms by (auto simp: webserver_start_def Let_def srv_inv_def)
next
  case False
  let ?s = "start_keepalive ((srv_issue HttpdStart (s\<lparr>s_spectrum := Some sp\<rparr>))\<lparr>s_server := True, routes := []\<rparr>)"
  have r: "snd (webserver_start d sp s) = fold (register_uri d) uris ?s"
    using False by (simp add: webserver_start_def Let_def)
  obtain us' where u: "subseq us' uris" "routes (fold (register_uri d) uris ?s) = routes ?s @ us'"
    "(\<forall>t. register_ok d t) \<longrightarrow> us' = uris" "s_server (fold (register_uri d) uris ?s) = s_server ?s" "s_spectrum (fold (register_uri d) uris ?s) = s_spectrum ?s"
    "keepalive_started (fold (register_uri d) uris ?s) = keepalive_started ?s"
    "srv_log (fold (register_uri d) uris ?s) = map RegisterUri (rev uris) @ srv_log ?s"
    using register_all [of uris d ?s] by blast
  show ?thesis
    using assms u(1,3) unfolding r srv_inv_def u(2) u(4-7) plain_log by (simp add: start_keepalive_log)
qed

lemma stop_inv: "srv_inv d s \<Longrightarrow> srv_inv d (webserver_stop s)"
  by (simp add: webserver_stop_def Let_def srv_inv_def)

lemma find_inv: "srv_inv d s \<Longrightarrow> srv_inv d (snd (find_ws_client d s))"
  by (simp add: find_ws_client_def Let_def inv_issue)

lemma ping_inv: "srv_inv d s \<Longrightarrow> srv_inv d (ping_client d fd s)"
  by (auto simp: ping_client_def srv_inv_def)

lemma pings_inv: "srv_inv d s \<Longrightarrow> srv_inv d (fold (ping_client d) fds s)"
  by (induction fds arbitrary: s) (simp_all add: ping_inv)

lemma keepalive_inv: "srv_inv d s \<Longrightarrow> srv_inv d (ws_keepalive d s)"
  by (simp add: ws_keepalive_def Let_def inv_issue pings_inv split: option.split)

text \<open>
  What the tasks do with the server, one call at a time: any machine may be handed over, the task of the
  pings runs once it was created.
\<close>

inductive srv_step :: "httpd \<Rightarrow> web_server \<Rightarrow> web_server \<Rightarrow> bool" for d where
  start: "srv_step d s (snd (webserver_start d spectrum s))"
| ensure: "srv_step d s (snd (webserver_ensure_started d spectrum s))"
| stop: "srv_step d s (webserver_stop s)"
| look: "srv_step d s (snd (webserver_is_ws_client_connected d s))"
| sleep: "srv_step d s (srv_issue (WaitMs ms) s)"
| keepalive: "keepalive_started s \<Longrightarrow> srv_step d s (ws_keepalive d s)"

inductive srv_reach :: "httpd \<Rightarrow> web_server \<Rightarrow> web_server \<Rightarrow> bool" for d where
  srv_here: "srv_reach d s s"
| srv_more: "srv_reach d s u \<Longrightarrow> srv_step d u v \<Longrightarrow> srv_reach d s v"

lemma srv_step_inv: "srv_step d s u \<Longrightarrow> srv_inv d s \<Longrightarrow> srv_inv d u"
  by (induction rule: srv_step.induct)
    (simp_all add: start_inv stop_inv find_inv keepalive_inv inv_issue webserver_ensure_started_def webserver_is_ws_client_connected_def)

lemma srv_reach_inv: "srv_reach d s u \<Longrightarrow> srv_inv d s \<Longrightarrow> srv_inv d u"
  by (induction rule: srv_reach.induct) (auto intro: srv_step_inv)

lemma new_server_inv: "srv_inv d web_server_new"
  by (simp add: srv_inv_def web_server_new_def)

theorem server_life:
  assumes "srv_reach d web_server_new s"
  shows "count_list (srv_log s) CreateKeepalive = (if keepalive_started s then 1 else 0)
    \<and> (webserver_is_running s \<longrightarrow> keepalive_started s \<and> s_spectrum s \<noteq> None)
    \<and> subseq (routes s) uris \<and> (\<not> webserver_is_running s \<longrightarrow> routes s = [])
    \<and> (\<forall>later fd before. srv_log s = later @ SendPing fd # before \<longrightarrow> is_websocket d before fd)"
proof -
  have i: "srv_inv d s" by (rule srv_reach_inv [OF assms new_server_inv])
  have p: "is_websocket d before fd" if "pings_ok d (later @ SendPing fd # before)" for later fd before
    using that by (induction later) auto
  have "is_websocket d before fd" if "srv_log s = later @ SendPing fd # before" for later fd before
    using p [of later fd before] i unfolding srv_inv_def that by blast
  then show ?thesis using i by (simp add: srv_inv_def webserver_is_running_def)
qed

text \<open>A server whose every call works and which has one browser on the WebSocket, for the witnesses.\<close>

definition sample_httpd :: httpd where
  "sample_httpd =
     \<lparr>start_ok = (\<lambda>_. True), register_ok = (\<lambda>_. True), client_list = (\<lambda>_. Some [5, 6]), is_websocket = (\<lambda>_ fd. fd = 6)\<rparr>"

theorem server_life_witness:
  "\<exists>s. srv_reach sample_httpd web_server_new s \<and> SendPing 6 \<in> set (srv_log s) \<and> count_list (srv_log s) CreateKeepalive = 1"
proof -
  let ?u = "snd (webserver_start sample_httpd 7 web_server_new)"
  let ?v = "ws_keepalive sample_httpd ?u"
  have u: "s_server ?u" "keepalive_started ?u"
    by (simp_all add: webserver_start_def Let_def web_server_new_def sample_httpd_def uris_def register_fields)
  have r: "srv_reach sample_httpd web_server_new ?v"
    by (rule srv_more [OF srv_more [OF srv_here start] keepalive [OF u(2)]])
  have v: "keepalive_started ?v" "SendPing 6 \<in> set (srv_log ?v)"
    using u by (simp_all add: ws_keepalive_def Let_def ping_client_def sample_httpd_def)
  show ?thesis using server_life [OF r] r v by (intro exI [of _ ?v]) simp
qed

section \<open>The waits\<close>

text \<open>Without a browser the wait does not return when the limit is the largest \<open>uint32_t\<close>: the counter, a multiple of 8, wraps.\<close>

lemma poll_forever:
  assumes none: "\<And>t. client_list d t = None" and m: "unat elapsed mod 8 = 0"
  shows "poll_ws_client d 0xFFFFFFFF elapsed s = None"
proof (rule ccontr)
  assume "poll_ws_client d 0xFFFFFFFF elapsed s \<noteq> None"
  then obtain r where r: "poll_ws_client d 0xFFFFFFFF elapsed s = Some r" by blast
  have no: "poll_ws_client d' limit el s = Some r \<Longrightarrow> d' = d \<Longrightarrow> limit = 0xFFFFFFFF \<Longrightarrow> unat el mod 8 = 0 \<Longrightarrow> False"
    for d' limit el s r
  proof (induction d' limit el s r rule: poll_ws_client.raw_induct [rotated, consumes 1, case_names step])
    case (step poll d' limit el s r)
    have "unat el \<noteq> 4294967295" using step(5) by auto
    moreover have "unat el < 2 ^ 32" using unsigned_less [where ?'a = nat, of el] by simp
    ultimately have "el < 0xFFFFFFFF" by (simp add: word_less_nat_alt)
    with step(2-4) have "poll d 0xFFFFFFFF (el + 200) (srv_issue (WaitMs 200) (srv_issue GetClientList s)) = Some r"
      by (simp add: find_ws_client_def Let_def none)
    moreover have "unat (el + 200) mod 8 = 0"
      using step(5) by (simp add: unat_word_ariths mod_mod_cancel mod_add_eq) presburger
    ultimately show ?case by (rule step(1) [OF _ refl refl])
  qed
  show False by (rule no [OF r refl refl m])
qed

text \<open>The wait ends when the limit leaves room for a last step of the counter.\<close>

lemma poll_returns:
  assumes "unat timeout_ms \<le> 2 ^ 32 - 200"
  shows "\<exists>r. poll_ws_client d timeout_ms elapsed s = Some r"
proof (induction "unat timeout_ms - unat elapsed" arbitrary: elapsed s rule: less_induct)
  case less
  show ?case
  proof (cases "elapsed < timeout_ms")
    case False
    then have "poll_ws_client d timeout_ms elapsed s = Some (False, s)" by (subst poll_ws_client.simps) simp
    then show ?thesis ..
  next
    case True
    obtain found s1 where f: "find_ws_client d s = (found, s1)" by fastforce
    have n: "unat (elapsed + 200) = unat elapsed + 200"
      using True assms by (simp add: unat_word_ariths word_less_nat_alt)
    have "unat timeout_ms - unat (elapsed + 200) < unat timeout_ms - unat elapsed"
      using True unfolding n by (simp add: word_less_nat_alt)
    then have "\<exists>r. poll_ws_client d timeout_ms (elapsed + 200) (srv_issue (WaitMs 200) s1) = Some r" by (rule less)
    then show ?thesis using True by (subst poll_ws_client.simps) (cases found, auto simp: f)
  qed
qed

section \<open>Which handler, and what it does\<close>

definition path_of :: "string \<Rightarrow> string" where
  "path_of uri = takeWhile (\<lambda>c. c \<noteq> CHR ''?'') uri"

definition commanding :: "web_handler \<Rightarrow> bool" where
  "commanding h \<longleftrightarrow> h \<in> {WsHandler, FileLoadHandler, ResetHandler, TapeHandler, ModelHandler}"

text \<open>At most one command is added to the queue, at its end, and it is one the emulator acts on.\<close>

definition one_command :: "web_queue \<Rightarrow> web_queue \<Rightarrow> bool" where
  "one_command q q' \<longleftrightarrow> q' = q \<or> (\<exists>c. q' = q @ [c] \<and> cmd_type c \<noteq> NoCommand)"

lemma one_command_intros [simp]:
  "one_command q q" "cmd_type c \<noteq> NoCommand \<Longrightarrow> one_command q (queue_push q c)"
  by (auto simp: one_command_def queue_push_def)

lemma ws_one: "ws_handler is_get recv1 recv2 ty payload q = (ok, q') \<Longrightarrow> one_command q q'"
  by (auto simp: ws_handler_def key_command_def web_command_new_def Let_def split: if_splits)

lemma load_one: "file_load_handler has_query kv q = (resp, q') \<Longrightarrow> one_command q q'"
  by (auto simp: file_load_handler_def web_command_new_def split: if_splits option.splits)

lemma tape_one: "tape_handler has_query kv tp q = (resp, q') \<Longrightarrow> one_command q q'"
  by (auto simp: tape_handler_def Let_def split: if_splits option.splits)

lemma model_one:
  assumes "model_handler has_query kv ro_ok get_ok rw_ok set_ok commit_ok store q = (resp, store', q')"
  shows "one_command q q' \<and> (store' = store \<or> (\<exists>m \<in> {''48k'', ''128k''}. store' = store((''spectrum_config'', ''model'') \<mapsto> m)
    \<and> q' = q @ [web_command_new\<lparr>cmd_type := ChangeModel, arg1 := m\<rparr>]))"
  using assms by (auto simp: model_handler_def one_command_def queue_push_def web_command_new_def split: if_splits option.splits)

lemma run_handler_effect:
  assumes "run_handler e uri h (store, q) = (reply, store', q')"
  shows "one_command q q'" "store' = store \<or> (\<exists>m \<in> {''48k'', ''128k''}. store' = store((''spectrum_config'', ''model'') \<mapsto> m)
      \<and> q' = q @ [web_command_new\<lparr>cmd_type := ChangeModel, arg1 := m\<rparr>])"
    "\<not> commanding h \<Longrightarrow> q' = q" "store' \<noteq> store \<Longrightarrow> h = ModelHandler"
    "reply = FileReply f \<Longrightarrow> h = FileGetHandler \<and> f = file_get_handler (e_file_at e) (e_fopen e) (e_read e) (e_chunk e) uri"
    "reply \<noteq> NotRouted"
proof -
  note d = assms [symmetric]
  show "one_command q q'"
    using d by (cases h) (auto simp: reset_handler_def web_command_new_def Let_def commanding_def
      split: prod.splits option.splits dest: ws_one load_one tape_one model_one)
  show "store' = store \<or> (\<exists>m \<in> {''48k'', ''128k''}. store' = store((''spectrum_config'', ''model'') \<mapsto> m)
      \<and> q' = q @ [web_command_new\<lparr>cmd_type := ChangeModel, arg1 := m\<rparr>])"
    using d by (cases h) (auto simp: Let_def split: prod.splits dest: model_one)
  show "\<not> commanding h \<Longrightarrow> q' = q" using d by (cases h) (auto simp: commanding_def)
  show "store' \<noteq> store \<Longrightarrow> h = ModelHandler" using d by (cases h) (auto simp: Let_def split: prod.splits)
  show "reply = FileReply f \<Longrightarrow> h = FileGetHandler \<and> f = file_get_handler (e_file_at e) (e_fopen e) (e_read e) (e_chunk e) uri"
    using d by (cases h) (auto simp: Let_def split: prod.splits)
  show "reply \<noteq> NotRouted" using d by (cases h) (auto simp: Let_def split: prod.splits)
qed

lemma path_root: "prefix ''/'' (path_of uri) \<longleftrightarrow> take 1 uri = ''/''"
  by (cases uri) (auto simp: path_of_def)

lemma subseq_set: "subseq xs ys \<Longrightarrow> x \<in> set xs \<Longrightarrow> x \<in> set ys"
  by (metis subseq_singleton_left subseq_order.trans)

text \<open>What the documented matcher says of a template without and with a star at its end.\<close>

lemma match_template:
  assumes "wildcard_matcher match"
  shows "CHR ''*'' \<notin> set t \<Longrightarrow> CHR ''?'' \<notin> set t \<Longrightarrow> match t uri \<longleftrightarrow> path_of uri = t"
    and "match ''/*'' uri \<longleftrightarrow> take 1 uri = ''/''"
proof -
  show "CHR ''*'' \<notin> set t \<Longrightarrow> CHR ''?'' \<notin> set t \<Longrightarrow> match t uri \<longleftrightarrow> path_of uri = t"
    using assms by (simp add: wildcard_matcher_def path_of_def)
  have "match (''/'' @ ''*'') uri \<longleftrightarrow> prefix ''/'' (path_of uri)"
    using assms unfolding wildcard_matcher_def path_of_def by (simp del: append.simps)
  then show "match ''/*'' uri \<longleftrightarrow> take 1 uri = ''/''" unfolding path_root by simp
qed

text \<open>The five addresses that lead to a handler with commands, whatever has been registered.\<close>

lemma commanding_routes:
  assumes "wildcard_matcher match" "subseq (routes s) uris" "route match s meth uri = Some h"
  shows "commanding h \<Longrightarrow> path_of uri \<in> {''/ws'', ''/api/load'', ''/api/reset'', ''/api/tape'', ''/api/model''}"
    and "h = ModelHandler \<Longrightarrow> path_of uri = ''/api/model''" "take 1 uri = ''/''" "meth = HTTP_GET"
proof -
  obtain t where t: "(t, meth, h) \<in> set (routes s)" "match t uri"
    using assms(3) by (auto simp: route_def find_Some_iff) (metis nth_mem)
  then have u: "(t, meth, h) \<in> set uris" using assms(2) by (metis subseq_set)
  note m = match_template [OF assms(1)]
  show "meth = HTTP_GET" using u by (auto simp: uris_def)
  show "commanding h \<Longrightarrow> path_of uri \<in> {''/ws'', ''/api/load'', ''/api/reset'', ''/api/tape'', ''/api/model''}"
    using u t(2) by (auto simp: uris_def commanding_def m)
  show "h = ModelHandler \<Longrightarrow> path_of uri = ''/api/model''" using u t(2) by (auto simp: uris_def m)
  show "take 1 uri = ''/''"
    using u t(2) unfolding path_root [symmetric] by (auto simp: uris_def m) (simp_all add: path_root)
qed

text \<open>With the whole table registered, the nine addresses come first and then everything below the root.\<close>

lemma route_uris:
  assumes "wildcard_matcher match" "routes s = uris"
  shows "route match s HTTP_GET uri =
    (case map_of (map (\<lambda>(t, m, h). (t, h)) (butlast uris)) (path_of uri) of
       Some h \<Rightarrow> Some h
     | None \<Rightarrow> if take 1 uri = ''/'' then Some FileGetHandler else None)"
  unfolding route_def assms(2) uris_def using match_template [OF assms(1)] by simp

lemma not_get_unrouted:
  assumes "subseq (routes s) uris" "meth \<noteq> HTTP_GET"
  shows "route match s meth uri = None"
proof -
  have "m = HTTP_GET" if "(t, m, h) \<in> set (routes s)" for t m h
  proof -
    have "(t, m, h) \<in> set uris" using that assms(1) by (metis subseq_set)
    then show ?thesis by (auto simp: uris_def)
  qed
  then show ?thesis using assms(2) by (fastforce simp: route_def find_None_iff)
qed

text \<open>C24 (requests_served): In every state of the web server that starts, stops, keep-alive turns and
queries lead to: a request is answered by a handler only if it is a GET and its address starts
with a slash, and then it is, if the server runs and no registration of a handler ever failed. It
queues at most one command, at the end and only at five of the addresses; the storage changes only
at /api/model, at the key of the model, to 48k or 128k and together with the command. A file that
is sent lies below the web root, with no .. and no query in its path, and what is sent is the
start of that file, all of it if the connection and every read of the file succeed.\<close>

theorem requests_served:
  assumes "wildcard_matcher match" "srv_reach d web_server_new s"
    and "serve match e s meth uri (store, q) = (reply, store', q')"
  shows "(reply \<noteq> NotRouted \<longrightarrow> meth = HTTP_GET \<and> take 1 uri = ''/'')
    \<and> ((\<forall>t. register_ok d t) \<and> webserver_is_running s \<and> meth = HTTP_GET \<and> take 1 uri = ''/'' \<longrightarrow> reply \<noteq> NotRouted)
    \<and> one_command q q'
    \<and> (q' \<noteq> q \<longrightarrow> path_of uri \<in> {''/ws'', ''/api/load'', ''/api/reset'', ''/api/tape'', ''/api/model''})
    \<and> (store' \<noteq> store \<longrightarrow> path_of uri = ''/api/model'' \<and> (\<exists>m \<in> {''48k'', ''128k''}.
         store' = store((''spectrum_config'', ''model'') \<mapsto> m)
         \<and> q' = q @ [web_command_new\<lparr>cmd_type := ChangeModel, arg1 := m\<rparr>]))
    \<and> (\<forall>path mime cache chunks ok. reply = FileReply (SentFile path mime cache chunks ok) \<longrightarrow>
         prefix (WWW_ROOT @ ''/'') path \<and> \<not> sublist ''..'' path \<and> CHR ''?'' \<notin> set path
         \<and> (\<exists>bytes. e_file_at e path = Some bytes \<and> prefix (concat chunks) bytes
              \<and> (ok \<and> (\<forall>k. 4096 \<le> e_read e k) \<longrightarrow> concat chunks = bytes)))"
proof -
  have i: "srv_inv d s" by (rule srv_reach_inv [OF assms(2) new_server_inv])
  then have sub: "subseq (routes s) uris" by (simp add: srv_inv_def)
  show ?thesis
  proof (cases "route match s meth uri")
    case None
    have "\<not> ((\<forall>t. register_ok d t) \<and> webserver_is_running s \<and> meth = HTTP_GET \<and> take 1 uri = ''/'')"
    proof
      assume a: "(\<forall>t. register_ok d t) \<and> webserver_is_running s \<and> meth = HTTP_GET \<and> take 1 uri = ''/''"
      then have "routes s = uris" using i by (simp add: srv_inv_def webserver_is_running_def)
      then show False using route_uris [OF assms(1), of s uri] None a by (simp split: option.splits)
    qed
    then show ?thesis using assms(3) None by (simp add: serve_def)
  next
    case (Some h)
    then have run: "run_handler e uri h (store, q) = (reply, store', q')" using assms(3) by (simp add: serve_def)
    note r = run_handler_effect [OF run] and c = commanding_routes [OF assms(1) sub Some]
    have f: "prefix (WWW_ROOT @ ''/'') path \<and> \<not> sublist ''..'' path \<and> CHR ''?'' \<notin> set path
         \<and> (\<exists>bytes. e_file_at e path = Some bytes \<and> prefix (concat chunks) bytes
              \<and> (ok \<and> (\<forall>k. 4096 \<le> e_read e k) \<longrightarrow> concat chunks = bytes))"
      if "reply = FileReply (SentFile path mime cache chunks ok)" for path mime cache chunks ok
    proof -
      have "file_get_handler (e_file_at e) (e_fopen e) (e_read e) (e_chunk e) uri = SentFile path mime cache chunks ok"
        using r(5) [OF that] by simp
      from files_stay_inside [OF this c(3)] show ?thesis .
    qed
    show ?thesis using r(1-4) r(6) c f by blast
  qed
qed

text \<open>The documented matcher as a program, and a request for a file and one for a reset.\<close>

definition sample_match :: "string \<Rightarrow> string \<Rightarrow> bool" where
  "sample_match t uri =
     (if t \<noteq> [] \<and> List.last t = CHR ''*'' then take (length t - 1) (path_of uri) = butlast t else path_of uri = t)"

lemma sample_match_ok: "wildcard_matcher sample_match"
proof -
  have "take (length t) u = t \<longleftrightarrow> prefix t u" for t u :: string
    by (metis take_is_prefix append_eq_conv_conj prefix_def)
  moreover have "\<not> (t \<noteq> [] \<and> List.last t = CHR ''*'')" if "CHR ''*'' \<notin> set t" for t :: string using that last_in_set [of t] by force
  ultimately show ?thesis unfolding wildcard_matcher_def sample_match_def path_of_def by auto
qed

definition sample_env :: web_env where
  "sample_env =
     \<lparr>e_has_query = True, e_kv = (\<lambda>k n. if k = ''model'' then Some ''128k'' else None), e_frame = None, e_tape = None,
      e_ro = True, e_get = True, e_rw = True, e_set = True, e_commit = True,
      e_file_at = (\<lambda>p. if p = ''/spiffs/www/app.js'' then Some [1, 2, 3] else None), e_fopen = (\<lambda>_. True),
      e_read = (\<lambda>_. 4096), e_chunk = (\<lambda>_. True), e_dir = (\<lambda>_. None)\<rparr>"

theorem requests_served_witness:
  "\<exists>path mime cache chunks ok q' store'.
     serve sample_match sample_env (snd (webserver_start sample_httpd 7 web_server_new)) HTTP_GET ''/app.js?v=2'' (Map.empty, [])
       = (FileReply (SentFile path mime cache chunks ok), Map.empty, []) \<and> prefix ''/spiffs/www/'' path
     \<and> serve sample_match sample_env (snd (webserver_start sample_httpd 7 web_server_new)) HTTP_GET ''/api/model?model=128k''
         (Map.empty, []) = (ApiReply (SentModel ''128k''), store', q')
     \<and> store' (''spectrum_config'', ''model'') = Some ''128k'' \<and> length q' = 1"
proof -
  let ?s = "snd (webserver_start sample_httpd 7 web_server_new)"
  have st: "srv_reach sample_httpd web_server_new ?s" by (rule srv_more [OF srv_here start])
  have "s_server ?s"
    using register_all [of uris sample_httpd] by (simp add: webserver_start_def web_server_new_def sample_httpd_def Let_def register_fields uris_def)
  then have rts: "routes ?s = uris"
    using srv_reach_inv [OF st new_server_inv] by (simp add: srv_inv_def) (simp add: sample_httpd_def)
  have p: "path_of ''/app.js?v=2'' = ''/app.js''" "path_of ''/api/model?model=128k'' = ''/api/model''" by code_simp+
  note rt = route_uris [OF sample_match_ok rts]
  have h: "route sample_match ?s HTTP_GET ''/app.js?v=2'' = Some FileGetHandler"
    "route sample_match ?s HTTP_GET ''/api/model?model=128k'' = Some ModelHandler"
    unfolding rt p by (simp_all add: uris_def)
  have f: "file_get_handler (e_file_at sample_env) (e_fopen sample_env) (e_read sample_env) (e_chunk sample_env) ''/app.js?v=2''
      = SentFile ''/spiffs/www/app.js'' (mime_for ''/spiffs/www/app.js'') (cache_control ''/spiffs/www/app.js'') [[1, 2, 3]] True"
  proof -
    have "strstr ''/app.js?v=2'' ''..'' = None" "file_path ''/app.js?v=2'' = ''/spiffs/www/app.js''" by code_simp+
    moreover have "send_chunks (\<lambda>_. 4096) (\<lambda>_. True) 0 [1, 2, 3 :: u8] = ([[1, 2, 3]], True)"
      by (subst send_chunks.simps, simp, subst send_chunks.simps, simp)
    ultimately show ?thesis by (simp add: file_get_handler_def sample_env_def Let_def)
  qed
  have a: "serve sample_match sample_env ?s HTTP_GET ''/app.js?v=2'' (Map.empty, []) = (FileReply (SentFile ''/spiffs/www/app.js''
      (mime_for ''/spiffs/www/app.js'') (cache_control ''/spiffs/www/app.js'') [[1, 2, 3]] True), Map.empty, [])"
    by (simp add: serve_def h(1) f)
  have b: "serve sample_match sample_env ?s HTTP_GET ''/api/model?model=128k'' (Map.empty, []) = (ApiReply (SentModel ''128k''),
      [(''spectrum_config'', ''model'') \<mapsto> ''128k''], [web_command_new\<lparr>cmd_type := ChangeModel, arg1 := ''128k''\<rparr>])"
    by (simp add: serve_def h(2) sample_env_def model_handler_def queue_push_def)
  have "prefix (WWW_ROOT @ ''/'') ''/spiffs/www/app.js''" using requests_served [OF sample_match_ok st a] by blast
  then show ?thesis using a b by (intro exI conjI) (assumption, simp add: WWW_ROOT_def, assumption, simp, simp)
qed

end
