(* ===== verification/Boot.thy ===== *)
theory Boot
  imports System_Props Wifi_Boot Web_Server
begin

text \<open>
  The boot as a whole: \<open>app_main\<close> of \<open>src/src/main.cpp\<close> from the wait for Wi-Fi to the start of the emulator
  task, composed of the models of its parts.

  \<^item> The loop that waits for a browser is looked at for n turns, each 100 ms long.
  \<^item> Left out are the steps that touch none of the modelled state: mounting the file system, the sound and
    display set-up (theories \<open>Audio\<close> and \<open>Display_Init\<close>), the boot tone, and the status lines on the screen.
\<close>

section \<open>The steps\<close>

definition input_init :: "mach \<Rightarrow> mach" where
  "input_init m = set_input (input_resetKeyboardRows (mach_input m)) m"

primrec wait_browser :: "httpd \<Rightarrow> nat \<Rightarrow> web_server \<Rightarrow> bool \<times> web_server" where
  "wait_browser d 0 s = (False, s)"
| "wait_browser d (Suc n) s =
     (let (connected, s) = webserver_is_ws_client_connected d s
      in if connected then (True, s) else wait_browser d n (srv_issue (WaitMs 100) s))"

text \<open>Where the boot is: stopped by \<open>ESP_ERROR_CHECK\<close>, halted without Wi-Fi, still waiting, aborted, or done.\<close>

datatype boot_end = Panicked | NoWifi | AwaitingAddress | RomAbort | AwaitingBrowser | Emulating mach

text \<open>Steps 10 to 15: with the machine there.\<close>

definition boot_services :: "httpd \<Rightarrow> nat \<Rightarrow> nat \<Rightarrow> mach \<Rightarrow> boot_end \<times> web_server" where
  "boot_services d n address m =
     (let v = snd (webserver_ensure_started d address web_server_new);
          m = input_init m
      in if webserver_is_running v
         then let (connected, v) = wait_browser d n v in (if connected then Emulating m else AwaitingBrowser, v)
         else (Emulating m, v))"

definition app_main ::
  "idf \<Rightarrow> httpd \<Rightarrow> host \<Rightarrow> (ptr \<Rightarrow> u8) \<Rightarrow> input \<Rightarrow> bool \<Rightarrow> bool \<Rightarrow> nvs_store \<Rightarrow> wifi_nvs \<Rightarrow> bool \<Rightarrow> wifi_step list list \<Rightarrow> nat \<Rightarrow> nat
     \<Rightarrow> boot_end \<times> wifi \<times> web_server" where
  "app_main e d h mem i ro_ok get_ok store nvs screen_on batches n address =
     (let (r, w) = run_state (boot_wifi e screen_on batches) (wifi_boot nvs)
      in if aborted w then (Panicked, w, web_server_new)
         else case r of
                InitFailed \<Rightarrow> (NoWifi, w, web_server_new)
              | StillWaiting _ \<Rightarrow> (AwaitingAddress, w, web_server_new)
              | Connected \<Rightarrow>
                  (case boot_machine h mem i ro_ok get_ok store of
                     None \<Rightarrow> (RomAbort, w, web_server_new)
                   | Some m \<Rightarrow> let (end, v) = boot_services d n address m in (end, w, v)))"

section \<open>Browsers\<close>

text \<open>A WebSocket client is there for a query made after the calls t.\<close>

definition browser_there :: "httpd \<Rightarrow> srv_call list \<Rightarrow> bool" where
  "browser_there d t \<longleftrightarrow> (\<exists>fds. client_list d t = Some fds \<and> list_ex (is_websocket d (GetClientList # t)) fds)"

lemma find_browser: "fst (find_ws_client d s) = browser_there d (srv_log s)"
  by (simp add: find_ws_client_def browser_there_def Let_def split: option.split)

lemma find_log: "snd (find_ws_client d s) = srv_issue GetClientList s"
  by (simp add: find_ws_client_def Let_def)

text \<open>The wait ends with a browser only, and it does once one is there for good.\<close>

lemma wait_browser_sound:
  "wait_browser d n s = (True, s') \<Longrightarrow> \<exists>t. srv_log s' = GetClientList # t \<and> browser_there d t"
proof (induction n arbitrary: s)
  case (Suc n)
  show ?case
  proof (cases "fst (webserver_is_ws_client_connected d s)")
    case True
    then have "s_server s" "browser_there d (srv_log s)" by (auto simp: webserver_is_ws_client_connected_def find_browser split: if_splits)
    moreover have "s' = srv_issue GetClientList s"
      using Suc.prems True \<open>s_server s\<close> by (simp add: case_prod_beta Let_def webserver_is_ws_client_connected_def find_log)
    ultimately show ?thesis by simp
  qed (use Suc in \<open>simp add: case_prod_beta Let_def\<close>)
qed simp

lemma wait_browser_complete:
  assumes "s_server s" "\<forall>t. T \<le> length t \<longrightarrow> browser_there d t" "0 < n" "T < length (srv_log s) + n"
  shows "fst (wait_browser d n s)"
  using assms(1,3,4)
proof (induction n arbitrary: s)
  case (Suc n)
  have c: "webserver_is_ws_client_connected d s = (browser_there d (srv_log s), srv_issue GetClientList s)"
    using Suc.prems(1) by (simp add: webserver_is_ws_client_connected_def prod_eq_iff find_browser find_log)
  show ?case
  proof (cases "browser_there d (srv_log s)")
    case True
    then show ?thesis by (simp add: c)
  next
    case False
    then have "length (srv_log s) < T" using assms(2) not_le by blast
    then have "0 < n" using Suc.prems(3) by linarith
    then show ?thesis using False Suc.IH [of "srv_issue (WaitMs 100) (srv_issue GetClientList s)"] Suc.prems(1,3) by (simp add: c)
  qed
qed simp

section \<open>The whole boot\<close>

lemma boot_model:
  assumes "roms_there h"
  obtains m where "boot_machine h mem i ro_ok get_ok store = Some m" "is128k m = (ro_ok \<and> get_ok \<and> store (''spectrum_config'', ''model'') = Some ''128k'')" "mach_inv m"
proof -
  let ?b = "ro_ok \<and> get_ok \<and> store (''spectrum_config'', ''model'') = Some ''128k''"
  have f: "h_files h (if ?b then ''/spiffs/128k.rom'' else ''/spiffs/48k.rom'') \<noteq> None"
    using assms by (auto simp: roms_there_def)
  have "\<exists>m. boot_machine h mem i ro_ok get_ok store = Some m \<and> is128k m = ?b"
    using f loads [OF assms, of ?b mem i] by (auto simp: boot_machine_def getStoredModelPreference_def case_prod_beta Let_def)
  moreover have "host_ok h" using assms by (simp add: roms_there_def)
  ultimately show thesis using boot_machine_ok that by blast
qed

lemma input_init_keeps: "mach_inv m \<Longrightarrow> mach_inv (input_init m)"
  unfolding input_init_def by (rule set_input_ok) (simp_all add: input_ok_def input_resetKeyboardRows_def)

lemma is128k_set_input [simp]: "is128k (set_input i m) = is128k m"
  by (cases m) simp_all

lemma services_sound:
  assumes "boot_services d n address m = (Emulating m', v)"
  shows "m' = input_init m" "webserver_is_running v \<Longrightarrow> \<exists>t. srv_log v = GetClientList # t \<and> browser_there d t"
proof -
  let ?v = "snd (webserver_ensure_started d address web_server_new)"
  have "m' = input_init m \<and> (webserver_is_running ?v \<and> wait_browser d n ?v = (True, v) \<or> \<not> webserver_is_running v)"
    using assms by (auto simp: boot_services_def Let_def split: if_splits prod.splits)
  then show "m' = input_init m" "webserver_is_running v \<Longrightarrow> \<exists>t. srv_log v = GetClientList # t \<and> browser_there d t"
    using wait_browser_sound by blast+
qed

lemma services_complete:
  assumes "(\<forall>t. \<not> start_ok d t) \<or> (\<forall>t. T \<le> length t \<longrightarrow> browser_there d t) \<and> T < n"
  shows "\<exists>v. boot_services d n address m = (Emulating (input_init m), v)"
proof -
  let ?v = "snd (webserver_ensure_started d address web_server_new)"
  have "\<not> webserver_is_running ?v" if "\<forall>t. \<not> start_ok d t"
    using that by (simp add: webserver_ensure_started_def webserver_is_running_def webserver_start_def web_server_new_def Let_def)
  moreover have "fst (wait_browser d n ?v)" if "webserver_is_running ?v" "\<forall>t. T \<le> length t \<longrightarrow> browser_there d t" "T < n"
    using that by (intro wait_browser_complete [of ?v T]) (auto simp: webserver_is_running_def)
  ultimately show ?thesis using assms by (auto simp: boot_services_def Let_def case_prod_beta)
qed

text \<open>The two ends before any machine exists come from the Wi-Fi module.\<close>

lemma services_end: "boot_services d n address m = (end, v) \<Longrightarrow> end \<noteq> Panicked \<and> end \<noteq> NoWifi"
  by (auto simp: boot_services_def Let_def split: if_splits prod.splits)

lemma wifi_ends:
  assumes "app_main e d h mem i ro_ok get_ok store nvs on batches n address = (end, w, v)"
    and "run_state (boot_wifi e on batches) (wifi_boot nvs) = (r, w')" "\<not> aborted w'" "r \<noteq> InitFailed"
  shows "end \<noteq> Panicked \<and> end \<noteq> NoWifi"
  using assms services_end by (auto simp: app_main_def Let_def split: boot_wifi_result.splits option.splits prod.splits)


text \<open>C15 (boot_reaches_emulation): With both ROM files present and the semaphore of the Wi-Fi module
created, the boot starts the emulator task only after an address event, on a machine of the model
read from storage that satisfies its invariant and keeps it in every run of the tasks in which no
instruction takes more than 65311 T-states, and, where the web server runs, after a browser was
seen on the WebSocket. Unless the program aborts or the Wi-Fi module fails to start, it does start
it, once an address has come in one of the half seconds of the wait and a browser stays connected
or the web server could not start.\<close>

theorem boot_reaches_emulation:
  assumes "roms_there h" "\<forall>t. esp e t SemaphoreCreate = ESP_OK"
    and "app_main e d h mem i ro_ok get_ok store nvs on batches n address = (end, w, v)"
  shows "(\<forall>m. end = Emulating m \<longrightarrow>
        mach_inv m \<and> is128k m = (ro_ok \<and> get_ok \<and> store (''spectrum_config'', ''model'') = Some ''128k'')
        \<and> (\<exists>steps \<in> set batches. \<exists>x \<in> set steps. gives_address x)
        \<and> (webserver_is_running v \<longrightarrow> (\<exists>t. srv_log v = GetClientList # t \<and> browser_there d t))
        \<and> (\<forall>disp es s. sys_run (sys_start m disp) es s \<longrightarrow> (\<forall>t. Instr t \<in> set es \<longrightarrow> t \<le> 65311)
              \<longrightarrow> mach_inv (machine_ptr (em s))))
    \<and> (end \<noteq> Panicked \<longrightarrow> end \<noteq> NoWifi
        \<longrightarrow> (\<exists>steps \<in> set batches. \<exists>x \<in> set steps. gives_address x)
        \<longrightarrow> (\<forall>t. \<not> start_ok d t) \<or> (\<forall>t. T \<le> length t \<longrightarrow> browser_there d t) \<and> T < n
        \<longrightarrow> (\<exists>m. end = Emulating m))"
proof -
  obtain r w' where r: "run_state (boot_wifi e on batches) (wifi_boot nvs) = (r, w')" by fastforce
  obtain m where m: "boot_machine h mem i ro_ok get_ok store = Some m" "mach_inv m"
    "is128k m = (ro_ok \<and> get_ok \<and> store (''spectrum_config'', ''model'') = Some ''128k'')"
    by (rule boot_model [OF assms(1)])
  note a' = assms(3) [unfolded app_main_def r m(1) Let_def, simplified]
  show ?thesis
  proof (intro conjI allI impI)
    fix m' assume e: "end = Emulating m'"
    have c: "r = Connected" and s: "boot_services d n address m = (Emulating m', v)"
      using a' e by (auto split: if_splits boot_wifi_result.splits prod.splits)
    note s' = services_sound [OF s]
    have i: "mach_inv m'" unfolding s'(1) by (rule input_init_keeps [OF m(2)])
    then show "mach_inv m'" .
    show "is128k m' = (ro_ok \<and> get_ok \<and> store (''spectrum_config'', ''model'') = Some ''128k'')"
      using m(3) by (simp add: s'(1) input_init_def)
    show "\<exists>steps \<in> set batches. \<exists>x \<in> set steps. gives_address x"
      using boot_without_address [of batches e on nvs] c by (auto simp: wp_run [OF r])
    show "\<exists>t. srv_log v = GetClientList # t \<and> browser_there d t" if "webserver_is_running v" by (rule s'(2) [OF that])
    fix disp es s assume "sys_run (sys_start m' disp) es s" "\<forall>t. Instr t \<in> set es \<longrightarrow> t \<le> 65311"
    moreover have "sys_inv (sys_start m' disp)" using i by (simp add: sys_inv_def sys_start_def)
    ultimately have "sys_inv s" using run_inv by blast
    then show "mach_inv (machine_ptr (em s))" by (simp add: sys_inv_def)
  next
    assume ok: "end \<noteq> Panicked" "end \<noteq> NoWifi" and x: "\<exists>steps \<in> set batches. \<exists>x \<in> set steps. gives_address x"
      and srv: "(\<forall>t. \<not> start_ok d t) \<or> (\<forall>t. T \<le> length t \<longrightarrow> browser_there d t) \<and> T < n"
    have "aborted w' \<or> r = InitFailed \<or> r = Connected"
      using boot_with_address [OF assms(2) x, of on "wifi_boot nvs"] unfolding wp_run [OF r] .
    moreover have "\<not> aborted w'" "r \<noteq> InitFailed" using ok a' by (auto split: if_splits)
    ultimately have "r = Connected" "\<not> aborted w'" by auto
    then show "\<exists>m. end = Emulating m" using a' services_complete [OF srv, of address m] by auto
  qed
qed

definition sample_store :: nvs_store where
  "sample_store = [(''spectrum_config'', ''model'') \<mapsto> ''128k'']"

theorem boot_reaches_emulation_witness:
  "\<exists>m w v. app_main busy_idf sample_httpd sample_host2 (\<lambda>_. 0) input_new True True sample_store sample_nvs True
       sample_batches 1 7 = (Emulating m, w, v) \<and> mach_inv m \<and> is128k m"
proof -
  let ?a = "app_main busy_idf sample_httpd sample_host2 (\<lambda>_. 0) input_new True True sample_store sample_nvs True sample_batches 1 7"
  obtain ending w v where a: "?a = (ending, w, v)" by (rule prod_cases3)
  have h: "roms_there sample_host2" by (rule sample_roms)
  have f: "\<forall>t. esp busy_idf t SemaphoreCreate = ESP_OK" by (simp add: busy_idf_def)
  note boot = boot_reaches_emulation [OF h f a]
  have n: "ending \<noteq> Panicked" "ending \<noteq> NoWifi"
    using wifi_ends [OF a prod.collapse [symmetric] sample_wifi_boot(2,1)] by blast+
  have l: "\<exists>steps \<in> set sample_batches. \<exists>x \<in> set steps. gives_address x" by (simp add: sample_batches_def)
  have s: "(\<forall>t. \<not> start_ok sample_httpd t) \<or> (\<forall>t. 0 \<le> length t \<longrightarrow> browser_there sample_httpd t) \<and> 0 < (1 :: nat)"
    by (simp add: sample_httpd_def browser_there_def)
  obtain m where m: "ending = Emulating m" using boot n l s by blast
  have "mach_inv m \<and> is128k m" using boot m by (simp add: sample_store_def)
  then show ?thesis using a unfolding m by blast
qed

end
