(* ===== verification/Spec2Isabelle.thy ===== *)
theory Spec2Isabelle
  imports Z80_Control Z80_Arith Tape_Stall Machine_Screen Snapshot_Format System_Props Audio_Props Web_Files Wifi_Boot Display_Init Boot
begin

text \<open>
  A verification development for specK10trum, a ZX Spectrum emulator for an ESP32 board.  It models the
  program's own code under \<open>src/src\<close> and proves what makes it correct.  Third-party code is a parameter.

  \<^bold>\<open>The program.\<close>  A Z80 core (\<open>z80/z80.c\<close>) runs inside a machine object, \<open>Spectrum48K\<close> or
  \<open>Spectrum128K\<close>, both subclasses of \<open>SpectrumBase\<close> (\<open>spectrum/\<close>).  The core reaches memory through
  four page pointers and reaches the machine through two port callbacks.  The machine owns the ULA (frame
  clock, border events, port \<open>0xFE\<close>, floating bus), a beeper, on the 128K an AY sound chip, and a tape
  player.  Three tasks use it (\<open>main.cpp\<close>): the web server (\<open>webserver/\<close>) turns HTTP and WebSocket
  requests into commands on a queue; the emulator task drains the queue, runs instructions until a frame
  of 69888 T-states is over and hands over picture and sound; the video task renders memory and border
  events and pushes the picture to the panel (\<open>display/\<close>).  Sound goes through a mixer (\<open>audio/\<close>).  The
  board's expander (\<open>expander/\<close>), the buttons (\<open>input/\<close>), the frame counters (\<open>instrumentation/\<close>) and
  Wi-Fi with its provisioning (\<open>wifi_prov/\<close>) complete it.

  \<^bold>\<open>Conventions.\<close>
  \<^item> A C struct or class is a \<open>record\<close>, an enumeration a \<open>datatype\<close>, an integer of width w a \<open>w word\<close>.  A
    C \<open>int\<close> that holds an intermediate result is an \<open>int\<close>, and is cut back where the code stores it.
    \<open>float\<close> and \<open>double\<close> are rationals that are rounded after each operation (theory IEEE).
  \<^item> State is passed explicitly.  Host memory is a heap of bytes addressed by allocation and offset, so two
    page pointers may alias, as they do on the 128K when a bank is paged in twice.
  \<^item> A machine is a CPU record whose \<open>ctx\<close> field is the C++ object; the 48K and 128K classes extend the
    record of \<open>SpectrumBase\<close>, and the virtual functions are a record of operations.
  \<^item> \<open>None\<close> as the result of a step means that the C code does not return.  It is never an error value:
    errors are \<open>bool\<close>, \<open>option\<close> in a result position the code tests, or an enumeration as in the source.
  \<^item> What a driver answers is a parameter (a record of functions or an oracle indexed by the call), and so
    are the file system and the allocator.  The non-volatile storage of the model's choice is a map from name
    space and key to strings, with a flag for the success of each call on it.
  \<^item> Where C++ would leave the bounds of the beeper's frame buffer, the model sets the field \<open>stray\<close>.

  \<^bold>\<open>Theories and sources.\<close>  File names are below \<open>src/src\<close>.
  \<^item> \<open>Prelude\<close>: C integer types, pointers, the collections \<open>frame\<close> and \<open>flag_defs\<close>, facts on words and bits.
  \<^item> \<open>z80/z80.h\<close>, \<open>z80/z80.c\<close>.  Models: \<open>Z80_State\<close> (registers and access macros), \<open>Z80_ALU\<close>,
    \<open>Z80_CB\<close>, \<open>Z80_ED\<close>, \<open>Z80_Main\<close> (unprefixed opcodes), \<open>Z80_Index\<close> (DD and FD), \<open>Z80_Step\<close> (the
    entry points).  Properties: \<open>Z80_Frame\<close> (what an instruction can do to the host), \<open>Memory_Contract\<close>
    and \<open>Z80_Memory\<close> (the memory contract), \<open>Z80_Prefix\<close> (termination and prefix chains), \<open>Z80_Block\<close>
    (LDIR and CPIR as whole runs), \<open>Z80_Timing\<close>, \<open>Z80_Control\<close> (stack, interrupts, HALT),
    \<open>Z80_Arith\<close> with \<open>Z80_DAA\<close>; \<open>Z80_Sample\<close> is the CPU of the witnesses.
  \<^item> \<open>spectrum/Beeper\<close>: \<open>Beeper\<close>, on the rounding of \<open>IEEE\<close>.  \<open>spectrum/PSG\<close>: \<open>PSG\<close>.
  \<^item> \<open>spectrum/Tape\<close>: \<open>Tape_State\<close> (data, transport), \<open>Tape_Parse\<close> (TAP and TZX images),
    \<open>Tape_Player\<close> (pulse generator), \<open>Tape_Load\<close> (load trap, instant load, \<open>SpectrumBase::step\<close>).
    Properties: \<open>Tape_Wave\<close> (the waveform), \<open>Tape_Stall\<close> (fast-forward in a pause).
  \<^item> \<open>spectrum/SpectrumBase*\<close>: \<open>Spectrum\<close>; \<open>Spectrum48K\<close>: \<open>Spectrum48\<close>; \<open>Spectrum128K\<close>:
    \<open>Spectrum128\<close>.  Invariants: \<open>Spectrum_Inv\<close>, \<open>Spectrum48_Inv\<close>, \<open>Spectrum128_Inv\<close>.  Properties:
    \<open>Machine_Props\<close> (steps, paging lock), \<open>Machine_Memory\<close> (abstract paged memory), \<open>Machine_Ports\<close>.
  \<^item> \<open>spectrum/SpectrumBase_Rendering.cpp\<close>, \<open>SpectrumPalette.h\<close>: \<open>Screen\<close>; properties in
    \<open>Screen_Border\<close> and \<open>Machine_Screen\<close>.
  \<^item> \<open>spectrum/Snapshot\<close>: \<open>Snapshot_RLE\<close> (the two decoders), \<open>Snapshot\<close> (the loader), \<open>Snapshot_Inv\<close>
    (what loading keeps), \<open>Snapshot_Format\<close> (writers as the specification, and the round trips).
  \<^item> \<open>input/Input.cpp\<close>: \<open>Input\<close>.  \<open>webserver/\<close>: \<open>Web_Command\<close> (queue and commands), \<open>Web_Files\<close>
    (files and lists), \<open>Web_Server\<close> (life cycle, routing, browsers on the WebSocket).
  \<^item> \<open>main.cpp\<close>: \<open>Emulator\<close>; \<open>Emulator_Inv\<close> holds the step relation \<open>sys_step\<close> of the three tasks
    and its runs \<open>sys_run\<close>, labelled with their events;
    \<open>Emulator_Props\<close> and \<open>System_Props\<close> hold the properties that span components; \<open>Boot\<close> composes
    \<open>app_main\<close> of its parts.
  \<^item> \<open>display/Display\<close>: \<open>Display\<close> (overlays, buffers, the blocking transfer), \<open>Display_Push\<close> (the
    asynchronous transfer), \<open>Display_Init\<close> (set-up and splash).
  \<^item> \<open>audio/Audio\<close>: \<open>Audio\<close>, \<open>Audio_Props\<close>.  \<open>expander/\<close>, \<open>instrumentation/\<close>: \<open>Board\<close>.
  \<^item> \<open>wifi_prov/\<close> and the Wi-Fi wait of \<open>app_main\<close>: \<open>Wifi\<close>, a program in the state monad with a trace
    of driver calls; \<open>Wifi_Props\<close> (weakest preconditions), \<open>Wifi_Boot\<close> (the wait at boot).
\<close>

section \<open>Interfaces\<close>

text \<open>
  The interfaces between components are locales, each interpreted on the code's model.
  \<^item> \<open>paged_memory\<close> and \<open>flat_memory\<close> (\<open>Memory_Contract\<close>): read after write, ROM, aliasing.  Provider: the
    access macros (\<open>cpu_mem\<close>, \<open>cpu_flat\<close> in \<open>Z80_Memory\<close>).  Clients: stack, block moves.
  \<^item> \<open>exec_invariant\<close> and \<open>bus_invariant\<close> (\<open>Z80_Frame\<close>): what the port callbacks and byte writes keep,
    every instruction and every run keeps.  Clients: the machines, the paging lock.
  \<^item> \<open>wired_machine\<close> and \<open>spectrum_machine\<close> (\<open>Spectrum_Inv\<close>): the page pointers match the machine's
    registers, and its ports keep the invariant; a sublocale makes a \<open>spectrum_machine\<close> a \<open>bus_invariant\<close>.  Providers:
    \<open>w48\<close> and \<open>m48\<close>, \<open>w128\<close> and \<open>m128\<close>, and \<open>lock128\<close> for a machine whose paging is locked.
  \<^item> \<open>snapshot_target\<close> (\<open>Snapshot_Inv\<close>): what the loader needs of a machine (\<open>snap48\<close>, \<open>snap128\<close>).
  \<^item> \<open>radio_invariant\<close> (\<open>Wifi_Boot\<close>): a predicate that the driver calls and the flags of the Wi-Fi module
    keep is kept by all its programs (\<open>no_address_radio\<close>, \<open>stopped\<close>,
    \<open>made\<close>, \<open>given\<close> and \<open>radio_off\<close>).
\<close>

section \<open>What is shown\<close>

text \<open>
  \<^item> CPU: sums, differences, 16-bit sums and decimal adjustment with every flag, from the numbers; the
    block instructions run to their end; accepted and deferred interrupts; 4 to 25 T-states an
    instruction; a step returns unless all 64K bytes are prefixes, and a chain of prefixes acts as NOPs.
  \<^item> Machines: the invariant (page wiring, ROM intact, sound chip, beeper, border events and beam in range)
    is kept by every operation of both models and so holds in every state of the three tasks that is reached
    without an instruction of more than 65311 T-states.
    The 128K refines a paged memory without pointers on every sequence of accesses; a locked paging register stays.
  \<^item> Tasks: a pass of the emulator task is a run of the step relation; commands are handled in the order
    they were pushed; a key event reaches the port, a choice of model the next boot; a frame ends.  A
    model change that is taken while a picture is drawn deletes the machine under it: the field \<open>freed\<close> says so,
    and a run without such a command never sets it.
  \<^item> Picture: every pixel of the rendered frame, border included; a boot update leaves the splash image
    alone; on a working bus, however slow, all frames arrive on the panel strip by strip until the video is
    paused; a pause forgets the open transactions, and the frame after it can tear.
  \<^item> Files: both \<open>.z80\<close> formats are inverted by the loader, TAP images by the parser; blocks lie inside the
    image, and loading returns unless a length field that the parser reaches wraps; a tape plays the pulses its
    blocks prescribe, however the time is cut into steps.  Whatever
    is requested, at most one command is queued, and a file that is sent lies below the web root.
  \<^item> Sound: no sample outside a buffer is accessed; tone periods; the buttons as a panel of gestures.
  \<^item> Wi-Fi: what a start returns is what happened, the boot waits for an address and leaves the wait with nothing
    else, calls the fallback once and reaches the emulator task; stored credentials are applied once.
  \<^item> Failures of the code are stated as theorems too: the TZX length that hangs the parser, the
    fast-forward that stalls the tape, the pause that tears a frame, the read of a file that fails unnoticed, the volumes that read back wrong, the reconnection that never
    reaches BLE provisioning.
\<close>

section \<open>Bounds\<close>

text \<open>
  \<^item> The invariants of the machines take an instruction of at most 65311 T-states, which is 65535 less a scan line
    of 224: the ULA adds the step to its position in the line in 16 bits.  \<open>Z80_Timing\<close> gives at most 25
    for an instruction that does not start with two prefixes; only a chain of some 16000 prefixes, or
    more, goes over the bound.  The bound is a hypothesis of the theorems, not a guard of the step relation.
  \<^item> There is no fuel.  The loops of the code are structural, have a measure, or are \<open>partial_function
    (option)\<close> (prefix chains, the TZX block loop, the frame loop, the timed wait for a browser); that they
    return is proved for each (\<open>z80_step_returns_iff\<close>, \<open>load_returns\<close>, \<open>frame_runs\<close>, \<open>poll_returns\<close>).  The number given to \<open>z80_run\<close> counts
    instructions; it is not a limit the code has.
  \<^item> The loops of tasks that never end are modelled turn by turn.  The wait for Wi-Fi is a recursion over
    the list of what the other tasks do in each half second; its theorem is for every such list, with a turn of
    another task taken as a whole between two waits.
  \<^item> \<open>size_t\<close> has 32 bits, as on the target.
\<close>

section \<open>Not modelled\<close>

text \<open>
  \<^item> ESP-IDF, FreeRTOS, ESP-DSP and the SPI, I2S, I2C and GPIO drivers: parameters.  Task delays, priorities
    and critical sections are not modelled; the tasks interleave at the steps of \<open>sys_step\<close>: a command, an instruction with its ULA, the end of
    a frame, the start and the end of a picture.  The picture shows what the machine holds at its end.
  \<^item> The HTTP server of the platform (parsing, matching of addresses) and mounting the file systems: parameters.
  \<^item> Log output, and functions that only print: \<open>dumpMemory\<close>, \<open>dumpMemoryMap\<close>, \<open>logTapeTrap\<close>, the table
    of \<open>getMemoryMap\<close>, the diagnostic text of the instant load, the names of disconnection reasons.
  \<^item> The splash picture (data; a parameter), the stubs of a build without Bluetooth, the tests.
  \<^item> \<open>src/components\<close> and \<open>src/managed_components\<close>: third-party libraries the emulator does not rest on.
\<close>

end
